(* ===== verification/H2_Prelude.thy ===== *)
theory H2_Prelude
  imports Main "HOL-Library.Word" "HOL-Library.Sublist"
begin

text \<open>
  Shared types, collections and generic lemmas of the development.

  Go's fixed-width unsigned integers are words (\<open>u8\<close>, \<open>u16\<close>, \<open>u32\<close>, \<open>u64\<close>); Go's
  64-bit \<open>int\<close> is \<open>int\<close>, or \<open>nat\<close> where the code only stores lengths and loop
  counters in it.  A Go \<open>string\<close> and a \<open>[]byte\<close> are both lists of bytes; \<open>str\<close> turns a
  literal into one.  An operation that can end in a run-time panic returns an \<open>option\<close>,
  with \<open>None\<close> for the panic.
\<close>

unbundle bit_operations_syntax

type_synonym u8 = "8 word"
type_synonym u16 = "16 word"
type_synonym u32 = "32 word"
type_synonym u64 = "64 word"
type_synonym bytes = "u8 list"
type_synonym gostring = "u8 list"

definition str :: "string \<Rightarrow> gostring" where
  "str s = map of_char s"

named_theorems go_defs \<open>definitions of operations that the component proofs unfold\<close>
named_theorems size_simps \<open>equations between machine sizes and their natural-number meaning\<close>

section \<open>Words\<close>

lemma unat_of_nat32 [size_simps]: "n < 2 ^ 32 \<Longrightarrow> unat (of_nat n :: u32) = n"
  by (simp add: unat_of_nat take_bit_nat_eq_self)

lemma unat_of_nat64 [size_simps]: "n < 2 ^ 64 \<Longrightarrow> unat (of_nat n :: u64) = n"
  by (simp add: unat_of_nat take_bit_nat_eq_self)

lemma unat_of_nat8 [size_simps]: "n < 2 ^ 8 \<Longrightarrow> unat (of_nat n :: u8) = n"
  by (simp add: unat_of_nat take_bit_nat_eq_self)

lemma unat_less_32: "unat (x :: u32) < 2 ^ 32"
  using unsigned_less [of x] by simp

lemma unat_less_64: "unat (x :: u64) < 2 ^ 64"
  using unsigned_less [of x] by simp

lemma unat_less_8: "unat (x :: u8) < 2 ^ 8"
  using unsigned_less [of x] by simp

lemma unat_plus_small:
  fixes x y :: "'a::len word"
  assumes "unat x + unat y < 2 ^ LENGTH('a)"
  shows "unat (x + y) = unat x + unat y"
  using assms by (simp add: unat_word_ariths)

lemma unat_minus_small:
  fixes x y :: "'a::len word"
  assumes "unat y \<le> unat x"
  shows "unat (x - y) = unat x - unat y"
  using assms by (simp add: unat_sub word_le_nat_alt)

lemma xor_eq_0_word: "x XOR y = 0 \<longleftrightarrow> x = (y :: 'a::len word)"
  by (metis xor.assoc xor.right_neutral xor_self_eq)

section \<open>Lists\<close>

lemma sum_list_rev_nat: "sum_list (rev xs) = sum_list (xs :: nat list)"
  by (induction xs) auto

lemma member_le_sum_list_map: "x \<in> set xs \<Longrightarrow> f x \<le> (\<Sum>y\<leftarrow>xs. f y :: nat)"
  by (induction xs) auto

lemma length_mult_le_sum_list:
  "(\<And>x. x \<in> set xs \<Longrightarrow> k \<le> f x) \<Longrightarrow> k * length xs \<le> (\<Sum>x\<leftarrow>xs. f x :: nat)"
  by (induction xs) (auto simp: add_mono)

section \<open>Step relations\<close>

text \<open>
  The interface between a step relation and a property of its states: a property that every
  step keeps holds in all states reached from one that has it.
\<close>

locale step_invariant =
  fixes step :: "'s \<Rightarrow> 's \<Rightarrow> bool"
    and inv :: "'s \<Rightarrow> bool"
  assumes step_keeps: "inv s \<Longrightarrow> step s s' \<Longrightarrow> inv s'"
begin

lemma reach_keeps: "step\<^sup>*\<^sup>* s s' \<Longrightarrow> inv s \<Longrightarrow> inv s'"
  by (induction rule: rtranclp_induct) (auto intro: step_keeps)

end

end
