(* ===== verification/Hpack_Table.thy ===== *)
theory Hpack_Table
  imports H2_Prelude
begin

text \<open>
  The HPACK indexing tables of \<^verbatim>\<open>src/hpack/table.go\<close>: the size of a header field, the
  dynamic table with its eviction (\<open>setMaxSize\<close>, \<open>add\<close>), the static table, the lookup of an
  index (\<open>entry\<close>) and the search for a field (\<open>find\<close>, the two \<open>index\<close> functions and
  \<open>strcmp\<close>).

  The dynamic table keeps its oldest entry first, as the slice \<open>data\<close> does.  \<open>t.data[0]\<close>
  on an empty slice is a panic, so the eviction loop returns an \<open>option\<close>; under the
  invariant \<open>tbl_ok\<close> it never panics, and it implements the abstract eviction \<open>fit\<close>.
\<close>

section \<open>Fields and their sizes\<close>

definition headerEntryOverhead :: nat where
  "headerEntryOverhead = 32"

definition HeaderFieldSize :: "gostring \<Rightarrow> gostring \<Rightarrow> u32" where
  "HeaderFieldSize name value = of_nat (length name + length value + headerEntryOverhead)"

record headerField =
  hf_name :: gostring
  hf_value :: gostring

definition mk_field :: "gostring \<Rightarrow> gostring \<Rightarrow> headerField" where
  "mk_field n v = \<lparr>hf_name = n, hf_value = v\<rparr>"

record headerTable =
  tdata :: "headerField list"
  tsize :: u32
  tmaxSize :: u32

section \<open>The dynamic table\<close>

fun evict :: "headerField list \<Rightarrow> u32 \<Rightarrow> u32 \<Rightarrow> (headerField list \<times> u32) option" where
  "evict [] sz mx = (if sz > mx then None else Some ([], sz))"
| "evict (x # xs) sz mx =
     (if sz > mx then evict xs (sz - HeaderFieldSize (hf_name x) (hf_value x)) mx
      else Some (x # xs, sz))"

definition headerTable_setMaxSize :: "headerTable \<Rightarrow> u32 \<Rightarrow> (bool \<times> headerTable) option" where
  "headerTable_setMaxSize t mx =
     (if mx = tmaxSize t then Some (False, t)
      else if mx = 0 then Some (True, t\<lparr>tmaxSize := mx, tdata := [], tsize := 0\<rparr>)
      else (case evict (tdata t) (tsize t) mx of
              None \<Rightarrow> None
            | Some (d, s) \<Rightarrow> Some (True, t\<lparr>tmaxSize := mx, tdata := d, tsize := s\<rparr>)))"

definition headerTable_add :: "headerTable \<Rightarrow> gostring \<Rightarrow> gostring \<Rightarrow> (bool \<times> headerTable) option" where
  "headerTable_add t n v =
     (let hsize = HeaderFieldSize n v in
      if hsize > tmaxSize t then Some (False, t\<lparr>tdata := [], tsize := 0\<rparr>)
      else (case evict (tdata t @ [mk_field n v]) (tsize t + hsize) (tmaxSize t) of
              None \<Rightarrow> None
            | Some (d, s) \<Rightarrow> Some (True, t\<lparr>tdata := d, tsize := s\<rparr>)))"

section \<open>Comparison and the static table\<close>

fun strcmp_loop :: "gostring \<Rightarrow> gostring \<Rightarrow> u8 \<Rightarrow> u8" where
  "strcmp_loop (x # xs) (y # ys) c = strcmp_loop xs ys (c OR (x XOR y))"
| "strcmp_loop _ _ c = c"

definition strcmp :: "gostring \<Rightarrow> gostring \<Rightarrow> bool" where
  "strcmp a b = (if length a \<noteq> length b then False else strcmp_loop a b 0 = 0)"

definition staticTable :: "headerField list" where
  "staticTable = map (\<lambda>(n, v). mk_field (str n) (str v))
    [('':authority'', ''''),
     ('':method'', ''GET''),
     ('':method'', ''POST''),
     ('':path'', ''/''),
     ('':path'', ''/index.html''),
     ('':scheme'', ''http''),
     ('':scheme'', ''https''),
     ('':status'', ''200''),
     ('':status'', ''204''),
     ('':status'', ''206''),
     ('':status'', ''304''),
     ('':status'', ''400''),
     ('':status'', ''404''),
     ('':status'', ''500''),
     (''accept-charset'', ''''),
     (''accept-encoding'', ''gzip, deflate''),
     (''accept-language'', ''''),
     (''accept-ranges'', ''''),
     (''accept'', ''''),
     (''access-control-allow-origin'', ''''),
     (''age'', ''''),
     (''allow'', ''''),
     (''authorization'', ''''),
     (''cache-control'', ''''),
     (''content-disposition'', ''''),
     (''content-encoding'', ''''),
     (''content-language'', ''''),
     (''content-length'', ''''),
     (''content-location'', ''''),
     (''content-range'', ''''),
     (''content-type'', ''''),
     (''cookie'', ''''),
     (''date'', ''''),
     (''etag'', ''''),
     (''expect'', ''''),
     (''expires'', ''''),
     (''from'', ''''),
     (''host'', ''''),
     (''if-match'', ''''),
     (''if-modified-since'', ''''),
     (''if-none-match'', ''''),
     (''if-range'', ''''),
     (''if-unmodified-since'', ''''),
     (''last-modified'', ''''),
     (''link'', ''''),
     (''location'', ''''),
     (''max-forwards'', ''''),
     (''proxy-authenticate'', ''''),
     (''proxy-authorization'', ''''),
     (''range'', ''''),
     (''referer'', ''''),
     (''refresh'', ''''),
     (''retry-after'', ''''),
     (''server'', ''''),
     (''set-cookie'', ''''),
     (''strict-transport-security'', ''''),
     (''transfer-encoding'', ''''),
     (''user-agent'', ''''),
     (''vary'', ''''),
     (''via'', ''''),
     (''www-authenticate'', '''')]"

definition staticMap :: "gostring \<Rightarrow> u64 option" where
  "staticMap = fold (\<lambda>i m. m(hf_name (staticTable ! (i - 1)) \<mapsto> of_nat i))
     (rev [1..<length staticTable + 1]) Map.empty"

section \<open>Lookup and search\<close>

definition headerTable_entry :: "headerTable \<Rightarrow> u64 \<Rightarrow> headerField option" where
  "headerTable_entry t i =
     (if \<not> (i > 0 \<and> i \<le> of_nat (length staticTable + length (tdata t))) then None
      else if i \<le> of_nat (length staticTable) then Some (staticTable ! unat (i - 1))
      else Some (tdata t ! (length (tdata t) - (unat i - length staticTable))))"

fun index_loop :: "gostring \<Rightarrow> gostring \<Rightarrow> headerField list \<Rightarrow> u64 \<Rightarrow> u64 \<Rightarrow> u64 \<times> bool" where
  "index_loop n v [] i idx = (idx, False)"
| "index_loop n v (x # xs) i idx =
     (if \<not> strcmp n (hf_name x) then (idx, False)
      else if strcmp v (hf_value x) then (i, True)
      else index_loop n v xs (i + 1) idx)"

definition index :: "gostring \<Rightarrow> gostring \<Rightarrow> u64 \<times> bool" where
  "index n v =
     (case staticMap n of
        None \<Rightarrow> (0, False)
      | Some i \<Rightarrow> index_loop n v (drop (unat (i - 1)) staticTable) i i)"

fun headerTable_index_loop :: "gostring \<Rightarrow> gostring \<Rightarrow> headerField list \<Rightarrow> nat \<Rightarrow> u64 \<Rightarrow> u64 \<times> bool" where
  "headerTable_index_loop n v [] k idx = (idx, False)"
| "headerTable_index_loop n v (x # xs) k idx =
     (if \<not> strcmp n (hf_name x) then headerTable_index_loop n v xs (Suc k) idx
      else let idx = (if idx = 0 then of_nat k else idx) in
           if \<not> strcmp v (hf_value x) then headerTable_index_loop n v xs (Suc k) idx
           else (of_nat k, True))"

definition headerTable_index :: "headerTable \<Rightarrow> gostring \<Rightarrow> gostring \<Rightarrow> u64 \<times> bool" where
  "headerTable_index t n v = headerTable_index_loop n v (rev (tdata t)) 1 0"

definition headerTable_find :: "headerTable \<Rightarrow> gostring \<Rightarrow> gostring \<Rightarrow> u64 \<times> bool" where
  "headerTable_find t n v =
     (let (idx, matched) = index n v in
      if matched then (idx, matched)
      else let (i, matched) = headerTable_index t n v in
           if matched \<or> (idx = 0 \<and> i \<noteq> 0) then (i + of_nat (length staticTable), matched)
           else (idx, matched))"

section \<open>The abstract dynamic table\<close>

text \<open>
  RFC 7541, section 4: the dynamic table is the list of its fields, newest first, cut to
  the longest prefix whose sizes fit the maximum.
\<close>

definition fsize :: "headerField \<Rightarrow> nat" where
  "fsize x = length (hf_name x) + length (hf_value x) + headerEntryOverhead"

fun fit :: "nat \<Rightarrow> headerField list \<Rightarrow> headerField list" where
  "fit mx [] = []"
| "fit mx (x # xs) = (if fsize x \<le> mx then x # fit (mx - fsize x) xs else [])"

definition total :: "headerField list \<Rightarrow> nat" where
  "total xs = (\<Sum>x\<leftarrow>xs. fsize x)"

definition tbl_ok :: "headerTable \<Rightarrow> bool" where
  "tbl_ok t \<longleftrightarrow> unat (tsize t) = total (tdata t) \<and> tsize t \<le> tmaxSize t"

definition tbl_abs :: "headerTable \<Rightarrow> headerField list" where
  "tbl_abs t = rev (tdata t)"

section \<open>Eviction\<close>

lemma mk_field_sel [simp]: "hf_name (mk_field n v) = n" "hf_value (mk_field n v) = v"
  by (simp_all add: mk_field_def)

lemma mk_field_eq_iff [simp]:
  "mk_field n v = x \<longleftrightarrow> hf_name x = n \<and> hf_value x = v"
  "x = mk_field n v \<longleftrightarrow> hf_name x = n \<and> hf_value x = v"
  by (cases x; auto simp: mk_field_def)+

lemma total_simps [simp]:
  "total [] = 0" "total (x # xs) = fsize x + total xs" "total (xs @ ys) = total xs + total ys"
  "total (rev xs) = total xs"
  by (simp_all add: total_def rev_map [symmetric] sum_list_rev_nat)

lemma HeaderFieldSize_eq: "HeaderFieldSize (hf_name x) (hf_value x) = of_nat (fsize x)"
  by (simp add: HeaderFieldSize_def fsize_def)

lemma fsize_pos: "32 \<le> fsize x"
  by (simp add: fsize_def headerEntryOverhead_def)

lemma fit_0: "fit 0 xs = []"
  by (cases xs) (auto simp: fsize_def headerEntryOverhead_def)

lemma fit_all: "total xs \<le> mx \<Longrightarrow> fit mx xs = xs"
  by (induction xs arbitrary: mx) auto

lemma fit_total: "total (fit mx xs) \<le> mx"
proof (induction xs arbitrary: mx)
  case (Cons x xs)
  show ?case using Cons.IH [of "mx - fsize x"] by auto
qed simp

lemma fit_prefix: "prefix (fit mx xs) xs"
  by (induction xs arbitrary: mx) auto

lemma fit_drop_last: "mx < total (xs @ [x]) \<Longrightarrow> fit mx (xs @ [x]) = fit mx xs"
  by (induction xs arbitrary: mx) auto

lemma evict_fit:
  "unat sz = total xs \<Longrightarrow>
   \<exists>ys sz'. evict xs sz mx = Some (ys, sz') \<and> rev ys = fit (unat mx) (rev xs)
     \<and> unat sz' = total ys"
proof (induction xs arbitrary: sz)
  case Nil
  then have "sz = 0" by (simp add: unsigned_eq_0_iff)
  with Nil show ?case by simp
next
  case (Cons x xs)
  show ?case
  proof (cases "sz > mx")
    case False
    with Cons.prems have "total (rev (x # xs)) \<le> unat mx"
      by (simp add: word_le_nat_alt [symmetric] word_less_nat_alt)
    with False Cons.prems show ?thesis
      by (simp add: fit_all del: rev.simps)
  next
    case True
    let ?h = "HeaderFieldSize (hf_name x) (hf_value x)"
    have "fsize x < 2 ^ 32"
      using Cons.prems unat_less_32 [of sz] by simp
    then have h: "unat ?h = fsize x"
      by (simp add: HeaderFieldSize_eq size_simps)
    with Cons.prems have "unat (sz - ?h) = total xs"
      by (simp add: unat_minus_small)
    from Cons.IH [OF this] obtain ys sz' where
      "evict xs (sz - ?h) mx = Some (ys, sz')" "rev ys = fit (unat mx) (rev xs)" "unat sz' = total ys"
      by blast
    moreover have "fit (unat mx) (rev xs @ [x]) = fit (unat mx) (rev xs)"
      using True Cons.prems by (intro fit_drop_last) (simp add: word_less_nat_alt)
    ultimately show ?thesis
      using True by simp
  qed
qed

lemma setMaxSize_spec:
  assumes "tbl_ok t"
  shows "\<exists>t'. headerTable_setMaxSize t mx = Some (mx \<noteq> tmaxSize t, t') \<and> tbl_ok t'
     \<and> tmaxSize t' = mx \<and> tbl_abs t' = fit (unat mx) (tbl_abs t)"
proof -
  consider (same) "mx = tmaxSize t" | (zero) "mx \<noteq> tmaxSize t" "mx = 0" | (evict) "mx \<noteq> tmaxSize t" "mx \<noteq> 0"
    by blast
  then show ?thesis
  proof cases
    case same
    with assms show ?thesis
      by (simp add: headerTable_setMaxSize_def tbl_ok_def tbl_abs_def fit_all word_le_nat_alt)
  next
    case zero
    then show ?thesis
      by (simp add: fit_0 headerTable_setMaxSize_def tbl_ok_def tbl_abs_def)
  next
    case evict
    from evict_fit [of "tsize t" "tdata t" mx] assms obtain ys sz' where
      e: "evict (tdata t) (tsize t) mx = Some (ys, sz')" "rev ys = fit (unat mx) (rev (tdata t))"
        "unat sz' = total ys"
      by (auto simp: tbl_ok_def)
    then have "total ys \<le> unat mx"
      using fit_total [of "unat mx" "rev (tdata t)"] by (metis total_simps(4))
    with evict e show ?thesis
      by (simp add: headerTable_setMaxSize_def tbl_ok_def tbl_abs_def word_le_nat_alt)
  qed
qed

lemma add_spec:
  assumes "tbl_ok t" "fsize (mk_field n v) < 2 ^ 32" "unat (tmaxSize t) < 2 ^ 31"
  shows "\<exists>t'. headerTable_add t n v = Some (fsize (mk_field n v) \<le> unat (tmaxSize t), t') \<and> tbl_ok t'
     \<and> tmaxSize t' = tmaxSize t \<and> tbl_abs t' = fit (unat (tmaxSize t)) (mk_field n v # tbl_abs t)"
proof -
  let ?h = "HeaderFieldSize n v"
  have h: "unat ?h = fsize (mk_field n v)"
    using assms(2) HeaderFieldSize_eq [of "mk_field n v"] by (simp add: size_simps)
  show ?thesis
  proof (cases "?h > tmaxSize t")
    case True
    with h show ?thesis
      by (simp add: headerTable_add_def tbl_ok_def tbl_abs_def word_less_nat_alt)
  next
    case False
    with h assms(1,3) have sz: "unat (tsize t + ?h) = total (tdata t @ [mk_field n v])"
      by (subst unat_plus_small) (auto simp: tbl_ok_def word_less_nat_alt word_le_nat_alt)
    from evict_fit [OF sz, of "tmaxSize t"] obtain ys sz' where
      e: "evict (tdata t @ [mk_field n v]) (tsize t + ?h) (tmaxSize t) = Some (ys, sz')"
        "rev ys = fit (unat (tmaxSize t)) (mk_field n v # rev (tdata t))" "unat sz' = total ys"
      by auto
    then have "total ys \<le> unat (tmaxSize t)"
      using fit_total [of "unat (tmaxSize t)"] by (metis total_simps(4))
    with False e h show ?thesis
      by (auto simp: headerTable_add_def tbl_ok_def tbl_abs_def word_le_nat_alt word_less_nat_alt Let_def)
  qed
qed

lemma tbl_ok_length: "tbl_ok t \<Longrightarrow> length (tdata t) < 2 ^ 27"
proof -
  assume "tbl_ok t"
  moreover have "32 * length (tdata t) \<le> total (tdata t)"
    unfolding total_def by (rule length_mult_le_sum_list) (rule fsize_pos)
  moreover have "unat (tsize t) < 2 ^ 32" by (rule unat_less_32)
  ultimately show ?thesis by (simp add: tbl_ok_def)
qed

section \<open>Comparison\<close>

lemma strcmp_loop_zero:
  "length a = length b \<Longrightarrow> strcmp_loop a b c = 0 \<longleftrightarrow> c = 0 \<and> a = b"
  by (induction a b c rule: strcmp_loop.induct) (auto simp: or_eq_0_iff xor_eq_0_word)

lemma strcmp_eq: "strcmp a b \<longleftrightarrow> a = b"
  by (auto simp: strcmp_def strcmp_loop_zero)

section \<open>The static table\<close>

lemma length_staticTable [simp]: "length staticTable = 61"
  by (simp add: staticTable_def)

lemma staticTable_grouped: "distinct (remdups_adj (map hf_name staticTable))"
  by code_simp

text \<open>Where equal keys are adjacent, all elements with the first element's key are in its run.\<close>

lemma grouped_run:
  assumes "distinct (remdups_adj (map f xs))" "y \<in> set xs" "f y = f (hd xs)"
  shows "y \<in> set (takeWhile (\<lambda>x. f x = f (hd xs)) xs)"
  using assms
proof (induction xs)
  case (Cons x xs)
  show ?case
  proof (cases "y = x")
    case False
    then have y: "y \<in> set xs" using Cons.prems by simp
    then obtain z zs where xs: "xs = z # zs" by (cases xs) auto
    show ?thesis
    proof (cases "f x = f z")
      case True
      with Cons.prems y have "y \<in> set (takeWhile (\<lambda>u. f u = f (hd xs)) xs)"
        by (intro Cons.IH) (simp_all add: xs)
      with True show ?thesis by (simp add: xs)
    next
      case False
      with Cons.prems(1) have "f x \<notin> f ` set xs"
        by (simp add: xs)
      with y Cons.prems(3) have False by (metis imageI list.sel(1))
      then show ?thesis ..
    qed
  qed simp
qed simp

lemma grouped_drop:
  "distinct (remdups_adj xs) \<Longrightarrow> distinct (remdups_adj (drop k xs))"
proof (induction k arbitrary: xs)
  case (Suc k)
  then show ?case
    by (cases xs rule: remdups_adj.cases) (auto split: if_splits)
qed simp

lemma staticMap_fold:
  defines "f \<equiv> \<lambda>i m. m(hf_name (staticTable ! (i - 1)) \<mapsto> (of_nat i :: u64))"
  assumes "a \<le> b"
  shows "fold f (rev [a..<b]) Map.empty n =
    (if \<exists>i\<in>{a..<b}. hf_name (staticTable ! (i - 1)) = n
     then Some (of_nat (LEAST i. a \<le> i \<and> hf_name (staticTable ! (i - 1)) = n)) else None)"
  using assms(2)
proof (induction rule: inc_induct)
  case (step a)
  show ?case
  proof (cases "hf_name (staticTable ! (a - 1)) = n")
    case True
    then have "(LEAST i. a \<le> i \<and> hf_name (staticTable ! (i - 1)) = n) = a"
      by (intro Least_equality) auto
    with True step.hyps show ?thesis
      by (auto simp: upt_conv_Cons f_def)
  next
    case False
    then have "a \<le> i \<and> hf_name (staticTable ! (i - 1)) = n \<longleftrightarrow>
      Suc a \<le> i \<and> hf_name (staticTable ! (i - 1)) = n" for i
      using not_less_eq_eq le_antisym by (metis Suc_leD)
    with False step show ?thesis
      by (auto simp: upt_conv_Cons f_def Suc_le_eq)
  qed
qed simp

lemma staticMap_eq:
  "staticMap n =
    (if \<exists>k<61. hf_name (staticTable ! k) = n
     then Some (of_nat (Suc (LEAST k. hf_name (staticTable ! k) = n))) else None)"
proof -
  let ?P = "\<lambda>i. hf_name (staticTable ! (i - 1)) = n"
  have m: "staticMap n = (if \<exists>i\<in>{1..<length staticTable + 1}. ?P i
      then Some (of_nat (LEAST i. 1 \<le> i \<and> ?P i)) else None)"
    unfolding staticMap_def by (rule staticMap_fold) simp
  have ex: "(\<exists>i\<in>{1..<length staticTable + 1}. ?P i) \<longleftrightarrow> (\<exists>k<61. hf_name (staticTable ! k) = n)"
  proof
    assume "\<exists>i\<in>{1..<length staticTable + 1}. ?P i"
    then obtain i where "1 \<le> i" "i < 62" "?P i" by auto
    then show "\<exists>k<61. hf_name (staticTable ! k) = n" by (intro exI [of _ "i - 1"]) auto
  next
    assume "\<exists>k<61. hf_name (staticTable ! k) = n"
    then obtain k where "k < 61" "hf_name (staticTable ! k) = n" by blast
    then show "\<exists>i\<in>{1..<length staticTable + 1}. ?P i" by (intro bexI [of _ "Suc k"]) auto
  qed
  have "(LEAST i. 1 \<le> i \<and> ?P i) = Suc (LEAST k. hf_name (staticTable ! k) = n)"
    if "hf_name (staticTable ! k) = n" for k
    using that by (subst Least_Suc [of _ "Suc k"]) auto
  with m ex show ?thesis by auto
qed

lemma staticMap_Some:
  assumes "staticMap n = Some i"
  obtains k where "k < 61" "i = of_nat (Suc k)" "hf_name (staticTable ! k) = n"
    "\<And>j. j < k \<Longrightarrow> hf_name (staticTable ! j) \<noteq> n"
proof -
  let ?L = "LEAST k. hf_name (staticTable ! k) = n"
  from assms obtain k where k: "k < 61" "hf_name (staticTable ! k) = n" and i: "i = of_nat (Suc ?L)"
    unfolding staticMap_eq by (cases "\<exists>k<61. hf_name (staticTable ! k) = n") auto
  have "hf_name (staticTable ! ?L) = n" using k(2) by (rule LeastI)
  moreover have "?L \<le> k" using k(2) by (rule Least_le)
  moreover have "\<And>j. j < ?L \<Longrightarrow> hf_name (staticTable ! j) \<noteq> n" by (rule not_less_Least)
  ultimately show ?thesis using k(1) i by (intro that [of ?L]) (linarith, blast+)
qed

lemma staticMap_None: "staticMap n = None \<longleftrightarrow> n \<notin> hf_name ` set staticTable"
  by (auto simp: staticMap_eq set_conv_nth)

lemma unat_Suc_of_nat: "k < 2 ^ 27 \<Longrightarrow> unat (of_nat (Suc k) :: u64) = Suc k"
  by (rule unat_of_nat64) simp

lemma index_loop_True:
  "index_loop n v xs i idx = (r, True) \<Longrightarrow> \<exists>j<length xs. r = i + of_nat j \<and> xs ! j = mk_field n v"
proof (induction n v xs i idx rule: index_loop.induct)
  case (2 n v x xs i idx)
  show ?case
  proof (cases "hf_name x = n \<and> hf_value x = v")
    case True
    with "2.prems" show ?thesis by (intro exI [of _ 0]) (auto simp: strcmp_eq)
  next
    case False
    with "2.prems" have "hf_name x = n" "hf_value x \<noteq> v" "index_loop n v xs (i + 1) idx = (r, True)"
      by (auto simp: strcmp_eq split: if_splits)
    with "2.IH" obtain j where "j < length xs" "r = i + 1 + of_nat j" "xs ! j = mk_field n v"
      by (auto simp: strcmp_eq)
    then show ?thesis by (intro exI [of _ "Suc j"]) simp
  qed
qed simp

lemma index_loop_False:
  "index_loop n v xs i idx = (r, False) \<Longrightarrow>
   r = idx \<and> mk_field n v \<notin> set (takeWhile (\<lambda>x. hf_name x = n) xs)"
  by (induction n v xs i idx rule: index_loop.induct) (auto simp: strcmp_eq split: if_splits)

lemma index_True:
  assumes "index n v = (i, True)"
  shows "i \<noteq> 0 \<and> unat i \<le> 61 \<and> staticTable ! (unat i - 1) = mk_field n v"
proof -
  from assms obtain i0 where i0: "staticMap n = Some i0"
    and l: "index_loop n v (drop (unat (i0 - 1)) staticTable) i0 i0 = (i, True)"
    by (auto simp: index_def split: option.splits)
  from i0 obtain k where k: "k < 61" "i0 = of_nat (Suc k)" by (rule staticMap_Some) blast
  then have "unat (i0 - 1) = k" by (simp add: size_simps)
  with index_loop_True [OF l] k obtain j where "j < 61 - k" "i = of_nat (Suc (k + j))"
    "staticTable ! (k + j) = mk_field n v"
    by auto
  moreover from this have "unat i = Suc (k + j)"
    using unat_Suc_of_nat [of "k + j"] by simp
  ultimately show ?thesis by auto
qed

lemma index_False:
  assumes "index n v = (i, False)"
  shows "(i \<noteq> 0 \<longrightarrow> unat i \<le> 61 \<and> hf_name (staticTable ! (unat i - 1)) = n)
    \<and> (i = 0 \<longrightarrow> n \<notin> hf_name ` set staticTable) \<and> mk_field n v \<notin> set staticTable"
proof (cases "staticMap n")
  case None
  with assms show ?thesis
    by (auto simp: index_def staticMap_None image_iff)
next
  case (Some i0)
  then obtain k where k: "k < 61" "i0 = of_nat (Suc k)" "hf_name (staticTable ! k) = n"
    "\<And>j. j < k \<Longrightarrow> hf_name (staticTable ! j) \<noteq> n"
    by (rule staticMap_Some) blast
  then have u: "unat (i0 - 1) = k" "unat i0 = Suc k"
    using unat_Suc_of_nat [of k] by (simp_all add: size_simps)
  from assms Some u have "index_loop n v (drop k staticTable) i0 i0 = (i, False)"
    by (simp add: index_def)
  from index_loop_False [OF this] have i: "i = i0"
    and nin: "mk_field n v \<notin> set (takeWhile (\<lambda>x. hf_name x = n) (drop k staticTable))"
    by auto
  have hd: "hf_name (hd (drop k staticTable)) = n"
    using k by (simp add: hd_drop_conv_nth)
  have "mk_field n v \<notin> set (drop k staticTable)"
    using grouped_run [of hf_name "drop k staticTable" "mk_field n v"] hd nin
      grouped_drop [OF staticTable_grouped, of k]
    by (auto simp: drop_map)
  moreover have "mk_field n v \<notin> set (take k staticTable)"
    using k(4) by (auto simp: in_set_conv_nth simp del: mk_field_eq_iff) (metis mk_field_sel(1))
  ultimately have "mk_field n v \<notin> set staticTable"
    by (metis append_take_drop_id in_set_conv_decomp set_append Un_iff)
  moreover have "i0 \<noteq> 0" using u by auto
  ultimately show ?thesis
    using i k u by simp
qed

section \<open>Lookup against search\<close>

lemma entry_static:
  assumes "i \<noteq> 0" "unat i \<le> 61" "length (tdata t) < 2 ^ 27"
  shows "headerTable_entry t i = Some (staticTable ! (unat i - 1))"
proof -
  have "unat (i - 1) = unat i - 1"
    using assms(1) by (simp add: unat_minus_one)
  moreover have "unat (of_nat (61 + length (tdata t)) :: u64) = 61 + length (tdata t)"
    using assms(3) by (intro unat_of_nat64) simp
  ultimately show ?thesis
    using assms
    by (simp add: headerTable_entry_def word_le_nat_alt word_neq_0_conv [symmetric] del: of_nat_add)
qed

lemma entry_dynamic:
  assumes "k < length (tdata t)" "length (tdata t) < 2 ^ 27"
  shows "headerTable_entry t (of_nat (62 + k)) = Some (tbl_abs t ! k)"
proof -
  have u: "unat (of_nat (61 + length (tdata t)) :: u64) = 61 + length (tdata t)"
    "unat (of_nat (62 + k) :: u64) = 62 + k"
    using assms by (intro unat_of_nat64; simp)+
  then have "(of_nat (62 + k) :: u64) > 0"
    by (simp add: word_less_nat_alt del: of_nat_add)
  moreover have "length (tdata t) - (62 + k - 61) = length (tdata t) - Suc k"
    by simp
  ultimately show ?thesis
    using u assms
    by (simp add: headerTable_entry_def word_le_nat_alt tbl_abs_def rev_nth del: of_nat_add)
qed

lemma entry_range:
  assumes "headerTable_entry t i = Some x" "length (tdata t) < 2 ^ 27"
  shows "0 < unat i \<and> unat i \<le> 61 + length (tdata t)"
proof -
  have "unat (of_nat (61 + length (tdata t)) :: u64) = 61 + length (tdata t)"
    using assms(2) by (intro unat_of_nat64) simp
  with assms(1) show ?thesis
    by (auto simp: headerTable_entry_def word_le_nat_alt word_less_nat_alt
        simp del: of_nat_add split: if_splits)
qed

lemma table_index_loop_True:
  "headerTable_index_loop n v xs k idx = (r, True) \<Longrightarrow>
   \<exists>j<length xs. r = of_nat (k + j) \<and> xs ! j = mk_field n v"
proof (induction n v xs k idx rule: headerTable_index_loop.induct)
  case (2 n v x xs k idx)
  show ?case
  proof (cases "hf_name x = n \<and> hf_value x = v")
    case True
    with "2.prems" show ?thesis by (intro exI [of _ 0]) (auto simp: strcmp_eq Let_def)
  next
    case False
    with "2.prems" obtain idx' where "headerTable_index_loop n v xs (Suc k) idx' = (r, True)"
      and "\<exists>j<length xs. r = of_nat (Suc k + j) \<and> xs ! j = mk_field n v"
      using "2.IH" by (auto simp: strcmp_eq Let_def simp del: mk_field_eq_iff of_nat_Suc of_nat_add
          split: if_splits)
    then obtain j where "j < length xs" "r = of_nat (Suc k + j)" "xs ! j = mk_field n v"
      by blast
    then show ?thesis by (intro exI [of _ "Suc j"]) simp
  qed
qed simp

lemma table_index_loop_False:
  "headerTable_index_loop n v xs k idx = (r, False) \<Longrightarrow>
   (r = idx \<or> (\<exists>j<length xs. r = of_nat (k + j) \<and> hf_name (xs ! j) = n))
     \<and> mk_field n v \<notin> set xs"
proof (induction n v xs k idx rule: headerTable_index_loop.induct)
  case (2 n v x xs k idx)
  have shift: "\<exists>j<length (x # xs). r = of_nat (k + j) \<and> hf_name ((x # xs) ! j) = n"
    if "\<exists>j<length xs. r = of_nat (Suc k + j) \<and> hf_name (xs ! j) = n"
    using that by (auto intro: exI [of _ "Suc _"])
  show ?case
  proof (cases "hf_name x = n")
    case False
    with 2 shift show ?thesis by (auto simp: strcmp_eq simp del: of_nat_add of_nat_Suc)
  next
    case True
    let ?idx = "if idx = 0 then of_nat k else idx"
    from True "2.prems" have v: "hf_value x \<noteq> v"
      and l: "headerTable_index_loop n v xs (Suc k) ?idx = (r, False)"
      by (auto simp: strcmp_eq Let_def split: if_splits)
    from True v l have "(r = ?idx \<or> (\<exists>j<length xs. r = of_nat (Suc k + j) \<and> hf_name (xs ! j) = n))
      \<and> mk_field n v \<notin> set xs"
      using "2.IH" by (auto simp: strcmp_eq)
    moreover have "r = of_nat k \<Longrightarrow> \<exists>j<length (x # xs). r = of_nat (k + j) \<and> hf_name ((x # xs) ! j) = n"
      using True by (intro exI [of _ 0]) simp
    ultimately show ?thesis
      using v shift by (auto split: if_splits)
  qed
qed simp

lemma find_True:
  assumes "tbl_ok t" "headerTable_find t n v = (i, True)"
  shows "headerTable_entry t i = Some (mk_field n v)"
proof -
  note len = tbl_ok_length [OF assms(1)]
  obtain si sm where s: "index n v = (si, sm)" by fastforce
  obtain di dm where d: "headerTable_index t n v = (di, dm)" by fastforce
  show ?thesis
  proof (cases sm)
    case True
    with s assms(2) have "i = si" by (simp add: headerTable_find_def)
    with index_True [of n v si] s True len show ?thesis by (simp add: entry_static)
  next
    case False
    with assms(2) s d have dm and i: "i = di + 61"
      by (auto simp: headerTable_find_def split: if_splits)
    with d obtain j where j: "j < length (tdata t)" "di = of_nat (1 + j)" "tbl_abs t ! j = mk_field n v"
      using table_index_loop_True [of n v "rev (tdata t)" 1 0 di]
      by (auto simp: headerTable_index_def tbl_abs_def simp del: mk_field_eq_iff)
    with i have "i = of_nat (62 + j)" by simp
    with j entry_dynamic [of j t] len show ?thesis by simp
  qed
qed

lemma find_False:
  assumes "tbl_ok t" "headerTable_find t n v = (i, False)"
  shows "mk_field n v \<notin> set staticTable \<and> mk_field n v \<notin> set (tdata t)
    \<and> (i \<noteq> 0 \<longrightarrow> (\<exists>x. headerTable_entry t i = Some x \<and> hf_name x = n))"
proof -
  note len = tbl_ok_length [OF assms(1)]
  obtain si sm where s: "index n v = (si, sm)" by fastforce
  obtain di dm where d: "headerTable_index t n v = (di, dm)" by fastforce
  from assms(2) s d have f: "\<not> sm" "\<not> dm" "i = (if si = 0 \<and> di \<noteq> 0 then di + 61 else si)"
    by (auto simp: headerTable_find_def split: if_splits)
  from f s index_False [of n v si]
  have st: "si \<noteq> 0 \<longrightarrow> unat si \<le> 61 \<and> hf_name (staticTable ! (unat si - 1)) = n"
    "mk_field n v \<notin> set staticTable"
    by auto
  from d f table_index_loop_False [of n v "rev (tdata t)" 1 0 di]
  have dy: "di = 0 \<or> (\<exists>j<length (tdata t). di = of_nat (1 + j) \<and> hf_name (tbl_abs t ! j) = n)"
    "mk_field n v \<notin> set (tdata t)"
    by (auto simp: headerTable_index_def tbl_abs_def)
  have "\<exists>x. headerTable_entry t i = Some x \<and> hf_name x = n" if "i \<noteq> 0"
  proof (cases "si = 0")
    case True
    with f that have i: "i = di + 61" "di \<noteq> 0" by (auto split: if_splits)
    with dy(1) obtain j where j: "j < length (tdata t)" "di = of_nat (1 + j)" "hf_name (tbl_abs t ! j) = n"
      by blast
    with i have "i = of_nat (62 + j)" by simp
    with j entry_dynamic [of j t] len show ?thesis by simp
  next
    case False
    with f st len show ?thesis by (simp add: entry_static)
  qed
  with st dy show ?thesis by blast
qed

lemma fit_fit: "fit a (fit b xs) = fit (min a b) xs"
proof (induction xs arbitrary: a b)
  case (Cons x xs)
  have "min a b - fsize x = min (a - fsize x) (b - fsize x)" by simp
  with Cons show ?case by auto
qed simp

section \<open>The interface of the indexing tables\<close>

locale indexing_table =
  fixes ok :: "'t \<Rightarrow> bool" and abs :: "'t \<Rightarrow> headerField list" and mx :: "'t \<Rightarrow> nat"
    and entry :: "'t \<Rightarrow> u64 \<Rightarrow> headerField option"
    and find :: "'t \<Rightarrow> gostring \<Rightarrow> gostring \<Rightarrow> u64 \<times> bool"
    and add :: "'t \<Rightarrow> gostring \<Rightarrow> gostring \<Rightarrow> (bool \<times> 't) option"
    and set_max :: "'t \<Rightarrow> u32 \<Rightarrow> (bool \<times> 't) option"
  assumes find_hit: "ok t \<Longrightarrow> find t n v = (i, True) \<Longrightarrow> entry t i = Some (mk_field n v)"
    and find_miss: "ok t \<Longrightarrow> find t n v = (i, False) \<Longrightarrow>
      mk_field n v \<notin> set (abs t) \<and> (i \<noteq> 0 \<longrightarrow> (\<exists>x. entry t i = Some x \<and> hf_name x = n))"
    and add_law: "ok t \<Longrightarrow> fsize (mk_field n v) < 2 ^ 32 \<Longrightarrow> mx t < 2 ^ 31 \<Longrightarrow>
      \<exists>t'. add t n v = Some (fsize (mk_field n v) \<le> mx t, t') \<and> ok t' \<and> mx t' = mx t
        \<and> abs t' = fit (mx t) (mk_field n v # abs t)"
    and set_max_law: "ok t \<Longrightarrow> \<exists>c t'. set_max t m = Some (c, t') \<and> ok t' \<and> mx t' = unat m
        \<and> abs t' = fit (unat m) (abs t)"
begin

lemma find_after_add:
  assumes "ok t" "fsize (mk_field n v) \<le> mx t" "mx t < 2 ^ 31"
  shows "\<exists>t' i. add t n v = Some (True, t') \<and> find t' n v = (i, True) \<and> entry t' i = Some (mk_field n v)"
proof -
  have "fsize (mk_field n v) < 2 ^ 32" using assms(2,3) by simp
  from add_law [OF assms(1) this assms(3)] assms(2) obtain t' where
    t': "add t n v = Some (True, t')" "ok t'" "abs t' = fit (mx t) (mk_field n v # abs t)"
    by auto
  then have "mk_field n v \<in> set (abs t')" using assms(2) by simp
  with find_miss [OF t'(2), of n v] obtain i where "find t' n v = (i, True)"
    by (cases "find t' n v") (metis (full_types))
  with t' find_hit [OF t'(2)] show ?thesis by blast
qed

lemma find_entry_name:
  "ok t \<Longrightarrow> find t n v = (i, m) \<Longrightarrow> i \<noteq> 0 \<Longrightarrow> \<exists>x. entry t i = Some x \<and> hf_name x = n"
  using find_hit [of t n v i] find_miss [of t n v i] mk_field_sel(1) [of n v] by (cases m) (metis (full_types))+

lemma set_max_twice:
  assumes "ok t" "unat a \<le> unat b"
  shows "\<exists>c1 t1 c2 t2. set_max t a = Some (c1, t1) \<and> set_max t1 b = Some (c2, t2)
    \<and> abs t2 = fit (unat a) (abs t) \<and> ok t2 \<and> mx t2 = unat b"
proof -
  from set_max_law [OF assms(1), of a] obtain c1 t1 where
    1: "set_max t a = Some (c1, t1)" "ok t1" "abs t1 = fit (unat a) (abs t)" by blast
  from set_max_law [OF 1(2), of b] obtain c2 t2 where
    2: "set_max t1 b = Some (c2, t2)" "ok t2" "mx t2 = unat b" "abs t2 = fit (unat b) (abs t1)" by blast
  have "total (abs t1) \<le> unat b" using fit_total [of "unat a" "abs t"] 1(3) assms(2) by simp
  then have "abs t2 = abs t1" using 2(4) by (simp add: fit_all)
  with 1 2 show ?thesis
    by (intro exI [of _ c1] exI [of _ t1] exI [of _ c2] exI [of _ t2]) simp
qed

end

interpretation dyn: indexing_table tbl_ok tbl_abs "\<lambda>t. unat (tmaxSize t)"
  headerTable_entry headerTable_find headerTable_add headerTable_setMaxSize
proof
  fix t n v i assume t: "tbl_ok t"
  show "headerTable_find t n v = (i, True) \<Longrightarrow> headerTable_entry t i = Some (mk_field n v)"
    by (rule find_True [OF t])
  assume "headerTable_find t n v = (i, False)"
  from find_False [OF t this]
  show "mk_field n v \<notin> set (tbl_abs t) \<and> (i \<noteq> 0 \<longrightarrow> (\<exists>x. headerTable_entry t i = Some x \<and> hf_name x = n))"
    by (simp add: tbl_abs_def)
next
  fix t n v assume "tbl_ok t" "fsize (mk_field n v) < 2 ^ 32" "unat (tmaxSize t) < 2 ^ 31"
  from add_spec [OF this] show "\<exists>t'. headerTable_add t n v = Some (fsize (mk_field n v) \<le> unat (tmaxSize t), t') \<and> tbl_ok t' \<and>
    unat (tmaxSize t') = unat (tmaxSize t) \<and> tbl_abs t' = fit (unat (tmaxSize t)) (mk_field n v # tbl_abs t)"
    by auto
next
  fix t m assume "tbl_ok t"
  from setMaxSize_spec [OF this, of m] show "\<exists>c t'. headerTable_setMaxSize t m = Some (c, t') \<and> tbl_ok t' \<and>
    unat (tmaxSize t') = unat m \<and> tbl_abs t' = fit (unat m) (tbl_abs t)"
    by auto
qed

lemma tbl_eqI:
  "tbl_ok t \<Longrightarrow> tbl_ok t' \<Longrightarrow> tbl_abs t = tbl_abs t' \<Longrightarrow> tmaxSize t = tmaxSize t' \<Longrightarrow> t = t'"
  by (cases t; cases t') (auto simp: tbl_ok_def tbl_abs_def word_unat_eq_iff)

end
