(* ===== verification/Hpack_Huffman.thy ===== *)
theory Hpack_Huffman
  imports H2_Prelude
begin

text \<open>
  The static Huffman code of \<^verbatim>\<open>src/hpack/huffman.go\<close>: the code table, the encoder and its
  length, the byte-indexed decoding tree and the decoder.

  A node of the decoding tree has 256 children indexed by a byte, or a nil slice: a
  function from bytes, or \<open>None\<close>.  Indexing a nil slice is a panic, as is following a nil
  child, so building the tree and decoding return an \<open>option\<close>.  The bit counters \<open>space\<close>,
  \<open>nbits\<close> and \<open>bits\<close> (\<open>uint8\<close> in the code) are naturals: every subtraction on them is
  guarded and none exceeds 30 for this table.
\<close>

section \<open>The code table\<close>

definition huffmanCodes :: "(u32 \<times> u8) list" where
  "huffmanCodes =
    [(0x1ff8, 13), (0x7fffd8, 23), (0xfffffe2, 28), (0xfffffe3, 28), (0xfffffe4, 28), (0xfffffe5, 28),
     (0xfffffe6, 28), (0xfffffe7, 28), (0xfffffe8, 28), (0xffffea, 24), (0x3ffffffc, 30), (0xfffffe9, 28),
     (0xfffffea, 28), (0x3ffffffd, 30), (0xfffffeb, 28), (0xfffffec, 28), (0xfffffed, 28), (0xfffffee, 28),
     (0xfffffef, 28), (0xffffff0, 28), (0xffffff1, 28), (0xffffff2, 28), (0x3ffffffe, 30), (0xffffff3, 28),
     (0xffffff4, 28), (0xffffff5, 28), (0xffffff6, 28), (0xffffff7, 28), (0xffffff8, 28), (0xffffff9, 28),
     (0xffffffa, 28), (0xffffffb, 28), (0x14, 6), (0x3f8, 10), (0x3f9, 10), (0xffa, 12),
     (0x1ff9, 13), (0x15, 6), (0xf8, 8), (0x7fa, 11), (0x3fa, 10), (0x3fb, 10),
     (0xf9, 8), (0x7fb, 11), (0xfa, 8), (0x16, 6), (0x17, 6), (0x18, 6),
     (0x0, 5), (0x1, 5), (0x2, 5), (0x19, 6), (0x1a, 6), (0x1b, 6),
     (0x1c, 6), (0x1d, 6), (0x1e, 6), (0x1f, 6), (0x5c, 7), (0xfb, 8),
     (0x7ffc, 15), (0x20, 6), (0xffb, 12), (0x3fc, 10), (0x1ffa, 13), (0x21, 6),
     (0x5d, 7), (0x5e, 7), (0x5f, 7), (0x60, 7), (0x61, 7), (0x62, 7),
     (0x63, 7), (0x64, 7), (0x65, 7), (0x66, 7), (0x67, 7), (0x68, 7),
     (0x69, 7), (0x6a, 7), (0x6b, 7), (0x6c, 7), (0x6d, 7), (0x6e, 7),
     (0x6f, 7), (0x70, 7), (0x71, 7), (0x72, 7), (0xfc, 8), (0x73, 7),
     (0xfd, 8), (0x1ffb, 13), (0x7fff0, 19), (0x1ffc, 13), (0x3ffc, 14), (0x22, 6),
     (0x7ffd, 15), (0x3, 5), (0x23, 6), (0x4, 5), (0x24, 6), (0x5, 5),
     (0x25, 6), (0x26, 6), (0x27, 6), (0x6, 5), (0x74, 7), (0x75, 7),
     (0x28, 6), (0x29, 6), (0x2a, 6), (0x7, 5), (0x2b, 6), (0x76, 7),
     (0x2c, 6), (0x8, 5), (0x9, 5), (0x2d, 6), (0x77, 7), (0x78, 7),
     (0x79, 7), (0x7a, 7), (0x7b, 7), (0x7ffe, 15), (0x7fc, 11), (0x3ffd, 14),
     (0x1ffd, 13), (0xffffffc, 28), (0xfffe6, 20), (0x3fffd2, 22), (0xfffe7, 20), (0xfffe8, 20),
     (0x3fffd3, 22), (0x3fffd4, 22), (0x3fffd5, 22), (0x7fffd9, 23), (0x3fffd6, 22), (0x7fffda, 23),
     (0x7fffdb, 23), (0x7fffdc, 23), (0x7fffdd, 23), (0x7fffde, 23), (0xffffeb, 24), (0x7fffdf, 23),
     (0xffffec, 24), (0xffffed, 24), (0x3fffd7, 22), (0x7fffe0, 23), (0xffffee, 24), (0x7fffe1, 23),
     (0x7fffe2, 23), (0x7fffe3, 23), (0x7fffe4, 23), (0x1fffdc, 21), (0x3fffd8, 22), (0x7fffe5, 23),
     (0x3fffd9, 22), (0x7fffe6, 23), (0x7fffe7, 23), (0xffffef, 24), (0x3fffda, 22), (0x1fffdd, 21),
     (0xfffe9, 20), (0x3fffdb, 22), (0x3fffdc, 22), (0x7fffe8, 23), (0x7fffe9, 23), (0x1fffde, 21),
     (0x7fffea, 23), (0x3fffdd, 22), (0x3fffde, 22), (0xfffff0, 24), (0x1fffdf, 21), (0x3fffdf, 22),
     (0x7fffeb, 23), (0x7fffec, 23), (0x1fffe0, 21), (0x1fffe1, 21), (0x3fffe0, 22), (0x1fffe2, 21),
     (0x7fffed, 23), (0x3fffe1, 22), (0x7fffee, 23), (0x7fffef, 23), (0xfffea, 20), (0x3fffe2, 22),
     (0x3fffe3, 22), (0x3fffe4, 22), (0x7ffff0, 23), (0x3fffe5, 22), (0x3fffe6, 22), (0x7ffff1, 23),
     (0x3ffffe0, 26), (0x3ffffe1, 26), (0xfffeb, 20), (0x7fff1, 19), (0x3fffe7, 22), (0x7ffff2, 23),
     (0x3fffe8, 22), (0x1ffffec, 25), (0x3ffffe2, 26), (0x3ffffe3, 26), (0x3ffffe4, 26), (0x7ffffde, 27),
     (0x7ffffdf, 27), (0x3ffffe5, 26), (0xfffff1, 24), (0x1ffffed, 25), (0x7fff2, 19), (0x1fffe3, 21),
     (0x3ffffe6, 26), (0x7ffffe0, 27), (0x7ffffe1, 27), (0x3ffffe7, 26), (0x7ffffe2, 27), (0xfffff2, 24),
     (0x1fffe4, 21), (0x1fffe5, 21), (0x3ffffe8, 26), (0x3ffffe9, 26), (0xffffffd, 28), (0x7ffffe3, 27),
     (0x7ffffe4, 27), (0x7ffffe5, 27), (0xfffec, 20), (0xfffff3, 24), (0xfffed, 20), (0x1fffe6, 21),
     (0x3fffe9, 22), (0x1fffe7, 21), (0x1fffe8, 21), (0x7ffff3, 23), (0x3fffea, 22), (0x3fffeb, 22),
     (0x1ffffee, 25), (0x1ffffef, 25), (0xfffff4, 24), (0xfffff5, 24), (0x3ffffea, 26), (0x7ffff4, 23),
     (0x3ffffeb, 26), (0x7ffffe6, 27), (0x3ffffec, 26), (0x3ffffed, 26), (0x7ffffe7, 27), (0x7ffffe8, 27),
     (0x7ffffe9, 27), (0x7ffffea, 27), (0x7ffffeb, 27), (0xffffffe, 28), (0x7ffffec, 27), (0x7ffffed, 27),
     (0x7ffffee, 27), (0x7ffffef, 27), (0x7fffff0, 27), (0x3ffffee, 26), (0x3fffffff, 30)]"

section \<open>Encoding\<close>

definition or_last :: "bytes \<Rightarrow> u8 \<Rightarrow> bytes" where
  "or_last dst t = dst[length dst - 1 := (dst ! (length dst - 1)) OR t]"

function HuffmanEncode_code :: "bytes \<Rightarrow> nat \<Rightarrow> u32 \<Rightarrow> nat \<Rightarrow> bytes \<times> nat" where
  "HuffmanEncode_code dst space code nbits =
     (if space > nbits then (or_last dst (ucast (push_bit (space - nbits) code)), space - nbits)
      else let dst = or_last dst (ucast (drop_bit (nbits - space) code)) in
           if nbits - space = 0 then (dst, 8)
           else HuffmanEncode_code (dst @ [0]) 8 code (nbits - space))"
  by pat_completeness auto
termination
  by (relation "measures [\<lambda>(dst, space, code, nbits). nbits, \<lambda>(dst, space, code, nbits). 8 - space]") auto

declare HuffmanEncode_code.simps [simp del]

fun HuffmanEncode_loop :: "bytes \<Rightarrow> nat \<Rightarrow> gostring \<Rightarrow> bytes \<times> nat" where
  "HuffmanEncode_loop dst space [] = (dst, space)"
| "HuffmanEncode_loop dst space (c # s) =
     (let dst = (if space = 8 then dst @ [0] else dst);
          (code, bits) = huffmanCodes ! unat c;
          (dst, space) = HuffmanEncode_code dst space code (unat bits)
      in HuffmanEncode_loop dst space s)"

definition HuffmanEncode :: "bytes \<Rightarrow> gostring \<Rightarrow> bytes" where
  "HuffmanEncode dst s =
     (let (dst, space) = HuffmanEncode_loop dst 8 s in
      if space < 8 then
        let (code, bits) = huffmanCodes ! 256 in or_last dst (ucast (drop_bit (unat bits - space) code))
      else dst)"

definition HuffmanEncodedLen :: "gostring \<Rightarrow> u64" where
  "HuffmanEncodedLen s =
     drop_bit 3 (foldl (\<lambda>x c. x + ucast (snd (huffmanCodes ! unat c))) 0 s + 7)"

section \<open>The decoding tree\<close>

datatype huffmanNode =
  HuffmanNode (sym: u8) (nodeBits: nat) (children: "(u8 \<Rightarrow> huffmanNode option) option")

definition newInnerNode :: huffmanNode where
  "newInnerNode = HuffmanNode 0 0 (Some (\<lambda>_. None))"

function insertCode :: "huffmanNode \<Rightarrow> u8 \<Rightarrow> u32 \<Rightarrow> nat \<Rightarrow> huffmanNode option" where
  "insertCode cur s code bits =
     (case children cur of
        None \<Rightarrow> None
      | Some ch \<Rightarrow>
          if bits > 8 then
            let bits = bits - 8;
                j = ucast (drop_bit bits code);
                child = (case ch j of None \<Rightarrow> newInnerNode | Some n \<Rightarrow> n)
            in case insertCode child s code bits of
                 None \<Rightarrow> None
               | Some child \<Rightarrow> Some (HuffmanNode (sym cur) (nodeBits cur) (Some (ch(j := Some child))))
          else
            let shift = 8 - bits;
                start = unat (ucast (push_bit shift code) :: u8)
            in Some (HuffmanNode (sym cur) (nodeBits cur)
                 (Some (fold (\<lambda>j ch. ch(of_nat j := Some (HuffmanNode s bits None)))
                          [start..<start + 2 ^ shift] ch))))"
  by pat_completeness auto
termination
  by (relation "measure (\<lambda>(cur, s, code, bits). bits)") auto

declare insertCode.simps [simp del]

fun insertCodes :: "huffmanNode \<Rightarrow> nat \<Rightarrow> (u32 \<times> u8) list \<Rightarrow> huffmanNode option" where
  "insertCodes root i [] = Some root"
| "insertCodes root i ((code, bits) # xs) =
     (case insertCode root (of_nat i) code (unat bits) of
        None \<Rightarrow> None
      | Some root \<Rightarrow> insertCodes root (Suc i) xs)"

definition newHuffmanTree :: "huffmanNode option" where
  "newHuffmanTree =
     (if length huffmanCodes \<noteq> 257 then None else insertCodes newInnerNode 0 huffmanCodes)"

section \<open>Decoding\<close>

definition child_of :: "huffmanNode \<Rightarrow> u8 \<Rightarrow> huffmanNode option" where
  "child_of n b = (case children n of None \<Rightarrow> None | Some ch \<Rightarrow> ch b)"

text \<open>
  The decoder's three loops over the tree \<open>root\<close> (the package variable
  \<open>rootHufmanNode\<close>): the loop that runs while a whole byte of input is pending, the loop
  over the source and the loop over the last, partial byte.  The first and the last end
  only because no leaf has a zero bit count, so they are partial functions: \<open>None\<close> is a
  panic or a loop that does not end.
\<close>

partial_function (option) HuffmanDecode_inner ::
  "huffmanNode \<Rightarrow> huffmanNode \<Rightarrow> u64 \<Rightarrow> nat \<Rightarrow> bytes \<Rightarrow> (huffmanNode \<times> nat \<times> bytes) option" where
  "HuffmanDecode_inner root n cur nbits dst =
     (if nbits \<ge> 8 then
        case child_of n (ucast (drop_bit (nbits - 8) cur)) of
          None \<Rightarrow> None
        | Some n \<Rightarrow>
            if children n = None
            then HuffmanDecode_inner root root cur (nbits - nodeBits n) (dst @ [sym n])
            else HuffmanDecode_inner root n cur (nbits - 8) dst
      else Some (n, nbits, dst))"

fun HuffmanDecode_loop ::
  "huffmanNode \<Rightarrow> huffmanNode \<Rightarrow> u64 \<Rightarrow> nat \<Rightarrow> bytes \<Rightarrow> bytes \<Rightarrow> (huffmanNode \<times> u64 \<times> nat \<times> bytes) option" where
  "HuffmanDecode_loop root n cur nbits dst [] = Some (n, cur, nbits, dst)"
| "HuffmanDecode_loop root n cur nbits dst (b # src) =
     (let cur = push_bit 8 cur OR ucast b in
      case HuffmanDecode_inner root n cur (nbits + 8) dst of
        None \<Rightarrow> None
      | Some (n, nbits, dst) \<Rightarrow> HuffmanDecode_loop root n cur nbits dst src)"

partial_function (option) HuffmanDecode_tail ::
  "huffmanNode \<Rightarrow> huffmanNode \<Rightarrow> u64 \<Rightarrow> nat \<Rightarrow> bytes \<Rightarrow> bytes option" where
  "HuffmanDecode_tail root n cur nbits dst =
     (if nbits > 0 then
        case child_of n (ucast (push_bit (8 - nbits) cur)) of
          None \<Rightarrow> None
        | Some n \<Rightarrow>
            if children n \<noteq> None \<or> nodeBits n > nbits then Some dst
            else HuffmanDecode_tail root root cur (nbits - nodeBits n) (dst @ [sym n])
      else Some dst)"

definition HuffmanDecode :: "bytes \<Rightarrow> bytes \<Rightarrow> bytes option" where
  "HuffmanDecode dst src =
     (case newHuffmanTree of
        None \<Rightarrow> None
      | Some root \<Rightarrow>
          (case HuffmanDecode_loop root root 0 0 dst src of
             None \<Rightarrow> None
           | Some (n, cur, nbits, dst) \<Rightarrow> HuffmanDecode_tail root n cur nbits dst))"

end
