(* ===== verification/Hpack_Codec.thy ===== *)
theory Hpack_Codec
  imports Hpack_Table Hpack_Huffman "HOL-Library.Monad_Syntax"
begin

text \<open>
  The HPACK encoder and decoder of \<^verbatim>\<open>src/hpack/hpack.go\<close>.

  The encoder's operations append to the slice \<open>dst\<close> they are given.  The decoder's state is
  one record: \<open>Decoder\<close> with the \<open>decoderState\<close> it embeds, less the scratch buffer \<open>hbuf\<close>,
  which is emptied before each use.  Every operation on it returns the state it leaves, after
  an error too.  The caller's \<open>HeaderFieldHandler\<close> is a parameter: a function on the caller's
  own state \<open>'h\<close> that may return an error \<open>'e\<close>, or \<open>None\<close> for a nil handler.  The outer
  \<open>option\<close> of the operations that reach the table's eviction or the Huffman decoder is
  \<open>None\<close> when one of these panics.
\<close>

section \<open>Encoder\<close>

definition maxUint32 :: u32 where
  "maxUint32 = NOT 0"

datatype indexType = indexedTrue | indexedFalse | indexedNever

datatype huffman = huffForceTrue | huffTrue | huffFalse

record Encoder =
  e_table :: headerTable
  e_minSize :: u32
  e_sizeChanged :: bool
  e_i :: bool
  e_h :: huffman

definition NeverSensitive :: "gostring \<Rightarrow> gostring \<Rightarrow> bool" where
  "NeverSensitive n v = False"

definition new_table :: "u32 \<Rightarrow> headerTable" where
  "new_table mx = \<lparr>tdata = [], tsize = 0, tmaxSize = mx\<rparr>"

definition NewEncoder :: "u32 \<Rightarrow> Encoder" where
  "NewEncoder maxHeaderTableSize =
     \<lparr>e_table = new_table maxHeaderTableSize, e_minSize = maxUint32, e_sizeChanged = False,
      e_i = True, e_h = huffTrue\<rparr>"

definition Encoder_MaxHeaderTableSize :: "Encoder \<Rightarrow> u32" where
  "Encoder_MaxHeaderTableSize enc = tmaxSize (e_table enc)"

definition Encoder_SetMaxHeaderTableSize :: "Encoder \<Rightarrow> u32 \<Rightarrow> Encoder option" where
  "Encoder_SetMaxHeaderTableSize enc mx =
     (let enc = (if mx < e_minSize enc then enc\<lparr>e_minSize := mx\<rparr> else enc);
          enc = enc\<lparr>e_sizeChanged := True\<rparr>
      in do {
        (_, t) \<leftarrow> headerTable_setMaxSize (e_table enc) mx;
        Some (enc\<lparr>e_table := t\<rparr>)
      })"

definition int_bound :: "nat \<Rightarrow> u64" where
  "int_bound n = push_bit n 1 - 1"

function encInteger_loop :: "bytes \<Rightarrow> u64 \<Rightarrow> bytes" where
  "encInteger_loop dst i =
     (if i \<ge> 128 then encInteger_loop (dst @ [ucast ((i AND 0x7f) OR 0x80)]) (drop_bit 7 i)
      else dst @ [ucast i])"
  by pat_completeness auto
termination
proof (relation "measure (\<lambda>(dst, i). unat i)")
  fix dst :: bytes and i :: u64
  assume "i \<ge> 128"
  then have "128 \<le> unat i" by (simp add: word_le_nat_alt)
  moreover have "unat (drop_bit 7 i) = unat i div 128"
    by (simp add: drop_bit_eq_div unat_div)
  ultimately show "((dst @ [ucast ((i AND 0x7f) OR 0x80)], drop_bit 7 i), (dst, i)) \<in> measure (\<lambda>(dst, i). unat i)"
    by simp
qed simp

declare encInteger_loop.simps [simp del]

definition encInteger :: "bytes \<Rightarrow> u8 \<Rightarrow> nat \<Rightarrow> u64 \<Rightarrow> bytes" where
  "encInteger dst msk n i =
     (let bound = int_bound n in
      if i < bound then dst @ [msk OR ucast i]
      else encInteger_loop (dst @ [msk OR ucast bound]) (i - bound))"

definition encStringLiteral :: "bytes \<Rightarrow> gostring \<Rightarrow> huffman \<Rightarrow> bytes" where
  "encStringLiteral dst s h =
     (let slen = of_nat (length s) in
      case h of
        huffForceTrue \<Rightarrow> HuffmanEncode (encInteger dst 0x80 7 (HuffmanEncodedLen s)) s
      | huffTrue \<Rightarrow>
          let hlen = HuffmanEncodedLen s in
          if hlen < slen then HuffmanEncode (encInteger dst 0x80 7 hlen) s
          else encInteger dst 0x00 7 slen @ s
      | huffFalse \<Rightarrow> encInteger dst 0x00 7 slen @ s)"

definition encIndexed :: "bytes \<Rightarrow> u64 \<Rightarrow> bytes" where
  "encIndexed dst idx = encInteger dst 0x80 7 idx"

definition encLiteral ::
  "bytes \<Rightarrow> gostring \<Rightarrow> gostring \<Rightarrow> indexType \<Rightarrow> u64 \<Rightarrow> huffman \<Rightarrow> u32 \<times> bytes" where
  "encLiteral dst name value idxType idx h =
     (let (msk, n) = (case idxType of
            indexedTrue \<Rightarrow> (0x40, 6) | indexedFalse \<Rightarrow> (0x00, 4) | indexedNever \<Rightarrow> (0x10, 4));
          dst = encInteger dst msk n idx;
          (hsize, dst) = (if idx = 0 then (of_nat (length name), encStringLiteral dst name h) else (0, dst));
          hsize = hsize + of_nat (length value + headerEntryOverhead)
      in (hsize, encStringLiteral dst value h))"

definition encDynamicTableSizeUpdate :: "bytes \<Rightarrow> u64 \<Rightarrow> bytes" where
  "encDynamicTableSizeUpdate dst sz = encInteger dst 0x20 5 sz"

definition Encoder_size_updates :: "Encoder \<Rightarrow> bytes \<Rightarrow> bytes \<times> Encoder" where
  "Encoder_size_updates enc dst =
     (if e_sizeChanged enc then
        let enc = enc\<lparr>e_sizeChanged := False\<rparr>;
            dst = (if e_minSize enc < tmaxSize (e_table enc)
                   then encDynamicTableSizeUpdate dst (ucast (e_minSize enc)) else dst);
            enc = enc\<lparr>e_minSize := maxUint32\<rparr>
        in (encDynamicTableSizeUpdate dst (ucast (tmaxSize (e_table enc))), enc)
      else (dst, enc))"

definition Encoder_EncodeHeaderField ::
  "Encoder \<Rightarrow> bytes \<Rightarrow> gostring \<Rightarrow> gostring \<Rightarrow> bool \<Rightarrow> (u32 \<times> bytes \<times> Encoder) option" where
  "Encoder_EncodeHeaderField enc dst name value sensitive =
     (let (dst, enc) = Encoder_size_updates enc dst;
          hsize = HeaderFieldSize name value
      in
      if sensitive then
        let (hsize, dst) = encLiteral dst name value indexedNever 0 (e_h enc) in Some (hsize, dst, enc)
      else if tmaxSize (e_table enc) = 0 then
        let (idx, matched) = index name value in
        if matched then Some (0, encIndexed dst idx, enc)
        else let (hsize, dst) = encLiteral dst name value indexedFalse idx (e_h enc) in Some (hsize, dst, enc)
      else if hsize > tmaxSize (e_table enc) then
        let (hsize, dst) = encLiteral dst name value indexedFalse 0 (e_h enc) in Some (hsize, dst, enc)
      else
        let (idx, matched) = headerTable_find (e_table enc) name value in
        if matched then Some (0, encIndexed dst idx, enc)
        else if e_i enc then
          let (hsize, dst) = encLiteral dst name value indexedTrue idx (e_h enc) in
          do {
            (_, t) \<leftarrow> headerTable_add (e_table enc) name value;
            Some (hsize, dst, enc\<lparr>e_table := t\<rparr>)
          }
        else
          let (hsize, dst) = encLiteral dst name value indexedFalse idx (e_h enc) in Some (hsize, dst, enc))"

section \<open>Decoder state\<close>

datatype 'e dec_err =
    ErrHeaderFieldsTooLarge
  | errNeedsMore
  | errHeaderTableSizeUpdateRequired
  | errHeaderTableSizeUpdate
  | errTruncated
  | errBadHeaderBlock
  | errBadHeaderTableSize
  | errBadIndexValue
  | errIntegerOverflow
  | HandlerError 'e

type_synonym ('e, 'h) HeaderFieldHandler = "gostring \<Rightarrow> gostring \<Rightarrow> bool \<Rightarrow> 'h \<Rightarrow> 'e option \<times> 'h"

record 'e Decoder =
  d_table :: headerTable
  d_maxSize :: u32
  d_maxSizeLimit :: u32
  d_sizeChanged :: bool
  d_n :: u32
  d_err :: "'e dec_err option"
  d_data :: bytes
  d_b :: bytes
  d_st :: bool

definition NewDecoder :: "u32 \<Rightarrow> 'e Decoder" where
  "NewDecoder maxHeaderTableSize =
     \<lparr>d_table = new_table maxHeaderTableSize, d_maxSize = maxHeaderTableSize,
      d_maxSizeLimit = maxHeaderTableSize, d_sizeChanged = False, d_n = 0, d_err = None,
      d_data = [], d_b = [], d_st = False\<rparr>"

definition Decoder_MaxHeaderTableSize :: "'e Decoder \<Rightarrow> u32" where
  "Decoder_MaxHeaderTableSize dec = tmaxSize (d_table dec)"

definition Decoder_SetMaxHeaderTableSize :: "'e Decoder \<Rightarrow> u32 \<Rightarrow> 'e Decoder option" where
  "Decoder_SetMaxHeaderTableSize dec mx =
     (let dec = dec\<lparr>d_maxSize := mx\<rparr> in
      if d_maxSize dec < d_maxSizeLimit dec then
        do {
          (_, t) \<leftarrow> headerTable_setMaxSize (d_table dec) mx;
          Some (dec\<lparr>d_sizeChanged := True, d_table := t\<rparr>)
        }
      else Some dec)"

definition Decoder_Len :: "'e Decoder \<Rightarrow> u32" where
  "Decoder_Len dec = d_n dec"

definition Decoder_Reset :: "'e Decoder \<Rightarrow> 'e dec_err option \<times> 'e Decoder" where
  "Decoder_Reset dec =
     (let dec = dec\<lparr>d_err := None, d_st := False, d_n := 0\<rparr> in
      if length (d_b dec) > 0 then (Some errTruncated, dec\<lparr>d_b := []\<rparr>) else (None, dec))"

section \<open>Primitive types\<close>

fun decInteger_loop :: "u64 \<Rightarrow> nat \<Rightarrow> bytes \<Rightarrow> ('e dec_err + u64) \<times> bytes" where
  "decInteger_loop i m [] = (Inl errNeedsMore, [])"
| "decInteger_loop i m (b # data) =
     (let i = i + push_bit m (ucast (b AND 127));
          m = m + 7
      in if b AND 128 = 0 then (Inr i, data)
         else if m \<ge> 63 then (Inl errIntegerOverflow, data)
         else decInteger_loop i m data)"

fun decInteger :: "bytes \<Rightarrow> nat \<Rightarrow> ('e dec_err + u64) \<times> bytes" where
  "decInteger [] n = (Inl errNeedsMore, [])"
| "decInteger (b # data) n =
     (let bound = int_bound n;
          i = ucast b AND bound
      in if i < bound then (Inr i, data) else decInteger_loop i 0 data)"

definition decStringLiteral :: "bytes \<Rightarrow> (('e dec_err + gostring) \<times> bytes) option" where
  "decStringLiteral data =
     (if data = [] then Some (Inl errNeedsMore, data)
      else let h = (hd data AND 128 \<noteq> 0) in
        (case decInteger data 7 of
           (Inl err, data) \<Rightarrow> Some (Inl err, data)
         | (Inr l, data) \<Rightarrow>
             if length data < unat l then Some (Inl errNeedsMore, data)
             else if h then
               do {
                 s \<leftarrow> HuffmanDecode [] (take (unat l) data);
                 Some (Inr s, drop (unat l) data)
               }
             else Some (Inr (take (unat l) data), drop (unat l) data)))"

section \<open>Representations\<close>

definition call_handler ::
  "('e, 'h) HeaderFieldHandler option \<Rightarrow> gostring \<Rightarrow> gostring \<Rightarrow> bool \<Rightarrow> 'h \<Rightarrow> 'e dec_err option \<times> 'h" where
  "call_handler handle n v sensitive h =
     (case handle of
        None \<Rightarrow> (None, h)
      | Some f \<Rightarrow> (case f n v sensitive h of (e, h) \<Rightarrow> (map_option HandlerError e, h)))"

definition decIndexed ::
  "('e, 'h) HeaderFieldHandler option \<Rightarrow> 'e Decoder \<Rightarrow> 'h \<Rightarrow> 'e dec_err option \<times> 'e Decoder \<times> 'h" where
  "decIndexed handle state h =
     (let state = state\<lparr>d_st := True\<rparr>;
          (r, data) = decInteger (d_data state) 7;
          state = state\<lparr>d_data := data\<rparr>
      in case r of
           Inl err \<Rightarrow> (Some err, state, h)
         | Inr idx \<Rightarrow>
             (case headerTable_entry (d_table state) idx of
                None \<Rightarrow> (Some errBadIndexValue, state, h)
              | Some hf \<Rightarrow>
                  (case call_handler handle (hf_name hf) (hf_value hf) False h of (e, h) \<Rightarrow> (e, state, h))))"

definition decLiteral_name ::
  "'e Decoder \<Rightarrow> nat \<Rightarrow> (('e dec_err + gostring \<times> u32) \<times> 'e Decoder) option" where
  "decLiteral_name state n =
     (let (r, data) = decInteger (d_data state) n;
          state = state\<lparr>d_data := data\<rparr>
      in case r of
           Inl err \<Rightarrow> Some (Inl err, state)
         | Inr idx \<Rightarrow>
             if idx > 0 then
               (case headerTable_entry (d_table state) idx of
                  None \<Rightarrow> Some (Inl errBadIndexValue, state)
                | Some hf \<Rightarrow> Some (Inr (hf_name hf, 0), state))
             else
               do {
                 (r, data) \<leftarrow> decStringLiteral (d_data state);
                 let state = state\<lparr>d_data := data\<rparr>;
                 case r of
                   Inl err \<Rightarrow> Some (Inl err, state)
                 | Inr name \<Rightarrow> Some (Inr (name, of_nat (length name)), state)
               })"

definition decLiteral ::
  "('e, 'h) HeaderFieldHandler option \<Rightarrow> 'e Decoder \<Rightarrow> indexType \<Rightarrow> 'h \<Rightarrow>
   (u32 \<times> 'e dec_err option \<times> 'e Decoder \<times> 'h) option" where
  "decLiteral handle state idxType h =
     (let state = state\<lparr>d_st := True\<rparr>;
          n = (case idxType of indexedTrue \<Rightarrow> 6 | indexedFalse \<Rightarrow> 4 | indexedNever \<Rightarrow> 4)
      in do {
        (r, state) \<leftarrow> decLiteral_name state n;
        case r of
          Inl err \<Rightarrow> Some (0, Some err, state, h)
        | Inr (name, hsize) \<Rightarrow>
            do {
              (r, data) \<leftarrow> decStringLiteral (d_data state);
              let state = state\<lparr>d_data := data\<rparr>;
              case r of
                Inl err \<Rightarrow> Some (0, Some err, state, h)
              | Inr value \<Rightarrow>
                  do {
                    let hsize = hsize + of_nat (length value + headerEntryOverhead);
                    state \<leftarrow> (if idxType = indexedTrue then
                       do {
                         (_, t) \<leftarrow> headerTable_add (d_table state) name value;
                         Some (state\<lparr>d_table := t\<rparr>)
                       }
                     else Some state);
                    let (e, h) = call_handler handle name value (idxType = indexedNever) h;
                    Some (hsize, e, state, h)
                  }
            }
      })"

definition decDynamicTableSizeUpdate :: "'e Decoder \<Rightarrow> ('e dec_err option \<times> 'e Decoder) option" where
  "decDynamicTableSizeUpdate state =
     (if d_st state then Some (Some errHeaderTableSizeUpdate, state)
      else
        let (r, data) = decInteger (d_data state) 5;
            state = state\<lparr>d_data := data\<rparr>
        in case r of
             Inl err \<Rightarrow> Some (Some err, state)
           | Inr i \<Rightarrow>
               let sz = ucast i in
               if sz > d_maxSize state then Some (Some errBadHeaderTableSize, state)
               else do {
                 (_, t) \<leftarrow> headerTable_setMaxSize (d_table state) sz;
                 Some (None, state\<lparr>d_maxSizeLimit := sz, d_sizeChanged := False, d_table := t\<rparr>)
               })"

definition decode_instr ::
  "('e, 'h) HeaderFieldHandler option \<Rightarrow> 'e Decoder \<Rightarrow> 'h \<Rightarrow>
   (u32 \<times> 'e dec_err option \<times> 'e Decoder \<times> 'h) option" where
  "decode_instr handle state h =
     (let b = d_data state ! 0 in
      if b AND 128 \<noteq> 0 then Some (0, decIndexed handle state h)
      else if b AND 192 = 64 then decLiteral handle state indexedTrue h
      else if b AND 240 = 0 then decLiteral handle state indexedFalse h
      else if b AND 240 = 16 then decLiteral handle state indexedNever h
      else if b AND 224 = 32 then
        do { (e, state) \<leftarrow> decDynamicTableSizeUpdate state; Some (0, e, state, h) }
      else Some (0, Some errBadHeaderBlock, state, h))"

definition decode ::
  "('e, 'h) HeaderFieldHandler option \<Rightarrow> 'e Decoder \<Rightarrow> 'h \<Rightarrow>
   (u32 \<times> 'e dec_err option \<times> 'e Decoder \<times> 'h) option" where
  "decode handle state h =
     do {
       (n, e, state', h) \<leftarrow> decode_instr handle state h;
       Some (n, e, (if e = Some errNeedsMore then state'\<lparr>d_data := d_data state\<rparr> else state'), h)
     }"

section \<open>Header blocks\<close>

definition more :: "'e Decoder \<Rightarrow> bool" where
  "more state = (length (d_data state) > 0)"

text \<open>
  The loop of \<open>Decode\<close>.  Every iteration that does not end it consumes input, so it is run
  with the length of the input as fuel; running out of fuel is \<open>None\<close>, which
  does not happen (theory \<open>Hpack_Decode\<close>).
\<close>

fun Decode_loop ::
  "nat \<Rightarrow> u32 \<Rightarrow> ('e, 'h) HeaderFieldHandler option \<Rightarrow> 'e Decoder \<Rightarrow> 'h \<Rightarrow>
   ('e dec_err option \<times> 'e Decoder \<times> 'h) option" where
  "Decode_loop fuel limit handle dec h =
     (if \<not> more dec then Some (None, dec, h)
      else (case fuel of
          0 \<Rightarrow> None
        | Suc fuel \<Rightarrow>
            do {
              (n, err, dec, h) \<leftarrow> decode handle dec h;
              case err of
                Some err \<Rightarrow>
                  if err = errNeedsMore then Some (None, dec\<lparr>d_b := d_b dec @ d_data dec\<rparr>, h)
                  else Some (Some err, dec, h)
              | None \<Rightarrow>
                  if limit \<noteq> 0 then
                    if d_n dec + n > limit then Some (Some ErrHeaderFieldsTooLarge, dec, h)
                    else Decode_loop fuel limit handle (dec\<lparr>d_n := d_n dec + n\<rparr>) h
                  else Decode_loop fuel limit handle dec h
            }))"

declare Decode_loop.simps [simp del]

definition Decoder_Decode ::
  "'e Decoder \<Rightarrow> bytes \<Rightarrow> u32 \<Rightarrow> ('e, 'h) HeaderFieldHandler option \<Rightarrow> 'h \<Rightarrow>
   (u32 \<times> 'e dec_err option \<times> 'e Decoder \<times> 'h) option" where
  "Decoder_Decode dec headerBlock headerBlockSizeLimit handle h =
     (case d_err dec of
        Some e \<Rightarrow> Some (d_n dec, Some e, dec, h)
      | None \<Rightarrow>
          if length headerBlock = 0 then Some (d_n dec, None, dec, h)
          else
            let dec = (if length (d_b dec) = 0 then dec\<lparr>d_data := headerBlock\<rparr>
                       else dec\<lparr>d_data := d_b dec @ headerBlock, d_b := []\<rparr>)
            in if d_sizeChanged dec \<and> d_data dec ! 0 AND 224 \<noteq> 32 then
                 let e = Some errHeaderTableSizeUpdateRequired in
                 Some (d_n dec, e, dec\<lparr>d_err := e\<rparr>, h)
               else do {
                 (err, dec, h) \<leftarrow> Decode_loop (length (d_data dec)) headerBlockSizeLimit handle dec h;
                 let dec = (case err of Some e \<Rightarrow> dec\<lparr>d_err := Some e\<rparr> | None \<Rightarrow> dec);
                 Some (d_n dec, err, dec, h)
               })"

end
