(* ===== verification/Hpack_Huffman_Bits.thy ===== *)
theory Hpack_Huffman_Bits
  imports Hpack_Huffman
begin

text \<open>
  Words and byte strings as bit strings, most significant bit first, and the encoder of
  \<^verbatim>\<open>src/hpack/huffman.go\<close> on them: one code word is appended to the output as its bits,
  whatever number of bits is free in the last byte.
\<close>

section \<open>Bit strings\<close>

definition wbits :: "'a::len word \<Rightarrow> nat \<Rightarrow> bool list" where
  "wbits w n = map (bit w) (rev [0..<n])"

abbreviation byte_bits :: "u8 \<Rightarrow> bool list" where
  "byte_bits b \<equiv> wbits b 8"

definition bits_of :: "bytes \<Rightarrow> bool list" where
  "bits_of bs = concat (map byte_bits bs)"

lemma length_wbits [simp]: "length (wbits w n) = n"
  by (simp add: wbits_def)

lemma wbits_0 [simp]: "wbits w 0 = []"
  by (simp add: wbits_def)

lemma nth_wbits: "i < n \<Longrightarrow> wbits w n ! i = bit w (n - Suc i)"
  by (simp add: wbits_def rev_nth)

lemma bits_of_simps [simp]:
  "bits_of [] = []" "bits_of (b # bs) = byte_bits b @ bits_of bs"
  "bits_of (xs @ ys) = bits_of xs @ bits_of ys"
  by (simp_all add: bits_of_def)

lemma length_bits_of [simp]: "length (bits_of bs) = 8 * length bs"
  by (induction bs) simp_all

lemma wbits_split: "m \<le> n \<Longrightarrow> wbits w n = wbits (drop_bit m w) (n - m) @ wbits w m"
  by (rule nth_equalityI)
     (auto simp: nth_wbits nth_append bit_drop_bit_eq intro!: arg_cong [where f = "bit w"])

lemma take_wbits: "m \<le> n \<Longrightarrow> take m (wbits w n) = wbits (drop_bit (n - m) w) m"
  using wbits_split [of "n - m" n w] by simp

lemma drop_wbits: "m \<le> n \<Longrightarrow> drop m (wbits w n) = wbits w (n - m)"
  using wbits_split [of "n - m" n w] by simp

lemma wbits_ucast:
  "n \<le> LENGTH('b) \<Longrightarrow> wbits (ucast (w :: 'a::len word) :: 'b::len word) n = wbits w n"
  by (rule nth_equalityI) (auto simp: nth_wbits bit_simps)

lemma wbits_push: "n + k \<le> LENGTH('a) \<Longrightarrow>
    wbits (push_bit k (w :: 'a::len word)) (n + k) = wbits w n @ replicate k False"
  by (rule nth_equalityI) (auto simp: nth_wbits nth_append bit_simps intro!: arg_cong [where f = "bit w"])

lemma wbits_or_shift:
  "n + 8 \<le> 64 \<Longrightarrow> wbits (push_bit 8 cur OR ucast (b :: u8) :: u64) (n + 8) = wbits cur n @ byte_bits b"
  by (rule nth_equalityI)
     (auto simp: nth_wbits nth_append bit_simps dest: bit_imp_le_length intro!: arg_cong2 [where f = bit])

lemma byte_bits_inj: "byte_bits a = byte_bits b \<Longrightarrow> a = b"
proof (rule bit_word_eqI)
  fix i assume "byte_bits a = byte_bits b" "i < LENGTH(8)"
  then show "bit a i = bit b i"
    using nth_wbits [of "7 - i" 8 a] nth_wbits [of "7 - i" 8 b] by simp
qed

lemma byte_of_shifted:
  "n \<le> 8 \<Longrightarrow> byte_bits (ucast (push_bit (8 - n) (cur :: 'a::len word))) = wbits cur n @ replicate (8 - n) False"
  if "8 \<le> LENGTH('a)"
  using that
  by (intro nth_equalityI)
     (auto simp: nth_wbits nth_append bit_simps intro!: arg_cong2 [where f = bit])

section \<open>The encoder writes the code words of its input\<close>

definition code_bits :: "u32 \<times> u8 \<Rightarrow> bool list" where
  "code_bits cb = wbits (fst cb) (unat (snd cb))"

definition sym_bits :: "nat \<Rightarrow> bool list" where
  "sym_bits i = code_bits (huffmanCodes ! i)"

definition text_bits :: "gostring \<Rightarrow> bool list" where
  "text_bits s = concat (map (\<lambda>c. sym_bits (unat c)) s)"

lemma wbits_zero_pad:
  assumes "take_bit m w = w" "m \<le> n"
  shows "wbits w n = replicate (n - m) False @ wbits w m"
proof -
  have "\<not> bit w i" if "m \<le> i" for i
    using assms(1) that by (metis bit_take_bit_iff not_le)
  with assms(2) show ?thesis
    by (intro nth_equalityI) (auto simp: nth_wbits nth_append intro!: arg_cong [where f = "bit w"])
qed

lemma wbits_or:
  "byte_bits (a OR b) = map2 (\<or>) (byte_bits a) (byte_bits b)"
  by (rule nth_equalityI) (auto simp: nth_wbits bit_or_iff)

lemma map2_or_False:
  "length xs = n \<Longrightarrow> map2 (\<or>) xs (replicate n False) = xs"
  "length xs = n \<Longrightarrow> map2 (\<or>) (replicate n False) xs = xs"
  by (induction xs arbitrary: n; auto)+

lemma bits_of_or_last:
  assumes "dst \<noteq> []" "bits_of dst = bs @ replicate k False" "k \<le> 8"
    and "byte_bits t = replicate (8 - k) False @ q"
  shows "bits_of (or_last dst t) = bs @ q"
proof -
  from assms(1) obtain ds b where dst: "dst = ds @ [b]" by (meson rev_exhaust)
  let ?r = "take (8 - k) (byte_bits b)"
  have len: "length q = k" using arg_cong [OF assms(4), of length] assms(3) by simp
  have "bs @ replicate k False = (bits_of ds @ ?r) @ drop (8 - k) (byte_bits b)"
    using assms(2) by (simp add: dst)
  then have "bs = bits_of ds @ ?r \<and> replicate k False = drop (8 - k) (byte_bits b)"
    by (rule iffD1 [OF append_eq_append_conv, rotated]) (use assms(3) in simp)
  then have bs: "bs = bits_of ds @ ?r" and z: "drop (8 - k) (byte_bits b) = replicate k False"
    by simp_all
  have "byte_bits (b OR t) = map2 (\<or>) (?r @ replicate k False) (replicate (8 - k) False @ q)"
    using append_take_drop_id [of "8 - k" "byte_bits b"] z by (simp add: wbits_or assms(4))
  also have "\<dots> = map2 (\<or>) ?r (replicate (8 - k) False) @ map2 (\<or>) (replicate k False) q"
    using len by (subst zip_append) simp_all
  also have "\<dots> = ?r @ q"
    using len by (simp add: map2_or_False assms(3))
  finally show ?thesis
    by (simp add: or_last_def dst bs)
qed

lemma HuffmanEncode_code_bits:
  assumes "dst \<noteq> []" "bits_of dst = bs @ replicate space False" "0 < space" "space \<le> 8"
    and "space = 8 \<or> take_bit nbits code = code" "0 < nbits"
  shows "\<exists>dst' space'. HuffmanEncode_code dst space code nbits = (dst', space') \<and> dst' \<noteq> []
    \<and> 0 < space' \<and> space' \<le> 8
    \<and> bits_of dst' = bs @ wbits code nbits @ (if space' = 8 then [] else replicate space' False)"
  using assms
proof (induction dst space code nbits arbitrary: bs rule: HuffmanEncode_code.induct)
  case (1 dst space code nbits)
  show ?case
  proof (cases "space > nbits")
    case True
    let ?t = "ucast (push_bit (space - nbits) code) :: u8" and ?n = "8 - (space - nbits)"
    have "byte_bits ?t = wbits code ?n @ replicate (space - nbits) False"
      using byte_of_shifted [of ?n code] "1.prems" by simp
    moreover have "wbits code ?n = replicate (8 - space) False @ wbits code nbits"
      using "1.prems"(4,5) True wbits_zero_pad [of nbits code ?n] by (auto simp: Suc_diff_le)
    ultimately have "byte_bits ?t = replicate (8 - space) False @ wbits code nbits @ replicate (space - nbits) False"
      by simp
    from bits_of_or_last [OF "1.prems"(1,2,4) this] True "1.prems"
    show ?thesis
      by (subst HuffmanEncode_code.simps) (auto simp: or_last_def)
  next
    case False
    let ?t = "ucast (drop_bit (nbits - space) code) :: u8"
    have tk: "wbits (drop_bit (nbits - space) code) space = take space (wbits code nbits)"
      using False take_wbits [of space nbits code] by simp
    have "take_bit space (drop_bit (nbits - space) code) = drop_bit (nbits - space) code" if "space \<noteq> 8"
      using "1.prems"(5) that False by (metis drop_bit_take_bit le_add_diff_inverse2 add_diff_cancel_right' not_less diff_diff_cancel)
    then have "byte_bits ?t = replicate (8 - space) False @ take space (wbits code nbits)"
      using wbits_zero_pad [of space "drop_bit (nbits - space) code" 8] "1.prems"(4) tk
      by (cases "space = 8") (simp_all add: wbits_ucast)
    from bits_of_or_last [OF "1.prems"(1,2,4) this]
    have b: "bits_of (or_last dst ?t) = bs @ take space (wbits code nbits)" .
    show ?thesis
    proof (cases "nbits - space = 0")
      case True
      with False b "1.prems"(1) show ?thesis
        by (subst HuffmanEncode_code.simps) (simp add: or_last_def)
    next
      case nz: False
      let ?dst = "or_last dst ?t @ [0]"
      have "byte_bits 0 = replicate 8 False"
        by (rule nth_equalityI) (auto simp: nth_wbits)
      with b have "bits_of ?dst = (bs @ take space (wbits code nbits)) @ replicate 8 False"
        by simp
      with "1.IH" [OF False refl nz, of "bs @ take space (wbits code nbits)"]
      obtain dst' space' where "HuffmanEncode_code ?dst 8 code (nbits - space) = (dst', space')" "dst' \<noteq> []"
        "0 < space'" "space' \<le> 8"
        and "bits_of dst' = (bs @ take space (wbits code nbits)) @ wbits code (nbits - space)
           @ (if space' = 8 then [] else replicate space' False)"
        using nz by auto
      moreover have "wbits code (nbits - space) = drop space (wbits code nbits)"
        using False by (simp add: drop_wbits)
      ultimately show ?thesis
        using False nz by (subst HuffmanEncode_code.simps) (simp add: Let_def)
    qed
  qed
qed

end
