(* ===== verification/Hpack_Huffman_Table.thy ===== *)
theory Hpack_Huffman_Table
  imports Hpack_Huffman_Bits
begin

text \<open>
  The code table of \<^verbatim>\<open>src/hpack/huffman.go\<close> is a complete prefix code: no code word is a
  prefix of another, and every string of 30 bits starts with a code word.  The table is
  swept once per code length by evaluation; the lemmas turn the sweep into both facts.
\<close>

section \<open>The code table is a complete prefix code\<close>

text \<open>
  A code word of \<open>L\<close> bits covers \<open>2 ^ (30 - L)\<close> of the 30-bit strings.  Listed by length,
  and by symbol within a length, the code words of the table cover the 30-bit strings from
  left to right without a gap or an overlap.
\<close>

definition cov_lo :: "u32 \<times> u8 \<Rightarrow> int" where
  "cov_lo x = uint (fst x) * 2 ^ (30 - unat (snd x))"

definition cov_hi :: "u32 \<times> u8 \<Rightarrow> int" where
  "cov_hi x = cov_lo x + 2 ^ (30 - unat (snd x))"

fun sweep :: "u8 \<Rightarrow> int \<Rightarrow> (u32 \<times> u8) list \<Rightarrow> int option" where
  "sweep L lo [] = Some lo"
| "sweep L lo (x # xs) =
     (if snd x \<noteq> L then sweep L lo xs
      else if cov_lo x = lo then sweep L (cov_hi x) xs else None)"

fun sweeps :: "int \<Rightarrow> u8 list \<Rightarrow> int option" where
  "sweeps lo [] = Some lo"
| "sweeps lo (L # Ls) = (case sweep L lo huffmanCodes of None \<Rightarrow> None | Some lo \<Rightarrow> sweeps lo Ls)"

definition widths :: "u8 list" where
  "widths = [5, 6, 7, 8, 10, 11, 12, 13, 14, 15, 19, 20, 21, 22, 23, 24, 25, 26, 27, 28, 30]"

lemma sweeps_append:
  "sweeps lo (Ls @ Ms) = (case sweeps lo Ls of None \<Rightarrow> None | Some mid \<Rightarrow> sweeps mid Ms)"
  by (induction Ls arbitrary: lo) (auto split: option.splits)

lemma sweeps_1: "sweeps 0 [5, 6, 7, 8, 10, 11, 12] = Some 0x3ff00000"
  by code_simp

lemma sweeps_2: "sweeps 0x3ff00000 [13, 14, 15, 19, 20, 21, 22] = Some 0x3fffec00"
  by code_simp

lemma sweeps_3: "sweeps 0x3fffec00 [23, 24, 25, 26, 27, 28, 30] = Some (2 ^ 30)"
  by code_simp

lemma sweeps_widths: "sweeps 0 widths = Some (2 ^ 30)"
proof -
  have w: "widths = [5, 6, 7, 8, 10, 11, 12] @ [13, 14, 15, 19, 20, 21, 22] @ [23, 24, 25, 26, 27, 28, 30]"
    by (simp add: widths_def)
  show ?thesis
    unfolding w sweeps_append sweeps_1 sweeps_2 option.case by (rule sweeps_3)
qed

lemma length_huffmanCodes [simp]: "length huffmanCodes = 257"
  by (simp add: huffmanCodes_def)

lemma huffmanCodes_widths: "\<forall>x\<in>set huffmanCodes. snd x \<in> set widths"
  by code_simp

lemma huffmanCodes_fit: "\<forall>x\<in>set huffmanCodes. uint (fst x) < 2 ^ unat (snd x)"
  by code_simp

lemma cov_nonempty: "cov_lo x < cov_hi x"
  by (simp add: cov_hi_def)

lemma sweep_mono: "sweep L lo xs = Some hi \<Longrightarrow> lo \<le> hi"
  by (induction xs arbitrary: lo) (auto split: if_splits dest: order_trans [OF less_imp_le [OF cov_nonempty]])

lemma sweep_bounds:
  "sweep L lo xs = Some hi \<Longrightarrow> x \<in> set xs \<Longrightarrow> snd x = L \<Longrightarrow> lo \<le> cov_lo x \<and> cov_hi x \<le> hi"
proof (induction xs arbitrary: lo)
  case (Cons y xs)
  show ?case
  proof (cases "snd y = L")
    case True
    with Cons.prems have "cov_lo y = lo" "sweep L (cov_hi y) xs = Some hi"
      by (auto split: if_splits)
    with Cons sweep_mono [of L "cov_hi y" xs hi] cov_nonempty [of y] show ?thesis
      by fastforce
  qed (use Cons in auto)
qed simp

lemma sweep_disjoint:
  "sweep L lo xs = Some hi \<Longrightarrow> k < l \<Longrightarrow> l < length xs \<Longrightarrow> snd (xs ! k) = L \<Longrightarrow> snd (xs ! l) = L \<Longrightarrow>
   cov_hi (xs ! k) \<le> cov_lo (xs ! l)"
proof (induction xs arbitrary: lo k l)
  case (Cons y xs)
  obtain l' where l: "l = Suc l'" using Cons.prems(2) by (cases l) auto
  show ?case
  proof (cases k)
    case 0
    with Cons.prems have "sweep L (cov_hi y) xs = Some hi" by (auto split: if_splits)
    from sweep_bounds [OF this, of "xs ! l'"] Cons.prems l 0 show ?thesis by simp
  next
    case (Suc k')
    from Cons.prems obtain lo' where "sweep L lo' xs = Some hi" by (auto split: if_splits)
    from Cons.IH [OF this, of k' l'] Cons.prems l Suc show ?thesis by simp
  qed
qed simp

lemma sweep_covers:
  "sweep L lo xs = Some hi \<Longrightarrow> lo \<le> w \<Longrightarrow> w < hi \<Longrightarrow> \<exists>x\<in>set xs. cov_lo x \<le> w \<and> w < cov_hi x"
proof (induction xs arbitrary: lo)
  case (Cons y xs)
  then show ?case
    by (cases "snd y = L"; cases "w < cov_hi y") (auto split: if_splits)
qed simp

lemma sweeps_mono: "sweeps lo Ls = Some hi \<Longrightarrow> lo \<le> hi"
  by (induction Ls arbitrary: lo) (auto split: option.splits dest: sweep_mono intro: order_trans)

lemma sweeps_bounds:
  "sweeps lo Ls = Some hi \<Longrightarrow> x \<in> set huffmanCodes \<Longrightarrow> snd x \<in> set Ls \<Longrightarrow>
   lo \<le> cov_lo x \<and> cov_hi x \<le> hi"
proof (induction Ls arbitrary: lo)
  case (Cons L Ls)
  from Cons.prems(1) obtain mid where m: "sweep L lo huffmanCodes = Some mid" "sweeps mid Ls = Some hi"
    by (auto split: option.splits)
  then have "lo \<le> mid" "mid \<le> hi" by (auto dest: sweep_mono sweeps_mono)
  moreover have "mid \<le> cov_lo x \<and> cov_hi x \<le> hi" if "snd x \<in> set Ls"
    using m(2) Cons.prems(2) that by (rule Cons.IH)
  ultimately show ?case
    using sweep_bounds [OF m(1) Cons.prems(2)] Cons.prems(3) by auto
qed simp

lemma sweeps_disjoint:
  assumes "sweeps lo Ls = Some hi" "k < 257" "l < 257" "k \<noteq> l"
    and "snd (huffmanCodes ! k) \<in> set Ls" "snd (huffmanCodes ! l) \<in> set Ls"
  shows "cov_hi (huffmanCodes ! k) \<le> cov_lo (huffmanCodes ! l) \<or> cov_hi (huffmanCodes ! l) \<le> cov_lo (huffmanCodes ! k)"
  using assms
proof (induction Ls arbitrary: lo)
  case (Cons L Ls)
  let ?k = "huffmanCodes ! k" and ?l = "huffmanCodes ! l"
  from Cons.prems(1) obtain mid where m: "sweep L lo huffmanCodes = Some mid" "sweeps mid Ls = Some hi"
    by (auto split: option.splits)
  have in_set: "?k \<in> set huffmanCodes" "?l \<in> set huffmanCodes"
    using Cons.prems by auto
  note b = sweep_bounds [OF m(1) in_set(1)] sweep_bounds [OF m(1) in_set(2)]
    sweeps_bounds [OF m(2) in_set(1)] sweeps_bounds [OF m(2) in_set(2)]
  consider "snd ?k = L" "snd ?l = L" | "snd ?k = L" "snd ?l \<in> set Ls" | "snd ?k \<in> set Ls" "snd ?l = L"
    | "snd ?k \<in> set Ls" "snd ?l \<in> set Ls"
    using Cons.prems by auto
  then show ?case
  proof cases
    case 1
    then show ?thesis
      using sweep_disjoint [OF m(1), of k l] sweep_disjoint [OF m(1), of l k] Cons.prems(2-4)
      by (auto simp: neq_iff)
  next
    case 4
    with Cons.IH [OF m(2)] Cons.prems show ?thesis by blast
  qed (use b in linarith)+
qed simp

lemma sweeps_covers:
  "sweeps lo Ls = Some hi \<Longrightarrow> lo \<le> w \<Longrightarrow> w < hi \<Longrightarrow> \<exists>x\<in>set huffmanCodes. cov_lo x \<le> w \<and> w < cov_hi x"
proof (induction Ls arbitrary: lo)
  case (Cons L Ls)
  from Cons.prems(1) obtain mid where m: "sweep L lo huffmanCodes = Some mid" "sweeps mid Ls = Some hi"
    by (auto split: option.splits)
  show ?case
  proof (cases "w < mid")
    case True
    with sweep_covers [OF m(1) Cons.prems(2)] show ?thesis by simp
  next
    case False
    with Cons.IH [OF m(2)] Cons.prems(3) show ?thesis by simp
  qed
qed simp

lemma wbits_surj:
  assumes "length bs \<le> LENGTH('a)"
  obtains w :: "'a::len word" where "wbits w (length bs) = bs" "take_bit (length bs) w = w"
proof
  let ?w = "horner_sum of_bool 2 (rev bs) :: 'a word"
  have b: "bit ?w i \<longleftrightarrow> i < length bs \<and> rev bs ! i" for i
    using assms by (auto simp: bit_horner_sum_bit_word_iff)
  show "wbits ?w (length bs) = bs"
  proof (rule nth_equalityI)
    fix i assume "i < length (wbits ?w (length bs))"
    then have "length bs - Suc i < length bs" "i < length bs" by auto
    then show "wbits ?w (length bs) ! i = bs ! i"
      using b [of "length bs - Suc i"] by (simp add: nth_wbits rev_nth Suc_diff_Suc)
  qed simp
  show "take_bit (length bs) ?w = ?w"
    by (rule bit_word_eqI) (auto simp: bit_take_bit_iff b)
qed

lemma window_word:
  assumes "length bs = 30"
  obtains w :: u32 where "wbits w 30 = bs" "take_bit 30 w = w"
  using wbits_surj [of bs, where 'a = 32] assms by auto

lemma wbits_eq_iff:
  assumes "take_bit n v = v" "take_bit n w = w"
  shows "wbits v n = wbits w n \<longleftrightarrow> v = w"
proof
  assume eq: "wbits v n = wbits w n"
  have "bit v i = bit w i" for i
  proof (cases "i < n")
    case True
    then show ?thesis
      using nth_wbits [of "n - Suc i" n v] nth_wbits [of "n - Suc i" n w] eq by simp
  next
    case False
    with assms show ?thesis by (metis bit_take_bit_iff)
  qed
  then show "v = w" by (simp add: bit_eq_iff)
qed simp

lemma uint_drop_bit_div: "uint (drop_bit d w) = uint w div 2 ^ d"
  by (simp only: unsigned_drop_bit_eq) (simp add: drop_bit_eq_div flip: unsigned_take_bit_eq)

lemma wbits_prefix_iff:
  fixes v w :: "'a::len word"
  assumes "m \<le> n" "take_bit m v = v" "take_bit n w = w"
  shows "prefix (wbits v m) (wbits w n) \<longleftrightarrow> uint v = uint w div 2 ^ (n - m)"
proof -
  have "prefix (wbits v m) (wbits w n) \<longleftrightarrow> wbits v m = take m (wbits w n)"
    using assms(1) by (metis length_wbits prefixE append_eq_conv_conj take_is_prefix)
  also have "\<dots> \<longleftrightarrow> wbits v m = wbits (drop_bit (n - m) w) m"
    using assms(1) by (simp add: take_wbits)
  also have "\<dots> \<longleftrightarrow> v = drop_bit (n - m) w"
  proof (rule wbits_eq_iff [OF assms(2)])
    have "take_bit m (drop_bit (n - m) w) = drop_bit (n - m) (take_bit n w)"
      using assms(1) by (simp add: drop_bit_take_bit)
    then show "take_bit m (drop_bit (n - m) w) = drop_bit (n - m) w"
      by (simp add: assms(3))
  qed
  also have "\<dots> \<longleftrightarrow> uint v = uint w div 2 ^ (n - m)"
    by (simp add: uint_drop_bit_div word_uint_eq_iff del: drop_bit_eq_div)
  finally show ?thesis .
qed

lemma take_bit_fit: "uint w < 2 ^ n \<Longrightarrow> take_bit n w = (w :: 'a::len word)"
  by (metis take_bit_int_eq_self uint_ge_0 unsigned_take_bit_eq word_uint_eq_iff)

lemma div_eq_iff_bounds:
  assumes "0 < (p :: int)"
  shows "c = w div p \<longleftrightarrow> c * p \<le> w \<and> w < c * p + p"
proof
  assume "c = w div p"
  then have "c * p + w mod p = w" by simp
  moreover have "0 \<le> w mod p" "w mod p < p" using assms by simp_all
  ultimately show "c * p \<le> w \<and> w < c * p + p" by linarith
next
  assume "c * p \<le> w \<and> w < c * p + p"
  then show "c = w div p"
    by (intro int_div_pos_eq [of w p c "w - c * p", symmetric]) (auto simp: algebra_simps)
qed

lemma entry_facts:
  assumes "x \<in> set huffmanCodes"
  shows "5 \<le> unat (snd x)" "unat (snd x) \<le> 30" "take_bit (unat (snd x)) (fst x) = fst x"
    "uint (fst x) < 2 ^ unat (snd x)"
proof -
  have "\<forall>L\<in>set widths. 5 \<le> unat L \<and> unat L \<le> 30" by (simp add: widths_def)
  with assms huffmanCodes_widths show "5 \<le> unat (snd x)" "unat (snd x) \<le> 30" by blast+
  from assms huffmanCodes_fit show "uint (fst x) < 2 ^ unat (snd x)" by blast
  then show "take_bit (unat (snd x)) (fst x) = fst x" by (rule take_bit_fit)
qed

lemma prefix_window:
  fixes w :: u32
  assumes "x \<in> set huffmanCodes" "take_bit 30 w = w"
  shows "prefix (code_bits x) (wbits w 30) \<longleftrightarrow> cov_lo x \<le> uint w \<and> uint w < cov_hi x"
  using entry_facts [OF assms(1)] assms(2)
  by (simp add: code_bits_def wbits_prefix_iff div_eq_iff_bounds cov_lo_def cov_hi_def)

lemma prefix_code:
  assumes "i < 257" "j < 257" "prefix (sym_bits i) bs" "prefix (sym_bits j) bs"
  shows "i = j"
proof (rule ccontr)
  assume ne: "i \<noteq> j"
  let ?x = "huffmanCodes ! i" and ?y = "huffmanCodes ! j"
  have xy: "?x \<in> set huffmanCodes" "?y \<in> set huffmanCodes" using assms by auto
  let ?ws = "take 30 (bs @ replicate 30 False)"
  have "length ?ws = 30" by simp
  then obtain w :: u32 where w: "wbits w 30 = ?ws" "take_bit 30 w = w"
    by (rule window_word)
  have pre: "prefix (sym_bits k) ?ws" if "prefix (sym_bits k) bs" "length (sym_bits k) \<le> 30" for k
    using that by (auto simp: prefix_def)
  have cov: "cov_lo (huffmanCodes ! k) \<le> uint w \<and> uint w < cov_hi (huffmanCodes ! k)"
    if "k < 257" "prefix (sym_bits k) bs" for k
  proof -
    have k: "huffmanCodes ! k \<in> set huffmanCodes" using that by simp
    then have "length (sym_bits k) \<le> 30"
      using entry_facts [OF k] by (simp add: sym_bits_def code_bits_def)
    with pre that w(1) have "prefix (sym_bits k) (wbits w 30)" by simp
    then show ?thesis
      using prefix_window [OF k w(2)] by (simp add: sym_bits_def)
  qed
  with sweeps_disjoint [OF sweeps_widths assms(1,2) ne] huffmanCodes_widths xy cov [OF assms(1,3)] cov [OF assms(2,4)] show False by force
qed

lemma code_complete:
  assumes "length bs = 30"
  shows "\<exists>i<257. prefix (sym_bits i) bs"
proof -
  from assms obtain w :: u32 where w: "wbits w 30 = bs" "take_bit 30 w = w"
    by (rule window_word)
  have "uint w < 2 ^ 30" using w(2) by (metis take_bit_int_less_exp unsigned_take_bit_eq)
  with sweeps_covers [OF sweeps_widths, of "uint w"] obtain x where "x \<in> set huffmanCodes"
    "cov_lo x \<le> uint w" "uint w < cov_hi x"
    by auto
  with prefix_window w show ?thesis
    by (metis in_set_conv_nth length_huffmanCodes sym_bits_def)
qed

end
