(* ===== verification/Hpack_Huffman_Tree.thy ===== *)
theory Hpack_Huffman_Tree
  imports Hpack_Huffman_Table
begin

text \<open>
  The byte-indexed decoding tree of \<^verbatim>\<open>newHuffmanTree\<close> (\<^verbatim>\<open>src/hpack/huffman.go\<close>).  Inserting
  a code word leaves every path that does not meet it alone and makes all paths that start
  with it end in its leaf; so the tree of a prefix code has exactly the leaves of its code
  words, and building it does not panic.  The locale \<open>code_table\<close> is what tree and decoder
  require of a table.
\<close>

section \<open>The decoding tree\<close>

fun walk :: "huffmanNode \<Rightarrow> bytes \<Rightarrow> huffmanNode option" where
  "walk n [] = Some n"
| "walk n (b # p) = (case child_of n b of None \<Rightarrow> None | Some m \<Rightarrow> walk m p)"

definition n_bytes :: "bool list \<Rightarrow> nat" where
  "n_bytes cb = (length cb + 7) div 8"

definition is_path :: "bool list \<Rightarrow> bytes \<Rightarrow> bool" where
  "is_path cb p \<longleftrightarrow> prefix cb (bits_of p) \<and> length p = n_bytes cb"

definition leaf_bits :: "bool list \<Rightarrow> nat" where
  "leaf_bits cb = length cb - 8 * (n_bytes cb - 1)"

definition leaf_of :: "nat \<Rightarrow> bool list \<Rightarrow> huffmanNode" where
  "leaf_of i cb = HuffmanNode (of_nat i) (leaf_bits cb) None"

lemma walk_append: "walk n (p @ q) = (case walk n p of None \<Rightarrow> None | Some m \<Rightarrow> walk m q)"
  by (induction p arbitrary: n) (auto split: option.splits)

lemma walk_leaf: "children n = None \<Longrightarrow> walk n p = Some m \<longleftrightarrow> p = [] \<and> m = n"
  by (cases p) (auto simp: child_of_def)

lemma walk_newInnerNode: "walk newInnerNode p = Some m \<longleftrightarrow> p = [] \<and> m = newInnerNode"
  by (cases p) (auto simp: child_of_def newInnerNode_def)

lemma fold_fill:
  "hi \<le> 256 \<Longrightarrow> fold (\<lambda>j ch. ch(of_nat j := v)) [lo..<hi] ch b = (if lo \<le> unat b \<and> unat b < hi then v else ch (b :: u8))"
proof (induction hi)
  case (Suc hi)
  then have "of_nat hi = b \<longleftrightarrow> unat b = hi"
    using unat_of_nat8 [of hi] by auto
  with Suc show ?case by (auto simp: upt_Suc)
qed simp

lemma fill_range:
  fixes code :: u32 and b :: u8
  assumes "0 < n" "n \<le> 8"
  defines "start \<equiv> unat (ucast (push_bit (8 - n) code) :: u8)"
  shows "start + 2 ^ (8 - n) \<le> 256"
    and "start \<le> unat b \<and> unat b < start + 2 ^ (8 - n) \<longleftrightarrow> prefix (wbits code n) (byte_bits b)"
proof -
  let ?s = "ucast (push_bit (8 - n) code) :: u8"
  have s: "byte_bits ?s = wbits code n @ replicate (8 - n) False"
    using assms(2) by (intro byte_of_shifted) simp_all
  let ?c = "drop_bit (8 - n) ?s"
  have c: "take_bit n ?c = ?c"
    using assms(2) by (intro bit_word_eqI) (auto simp: bit_simps)
  have "wbits ?c n = wbits code n"
    using s take_wbits [of n 8 ?s] assms(2) by simp
  then have "prefix (wbits code n) (byte_bits b) \<longleftrightarrow> uint ?c = uint b div 2 ^ (8 - n)"
    using wbits_prefix_iff [of n 8 ?c b] c assms(2) by (simp add: take_bit_word_eq_self)
  also have "\<dots> \<longleftrightarrow> uint ?c * 2 ^ (8 - n) \<le> uint b \<and> uint b < uint ?c * 2 ^ (8 - n) + 2 ^ (8 - n)"
    by (rule div_eq_iff_bounds) simp
  finally have p: "prefix (wbits code n) (byte_bits b) \<longleftrightarrow>
    uint ?c * 2 ^ (8 - n) \<le> uint b \<and> uint b < uint ?c * 2 ^ (8 - n) + 2 ^ (8 - n)" .
  have dvd: "uint ?s = uint ?c * 2 ^ (8 - n)"
  proof -
    have "uint ?c = uint ?s div 2 ^ (8 - n)" by (rule uint_drop_bit_div)
    moreover have "take_bit (8 - n) ?s = 0"
      by (intro bit_word_eqI) (auto simp: bit_simps)
    then have "uint ?s mod 2 ^ (8 - n) = 0"
      by (metis take_bit_eq_mod unsigned_take_bit_eq unsigned_0)
    ultimately show ?thesis by (metis add.right_neutral div_mult_mod_eq)
  qed
  have u: "uint ?s = int start" "uint b = int (unat b)" by (simp_all add: start_def)
  have pw: "(2 :: int) ^ (8 - n) = int (2 ^ (8 - n))" by simp
  show "start \<le> unat b \<and> unat b < start + 2 ^ (8 - n) \<longleftrightarrow> prefix (wbits code n) (byte_bits b)"
    using p [folded dvd] unfolding u pw by linarith
  have "uint ?c < 2 ^ n"
    using c by (metis take_bit_int_less_exp unsigned_take_bit_eq)
  then have "(uint ?c + 1) * 2 ^ (8 - n) \<le> 2 ^ n * 2 ^ (8 - n)"
    by (intro mult_right_mono) simp_all
  also have "\<dots> = 256"
    using assms(2) by (simp flip: power_add)
  finally have "int start + 2 ^ (8 - n) \<le> 256"
    using dvd u by (simp add: algebra_simps)
  then have "int (start + 2 ^ (8 - n)) \<le> int 256" by simp
  then show "start + 2 ^ (8 - n) \<le> 256"
    by (simp only: of_nat_le_iff)
qed

lemma n_bytes_pos: "cb \<noteq> [] \<Longrightarrow> 0 < n_bytes cb"
  by (cases cb) (simp_all add: n_bytes_def)

definition free_path :: "huffmanNode \<Rightarrow> bool list \<Rightarrow> bool" where
  "free_path cur cb \<longleftrightarrow> children cur \<noteq> None
     \<and> (\<forall>p n. walk cur p = Some n \<longrightarrow> children n = None \<longrightarrow> \<not> prefix (bits_of p) cb)"

definition extends :: "huffmanNode \<Rightarrow> huffmanNode \<Rightarrow> bool list \<Rightarrow> u8 \<Rightarrow> bool" where
  "extends cur cur' cb s \<longleftrightarrow> children cur' \<noteq> None
     \<and> (\<forall>p. is_path cb p \<longrightarrow> walk cur' p = Some (HuffmanNode s (leaf_bits cb) None))
     \<and> (\<forall>p. \<not> prefix cb (bits_of p) \<longrightarrow> \<not> prefix (bits_of p) cb \<longrightarrow> walk cur' p = walk cur p)
     \<and> (\<forall>p n. walk cur' p = Some n \<longrightarrow> children n = None \<longrightarrow>
          prefix cb (bits_of p) \<or> prefix (bits_of p) cb \<longrightarrow> is_path cb p)"

lemma walk_children: "children n = children m \<Longrightarrow> walk n (b # p) = walk m (b # p)"
  by (simp add: child_of_def)

lemma prefix_byte:
  assumes "length cb \<le> 8"
  shows "prefix cb (byte_bits b @ bs) \<longleftrightarrow> prefix cb (byte_bits b)"
  using assms by (metis length_wbits prefix_append prefix_length_prefix prefix_prefix prefixI)

lemma extends_last:
  assumes "cb \<noteq> []" "length cb \<le> 8" "free_path cur cb" "children cur = Some ch"
    and ch': "\<And>b. ch' b = (if prefix cb (byte_bits b) then Some (HuffmanNode s (length cb) None) else ch b)"
  shows "extends cur (HuffmanNode x y (Some ch')) cb s"
proof -
  let ?cur = "HuffmanNode x y (Some ch')" and ?leaf = "HuffmanNode s (length cb) None"
  have nb: "n_bytes cb = 1" and lb: "leaf_bits cb = length cb"
    using assms(1,2) by (cases cb; simp add: n_bytes_def leaf_bits_def)+
  have w: "walk ?cur (b # p) = (if prefix cb (byte_bits b) then walk ?leaf p else walk cur (b # p))" for b p
    using ch' [of b] assms(4) by (simp add: child_of_def)
  have leaf: "walk ?leaf p = (if p = [] then Some ?leaf else None)" for p
    by (cases p) (simp_all add: child_of_def)
  note pre = prefix_byte [OF assms(2)]
  have "walk ?cur p = Some (HuffmanNode s (leaf_bits cb) None)" if "is_path cb p" for p
    using that nb lb by (cases p) (auto simp: is_path_def w leaf simp del: walk.simps)
  moreover have "walk ?cur p = walk cur p" if "\<not> prefix cb (bits_of p)" "\<not> prefix (bits_of p) cb" for p
    using that by (cases p) (auto simp: w pre simp del: walk.simps)
  moreover have "is_path cb p"
    if n: "walk ?cur p = Some n" "children n = None" and pc: "prefix cb (bits_of p) \<or> prefix (bits_of p) cb" for p n
  proof (cases p)
    case Nil
    with n show ?thesis by auto
  next
    case (Cons b q)
    have "prefix cb (byte_bits b)"
    proof (rule ccontr)
      assume np: "\<not> prefix cb (byte_bits b)"
      with n(1) Cons have "walk cur p = Some n" by (simp add: w del: walk.simps)
      with assms(3) n(2) have "\<not> prefix (bits_of p) cb" by (auto simp: free_path_def)
      with pc np Cons pre show False by simp
    qed
    with n(1) Cons nb show ?thesis by (auto simp: w leaf is_path_def simp del: walk.simps split: if_splits)
  qed
  ultimately show ?thesis unfolding extends_def by simp
qed

lemma prefix_byte_step:
  assumes "cb = byte_bits j @ rest" 
  shows "prefix cb (bits_of (b # q)) \<longleftrightarrow> b = j \<and> prefix rest (bits_of q)"
    and "prefix (bits_of (b # q)) cb \<longleftrightarrow> b = j \<and> prefix (bits_of q) rest"
  using byte_bits_inj [of b j] by (auto simp: assms prefix_def)

lemma free_path_step:
  assumes "free_path cur cb" "cb = byte_bits j @ rest" "children cur = Some ch"
  shows "free_path (case ch j of None \<Rightarrow> newInnerNode | Some n \<Rightarrow> n) rest"
proof (cases "ch j")
  case None
  then show ?thesis by (auto simp: free_path_def walk_newInnerNode) (simp_all add: newInnerNode_def)
next
  case (Some m)
  then have w: "walk cur (j # q) = walk m q" for q
    using assms(3) by (simp add: child_of_def)
  have f: "\<not> prefix (bits_of p) rest" if "walk m p = Some n" "children n = None" for p n
  proof -
    from that w have "walk cur (j # p) = Some n" by (simp del: walk.simps)
    with assms(1) that(2) have "\<not> prefix (bits_of (j # p)) cb" unfolding free_path_def by blast
    then show ?thesis using prefix_byte_step(2) [OF assms(2), of j p] by simp
  qed
  moreover have "children m \<noteq> None"
    using f [of "[]" m] by auto
  ultimately show ?thesis using Some by (auto simp: free_path_def)
qed

lemma extends_step:
  assumes "cb = byte_bits j @ rest" "rest \<noteq> []" "children cur = Some ch"
    and ext: "extends (case ch j of None \<Rightarrow> newInnerNode | Some n \<Rightarrow> n) child' rest s"
  shows "extends cur (HuffmanNode x y (Some (ch(j := Some child')))) cb s"
proof -
  let ?cur = "HuffmanNode x y (Some (ch(j := Some child')))"
  let ?child = "case ch j of None \<Rightarrow> newInnerNode | Some n \<Rightarrow> n"
  have e1: "walk child' q = Some (HuffmanNode s (leaf_bits rest) None)" if "is_path rest q" for q
    using ext that unfolding extends_def by blast
  have e2: "walk child' q = walk ?child q" if "\<not> prefix rest (bits_of q)" "\<not> prefix (bits_of q) rest" for q
    using ext that unfolding extends_def by blast
  have e3: "is_path rest q" if "walk child' q = Some n" "children n = None"
    "prefix rest (bits_of q) \<or> prefix (bits_of q) rest" for q n
    using ext that unfolding extends_def by blast
  note pre = prefix_byte_step [OF assms(1)]
  have w: "walk ?cur (b # q) = (if b = j then walk child' q else walk cur (b # q))" for b q
    using assms(3) by (simp add: child_of_def)
  have len: "length cb = 8 + length rest" by (simp add: assms(1))
  then have nb: "n_bytes cb = Suc (n_bytes rest)" by (simp add: n_bytes_def)
  with len n_bytes_pos [OF assms(2)] have lb: "leaf_bits cb = leaf_bits rest"
    by (simp add: leaf_bits_def)
  have path: "is_path cb (b # q) \<longleftrightarrow> b = j \<and> is_path rest q" for b q
    by (auto simp: is_path_def pre nb simp del: bits_of_simps)
  have "walk ?cur p = Some (HuffmanNode s (leaf_bits cb) None)" if "is_path cb p" for p
  proof (cases p)
    case Nil
    with that nb show ?thesis by (simp add: is_path_def)
  next
    case (Cons b q)
    with that have "b = j" "is_path rest q" using path by simp_all
    with Cons e1 [of q] show ?thesis by (simp add: w lb del: walk.simps)
  qed
  moreover have "walk ?cur p = walk cur p" if np: "\<not> prefix cb (bits_of p)" "\<not> prefix (bits_of p) cb" for p
  proof (cases p)
    case Nil
    with np show ?thesis by simp
  next
    case (Cons b q)
    show ?thesis
    proof (cases "b = j")
      case True
      with np Cons have nq: "\<not> prefix rest (bits_of q)" "\<not> prefix (bits_of q) rest"
        using pre [of b q] by auto
      then have "q \<noteq> []" by auto
      then have "walk ?child q = walk cur (j # q)"
        using assms(3) by (cases q; cases "ch j") (simp_all add: child_of_def newInnerNode_def)
      with e2 [OF nq] True Cons show ?thesis by (simp add: w del: walk.simps)
    next
      case False
      then show ?thesis by (simp add: w Cons del: walk.simps)
    qed
  qed
  moreover have "is_path cb p"
    if n: "walk ?cur p = Some n" "children n = None" and pc: "prefix cb (bits_of p) \<or> prefix (bits_of p) cb" for p n
  proof (cases p)
    case Nil
    with n show ?thesis by auto
  next
    case (Cons b q)
    with pc have "b = j" "prefix rest (bits_of q) \<or> prefix (bits_of q) rest"
      using pre [of b q] by auto
    moreover from this n(1) Cons have "walk child' q = Some n" by (simp add: w del: walk.simps)
    ultimately show ?thesis using e3 [of q n] n(2) Cons path by simp
  qed
  ultimately show ?thesis unfolding extends_def by simp
qed

lemma insertCode_extends:
  fixes code :: u32
  assumes "0 < bits" "free_path cur (wbits code bits)"
  shows "\<exists>cur'. insertCode cur s code bits = Some cur' \<and> extends cur cur' (wbits code bits) s"
  using assms
proof (induction cur s code bits rule: insertCode.induct)
  case (1 cur s code bits)
  from "1.prems"(2) obtain ch where ch: "children cur = Some ch" by (auto simp: free_path_def)
  show ?case
  proof (cases "bits > 8")
    case False
    let ?start = "unat (ucast (push_bit (8 - bits) code) :: u8)"
    let ?ch = "fold (\<lambda>j ch. ch(of_nat j := Some (HuffmanNode s bits None))) [?start..<?start + 2 ^ (8 - bits)] ch"
    have le: "?start + 2 ^ (8 - bits) \<le> 256"
      using "1.prems"(1) False by (intro fill_range(1)) simp_all
    have "?ch b = (if prefix (wbits code bits) (byte_bits b) then Some (HuffmanNode s bits None) else ch b)" for b
      unfolding fold_fill [OF le] using fill_range(2) [of bits code b] "1.prems"(1) False by simp
    then have "extends cur (HuffmanNode (sym cur) (nodeBits cur) (Some ?ch)) (wbits code bits) s"
      using "1.prems" False ch by (intro extends_last) (auto simp: wbits_def)
    then show ?thesis
      using False ch by (subst insertCode.simps) (simp add: Let_def)
  next
    case True
    let ?j = "ucast (drop_bit (bits - 8) code) :: u8"
    have cb: "wbits code bits = byte_bits ?j @ wbits code (bits - 8)"
      using True wbits_split [of "bits - 8" bits code] by (simp add: wbits_ucast)
    from "1.IH" [OF ch True refl refl refl _ free_path_step [OF "1.prems"(2) cb ch]] True
    obtain child' where
      ins: "insertCode (case ch ?j of None \<Rightarrow> newInnerNode | Some n \<Rightarrow> n) s code (bits - 8) = Some child'"
      and ext: "extends (case ch ?j of None \<Rightarrow> newInnerNode | Some n \<Rightarrow> n) child' (wbits code (bits - 8)) s"
      by auto
    have "wbits code (bits - 8) \<noteq> []" using True by (simp add: wbits_def)
    from extends_step [OF cb this ch ext] ins show ?thesis
      using True ch by (subst insertCode.simps) (simp add: Let_def)
  qed
qed

section \<open>A table of code words and its tree\<close>

text \<open>
  What the decoder relies on: the code words are of 1 to 30 bits, no two of them are
  prefixes of the same bit string, every 30-bit string starts with one of them, and only
  code words of 8 bits and more consist of ones.  The lemmas of this locale are the
  correctness of the tree and of the decoder for any such table.
\<close>

locale code_table =
  fixes codes :: "(u32 \<times> u8) list"
  assumes width: "x \<in> set codes \<Longrightarrow> 0 < unat (snd x) \<and> unat (snd x) \<le> 30"
    and unique: "i < length codes \<Longrightarrow> j < length codes \<Longrightarrow> prefix (code_bits (codes ! i)) bs \<Longrightarrow>
      prefix (code_bits (codes ! j)) bs \<Longrightarrow> i = j"
    and complete: "length bs = 30 \<Longrightarrow> \<exists>i<length codes. prefix (code_bits (codes ! i)) bs"
    and ones: "i < length codes \<Longrightarrow> code_bits (codes ! i) = replicate m True \<Longrightarrow> 8 \<le> m"
begin

abbreviation cw :: "nat \<Rightarrow> bool list" where
  "cw i \<equiv> code_bits (codes ! i)"

definition tree_inv :: "huffmanNode \<Rightarrow> nat \<Rightarrow> bool" where
  "tree_inv root m \<longleftrightarrow> children root \<noteq> None
     \<and> (\<forall>i<m. \<forall>p. is_path (cw i) p \<longrightarrow> walk root p = Some (leaf_of i (cw i)))
     \<and> (\<forall>p n. walk root p = Some n \<longrightarrow> children n = None \<longrightarrow> (\<exists>i<m. is_path (cw i) p))"

lemma cw_length: "i < length codes \<Longrightarrow> 0 < length (cw i) \<and> length (cw i) \<le> 30"
  using width [of "codes ! i"] by (simp add: code_bits_def)

lemma tree_inv_step:
  assumes "tree_inv root m" "m < length codes"
  shows "\<exists>root'. insertCode root (of_nat m) (fst (codes ! m)) (unat (snd (codes ! m))) = Some root'
    \<and> tree_inv root' (Suc m)"
proof -
  have cw: "wbits (fst (codes ! m)) (unat (snd (codes ! m))) = cw m"
    by (simp add: code_bits_def)
  have distinct: "\<not> prefix (cw i) (cw m) \<and> \<not> prefix (cw m) (cw i)" if "i < m" for i
    using that assms(2) unique [of i m "cw m"] unique [of i m "cw i"] by auto
  have "free_path root (cw m)"
  proof -
    have "\<not> prefix (bits_of p) (cw m)" if n: "walk root p = Some n" "children n = None" for p n
    proof
      assume pre: "prefix (bits_of p) (cw m)"
      from n assms(1) obtain i where "i < m" "is_path (cw i) p"
        unfolding tree_inv_def by blast
      with pre have "prefix (cw i) (cw m)"
        by (auto simp: is_path_def intro: prefix_order.trans)
      with distinct \<open>i < m\<close> show False by blast
    qed
    with assms(1) show ?thesis by (auto simp: free_path_def tree_inv_def)
  qed
  then obtain root' where ins: "insertCode root (of_nat m) (fst (codes ! m)) (unat (snd (codes ! m))) = Some root'"
    and ext: "extends root root' (cw m) (of_nat m)"
    using insertCode_extends [of "unat (snd (codes ! m))" root "fst (codes ! m)" "of_nat m"]
      width [of "codes ! m"] assms(2) unfolding cw by auto
  have e1: "walk root' p = Some (HuffmanNode (of_nat m) (leaf_bits (cw m)) None)" if "is_path (cw m) p" for p
    using ext that unfolding extends_def by blast
  have e2: "walk root' p = walk root p" if "\<not> prefix (cw m) (bits_of p)" "\<not> prefix (bits_of p) (cw m)" for p
    using ext that unfolding extends_def by blast
  have e3: "is_path (cw m) p" if "walk root' p = Some n" "children n = None"
    "prefix (cw m) (bits_of p) \<or> prefix (bits_of p) (cw m)" for p n
    using ext that unfolding extends_def by blast
  have e4: "children root' \<noteq> None"
    using ext unfolding extends_def by blast
  have "walk root' p = Some (leaf_of i (cw i))" if "i < Suc m" "is_path (cw i) p" for i p
  proof (cases "i = m")
    case True
    with that(2) e1 show ?thesis by (simp add: leaf_of_def)
  next
    case False
    with that(1) have i: "i < m" by simp
    have pi: "prefix (cw i) (bits_of p)" using that(2) by (simp add: is_path_def)
    have "\<not> prefix (cw m) (bits_of p)"
      using unique [of i m "bits_of p"] pi i assms(2) by auto
    moreover have "\<not> prefix (bits_of p) (cw m)"
      using pi distinct [OF i] prefix_order.trans by blast
    ultimately have "walk root' p = walk root p" by (rule e2)
    moreover have "walk root p = Some (leaf_of i (cw i))"
      using assms(1) i that(2) unfolding tree_inv_def by blast
    ultimately show ?thesis by simp
  qed
  moreover have "\<exists>i<Suc m. is_path (cw i) p" if n: "walk root' p = Some n" "children n = None" for p n
  proof (cases "prefix (cw m) (bits_of p) \<or> prefix (bits_of p) (cw m)")
    case True
    with n have "is_path (cw m) p" by (rule e3)
    then show ?thesis by blast
  next
    case False
    with e2 [of p] n(1) have "walk root p = Some n" by simp
    with assms(1) n(2) obtain i where "i < m" "is_path (cw i) p" unfolding tree_inv_def by blast
    then show ?thesis by (intro exI [of _ i]) simp
  qed
  ultimately have "tree_inv root' (Suc m)"
    unfolding tree_inv_def by (intro conjI e4) blast+
  with ins show ?thesis by blast
qed

lemma insertCodes_inv:
  "tree_inv root m \<Longrightarrow> m \<le> length codes \<Longrightarrow>
   \<exists>root'. insertCodes root m (drop m codes) = Some root' \<and> tree_inv root' (length codes)"
proof (induction "length codes - m" arbitrary: root m)
  case 0
  then show ?case by auto
next
  case (Suc k)
  then have m: "m < length codes" by simp
  from tree_inv_step [OF Suc.prems(1) m] obtain root' where
    "insertCode root (of_nat m) (fst (codes ! m)) (unat (snd (codes ! m))) = Some root'" "tree_inv root' (Suc m)"
    by blast
  moreover from Suc.hyps(2) have "k = length codes - Suc m" by simp
  moreover from calculation m obtain root'' where
    "insertCodes root' (Suc m) (drop (Suc m) codes) = Some root''" "tree_inv root'' (length codes)"
    using Suc.hyps(1) [of "Suc m" root'] by auto
  ultimately show ?case
    using m by (cases "codes ! m") (auto simp: Cons_nth_drop_Suc [symmetric])
qed

lemma tree_exists:
  "\<exists>root. insertCodes newInnerNode 0 codes = Some root \<and> tree_inv root (length codes)"
proof -
  have "tree_inv newInnerNode 0"
    by (auto simp: tree_inv_def walk_newInnerNode) (simp_all add: newInnerNode_def)
  from insertCodes_inv [OF this] show ?thesis by simp
qed

end

end
