(* ===== verification/Hpack_Huffman_Correct.thy ===== *)
theory Hpack_Huffman_Correct
  imports Hpack_Huffman_Tree
begin

text \<open>
  The decoder of \<^verbatim>\<open>src/hpack/huffman.go\<close> is total: on every input its output is the unique
  maximal sequence of code words the input starts with.  It inverts the encoder, whose
  output has the length \<^verbatim>\<open>HuffmanEncodedLen\<close> announces.
\<close>

lemma bytes_covering: "\<exists>r. length r = (length bs + 7) div 8 \<and> prefix bs (bits_of r)"
proof (induction "length bs" arbitrary: bs rule: less_induct)
  case less
  show ?case
  proof (cases "bs = []")
    case False
    let ?c = "take 8 (bs @ replicate 8 False)"
    have c: "length ?c = 8" by simp
    then have "length ?c \<le> LENGTH(8)" by simp
    then obtain b :: u8 where "wbits b (length ?c) = ?c" by (rule wbits_surj)
    then have b: "byte_bits b = ?c" by (simp only: c)
    from False less [of "drop 8 bs"] obtain r where
      r: "length r = (length (drop 8 bs) + 7) div 8" "prefix (drop 8 bs) (bits_of r)"
      by auto
    have len: "length (b # r) = (length bs + 7) div 8"
    proof (cases "length bs \<le> 8")
      case True
      then have "length bs + 7 = 8 + (length bs - 1)" "length bs - 1 < 8" using False by (cases bs; simp)+
      then have "(length bs + 7) div 8 = 1" by simp
      moreover have "length r = 0" using r(1) True by simp
      ultimately show ?thesis by simp
    next
      case False
      then have "length bs + 7 = (length bs - 8 + 7) + 8" by simp
      then have "(length bs + 7) div 8 = (length bs - 8 + 7) div 8 + 1" by simp
      with r(1) show ?thesis by simp
    qed
    have "prefix bs (bits_of (b # r))"
    proof (cases "length bs < 8")
      case True
      then show ?thesis by (simp add: b prefix_def)
    next
      case False
      then have "bits_of (b # r) = take 8 bs @ bits_of r" by (simp add: b)
      moreover have "bs = take 8 bs @ drop 8 bs" by simp
      ultimately show ?thesis using r(2) by (metis same_prefix_prefix)
    qed
    with len show ?thesis by blast
  qed simp
qed

context code_table
begin

definition mid :: "bytes \<Rightarrow> bool" where
  "mid q \<longleftrightarrow> (\<exists>i<length codes. strict_prefix (bits_of q) (cw i))"

lemma mid_Nil: "mid []"
proof -
  from complete [of "replicate 30 False"] obtain i where "i < length codes" by auto
  with cw_length [of i] show ?thesis
    by (auto simp: mid_def strict_prefix_def)
qed

lemma no_code_before_mid:
  assumes "mid q" "k < length codes" "prefix (cw k) (bits_of q)"
  shows False
proof -
  from assms(1) obtain i where i: "i < length codes" "strict_prefix (bits_of q) (cw i)"
    by (auto simp: mid_def)
  then have "prefix (cw k) (cw i)"
    using assms(3) by (auto simp: strict_prefix_def intro: prefix_order.trans)
  with unique [OF assms(2) i(1), of "cw i"] have "k = i" by simp
  with i(2) assms(3) show False by (metis prefix_order.antisym strict_prefix_def)
qed

lemma mid_node:
  assumes "tree_inv root (length codes)" "mid q"
  shows "\<exists>n. walk root q = Some n \<and> children n \<noteq> None"
proof -
  from assms(2) obtain i rest where i: "i < length codes" and cwi: "cw i = bits_of q @ rest" "rest \<noteq> []"
    by (auto simp: mid_def elim!: strict_prefixE')
  from bytes_covering [of rest] obtain r where
    r: "length r = (length rest + 7) div 8" "prefix rest (bits_of r)"
    by blast
  have "n_bytes (cw i) = length q + length r"
    using r(1) by (simp add: n_bytes_def cwi)
  with r(2) have "is_path (cw i) (q @ r)"
    by (simp add: is_path_def cwi)
  with assms(1) i have "walk root (q @ r) = Some (leaf_of i (cw i))"
    unfolding tree_inv_def by blast
  moreover have "r \<noteq> []" using r(2) cwi(2) by auto
  ultimately show ?thesis
    using walk_leaf by (fastforce simp: walk_append split: option.splits)
qed

lemma byte_step:
  assumes T: "tree_inv root (length codes)" and q: "mid q" "walk root q = Some n"
  shows "\<exists>m. child_of n b = Some m \<and>
    ((\<exists>i<length codes. is_path (cw i) (q @ [b]) \<and> m = leaf_of i (cw i)) \<or>
     (children m \<noteq> None \<and> walk root (q @ [b]) = Some m \<and> mid (q @ [b])))"
proof -
  let ?B = "bits_of (q @ [b])"
  have wqb: "walk root (q @ [b]) = child_of n b"
    using q(2) by (simp add: walk_append split: option.splits)
  have "length (take 30 (?B @ replicate 30 False)) = 30" by simp
  from complete [OF this] obtain k where k: "k < length codes" "prefix (cw k) (take 30 (?B @ replicate 30 False))"
    by blast
  from k(2) have pk: "prefix (cw k) (?B @ replicate 30 False)"
    using take_is_prefix prefix_order.trans by blast
  show ?thesis
  proof (cases "length (cw k) \<le> length ?B")
    case True
    with pk have kB: "prefix (cw k) ?B"
      by (metis prefix_length_prefix prefixI)
    have "8 * length q < length (cw k)"
    proof (rule ccontr)
      assume "\<not> 8 * length q < length (cw k)"
      with kB have "prefix (cw k) (bits_of q)"
        by (metis bits_of_simps(3) length_bits_of not_less prefixI prefix_length_prefix)
      with no_code_before_mid [OF q(1) k(1)] show False .
    qed
    with True have "n_bytes (cw k) = Suc (length q)"
      by (simp add: n_bytes_def)
    with kB have "is_path (cw k) (q @ [b])" by (simp add: is_path_def)
    moreover from this T k(1) have "walk root (q @ [b]) = Some (leaf_of k (cw k))"
      unfolding tree_inv_def by blast
    ultimately show ?thesis using wqb k(1) by auto
  next
    case False
    with pk have "prefix ?B (cw k)"
      by (metis nle_le prefixI prefix_length_prefix)
    moreover from False have "?B \<noteq> cw k" by (metis le_refl)
    ultimately have "mid (q @ [b])"
      using k(1) unfolding mid_def strict_prefix_def by blast
    from mid_node [OF T this] this wqb show ?thesis by auto
  qed
qed

lemma leaf_bits_path:
  assumes "is_path (cw i) (q @ [b])" "i < length codes"
  shows "length (cw i) = 8 * length q + leaf_bits (cw i)" "0 < leaf_bits (cw i)" "leaf_bits (cw i) \<le> 8"
    "cw i = bits_of q @ take (leaf_bits (cw i)) (byte_bits b)"
proof -
  from assms(1) have nb: "Suc (length q) = n_bytes (cw i)" and p: "prefix (cw i) (bits_of q @ byte_bits b)"
    by (simp_all add: is_path_def)
  from nb cw_length [OF assms(2)] have "8 * length q < length (cw i)" "length (cw i) \<le> 8 * length q + 8"
    by (simp_all add: n_bytes_def)
  then show l: "length (cw i) = 8 * length q + leaf_bits (cw i)" "0 < leaf_bits (cw i)" "leaf_bits (cw i) \<le> 8"
    by (simp_all add: leaf_bits_def nb [symmetric])
  from p have "cw i = take (length (cw i)) (bits_of q @ byte_bits b)"
    by (metis append_eq_conv_conj prefixE)
  with l(1) show "cw i = bits_of q @ take (leaf_bits (cw i)) (byte_bits b)"
    by simp
qed

lemma wbits_byte:
  "8 \<le> nbits \<Longrightarrow> wbits cur nbits = byte_bits (ucast (drop_bit (nbits - 8) cur)) @ wbits cur (nbits - 8)"
  using wbits_split [of "nbits - 8" nbits cur] by (simp add: wbits_ucast)

lemma inner_ok:
  assumes T: "tree_inv root (length codes)"
  shows "walk root q = Some n \<Longrightarrow> mid q \<Longrightarrow>
    \<exists>n' nbits' syms q'. HuffmanDecode_inner root n cur nbits dst = Some (n', nbits', dst @ map of_nat syms)
      \<and> nbits' < 8 \<and> walk root q' = Some n' \<and> mid q' \<and> (\<forall>s\<in>set syms. s < length codes)
      \<and> bits_of q @ wbits cur nbits = concat (map cw syms) @ bits_of q' @ wbits cur nbits'"
proof (induction nbits arbitrary: q n dst rule: less_induct)
  case (less nbits)
  show ?case
  proof (cases "nbits \<ge> 8")
    case False
    have "HuffmanDecode_inner root n cur nbits dst = Some (n, nbits, dst @ map of_nat [])"
      using False by (subst HuffmanDecode_inner.simps) simp
    with False less.prems show ?thesis
      by (intro exI [of _ n] exI [of _ nbits] exI [of _ "[]"] exI [of _ q]) simp
  next
    case True
    let ?b = "ucast (drop_bit (nbits - 8) cur) :: u8"
    from byte_step [OF T less.prems(2,1), of ?b] obtain m where m: "child_of n ?b = Some m"
      and c: "(\<exists>i<length codes. is_path (cw i) (q @ [?b]) \<and> m = leaf_of i (cw i)) \<or>
        (children m \<noteq> None \<and> walk root (q @ [?b]) = Some m \<and> mid (q @ [?b]))"
      by blast
    from c show ?thesis
    proof (elim disjE exE conjE)
      fix i assume i: "i < length codes" "is_path (cw i) (q @ [?b])" "m = leaf_of i (cw i)"
      let ?r = "leaf_bits (cw i)"
      note lb = leaf_bits_path [OF i(2,1)]
      from lb True have "nbits - ?r < nbits" by simp
      from less.IH [OF this, of "[]" root "dst @ [of_nat i]"] mid_Nil obtain n' nbits' syms q' where
        IH: "HuffmanDecode_inner root root cur (nbits - ?r) (dst @ [of_nat i]) = Some (n', nbits', (dst @ [of_nat i]) @ map of_nat syms)"
          "nbits' < 8" "walk root q' = Some n'" "mid q'" "\<forall>s\<in>set syms. s < length codes"
          "wbits cur (nbits - ?r) = concat (map cw syms) @ bits_of q' @ wbits cur nbits'"
        by auto
      have step: "HuffmanDecode_inner root n cur nbits dst = HuffmanDecode_inner root root cur (nbits - ?r) (dst @ [of_nat i])"
        using True m i(3) by (subst HuffmanDecode_inner.simps) (simp add: leaf_of_def)
      have "bits_of q @ wbits cur nbits = cw i @ drop ?r (byte_bits ?b) @ wbits cur (nbits - 8)"
        using lb(4) wbits_byte [OF True, of cur] by (metis append_assoc append_take_drop_id)
      also have "drop ?r (byte_bits ?b) @ wbits cur (nbits - 8) = wbits cur (nbits - ?r)"
        using drop_wbits [of ?r nbits cur] wbits_byte [OF True, of cur] lb(3) True by simp
      finally show ?thesis
        using IH step i(1)
        by (intro exI [of _ n'] exI [of _ nbits'] exI [of _ "i # syms"] exI [of _ q']) simp
    next
      assume i: "children m \<noteq> None" "walk root (q @ [?b]) = Some m" "mid (q @ [?b])"
      from True have "nbits - 8 < nbits" by simp
      from less.IH [OF this i(2,3), of dst] obtain n' nbits' syms q' where
        IH: "HuffmanDecode_inner root m cur (nbits - 8) dst = Some (n', nbits', dst @ map of_nat syms)"
          "nbits' < 8" "walk root q' = Some n'" "mid q'" "\<forall>s\<in>set syms. s < length codes"
          "bits_of (q @ [?b]) @ wbits cur (nbits - 8) = concat (map cw syms) @ bits_of q' @ wbits cur nbits'"
        by blast
      have "HuffmanDecode_inner root n cur nbits dst = HuffmanDecode_inner root m cur (nbits - 8) dst"
        using True m i(1) by (subst HuffmanDecode_inner.simps) auto
      with IH wbits_byte [OF True, of cur] show ?thesis
        by (intro exI [of _ n'] exI [of _ nbits'] exI [of _ syms] exI [of _ q']) simp
    qed
  qed
qed

lemma loop_ok:
  assumes T: "tree_inv root (length codes)"
  shows "walk root q = Some n \<Longrightarrow> mid q \<Longrightarrow> nbits < 8 \<Longrightarrow>
    \<exists>n' cur' nbits' syms q'. HuffmanDecode_loop root n cur nbits dst src = Some (n', cur', nbits', dst @ map of_nat syms)
      \<and> nbits' < 8 \<and> walk root q' = Some n' \<and> mid q' \<and> (\<forall>s\<in>set syms. s < length codes)
      \<and> bits_of q @ wbits cur nbits @ bits_of src = concat (map cw syms) @ bits_of q' @ wbits cur' nbits'"
proof (induction src arbitrary: q n cur nbits dst)
  case Nil
  then show ?case
    by (intro exI [of _ n] exI [of _ cur] exI [of _ nbits] exI [of _ "[]"] exI [of _ q]) simp
next
  case (Cons b src)
  let ?cur = "push_bit 8 cur OR ucast b"
  from inner_ok [OF T Cons.prems(1,2), of ?cur "nbits + 8" dst] obtain n1 nbits1 syms1 q1 where
    1: "HuffmanDecode_inner root n ?cur (nbits + 8) dst = Some (n1, nbits1, dst @ map of_nat syms1)"
      "nbits1 < 8" "walk root q1 = Some n1" "mid q1" "\<forall>s\<in>set syms1. s < length codes"
      "bits_of q @ wbits ?cur (nbits + 8) = concat (map cw syms1) @ bits_of q1 @ wbits ?cur nbits1"
    by blast
  from Cons.IH [OF 1(3,4,2), of ?cur "dst @ map of_nat syms1"] obtain n2 cur2 nbits2 syms2 q2 where
    2: "HuffmanDecode_loop root n1 ?cur nbits1 (dst @ map of_nat syms1) src =
        Some (n2, cur2, nbits2, (dst @ map of_nat syms1) @ map of_nat syms2)"
      "nbits2 < 8" "walk root q2 = Some n2" "mid q2" "\<forall>s\<in>set syms2. s < length codes"
      "bits_of q1 @ wbits ?cur nbits1 @ bits_of src = concat (map cw syms2) @ bits_of q2 @ wbits cur2 nbits2"
    by blast
  have w: "wbits ?cur (nbits + 8) = wbits cur nbits @ byte_bits b"
    using Cons.prems(3) by (intro wbits_or_shift) simp
  have "bits_of q @ wbits cur nbits @ bits_of (b # src) =
    concat (map cw syms1) @ bits_of q1 @ wbits ?cur nbits1 @ bits_of src"
    using 1(6) w by simp
  also have "\<dots> = concat (map cw (syms1 @ syms2)) @ bits_of q2 @ wbits cur2 nbits2"
    using 2(6) by simp
  finally show ?case
    using 1(1,5) 2
    by (intro exI [of _ n2] exI [of _ cur2] exI [of _ nbits2] exI [of _ "syms1 @ syms2"] exI [of _ q2])
       (auto simp: Let_def)
qed

lemma padded_byte:
  "n \<le> 8 \<Longrightarrow> byte_bits (ucast (push_bit (8 - n) (cur :: u64))) = wbits cur n @ replicate (8 - n) False"
  by (rule byte_of_shifted) simp_all

definition complete_parse :: "bool list \<Rightarrow> nat list \<Rightarrow> bool" where
  "complete_parse bs syms \<longleftrightarrow> (\<forall>s\<in>set syms. s < length codes)
     \<and> (\<exists>rest. bs = concat (map cw syms) @ rest \<and> (\<forall>i<length codes. \<not> prefix (cw i) rest))"

lemma tail_stops:
  assumes q: "mid q" and b: "byte_bits b = P @ replicate (8 - length P) False"
    and c: "(\<exists>i<length codes. is_path (cw i) (q @ [b]) \<and> length P < leaf_bits (cw i)) \<or> mid (q @ [b])"
    and k: "k < length codes"
  shows "\<not> prefix (cw k) (bits_of q @ P)"
proof
  assume pk: "prefix (cw k) (bits_of q @ P)"
  moreover have "prefix (bits_of q @ P) (bits_of (q @ [b]))" by (simp add: b)
  ultimately have kB: "prefix (cw k) (bits_of (q @ [b]))" by (rule prefix_order.trans)
  from prefix_length_le [OF pk] have kl: "length (cw k) \<le> 8 * length q + length P" by simp
  from c show False
  proof (elim disjE exE conjE)
    fix i assume i: "i < length codes" "is_path (cw i) (q @ [b])" "length P < leaf_bits (cw i)"
    from unique [OF k i(1) kB] i(2) have "k = i" by (simp add: is_path_def)
    with leaf_bits_path(1) [OF i(2,1)] i(3) kl show False by simp
  next
    assume "mid (q @ [b])"
    from no_code_before_mid [OF this k kB] show False .
  qed
qed

lemma tail_ok:
  assumes T: "tree_inv root (length codes)"
  shows "walk root q = Some n \<Longrightarrow> mid q \<Longrightarrow> nbits < 8 \<Longrightarrow>
    \<exists>syms. HuffmanDecode_tail root n cur nbits dst = Some (dst @ map of_nat syms)
      \<and> complete_parse (bits_of q @ wbits cur nbits) syms"
proof (induction nbits arbitrary: q n dst rule: less_induct)
  case (less nbits)
  show ?case
  proof (cases "nbits > 0")
    case False
    then have "HuffmanDecode_tail root n cur nbits dst = Some (dst @ map of_nat [])"
      by (subst HuffmanDecode_tail.simps) simp
    moreover have "complete_parse (bits_of q @ wbits cur nbits) []"
      using False no_code_before_mid [OF less.prems(2)] by (auto simp: complete_parse_def)
    ultimately show ?thesis by blast
  next
    case True
    let ?b = "ucast (push_bit (8 - nbits) cur) :: u8"
    have b: "byte_bits ?b = wbits cur nbits @ replicate (8 - nbits) False"
      using less.prems(3) by (intro padded_byte) simp
    from byte_step [OF T less.prems(2,1), of ?b] obtain m where m: "child_of n ?b = Some m"
      and c: "(\<exists>i<length codes. is_path (cw i) (q @ [?b]) \<and> m = leaf_of i (cw i)) \<or>
        (children m \<noteq> None \<and> walk root (q @ [?b]) = Some m \<and> mid (q @ [?b]))"
      by blast
    have stop: ?thesis if "children m \<noteq> None \<or> nodeBits m > nbits"
    proof -
      have "HuffmanDecode_tail root n cur nbits dst = Some (dst @ map of_nat [])"
        using True m that by (subst HuffmanDecode_tail.simps) auto
      moreover have "\<not> prefix (cw k) (bits_of q @ wbits cur nbits)" if "k < length codes" for k
        using c \<open>children m \<noteq> None \<or> nodeBits m > nbits\<close> b
        by (intro tail_stops [OF less.prems(2) _ _ that, of ?b]) (auto simp: leaf_of_def)
      ultimately show ?thesis by (auto simp: complete_parse_def)
    qed
    show ?thesis
    proof (cases "children m \<noteq> None \<or> nodeBits m > nbits")
      case True
      then show ?thesis by (rule stop)
    next
      case False
      with c obtain i where i: "i < length codes" "is_path (cw i) (q @ [?b])" "m = leaf_of i (cw i)"
        by auto
      let ?r = "leaf_bits (cw i)"
      note lb = leaf_bits_path [OF i(2,1)]
      from False i(3) have r: "?r \<le> nbits" by (simp add: leaf_of_def)
      have "nbits - ?r < nbits" "nbits - ?r < 8" using True lb(2) less.prems(3) by simp_all
      from less.IH [OF this(1) _ mid_Nil this(2), of root "dst @ [of_nat i]"] obtain syms where
        IH: "HuffmanDecode_tail root root cur (nbits - ?r) (dst @ [of_nat i]) = Some ((dst @ [of_nat i]) @ map of_nat syms)"
          "complete_parse (wbits cur (nbits - ?r)) syms"
        by auto
      have "HuffmanDecode_tail root n cur nbits dst = HuffmanDecode_tail root root cur (nbits - ?r) (dst @ [of_nat i])"
        using True False m i(3) by (subst HuffmanDecode_tail.simps) (auto simp: leaf_of_def)
      moreover have "bits_of q @ wbits cur nbits = cw i @ wbits cur (nbits - ?r)"
      proof -
        have "take ?r (byte_bits ?b) = take ?r (wbits cur nbits)"
          using b r by simp
        then have "cw i = bits_of q @ take ?r (wbits cur nbits)" using lb(4) by simp
        then show ?thesis using r drop_wbits [of ?r nbits cur] by (metis append_assoc append_take_drop_id)
      qed
      ultimately show ?thesis
        using IH i(1) by (intro exI [of _ "i # syms"]) (auto simp: complete_parse_def)
    qed
  qed
qed

text \<open>
  The whole decoder over a tree built from the table: it returns, and its output is the
  symbols of the longest sequence of code words its input starts with.
\<close>

lemma decode_parses:
  "\<exists>root syms. insertCodes newInnerNode 0 codes = Some root
     \<and> (case HuffmanDecode_loop root root 0 0 dst src of
          None \<Rightarrow> None | Some (n, cur, nbits, dst) \<Rightarrow> HuffmanDecode_tail root n cur nbits dst)
       = Some (dst @ map of_nat syms)
     \<and> complete_parse (bits_of src) syms"
proof -
  from tree_exists obtain root where root: "insertCodes newInnerNode 0 codes = Some root"
    and T: "tree_inv root (length codes)" by blast
  have "walk root [] = Some root" by simp
  from loop_ok [OF T this mid_Nil, of 0 0 dst src] obtain n cur nbits syms1 q where
    1: "HuffmanDecode_loop root root 0 0 dst src = Some (n, cur, nbits, dst @ map of_nat syms1)"
      "nbits < 8" "walk root q = Some n" "mid q" "\<forall>s\<in>set syms1. s < length codes"
      "bits_of src = concat (map cw syms1) @ bits_of q @ wbits cur nbits"
    by auto
  from tail_ok [OF T 1(3,4,2), of cur "dst @ map of_nat syms1"] obtain syms2 where
    2: "HuffmanDecode_tail root n cur nbits (dst @ map of_nat syms1) = Some ((dst @ map of_nat syms1) @ map of_nat syms2)"
      "complete_parse (bits_of q @ wbits cur nbits) syms2"
    by blast
  have "complete_parse (bits_of src) (syms1 @ syms2)"
    using 1(5,6) 2(2) by (auto simp: complete_parse_def)
  with root 1(1) 2(1) show ?thesis
    by (intro exI [of _ root] exI [of _ "syms1 @ syms2"]) simp
qed

lemma complete_parse_unique:
  "complete_parse bs xs \<Longrightarrow> complete_parse bs ys \<Longrightarrow> xs = ys"
proof (induction xs arbitrary: bs ys)
  case Nil
  then show ?case by (cases ys) (auto simp: complete_parse_def prefix_def)
next
  case (Cons x xs)
  note IH = Cons.IH and parse_ys = Cons.prems(2)
  from Cons.prems(1) obtain rest where bs: "bs = cw x @ rest" and x: "x < length codes" and p: "complete_parse rest xs"
    by (auto simp: complete_parse_def)
  show ?case
  proof (cases ys)
    case Nil
    with parse_ys bs x show ?thesis by (auto simp: complete_parse_def prefix_def)
  next
    case (Cons y zs)
    with parse_ys obtain rest' where bs': "bs = cw y @ rest'" and y: "y < length codes" and p': "complete_parse rest' zs"
      by (auto simp: complete_parse_def)
    have "prefix (cw x) bs" "prefix (cw y) bs" by (simp add: bs, simp add: bs')
    then have xy: "x = y" by (rule unique [OF x y])
    with bs bs' p' have "complete_parse rest zs" by simp
    with IH [OF p] xy Cons show ?thesis by simp
  qed
qed

lemma parse_padded:
  assumes "\<forall>s\<in>set syms. s < length codes" "k < 8"
  shows "complete_parse (concat (map cw syms) @ replicate k True) syms"
proof -
  have "\<not> prefix (cw i) (replicate k True)" if i: "i < length codes" for i
  proof
    assume p: "prefix (cw i) (replicate k True)"
    then obtain zs where "replicate k True = cw i @ zs" by (auto simp: prefix_def)
    from arg_cong [OF this, of "take (length (cw i))"]
    have "replicate (min (length (cw i)) k) True = cw i" by simp
    with prefix_length_le [OF p] have "cw i = replicate (length (cw i)) True" by (simp add: min_absorb1)
    from ones [OF i this] prefix_length_le [OF p] assms(2) show False by simp
  qed
  with assms(1) show ?thesis by (auto simp: complete_parse_def)
qed

end

section \<open>The static table\<close>

lemma eos_code: "huffmanCodes ! 256 = (0x3fffffff, 30)"
  by (simp add: huffmanCodes_def)

lemma wbits_mask: "wbits (mask n :: 'a::len word) n = replicate n True" if "n \<le> LENGTH('a)"
  using that by (intro nth_equalityI) (auto simp: nth_wbits bit_mask_iff)

lemma eos_mask: "(0x3fffffff :: u32) = mask 30"
  by (simp add: mask_eq_exp_minus_1)

lemma sym_bits_eos: "sym_bits 256 = replicate 30 True"
proof -
  have "wbits (mask 30 :: u32) 30 = replicate 30 True" by (rule wbits_mask) simp
  then show ?thesis by (simp add: sym_bits_def code_bits_def eos_code eos_mask)
qed

interpretation huff: code_table huffmanCodes
proof
  fix x assume "x \<in> set huffmanCodes"
  from entry_facts [OF this] show "0 < unat (snd x) \<and> unat (snd x) \<le> 30" by simp
next
  fix i j bs
  assume "i < length huffmanCodes" "j < length huffmanCodes"
    "prefix (code_bits (huffmanCodes ! i)) bs" "prefix (code_bits (huffmanCodes ! j)) bs"
  then show "i = j" using prefix_code [of i j bs] by (simp add: sym_bits_def)
next
  fix bs :: "bool list" assume "length bs = 30"
  from code_complete [OF this] show "\<exists>i<length huffmanCodes. prefix (code_bits (huffmanCodes ! i)) bs"
    by (simp add: sym_bits_def)
next
  fix i m assume i: "i < length huffmanCodes" and o: "code_bits (huffmanCodes ! i) = replicate m True"
  show "8 \<le> m"
  proof (rule ccontr)
    assume m: "\<not> 8 \<le> m"
    have "replicate 30 True = replicate m True @ replicate (30 - m) True"
      using m by (simp flip: replicate_add)
    then have "prefix (sym_bits i) (replicate 30 True)"
      using o by (simp add: sym_bits_def)
    with prefix_code [of i 256 "replicate 30 True"] i sym_bits_eos have "i = 256" by simp
    with o sym_bits_eos have "replicate m True = replicate 30 True" by (simp add: sym_bits_def)
    then have "m = 30" by (metis length_replicate)
    with m show False by simp
  qed
qed

section \<open>The encoder's output\<close>

lemma sym_bits_length: "i < 257 \<Longrightarrow> 5 \<le> length (sym_bits i) \<and> length (sym_bits i) \<le> 30"
  using entry_facts [of "huffmanCodes ! i"] by (simp add: sym_bits_def code_bits_def)

lemma unat_byte_index: "unat (c :: u8) < 257"
  using unat_less_8 [of c] by simp

lemma byte_bits_zero: "byte_bits 0 = replicate 8 False"
  by (rule nth_equalityI) (auto simp: nth_wbits)

lemma HuffmanEncode_loop_bits:
  assumes "0 < space" "space \<le> 8" "space < 8 \<longrightarrow> dst \<noteq> []"
    and "bits_of dst = bs @ (if space = 8 then [] else replicate space False)"
  shows "\<exists>dst' space'. HuffmanEncode_loop dst space s = (dst', space') \<and> 0 < space' \<and> space' \<le> 8
    \<and> (space' < 8 \<longrightarrow> dst' \<noteq> [])
    \<and> bits_of dst' = bs @ text_bits s @ (if space' = 8 then [] else replicate space' False)"
  using assms
proof (induction s arbitrary: dst space bs)
  case Nil
  then show ?case by (simp add: text_bits_def)
next
  case (Cons c s)
  let ?dst = "if space = 8 then dst @ [0] else dst"
  obtain code bits where cb: "huffmanCodes ! unat c = (code, bits)" by fastforce
  have mem: "(code, bits) \<in> set huffmanCodes"
    using nth_mem [of "unat c" huffmanCodes] unat_byte_index [of c] cb by simp
  have d: "?dst \<noteq> []" "bits_of ?dst = bs @ replicate space False"
    using Cons.prems by (auto simp: byte_bits_zero)
  from HuffmanEncode_code_bits [OF d Cons.prems(1,2), of "unat bits" code] entry_facts [OF mem]
  obtain dst1 space1 where 1: "HuffmanEncode_code ?dst space code (unat bits) = (dst1, space1)" "dst1 \<noteq> []"
      "0 < space1" "space1 \<le> 8"
      "bits_of dst1 = (bs @ sym_bits (unat c)) @ (if space1 = 8 then [] else replicate space1 False)"
    by (auto simp: sym_bits_def code_bits_def cb)
  from Cons.IH [OF 1(3,4) _ 1(5)] 1(2) obtain dst2 space2 where
    2: "HuffmanEncode_loop dst1 space1 s = (dst2, space2)" "0 < space2" "space2 \<le> 8" "space2 < 8 \<longrightarrow> dst2 \<noteq> []"
      "bits_of dst2 = (bs @ sym_bits (unat c)) @ text_bits s @ (if space2 = 8 then [] else replicate space2 False)"
    by blast
  show ?case
    using 1(1) 2 cb by (simp add: Let_def text_bits_def)
qed

lemma HuffmanEncode_bits:
  "\<exists>k<8. bits_of (HuffmanEncode dst s) = bits_of dst @ text_bits s @ replicate k True"
proof -
  from HuffmanEncode_loop_bits [of 8 dst "bits_of dst" s] obtain dst' space' where
    l: "HuffmanEncode_loop dst 8 s = (dst', space')" "0 < space'" "space' \<le> 8" "space' < 8 \<longrightarrow> dst' \<noteq> []"
      "bits_of dst' = bits_of dst @ text_bits s @ (if space' = 8 then [] else replicate space' False)"
    by auto
  show ?thesis
  proof (cases "space' < 8")
    case False
    with l show ?thesis by (intro exI [of _ 0]) (simp add: HuffmanEncode_def)
  next
    case True
    let ?t = "ucast (drop_bit (30 - space') (0x3fffffff :: u32)) :: u8"
    have "drop_bit (30 - space') (mask 30 :: u32) = mask space'"
      using True by (intro bit_word_eqI) (auto simp: bit_simps)
    then have "?t = mask space'"
      using True by (simp only: eos_mask) (intro bit_word_eqI, auto simp: bit_simps)
    moreover have "take_bit space' (mask space') = (mask space' :: u8)"
      by (intro bit_word_eqI) (auto simp: bit_simps)
    ultimately have "byte_bits ?t = replicate (8 - space') False @ replicate space' True"
      using wbits_zero_pad [of space' "mask space' :: u8" 8] wbits_mask [of space', where 'a = 8] True
      by simp
    from bits_of_or_last [OF _ _ _ this, of dst' "bits_of dst @ text_bits s"] True l
    have "bits_of (or_last dst' ?t) = bits_of dst @ text_bits s @ replicate space' True" by simp
    with True l(1) show ?thesis
      by (intro exI [of _ space']) (simp add: HuffmanEncode_def eos_code)
  qed
qed

lemma HuffmanDecode_parses:
  "\<exists>syms. HuffmanDecode dst src = Some (dst @ map of_nat syms) \<and> huff.complete_parse (bits_of src) syms"
  using huff.decode_parses [of dst src] by (auto simp: HuffmanDecode_def newHuffmanTree_def)

lemma HuffmanDecode_padded:
  assumes "bits_of src = concat (map sym_bits syms) @ replicate k True" "\<forall>s\<in>set syms. s < 257" "k < 8"
  shows "HuffmanDecode dst src = Some (dst @ map of_nat syms)"
proof -
  have "huff.complete_parse (bits_of src) syms"
    using huff.parse_padded [of syms k] assms by (simp add: sym_bits_def [abs_def])
  with HuffmanDecode_parses [of dst src] huff.complete_parse_unique show ?thesis by blast
qed

lemma length_text_bits: "length (text_bits s) = (\<Sum>c\<leftarrow>s. unat (snd (huffmanCodes ! unat c)))"
  by (induction s) (simp_all add: text_bits_def sym_bits_def code_bits_def)

lemma HuffmanEncodedLen_sum:
  "foldl (\<lambda>x c. x + ucast (snd (huffmanCodes ! unat c))) a s = (a + of_nat (length (text_bits s)) :: u64)"
proof (induction s arbitrary: a)
  case (Cons c s)
  have "of_nat (unat (snd (huffmanCodes ! unat c))) = (ucast (snd (huffmanCodes ! unat c)) :: u64)"
    by simp
  with Cons show ?case
    by (simp add: length_text_bits add.assoc del: of_nat_unat)
qed (simp add: text_bits_def)

lemma length_text_bits_le: "length (text_bits s) \<le> 30 * length s"
proof (induction s)
  case (Cons c s)
  with sym_bits_length [OF unat_byte_index, of c] show ?case by (simp add: text_bits_def)
qed (simp add: text_bits_def)

lemma length_HuffmanEncode: "8 * length (HuffmanEncode [] s) = (length (text_bits s) + 7) div 8 * 8"
proof -
  from HuffmanEncode_bits [of "[]" s] obtain k where k: "k < 8"
    "bits_of (HuffmanEncode [] s) = text_bits s @ replicate k True" by auto
  from arg_cong [OF k(2), of length] have "8 * length (HuffmanEncode [] s) = length (text_bits s) + k" by simp
  with k(1) show ?thesis by presburger
qed

lemma HuffmanEncodedLen_exact:
  assumes "length s < 2 ^ 58"
  shows "unat (HuffmanEncodedLen s) = length (HuffmanEncode [] s)"
proof -
  let ?n = "length (text_bits s)"
  have "?n + 7 < 2 ^ 64" using length_text_bits_le [of s] assms by simp
  then have "unat (of_nat ?n + 7 :: u64) = ?n + 7"
    using unat_of_nat64 [of "?n + 7"] by (simp add: add.commute)
  then have "unat (HuffmanEncodedLen s) = (?n + 7) div 8"
    by (simp add: HuffmanEncodedLen_def HuffmanEncodedLen_sum drop_bit_eq_div unat_div)
  with length_HuffmanEncode [of s] show ?thesis by simp
qed

lemma HuffmanDecode_HuffmanEncode: "HuffmanDecode dst (HuffmanEncode [] s) = Some (dst @ s)"
proof -
  from HuffmanEncode_bits [of "[]" s] obtain k where "k < 8"
    "bits_of (HuffmanEncode [] s) = concat (map sym_bits (map unat s)) @ replicate k True"
    by (auto simp: text_bits_def comp_def)
  with HuffmanDecode_padded [of _ "map unat s" k dst] unat_byte_index show ?thesis
    by (auto simp: comp_def)
qed

lemma HuffmanDecode_eos: "HuffmanDecode [] [0xff, 0xff, 0xff, 0xff] = Some [0]"
proof -
  have "byte_bits 0xff = replicate 8 True" by code_simp
  then have "bits_of [0xff, 0xff, 0xff, 0xff] = concat (map sym_bits [256]) @ replicate 2 True"
    by (simp add: sym_bits_eos flip: replicate_add)
  from HuffmanDecode_padded [OF this, of "[]"] show ?thesis by simp
qed

end
