(* ===== verification/Hpack_Primitives.thy ===== *)
theory Hpack_Primitives
  imports Hpack_Codec Hpack_Huffman_Correct
begin

text \<open>
  The primitive types of \<^verbatim>\<open>src/hpack/hpack.go\<close>: prefixed integers and string literals.  What
  the encoder writes the decoder reads back, up to the 63-bit limit the decoder enforces on
  integers; the decoder's arithmetic never wraps; and input that was enough for a result
  stays enough when bytes are appended.
\<close>

section \<open>Integers\<close>

lemma int_bound_mask: "int_bound n = mask n"
  by (simp add: int_bound_def mask_eq_exp_minus_1 push_bit_eq_mult)

lemma unat_int_bound: "n \<le> 8 \<Longrightarrow> unat (int_bound n) = 2 ^ n - 1"
proof -
  assume n: "n \<le> 8"
  have "(2 :: nat) ^ n \<le> 2 ^ 8" using n by (intro power_increasing) simp_all
  then have "(2 :: nat) ^ n - 1 < 2 ^ 64" by simp
  moreover have "(of_nat (2 ^ n - 1) :: u64) = int_bound n"
    by (simp add: int_bound_mask mask_eq_exp_minus_1 of_nat_diff)
  ultimately show ?thesis using unat_of_nat64 [of "2 ^ n - 1"] by simp
qed

lemma unat_drop_septet: "i \<ge> (128 :: u64) \<Longrightarrow> unat (drop_bit 7 i) < unat i"
  by (simp add: drop_bit_eq_div unat_div word_le_nat_alt)

lemma encInteger_loop_append: "encInteger_loop dst i = dst @ encInteger_loop [] i"
proof (induction "unat i" arbitrary: dst i rule: less_induct)
  case less
  show ?case
  proof (cases "i \<ge> 128")
    case True
    let ?b = "ucast ((i AND 0x7f) OR 0x80) :: u8"
    from less [OF unat_drop_septet [OF True], of "dst @ [?b]"] less [OF unat_drop_septet [OF True], of "[?b]"]
    show ?thesis using True by (subst (1 2) encInteger_loop.simps) simp
  qed (subst (1 2) encInteger_loop.simps, simp)
qed

lemma encInteger_loop_more:
  "i \<ge> 128 \<Longrightarrow> encInteger_loop [] i = ucast ((i AND 0x7f) OR 0x80) # encInteger_loop [] (drop_bit 7 i)"
  by (subst encInteger_loop.simps) (simp add: encInteger_loop_append [of "[_]"])

lemma encInteger_loop_last: "i < 128 \<Longrightarrow> encInteger_loop [] i = [ucast i]"
  by (subst encInteger_loop.simps) (simp add: not_le [symmetric])

lemma split_septet: "(i AND 127) + push_bit 7 (drop_bit 7 i) = (i :: u64)"
proof -
  have "take_bit 7 i + push_bit 7 (drop_bit 7 i) = i" by (rule bits_ident [simplified add.commute])
  moreover have "(i AND 127) = take_bit 7 i" by (simp add: take_bit_eq_mask mask_eq_exp_minus_1)
  ultimately show ?thesis by simp
qed

lemma septet_bits:
  "bit (127 :: u8) n \<longleftrightarrow> n < 7" "bit (127 :: u64) n \<longleftrightarrow> n < 7"
  "bit (128 :: u8) n \<longleftrightarrow> n = 7" "bit (128 :: u64) n \<longleftrightarrow> n = 7"
  using bit_mask_iff [of 7 n, where 'a = u8] bit_mask_iff [of 7 n, where 'a = u64]
    bit_exp_iff [of 7 n, where 'a = u8] bit_exp_iff [of 7 n, where 'a = u64]
  by (auto simp: mask_eq_exp_minus_1)

lemma more_byte:
  "(ucast (((i :: u64) AND 0x7f) OR 0x80) :: u8) AND 128 \<noteq> 0"
  "ucast ((ucast ((i AND 0x7f) OR 0x80) :: u8) AND 127) = i AND 127"
proof -
  have "bit ((ucast ((i AND 0x7f) OR 0x80) :: u8) AND 128) 7"
    by (simp add: bit_and_iff bit_or_iff bit_unsigned_iff septet_bits)
  then show "(ucast ((i AND 0x7f) OR 0x80) :: u8) AND 128 \<noteq> 0" by fastforce
  show "ucast ((ucast ((i AND 0x7f) OR 0x80) :: u8) AND 127) = i AND 127"
    by (intro bit_word_eqI) (simp only: bit_and_iff bit_or_iff bit_unsigned_iff septet_bits, auto)
qed

lemma last_byte:
  assumes "(i :: u64) < 128"
  shows "(ucast i :: u8) AND 128 = 0" "ucast ((ucast i :: u8) AND 127) = i"
proof -
  have "take_bit 7 i = i" using assms by (simp add: take_bit_eq_mod word_arith_nat_mod word_less_nat_alt)
  then have nb: "\<not> bit i n" if "7 \<le> n" for n using that by (metis bit_take_bit_iff not_le)
  show "(ucast i :: u8) AND 128 = 0"
    using nb by (intro bit_word_eqI) (simp only: bit_and_iff bit_unsigned_iff septet_bits, auto)
  show "ucast ((ucast i :: u8) AND 127) = i"
  proof (rule bit_word_eqI)
    fix n show "bit (ucast ((ucast i :: u8) AND 127) :: u64) n = bit i n"
      using nb [of n] by (cases "n < 7") (auto simp only: bit_and_iff bit_unsigned_iff septet_bits, auto)
  qed
qed

lemma decInteger_loop_encode:
  assumes "unat i < 2 ^ (63 - m)" "m < 63"
  shows "decInteger_loop acc m (encInteger_loop [] i @ rest) = (Inr (acc + push_bit m i), rest)"
  using assms
proof (induction "unat i" arbitrary: i m acc rule: less_induct)
  case less
  show ?case
  proof (cases "i < 128")
    case True
    then show ?thesis by (simp add: encInteger_loop_last last_byte)
  next
    case False
    then have ge: "i \<ge> 128" by simp
    then have "128 \<le> unat i" by (simp add: word_le_nat_alt)
    with less.prems(1) have "(2 :: nat) ^ 7 < 2 ^ (63 - m)" by simp
    then have "7 < 63 - m" by (rule power_less_imp_less_exp [rotated]) simp
    then have m: "m + 7 < 63" by simp
    have "unat (drop_bit 7 i) = unat i div 2 ^ 7" by (simp add: drop_bit_eq_div unat_div)
    also have "\<dots> < 2 ^ (63 - (m + 7))"
    proof (rule less_mult_imp_div_less)
      have "(2 :: nat) ^ (63 - (m + 7)) * 2 ^ 7 = 2 ^ (63 - m)"
        using m by (simp only: power_add [symmetric]) simp
      with less.prems(1) show "unat i < 2 ^ (63 - (m + 7)) * 2 ^ 7" by simp
    qed
    finally have "unat (drop_bit 7 i) < 2 ^ (63 - (m + 7))" .
    note less.hyps [OF unat_drop_septet [OF ge] this m, of "acc + push_bit m (i AND 127)"]
    moreover have "push_bit m (i AND 127) + push_bit (m + 7) (drop_bit 7 i) = push_bit m i"
      using split_septet [of i] by (metis push_bit_add push_bit_push_bit)
    ultimately show ?thesis
      using ge m more_byte [of i] by (simp add: encInteger_loop_more add.assoc Let_def)
  qed
qed

lemma decInteger_loop_overflow:
  assumes "2 ^ (63 - m) \<le> unat i" "m < 63" "7 dvd m"
  shows "fst (decInteger_loop acc m (encInteger_loop [] i @ rest)) = Inl (errIntegerOverflow :: 'e dec_err)"
  using assms
proof (induction "unat i" arbitrary: i m acc rule: less_induct)
  case less
  have "7 \<le> 63 - m" using less.prems(2,3) by presburger
  then have "(2 :: nat) ^ 7 \<le> 2 ^ (63 - m)" by (intro power_increasing) simp_all
  with less.prems(1) have ge: "i \<ge> 128" by (simp add: word_le_nat_alt)
  show ?case
  proof (cases "m + 7 < 63")
    case False
    then show ?thesis
      using ge more_byte [of i] by (simp add: encInteger_loop_more Let_def)
  next
    case True
    have "2 ^ (63 - (m + 7)) = (2 :: nat) ^ (63 - m) div 2 ^ 7"
      using True by (simp add: power_diff flip: diff_diff_left)
    also have "\<dots> \<le> unat i div 2 ^ 7" using less.prems(1) by (rule div_le_mono)
    also have "\<dots> = unat (drop_bit 7 i)" by (simp add: drop_bit_eq_div unat_div)
    finally have le: "2 ^ (63 - (m + 7)) \<le> unat (drop_bit 7 i)" .
    have dvd: "7 dvd m + 7" using less.prems(3) by simp
    have "fst (decInteger_loop (acc + push_bit m (i AND 127)) (m + 7) (encInteger_loop [] (drop_bit 7 i) @ rest))
      = Inl (errIntegerOverflow :: 'e dec_err)" by (rule less.hyps [OF unat_drop_septet [OF ge] le True dvd])
    then show ?thesis
      using ge True more_byte [of i] by (simp add: encInteger_loop_more Let_def)
  qed
qed

text \<open>The first octet of an integer with an \<open>n\<close>-bit prefix keeps the bits of its tag.\<close>

lemma prefix_octet:
  assumes "n \<le> 8" "msk AND mask n = 0" "i \<le> int_bound n"
  shows "ucast (msk OR ucast i :: u8) AND int_bound n = i"
    and "(msk OR ucast i :: u8) AND NOT (mask n) = msk"
proof -
  have "unat i < 2 ^ n" using assms(1,3) unat_int_bound [of n] by (simp add: word_le_nat_alt le_diff_conv2 less_eq_Suc_le)
  then have "take_bit n i = i"
    by (metis take_bit_nat_eq_self unsigned_take_bit_eq word_unat_eq_iff)
  then have i: "\<not> bit i k" if "n \<le> k" for k using that by (metis bit_take_bit_iff not_le)
  have m: "\<not> bit msk k" if "k < n" for k
    using arg_cong [OF assms(2), of "\<lambda>w. bit w k"] assms(1) that by (simp add: bit_simps)
  show "ucast (msk OR ucast i :: u8) AND int_bound n = i"
  proof (rule bit_word_eqI)
    fix k show "bit (ucast (msk OR ucast i :: u8) AND int_bound n) k = bit i k"
      using i [of k] m [of k] assms(1) unfolding int_bound_mask
      by (cases "k < n") (auto simp: bit_and_iff bit_or_iff bit_unsigned_iff bit_mask_iff dest: bit_imp_le_length)
  qed
  show "(msk OR ucast i :: u8) AND NOT (mask n) = msk"
    using i m by (intro bit_word_eqI) (auto simp: bit_simps; force simp: not_less [symmetric])
qed

lemma encInteger_append: "encInteger dst msk n i = dst @ encInteger [] msk n i"
  by (simp add: encInteger_def Let_def encInteger_loop_append [of "dst @ _"] encInteger_loop_append [of "[_]"])

lemma encInteger_split:
  "encInteger [] msk n i =
    (if i < int_bound n then [msk OR ucast i]
     else (msk OR ucast (int_bound n)) # encInteger_loop [] (i - int_bound n))"
  by (simp add: encInteger_def Let_def encInteger_loop_append [of "[_]"])

lemma encInteger_Cons:
  assumes "n \<le> 8" "msk AND mask n = 0"
  obtains b bs where "encInteger [] msk n i = b # bs" "b AND NOT (mask n) = msk"
  using prefix_octet(2) [OF assms, of i] prefix_octet(2) [OF assms order_refl]
  by (cases "i < int_bound n") (auto simp: encInteger_split less_imp_le intro: that)

lemma decInteger_encInteger_wide:
  assumes "n \<le> 8" "msk AND mask n = 0" "unat i < 2 ^ 63 + 2 ^ n - 1"
  shows "decInteger (encInteger [] msk n i @ rest) n = (Inr i, rest)"
proof (cases "i < int_bound n")
  case True
  then show ?thesis
    using prefix_octet(1) [OF assms(1,2), of i] by (simp add: encInteger_split Let_def)
next
  case False
  have n: "(1 :: nat) \<le> 2 ^ n" by simp
  have "unat (i - int_bound n) < 2 ^ (63 - 0)"
    using False assms(1,3) n unat_int_bound [of n] by (simp add: unat_minus_small word_le_nat_alt not_less)
  from decInteger_loop_encode [OF this, of "int_bound n" rest] False
  show ?thesis
    using prefix_octet(1) [OF assms(1,2) order_refl] by (simp add: encInteger_split Let_def)
qed

lemma decInteger_encInteger:
  assumes "n \<le> 8" "msk AND mask n = 0" "unat i < 2 ^ 63"
  shows "decInteger (encInteger [] msk n i @ rest) n = (Inr i, rest)"
proof -
  have "(1 :: nat) \<le> 2 ^ n" by simp
  with assms(3) have "unat i < 2 ^ 63 + 2 ^ n - 1" by linarith
  then show ?thesis by (rule decInteger_encInteger_wide [OF assms(1, 2)])
qed

lemma decInteger_encInteger_overflow:
  assumes "n \<le> 8" "msk AND mask n = 0" "2 ^ 63 + 2 ^ n - 1 \<le> unat i"
  shows "fst (decInteger (encInteger [] msk n i @ rest) n) = Inl errIntegerOverflow"
proof -
  have n: "(1 :: nat) \<le> 2 ^ n" by simp
  have F: "\<not> i < int_bound n"
    using assms unat_int_bound [of n] by (simp add: word_less_nat_alt)
  then have "2 ^ (63 - 0) \<le> unat (i - int_bound n)"
    using assms(1,3) n unat_int_bound [of n] by (simp add: unat_minus_small word_le_nat_alt not_less)
  from decInteger_loop_overflow [OF this, of "int_bound n" rest] F
  show ?thesis
    using prefix_octet(1) [OF assms(1,2) order_refl] by (simp add: encInteger_split Let_def)
qed

text \<open>The number an octet string of RFC 7541, section 5.1 stands for.\<close>

fun septets :: "bytes \<Rightarrow> nat" where
  "septets [] = 0"
| "septets (b # bs) = unat (b AND 127) + 128 * septets bs"

lemma unat_septet: "unat ((b :: u8) AND 127) < 128"
proof -
  have "b AND 127 \<le> 127" by (rule word_and_le1)
  then show ?thesis by (simp add: word_le_nat_alt)
qed

lemma septets_bound: "septets bs < 128 ^ length bs"
proof (induction bs)
  case (Cons b bs)
  have "unat (b AND 127) + 128 * septets bs < 128 * (septets bs + 1)" using unat_septet [of b] by simp
  also have "\<dots> \<le> 128 * 128 ^ length bs" using Cons by (intro mult_le_mono2) simp
  finally show ?case by simp
qed simp

lemma decInteger_loop_value:
  assumes "decInteger_loop acc m data = (Inr i :: 'e dec_err + u64, rest)" "m \<le> 56" "unat acc < 2 ^ m + 255" "7 dvd m"
  shows "\<exists>used. data = used @ rest \<and> unat i = unat acc + 2 ^ m * septets used
    \<and> 0 < length used \<and> m + 7 * length used \<le> 63"
  using assms
proof (induction acc m data rule: decInteger_loop.induct)
  case (2 acc m b data)
  let ?acc = "acc + push_bit m (ucast (b AND 127))"
  have p: "(2 :: nat) ^ m \<le> 2 ^ 56" using "2.prems"(2) by (intro power_increasing) simp_all
  have s: "unat (push_bit m (ucast (b AND 127)) :: u64) = 2 ^ m * unat (b AND 127)"
  proof -
    have "2 ^ m * unat (b AND 127) < 2 ^ m * 128" using unat_septet [of b] by simp
    also have "\<dots> \<le> 2 ^ 56 * 128" using p by (intro mult_le_mono1)
    finally have "2 ^ m * unat (b AND 127) < 2 ^ 64" by simp
    from unat_of_nat64 [OF this] show ?thesis
      by (simp add: push_bit_eq_mult mult.commute)
  qed
  have le: "2 ^ m * unat (b AND 127) \<le> 2 ^ m * 127" using unat_septet [of b] by simp
  moreover have "(255 :: nat) < 128 * 2 ^ 56" by simp
  ultimately have "unat acc + 2 ^ m * unat (b AND 127) < 256 * 2 ^ 56" using p "2.prems"(3) by linarith
  then have "unat acc + 2 ^ m * unat (b AND 127) < 2 ^ 64" by simp
  with s have u: "unat ?acc = unat acc + 2 ^ m * unat (b AND 127)"
    by (subst unat_plus_small) simp_all
  show ?case
  proof (cases "b AND 128 = 0")
    case True
    with "2.prems" u show ?thesis
      by (intro exI [of _ "[b]"]) (simp add: Let_def)
  next
    case False
    with "2.prems"(1) have m: "m + 7 < 63" and l: "decInteger_loop ?acc (m + 7) data = (Inr i :: 'e dec_err + u64, rest)"
      by (auto simp: Let_def split: if_splits)
    have "2 ^ (m + 7) = 128 * (2 :: nat) ^ m" by (simp add: power_add)
    then have "unat ?acc < 2 ^ (m + 7) + 255" using u "2.prems"(3) le by linarith
    moreover have "m + 7 \<le> 56" "7 dvd m + 7" using m "2.prems"(4) by presburger+
    ultimately obtain used where
      "data = used @ rest" "unat i = unat ?acc + 2 ^ (m + 7) * septets used" "0 < length used"
      "m + 7 + 7 * length used \<le> 63"
      using "2.IH" [OF refl refl False _ l] m by auto
    with u show ?thesis
      by (intro exI [of _ "b # used"]) (simp add: power_add algebra_simps)
  qed
qed simp

lemma decInteger_value:
  assumes "decInteger data n = (Inr i :: 'e dec_err + u64, rest)" "n \<le> 8"
  shows "\<exists>b used. data = b # used @ rest \<and> length used \<le> 9
    \<and> unat i = unat b mod 2 ^ n + septets used
    \<and> (used \<noteq> [] \<longrightarrow> unat b mod 2 ^ n = 2 ^ n - 1)"
proof (cases data)
  case (Cons b bs)
  let ?i = "ucast b AND int_bound n :: u64"
  have "?i = take_bit n (ucast b)" by (simp add: int_bound_mask take_bit_eq_mask)
  moreover have "unat (ucast b :: u64) = unat b"
    using unat_less_8 [of b] by (simp add: unsigned_ucast_eq take_bit_nat_eq_self)
  ultimately have u: "unat ?i = unat b mod 2 ^ n"
    by (simp only: unsigned_take_bit_eq) (simp only: take_bit_eq_mod)
  show ?thesis
  proof (cases "?i < int_bound n")
    case True
    with assms Cons u show ?thesis by (intro exI [of _ b] exI [of _ "[]"]) (simp add: Let_def)
  next
    case False
    moreover have "?i \<le> int_bound n" by (rule word_and_le1)
    ultimately have e: "?i = int_bound n" by simp
    from False Cons assms(1) have "decInteger_loop ?i 0 bs = (Inr i :: 'e dec_err + u64, rest)" by (simp add: Let_def)
    moreover have "unat ?i < 2 ^ 0 + 255" using u unat_less_8 [of b] by (simp add: order_le_less_trans [OF mod_less_eq_dividend])
    ultimately obtain used where "bs = used @ rest" "unat i = unat ?i + septets used" "7 * length used \<le> 63"
      using decInteger_loop_value [of ?i 0 bs i rest] by auto
    moreover have "unat b mod 2 ^ n = 2 ^ n - 1" using u e unat_int_bound [OF assms(2)] by simp
    ultimately show ?thesis
      using Cons u by (intro exI [of _ b] exI [of _ used]) simp
  qed
qed (use assms in simp)

section \<open>More input\<close>

text \<open>
  Input that was enough stays enough: appending bytes changes neither a result nor what is
  consumed.
\<close>

lemma decInteger_loop_more:
  "decInteger_loop acc m data = (r, rest) \<Longrightarrow> r \<noteq> Inl errNeedsMore \<Longrightarrow>
   decInteger_loop acc m (data @ x) = (r, rest @ x) \<and> length rest < length data"
proof (induction acc m data rule: decInteger_loop.induct)
  case (2 acc m b data)
  then show ?case by (auto simp: Let_def less_Suc_eq split: if_splits)
qed simp

lemma decInteger_more:
  "decInteger data n = (r, rest) \<Longrightarrow> r \<noteq> Inl errNeedsMore \<Longrightarrow>
   decInteger (data @ x) n = (r, rest @ x) \<and> length rest < length data"
  by (cases data) (auto simp: Let_def less_Suc_eq split: if_splits dest: decInteger_loop_more [where x = x])

section \<open>Strings\<close>

lemma bits_of_inj: "bits_of xs = bits_of ys \<Longrightarrow> xs = ys"
proof (induction xs arbitrary: ys)
  case Nil
  then show ?case by (cases ys) (auto dest: arg_cong [of _ _ length])
next
  case (Cons x xs)
  then obtain y zs where ys: "ys = y # zs"
    by (cases ys) (auto dest: arg_cong [of _ _ length])
  with Cons.prems have "byte_bits x = byte_bits y" "bits_of xs = bits_of zs" by auto
  with Cons.IH ys show ?case by (auto dest: byte_bits_inj)
qed

lemma HuffmanEncode_append: "HuffmanEncode dst s = dst @ HuffmanEncode [] s"
proof (rule bits_of_inj)
  from HuffmanEncode_bits [of dst s] obtain k where
    k: "k < 8" "bits_of (HuffmanEncode dst s) = bits_of dst @ text_bits s @ replicate k True" by blast
  from HuffmanEncode_bits [of "[]" s] obtain l where
    l: "l < 8" "bits_of (HuffmanEncode [] s) = text_bits s @ replicate l True" by auto
  have "8 * length (HuffmanEncode dst s) = 8 * length dst + length (text_bits s) + k"
    "8 * length (HuffmanEncode [] s) = length (text_bits s) + l"
    using arg_cong [OF k(2), of length] arg_cong [OF l(2), of length] by simp_all
  with k(1) l(1) have "k = l" by presburger
  with k l show "bits_of (HuffmanEncode dst s) = bits_of (dst @ HuffmanEncode [] s)" by simp
qed

lemma encStringLiteral_append: "encStringLiteral dst s h = dst @ encStringLiteral [] s h"
proof -
  have a: "encInteger dst m n i = dst @ encInteger [] m n i" for m n i by (rule encInteger_append)
  have b: "HuffmanEncode (dst @ encInteger [] 128 7 i) s = dst @ HuffmanEncode (encInteger [] 128 7 i) s" for i
    by (subst (1 2) HuffmanEncode_append) simp
  show ?thesis
    by (simp add: encStringLiteral_def Let_def a b split: huffman.split)
qed

lemma length_HuffmanEncode_le: "length (HuffmanEncode [] s) \<le> 4 * length s"
  using length_HuffmanEncode [of s] length_text_bits_le [of s] by linarith

lemma string_tag:
  assumes "msk = 0 \<or> msk = 0x80" "unat l < 2 ^ 63"
  shows "encInteger [] msk 7 l \<noteq> []" "hd (encInteger [] msk 7 l @ x) AND 128 \<noteq> 0 \<longleftrightarrow> msk = 0x80"
    "decInteger (encInteger [] msk 7 l @ x) 7 = (Inr l, x)"
proof -
  have m: "msk AND mask 7 = 0" using assms(1) by (auto simp: mask_eq_exp_minus_1)
  obtain b bs where b: "encInteger [] msk 7 l = b # bs" "b AND NOT (mask 7) = msk"
    by (rule encInteger_Cons [OF _ m]) simp_all
  have "(NOT (mask 7) :: u8) = 128" by (simp add: mask_eq_exp_minus_1)
  with b assms(1) show "encInteger [] msk 7 l \<noteq> []" "hd (encInteger [] msk 7 l @ x) AND 128 \<noteq> 0 \<longleftrightarrow> msk = 0x80"
    by auto
  show "decInteger (encInteger [] msk 7 l @ x) 7 = (Inr l, x)"
    by (rule decInteger_encInteger [OF _ m assms(2)]) simp
qed

lemma decStringLiteral_plain:
  assumes "length s < 2 ^ 58"
  shows "decStringLiteral (encInteger [] 0x00 7 (of_nat (length s)) @ s @ rest) = Some (Inr s, rest)"
proof -
  have u: "unat (of_nat (length s) :: u64) = length s" using assms by (intro unat_of_nat64) simp
  with assms have l: "unat (of_nat (length s) :: u64) < 2 ^ 63" by simp
  note tag = string_tag [OF disjI1 [OF refl] l]
  from tag(2) [of "s @ rest"] tag(1) have "hd (encInteger [] 0 7 (of_nat (length s))) AND 128 = 0" by simp
  then show ?thesis
    by (simp add: decStringLiteral_def Let_def tag u)
qed

lemma decStringLiteral_huffman:
  assumes "length s < 2 ^ 58"
  shows "decStringLiteral (HuffmanEncode (encInteger [] 0x80 7 (HuffmanEncodedLen s)) s @ rest) = Some (Inr s, rest)"
proof -
  note u = HuffmanEncodedLen_exact [OF assms]
  then have l: "unat (HuffmanEncodedLen s) < 2 ^ 63" using assms length_HuffmanEncode_le [of s] by simp
  note tag = string_tag [OF disjI2 [OF refl] l]
  from tag(2) [of "[]"] have "hd (encInteger [] 0x80 7 (HuffmanEncodedLen s)) AND 128 \<noteq> 0" by simp
  then show ?thesis
    by (subst HuffmanEncode_append)
       (simp add: decStringLiteral_def Let_def tag u HuffmanDecode_HuffmanEncode)
qed

lemma decStringLiteral_encStringLiteral:
  assumes "length s < 2 ^ 58"
  shows "decStringLiteral (encStringLiteral [] s h @ rest) = Some (Inr s, rest)"
  by (simp add: encStringLiteral_def Let_def decStringLiteral_plain [OF assms]
      decStringLiteral_huffman [OF assms] split: huffman.split)

lemma HuffmanDecode_total: "\<exists>s. HuffmanDecode dst src = Some s"
  using HuffmanDecode_parses by blast

lemma decStringLiteral_cases:
  obtains (short) "data = []" "decStringLiteral data = Some (Inl (errNeedsMore :: 'e dec_err), data)"
  | (err) e rest where "data \<noteq> []" "decInteger data 7 = (Inl e :: 'e dec_err + u64, rest)"
      "decStringLiteral data = Some (Inl e :: 'e dec_err + gostring, rest)"
  | (cut) l rest where "decInteger data 7 = (Inr l :: 'e dec_err + u64, rest)" "length rest < unat l"
      "decStringLiteral data = Some (Inl (errNeedsMore :: 'e dec_err), rest)"
  | (val) l rest s where "data \<noteq> []" "decInteger data 7 = (Inr l :: 'e dec_err + u64, rest)" "unat l \<le> length rest"
      "decStringLiteral data = Some (Inr s :: 'e dec_err + gostring, drop (unat l) rest)"
      "\<And>x. decStringLiteral (data @ x) = Some (Inr s :: 'e dec_err + gostring, drop (unat l) rest @ x)"
proof (cases "data = []")
  case True
  then show ?thesis by (intro short) (simp_all add: decStringLiteral_def)
next
  case ne: False
  obtain r :: "'e dec_err + u64" and rest where d: "decInteger data 7 = (r, rest)" by fastforce
  show ?thesis
  proof (cases r)
    case (Inl e)
    with d ne show ?thesis by (intro err) (simp_all add: decStringLiteral_def Let_def)
  next
    case (Inr l)
    note d = d [unfolded Inr]
    show ?thesis
    proof (cases "length rest < unat l")
      case True
      with d ne show ?thesis by (intro cut) (simp_all add: decStringLiteral_def Let_def)
    next
      case False
      have m: "decInteger (data @ x) 7 = (Inr l :: 'e dec_err + u64, rest @ x)" for x
        using decInteger_more [OF d, of x] by simp
      from HuffmanDecode_total obtain s where "HuffmanDecode [] (take (unat l) rest) = Some s" by blast
      with False d ne m show ?thesis
        by (intro val [of l rest "if hd data AND 128 \<noteq> 0 then s else take (unat l) rest"])
           (simp_all add: decStringLiteral_def Let_def)
    qed
  qed
qed

lemma decStringLiteral_total: "\<exists>r rest. decStringLiteral data = Some (r, rest)"
  by (rule decStringLiteral_cases [of data]) blast+

lemma decStringLiteral_more:
  assumes "decStringLiteral data = Some (r, rest)" "r \<noteq> Inl errNeedsMore"
  shows "decStringLiteral (data @ x) = Some (r :: 'e dec_err + gostring, rest @ x) \<and> length rest < length data"
proof (cases rule: decStringLiteral_cases [of data, where 'e = 'e])
  case (err e rest')
  with assms decInteger_more [OF err(2), of x] show ?thesis
    by (auto simp: decStringLiteral_def Let_def)
next
  case (val l rest' s)
  with assms decInteger_more [OF val(2), of x] show ?thesis by auto
qed (use assms in auto)

end
