(* ===== verification/Hpack_Sync.thy ===== *)
theory Hpack_Sync
  imports Hpack_Primitives
begin

text \<open>
  Encoder against decoder (\<^verbatim>\<open>src/hpack/hpack.go\<close>): a field, a table size update and a whole
  header block that \<open>EncodeHeaderField\<close> writes are read back by \<open>Decode\<close>, and the dynamic
  tables of both sides stay equal.
\<close>

section \<open>Tags\<close>

lemma and_sub: "a AND b = b \<Longrightarrow> (x AND a) AND b = x AND (b :: u8)"
  by (simp add: and.assoc)

lemma octet_masks:
  "(NOT (mask 7) :: u8) = 128" "(NOT (mask 6) :: u8) = 192" "(NOT (mask 5) :: u8) = 224" "(NOT (mask 4) :: u8) = 240"
  by (simp_all add: mask_eq_exp_minus_1)

lemma tag_indexed: "b AND NOT (mask 7) = (0x80 :: u8) \<Longrightarrow> b AND 128 \<noteq> 0"
  by (simp add: octet_masks)

lemma tag_literal_indexed:
  assumes "b AND NOT (mask 6) = (0x40 :: u8)"
  shows "b AND 128 = 0" "b AND 192 = 64"
proof -
  show c: "b AND 192 = 64" using assms by (simp add: octet_masks)
  show "b AND 128 = 0" using and_sub [of 192 128 b] by (simp add: c)
qed

lemma tag_literal:
  assumes "b AND NOT (mask 4) = (msk :: u8)" "msk = 0 \<or> msk = 0x10"
  shows "b AND 128 = 0" "b AND 192 \<noteq> 64" "b AND 240 = msk"
proof -
  show c: "b AND 240 = msk" using assms by (simp add: octet_masks)
  show "b AND 128 = 0" "b AND 192 \<noteq> 64"
    using and_sub [of 240 128 b] and_sub [of 240 192 b] assms(2) by (auto simp: c)
qed

lemma tag_size_update:
  assumes "b AND 224 = (0x20 :: u8)"
  shows "b AND 128 = 0" "b AND 192 \<noteq> 64" "b AND 240 \<noteq> 0" "b AND 240 \<noteq> 16"
proof -
  note c = assms
  show "b AND 128 = 0" "b AND 192 \<noteq> 64"
    using and_sub [of 224 128 b] and_sub [of 224 192 b] by (auto simp: c)
  have "(b AND 240) AND 224 = 32" using and_sub [of 240 224 b] by (simp add: c)
  then show "b AND 240 \<noteq> 0" "b AND 240 \<noteq> 16" by auto
qed

lemmas tags = tag_indexed tag_literal_indexed tag_literal tag_size_update

section \<open>One representation\<close>

lemma encIndexed_append: "encIndexed dst i = dst @ encIndexed [] i"
  by (simp add: encIndexed_def encInteger_append [of dst])

lemma encLiteral_append:
  "encLiteral dst n v ty i h = (fst (encLiteral [] n v ty i h), dst @ snd (encLiteral [] n v ty i h))"
  by (simp add: encLiteral_def Let_def encInteger_append [of dst]
      encStringLiteral_append [of "_ @ _"] encStringLiteral_append [of "encInteger _ _ _ _"] split: indexType.split)

lemma entry_index_small:
  assumes "tbl_ok t" "headerTable_entry t i = Some x"
  shows "unat i < 2 ^ 63"
  using entry_range [OF assms(2)] tbl_ok_length [OF assms(1)] by simp

lemma call_handler_err: "call_handler handle n v s h = (e, h') \<Longrightarrow> e \<noteq> Some errNeedsMore"
  by (auto simp: call_handler_def split: option.splits prod.splits)

lemma decode_indexed:
  assumes "tbl_ok (d_table dec)" "headerTable_entry (d_table dec) i = Some hf"
    and h: "call_handler handle (hf_name hf) (hf_value hf) False h = (e, h')"
  shows "decode handle (dec\<lparr>d_data := encIndexed [] i @ rest\<rparr>) h =
    Some (0, e, dec\<lparr>d_st := True, d_data := rest\<rparr>, h')"
proof -
  have m: "(0x80 :: u8) AND mask 7 = 0" by (simp add: mask_eq_exp_minus_1)
  obtain b bs where b: "encInteger [] 0x80 7 i = b # bs" "b AND NOT (mask 7) = 0x80"
    by (rule encInteger_Cons [OF _ m]) simp_all
  have d: "decInteger (b # bs @ rest) 7 = (Inr i, rest)"
    using decInteger_encInteger [OF _ m entry_index_small [OF assms(1,2)], of rest] by (simp add: b(1) del: decInteger.simps)
  show ?thesis
    using tag_indexed [OF b(2)] call_handler_err [OF h]
    by (simp add: decode_def decode_instr_def decIndexed_def encIndexed_def b(1) Let_def d assms(2) h del: decInteger.simps)
qed

definition lit_tag :: "indexType \<Rightarrow> u8 \<times> nat" where
  "lit_tag ty = (case ty of indexedTrue \<Rightarrow> (0x40, 6) | indexedFalse \<Rightarrow> (0x00, 4) | indexedNever \<Rightarrow> (0x10, 4))"

lemma encLiteral_split:
  "encLiteral [] n v ty i hf =
    ((if i = 0 then of_nat (length n) else 0) + of_nat (length v + headerEntryOverhead),
     encInteger [] (fst (lit_tag ty)) (snd (lit_tag ty)) i
       @ (if i = 0 then encStringLiteral [] n hf else []) @ encStringLiteral [] v hf)"
  by (auto simp: encLiteral_def lit_tag_def Let_def
      encStringLiteral_append [of "_ @ _"] encStringLiteral_append [of "encInteger _ _ _ _"] split: indexType.split)

lemma lit_tag_mask: "fst (lit_tag ty) AND mask (snd (lit_tag ty)) = 0" "snd (lit_tag ty) \<le> 8"
  by (cases ty; simp add: lit_tag_def mask_eq_exp_minus_1)+

lemma decode_instr_literal:
  assumes "d_data dec = b # bs" "b AND NOT (mask (snd (lit_tag ty))) = fst (lit_tag ty)"
  shows "decode_instr handle dec h = decLiteral handle dec ty h"
proof (cases ty)
  case indexedTrue
  with tag_literal_indexed [of b] assms show ?thesis by (simp add: decode_instr_def lit_tag_def Let_def)
next
  case indexedFalse
  with tag_literal [of b 0] assms show ?thesis by (simp add: decode_instr_def lit_tag_def Let_def)
next
  case indexedNever
  with tag_literal [of b 16] assms show ?thesis by (simp add: decode_instr_def lit_tag_def Let_def)
qed

definition name_ok :: "headerTable \<Rightarrow> u64 \<Rightarrow> gostring \<Rightarrow> bool" where
  "name_ok t i n \<longleftrightarrow> i = 0 \<or> (\<exists>x. headerTable_entry t i = Some x \<and> hf_name x = n)"

lemma decLiteral_name_encoded:
  assumes "tbl_ok (d_table dec)" "name_ok (d_table dec) i n" "length n < 2 ^ 58"
    and "d_data dec = encInteger [] msk k i @ (if i = 0 then encStringLiteral [] n hf else []) @ rest"
    and "msk AND mask k = 0" "k \<le> 8"
  shows "decLiteral_name dec k = Some (Inr (n, if i = 0 then of_nat (length n) else 0), dec\<lparr>d_data := rest\<rparr>)"
proof -
  have "unat i < 2 ^ 63"
    using assms(1,2) entry_index_small by (auto simp: name_ok_def)
  note d = decInteger_encInteger [OF assms(6,5) this]
  show ?thesis
    using assms(2)
    by (auto simp: decLiteral_name_def assms(4) Let_def d decStringLiteral_encStringLiteral [OF assms(3)]
        name_ok_def word_neq_0_conv [symmetric] simp del: decInteger.simps)
qed

lemma decode_literal:
  fixes dec :: "'e Decoder"
  assumes ok: "tbl_ok (d_table dec)" "name_ok (d_table dec) i n" "length n < 2 ^ 58" "length v < 2 ^ 58"
    and t: "if ty = indexedTrue then headerTable_add (d_table dec) n v = Some (c, t') else t' = d_table dec"
    and h: "call_handler handle n v (ty = indexedNever) h = (e, h')"
    and enc: "encLiteral [] n v ty i hf = (hsize, bs)"
  shows "decode handle (dec\<lparr>d_data := bs @ rest\<rparr>) h =
    Some (hsize, e, dec\<lparr>d_st := True, d_data := rest, d_table := t'\<rparr>, h')"
proof -
  obtain msk k where mk: "lit_tag ty = (msk, k)" by fastforce
  have m: "msk AND mask k = 0" "k \<le> 8" using lit_tag_mask [of ty] mk by simp_all
  obtain b b' where b: "encInteger [] msk k i = b # b'" "b AND NOT (mask k) = msk"
    using encInteger_Cons [OF m(2,1)] .
  let ?dec = "dec\<lparr>d_data := bs @ rest\<rparr>"
  let ?v = "encStringLiteral [] v hf @ rest"
  from enc mk have bs: "bs = encInteger [] msk k i @ (if i = 0 then encStringLiteral [] n hf else []) @ encStringLiteral [] v hf"
    and hs: "hsize = (if i = 0 then of_nat (length n) else 0) + of_nat (length v + headerEntryOverhead)"
    by (simp_all add: encLiteral_split)
  have k: "k = (case ty of indexedTrue \<Rightarrow> 6 | indexedFalse \<Rightarrow> 4 | indexedNever \<Rightarrow> 4)"
    using mk by (cases ty) (simp_all add: lit_tag_def)
  have nm: "decLiteral_name (?dec\<lparr>d_st := True\<rparr>) k =
    Some (Inr (n, if i = 0 then of_nat (length n) else 0), ?dec\<lparr>d_st := True, d_data := ?v\<rparr>)"
    using decLiteral_name_encoded [OF _ _ ok(3) _ m, of "?dec\<lparr>d_st := True\<rparr>" i hf ?v] ok(1,2) by (simp add: bs)
  have i: "decode_instr handle ?dec h = decLiteral handle ?dec ty h"
    using b mk by (intro decode_instr_literal [of _ b]) (simp_all add: bs)
  have l: "decLiteral handle ?dec ty h = Some (hsize, e, dec\<lparr>d_st := True, d_data := rest, d_table := t'\<rparr>, h')"
    unfolding decLiteral_def k [symmetric] nm Let_def
    using t h by (auto simp: decStringLiteral_encStringLiteral [OF ok(4)] hs split: if_splits)
  show ?thesis
    unfolding decode_def i l using call_handler_err [OF h] by simp
qed

section \<open>A field through encoder and decoder\<close>

definition field_small :: "gostring \<Rightarrow> gostring \<Rightarrow> bool" where
  "field_small n v \<longleftrightarrow> fsize (mk_field n v) < 2 ^ 32"

lemma field_small_lengths: "field_small n v \<Longrightarrow> length n < 2 ^ 58 \<and> length v < 2 ^ 58"
  by (simp add: field_small_def fsize_def)

lemma index_resolves:
  assumes "tbl_ok t" "index n v = (i, m)"
  shows "m \<Longrightarrow> headerTable_entry t i = Some (mk_field n v)" "\<not> m \<Longrightarrow> name_ok t i n"
  using index_True [of n v i] index_False [of n v i] assms entry_static [of i t] tbl_ok_length [OF assms(1)]
  by (cases m; auto simp: name_ok_def)+

lemma find_resolves:
  assumes "tbl_ok t" "headerTable_find t n v = (i, m)"
  shows "m \<Longrightarrow> headerTable_entry t i = Some (mk_field n v)" "name_ok t i n"
  using dyn.find_hit [OF assms(1), of n v i] dyn.find_entry_name [OF assms] assms(2)
  by (cases m; auto simp: name_ok_def)+

text \<open>
  The bytes \<open>bs\<close> the encoder appends for a field, the size it counts and the table it leaves
  are those of the decoder that reads \<open>bs\<close> back, with the handler called on the field.
\<close>

definition delivers ::
  "('e, 'h) HeaderFieldHandler option \<Rightarrow> Encoder \<Rightarrow> 'e Decoder \<Rightarrow> gostring \<Rightarrow> gostring \<Rightarrow> bool \<Rightarrow> 'h \<Rightarrow> bytes \<Rightarrow>
   u32 \<Rightarrow> bytes \<Rightarrow> headerTable \<Rightarrow> bool" where
  "delivers handle enc dec n v s h rest hsize bs t' \<longleftrightarrow>
     (\<forall>dst. Encoder_EncodeHeaderField enc dst n v s = Some (hsize, dst @ bs, enc\<lparr>e_table := t'\<rparr>))
     \<and> bs \<noteq> [] \<and> tbl_ok t' \<and> tmaxSize t' = tmaxSize (e_table enc)
     \<and> decode handle (dec\<lparr>d_data := bs @ rest\<rparr>) h =
         (case call_handler handle n v s h of
            (e, h') \<Rightarrow> Some (hsize, e, dec\<lparr>d_st := True, d_data := rest, d_table := t'\<rparr>, h'))"

lemma delivers_literal:
  assumes dok: "tbl_ok (d_table dec)" and sync: "d_table dec = e_table enc"
    and len: "length n < 2 ^ 58" "length v < 2 ^ 58" and nm: "name_ok (e_table enc) i n"
    and t: "if ty = indexedTrue then headerTable_add (e_table enc) n v = Some (c, t') else t' = e_table enc"
    and t': "tbl_ok t'" "tmaxSize t' = tmaxSize (e_table enc)" and s: "s = (ty = indexedNever)"
    and eq: "\<And>dst. Encoder_EncodeHeaderField enc dst n v s =
        Some (fst (encLiteral dst n v ty i (e_h enc)), snd (encLiteral dst n v ty i (e_h enc)), enc\<lparr>e_table := t'\<rparr>)"
  shows "\<exists>hsize bs t'. delivers handle enc dec n v s h rest hsize bs t'"
proof -
  obtain hsize bs where e: "encLiteral [] n v ty i (e_h enc) = (hsize, bs)" by fastforce
  obtain b b' where "encInteger [] (fst (lit_tag ty)) (snd (lit_tag ty)) i = b # b'"
    using encInteger_Cons [OF lit_tag_mask(2,1)] .
  with e have ne: "bs \<noteq> []" by (auto simp: encLiteral_split)
  obtain r h' where c: "call_handler handle n v s h = (r, h')" by fastforce
  have "decode handle (dec\<lparr>d_data := bs @ rest\<rparr>) h =
      Some (hsize, r, dec\<lparr>d_st := True, d_data := rest, d_table := t'\<rparr>, h')"
    by (rule decode_literal [OF dok _ len _ _ e, where c = c]) (use t c nm sync s in simp_all)
  moreover have "encLiteral dst n v ty i (e_h enc) = (hsize, dst @ bs)" for dst
    using encLiteral_append [of dst n v ty i "e_h enc"] by (simp add: e)
  ultimately have "delivers handle enc dec n v s h rest hsize bs t'"
    using eq ne t' by (simp add: delivers_def c)
  then show ?thesis by blast
qed

lemma delivers_indexed:
  assumes dok: "tbl_ok (d_table dec)" and sync: "d_table dec = e_table enc"
    and entry: "headerTable_entry (e_table enc) i = Some (mk_field n v)" and s: "\<not> s"
    and eq: "\<And>dst. Encoder_EncodeHeaderField enc dst n v s = Some (0, encIndexed dst i, enc)"
  shows "\<exists>hsize bs t'. delivers handle enc dec n v s h rest hsize bs t'"
proof -
  have m: "(0x80 :: u8) AND mask 7 = 0" by (simp add: mask_eq_exp_minus_1)
  obtain b b' where "encInteger [] 0x80 7 i = b # b'"
    by (rule encInteger_Cons [OF _ m]) simp_all
  then have ne: "encIndexed [] i \<noteq> []" by (simp add: encIndexed_def)
  obtain r h' where c: "call_handler handle n v s h = (r, h')" by fastforce
  have "decode handle (dec\<lparr>d_data := encIndexed [] i @ rest\<rparr>) h =
      Some (0, r, dec\<lparr>d_st := True, d_data := rest\<rparr>, h')"
    by (rule decode_indexed [OF dok, where hf = "mk_field n v"]) (use entry c s sync in auto)
  moreover have "Encoder_EncodeHeaderField enc dst n v s = Some (0, dst @ encIndexed [] i, enc)" for dst
    unfolding eq by (subst encIndexed_append) simp
  ultimately have "delivers handle enc dec n v s h rest 0 (encIndexed [] i) (e_table enc)"
    using ne dok sync by (simp add: delivers_def c)
  then show ?thesis by blast
qed

lemma delivers_field:
  assumes ok: "tbl_ok (e_table enc)" "unat (tmaxSize (e_table enc)) < 2 ^ 31" "\<not> e_sizeChanged enc"
    and small: "field_small n v" and sync: "d_table dec = e_table enc"
  shows "\<exists>hsize bs t'. delivers handle enc dec n v s h rest hsize bs t'"
proof -
  let ?t = "e_table enc"
  have dok: "tbl_ok (d_table dec)" using ok(1) sync by simp
  note len = field_small_lengths [OF small, THEN conjunct1] field_small_lengths [OF small, THEN conjunct2]
  note lit = delivers_literal [OF dok sync len] and idx = delivers_indexed [OF dok sync]
  have upd: "Encoder_size_updates enc dst = (dst, enc)" for dst
    using ok(3) by (simp add: Encoder_size_updates_def)
  note enc_defs = Encoder_EncodeHeaderField_def upd split_beta Let_def
  obtain i m where ix: "index n v = (i, m)" by fastforce
  obtain j l where fd: "headerTable_find ?t n v = (j, l)" by fastforce
  from dyn.add_law [OF ok(1) small [unfolded field_small_def] ok(2)] obtain c t' where
    add: "headerTable_add ?t n v = Some (c, t')" "tbl_ok t'" "tmaxSize t' = tmaxSize ?t"
    by (auto simp: word_unat_eq_iff)
  consider (never) s | (static) "\<not> s" "tmaxSize ?t = 0" m | (static_name) "\<not> s" "tmaxSize ?t = 0" "\<not> m"
    | (large) "\<not> s" "tmaxSize ?t \<noteq> 0" "HeaderFieldSize n v > tmaxSize ?t"
    | (hit) "\<not> s" "tmaxSize ?t \<noteq> 0" "\<not> HeaderFieldSize n v > tmaxSize ?t" l
    | (insert) "\<not> s" "tmaxSize ?t \<noteq> 0" "\<not> HeaderFieldSize n v > tmaxSize ?t" "\<not> l" "e_i enc"
    | (miss) "\<not> s" "tmaxSize ?t \<noteq> 0" "\<not> HeaderFieldSize n v > tmaxSize ?t" "\<not> l" "\<not> e_i enc"
    by blast
  then show ?thesis
  proof cases
    case never
    then show ?thesis
      using ok(1) by (intro lit [of 0 indexedNever _ ?t]) (simp_all add: enc_defs name_ok_def)
  next
    case static
    then show ?thesis
      using index_resolves(1) [OF ok(1) ix] by (intro idx [of i]) (simp_all add: enc_defs ix)
  next
    case static_name
    then show ?thesis
      using ok(1) index_resolves(2) [OF ok(1) ix] by (intro lit [of i indexedFalse _ ?t]) (simp_all add: enc_defs ix)
  next
    case large
    then show ?thesis
      using ok(1) by (intro lit [of 0 indexedFalse _ ?t]) (simp_all add: enc_defs name_ok_def)
  next
    case hit
    then show ?thesis
      using find_resolves(1) [OF ok(1) fd] by (intro idx [of j]) (simp_all add: enc_defs fd)
  next
    case insert
    then show ?thesis
      using add find_resolves(2) [OF ok(1) fd] by (intro lit [of j indexedTrue c t']) (simp_all add: enc_defs fd)
  next
    case miss
    then show ?thesis
      using ok(1) find_resolves(2) [OF ok(1) fd] by (intro lit [of j indexedFalse _ ?t]) (simp_all add: enc_defs fd)
  qed
qed

section \<open>Table size updates\<close>

lemma decode_size_update:
  assumes "\<not> d_st dec" "sz \<le> d_maxSize dec" "headerTable_setMaxSize (d_table dec) sz = Some (c, t')"
  shows "decode handle (dec\<lparr>d_data := encDynamicTableSizeUpdate [] (ucast sz) @ rest\<rparr>) h =
    Some (0, None, dec\<lparr>d_data := rest, d_maxSizeLimit := sz, d_sizeChanged := False, d_table := t'\<rparr>, h)"
    and "\<exists>b bs. encDynamicTableSizeUpdate [] (ucast sz) = b # bs \<and> b AND 224 = 32"
proof -
  have m: "(0x20 :: u8) AND mask 5 = 0" by (simp add: mask_eq_exp_minus_1)
  obtain b bs where b: "encInteger [] 0x20 5 (ucast sz) = b # bs" "b AND NOT (mask 5) = 0x20"
    by (rule encInteger_Cons [OF _ m]) simp_all
  have "unat (ucast sz :: u64) = unat sz"
    using unat_less_32 [of sz] by (simp add: unsigned_ucast_eq take_bit_nat_eq_self)
  then have "unat (ucast sz :: u64) < 2 ^ 63" using unat_less_32 [of sz] by simp
  from decInteger_encInteger [OF _ m this]
  have d: "decInteger (b # bs @ rest) 5 = (Inr (ucast sz), rest)" for rest
    by (simp add: b(1) [symmetric] del: decInteger.simps flip: append_Cons)
  have uu: "ucast (ucast sz :: u64) = sz"
    by (intro bit_word_eqI) (auto simp: bit_simps)
  have tag: "b AND 224 = 32" using b(2) by (simp add: octet_masks)
  show "\<exists>b bs. encDynamicTableSizeUpdate [] (ucast sz) = b # bs \<and> b AND 224 = 32"
    using b(1) tag by (auto simp: encDynamicTableSizeUpdate_def)
  show "decode handle (dec\<lparr>d_data := encDynamicTableSizeUpdate [] (ucast sz) @ rest\<rparr>) h =
    Some (0, None, dec\<lparr>d_data := rest, d_maxSizeLimit := sz, d_sizeChanged := False, d_table := t'\<rparr>, h)"
    using assms tag_size_update [OF tag] tag
    by (simp add: decode_def decode_instr_def decDynamicTableSizeUpdate_def encDynamicTableSizeUpdate_def
        b(1) Let_def d not_less uu del: decInteger.simps)
qed

section \<open>Synchronised encoder and decoder\<close>

text \<open>
  The tables of an encoder and a decoder agree, or the encoder has changed its size since
  its last field and the tables agree once the decoder has read the updates the encoder
  will put in front of the next field.
\<close>

definition in_sync :: "Encoder \<Rightarrow> 'e Decoder \<Rightarrow> bool" where
  "in_sync enc dec \<longleftrightarrow> tbl_ok (e_table enc) \<and> tbl_ok (d_table dec)
     \<and> unat (tmaxSize (e_table enc)) < 2 ^ 31
     \<and> (if e_sizeChanged enc
        then e_minSize enc \<le> tmaxSize (e_table enc) \<and> tmaxSize (e_table enc) \<le> d_maxSize dec
          \<and> tbl_abs (e_table enc) = fit (unat (e_minSize enc)) (tbl_abs (d_table dec))
        else e_minSize enc = maxUint32 \<and> d_table dec = e_table enc \<and> \<not> d_sizeChanged dec)"

lemma maxUint32_max: "x \<le> maxUint32"
  by (simp add: maxUint32_def)

lemma in_sync_new: "unat m < 2 ^ 31 \<Longrightarrow> in_sync (NewEncoder m) (NewDecoder m)"
  by (simp add: in_sync_def NewEncoder_def NewDecoder_def new_table_def tbl_ok_def)

lemma unat_min_word: "unat (if a < b then a else b) = min (unat a) (unat b)"
  by (simp add: word_less_nat_alt min_def)

lemma in_sync_resize:
  assumes sync: "in_sync enc dec" and m: "unat m < 2 ^ 31"
  shows "\<exists>dec' enc'. Decoder_SetMaxHeaderTableSize dec m = Some dec'
    \<and> Encoder_SetMaxHeaderTableSize enc m = Some enc' \<and> in_sync enc' dec'"
proof -
  have ok: "tbl_ok (e_table enc)" "tbl_ok (d_table dec)" using sync by (simp_all add: in_sync_def)
  from dyn.set_max_law [OF ok(1), of m] obtain c t where
    t: "headerTable_setMaxSize (e_table enc) m = Some (c, t)" "tbl_ok t" "tmaxSize t = m"
      "tbl_abs t = fit (unat m) (tbl_abs (e_table enc))"
    by (auto simp: word_unat_eq_iff)
  from dyn.set_max_law [OF ok(2), of m] obtain c' u where
    u: "headerTable_setMaxSize (d_table dec) m = Some (c', u)" "tbl_ok u" "tmaxSize u = m"
      "tbl_abs u = fit (unat m) (tbl_abs (d_table dec))"
    by (auto simp: word_unat_eq_iff)
  let ?min = "if m < e_minSize enc then m else e_minSize enc"
  let ?enc = "enc\<lparr>e_minSize := ?min, e_sizeChanged := True, e_table := t\<rparr>"
  have e: "Encoder_SetMaxHeaderTableSize enc m = Some ?enc"
    using t(1) by (simp add: Encoder_SetMaxHeaderTableSize_def Let_def)
  have abs: "tbl_abs t = fit (unat ?min) (tbl_abs (d_table dec))"
    using sync t(4) unfolding unat_min_word
    by (auto simp: in_sync_def fit_fit maxUint32_max word_le_nat_alt [symmetric] split: if_splits)
  then have abs': "tbl_abs t = fit (unat ?min) (tbl_abs u)"
    unfolding u(4) fit_fit unat_min_word by (simp add: min.commute min.left_commute)
  have min: "?min \<le> m" by (simp add: not_less)
  show ?thesis
  proof (cases "m < d_maxSizeLimit dec")
    case True
    then have "Decoder_SetMaxHeaderTableSize dec m = Some (dec\<lparr>d_maxSize := m, d_sizeChanged := True, d_table := u\<rparr>)"
      using u(1) by (simp add: Decoder_SetMaxHeaderTableSize_def Let_def)
    then show ?thesis using e abs' t u m min by (simp add: in_sync_def)
  next
    case False
    then have "Decoder_SetMaxHeaderTableSize dec m = Some (dec\<lparr>d_maxSize := m\<rparr>)"
      by (simp add: Decoder_SetMaxHeaderTableSize_def Let_def)
    then show ?thesis using e abs t ok(2) m min by (simp add: in_sync_def)
  qed
qed

section \<open>A header block through encoder and decoder\<close>

type_synonym field = "gostring \<times> gostring \<times> bool"

fun encode_block :: "Encoder \<Rightarrow> bytes \<Rightarrow> field list \<Rightarrow> (bytes \<times> Encoder) option" where
  "encode_block enc dst [] = Some (dst, enc)"
| "encode_block enc dst ((n, v, s) # fs) =
     do { (_, dst, enc) \<leftarrow> Encoder_EncodeHeaderField enc dst n v s; encode_block enc dst fs }"

definition collect :: "('e, field list) HeaderFieldHandler" where
  "collect n v s fs = (None, fs @ [(n, v, s)])"

definition fields_small :: "field list \<Rightarrow> bool" where
  "fields_small fs \<longleftrightarrow> (\<forall>(n, v, s)\<in>set fs. length n + length v + 32 < 2 ^ 32)"

lemma Decode_loop_step:
  assumes "decode handle dec h = Some (n, None, dec', h')" "d_data dec \<noteq> []" "0 < fuel"
  shows "Decode_loop fuel 0 handle dec h = Decode_loop (fuel - 1) 0 handle dec' h'"
  using assms by (subst Decode_loop.simps) (auto simp: more_def split: nat.split)

lemma Decode_loop_done: "d_data dec = [] \<Longrightarrow> Decode_loop fuel limit handle dec h = Some (None, dec, h)"
  by (subst Decode_loop.simps) (simp add: more_def)

lemma data_first:
  "dec\<lparr>d_table := t, d_data := x\<rparr> = dec\<lparr>d_data := x, d_table := t\<rparr>"
  "dec\<lparr>d_st := s, d_data := x\<rparr> = dec\<lparr>d_data := x, d_st := s\<rparr>"
  "dec\<lparr>d_sizeChanged := c, d_data := x\<rparr> = dec\<lparr>d_data := x, d_sizeChanged := c\<rparr>"
  "dec\<lparr>d_maxSizeLimit := l, d_data := x\<rparr> = dec\<lparr>d_data := x, d_maxSizeLimit := l\<rparr>"
  "dec\<lparr>d_err := e, d_data := x\<rparr> = dec\<lparr>d_data := x, d_err := e\<rparr>"
  "dec\<lparr>d_n := n, d_data := x\<rparr> = dec\<lparr>d_data := x, d_n := n\<rparr>"
  "dec\<lparr>d_b := b, d_data := x\<rparr> = dec\<lparr>d_data := x, d_b := b\<rparr>"
  by (cases dec; simp)+

lemma e_table_update_inj [simp]: "enc\<lparr>e_table := a\<rparr> = enc\<lparr>e_table := b\<rparr> \<longleftrightarrow> a = b"
  by (cases enc) simp

lemma encode_block_sync:
  fixes dec :: "'e Decoder"
  assumes "tbl_ok (e_table enc)" "unat (tmaxSize (e_table enc)) < 2 ^ 31" "\<not> e_sizeChanged enc"
    and "fields_small fs" "d_table dec = e_table enc"
  shows "\<exists>bs t'. (\<forall>dst. encode_block enc dst fs = Some (dst @ bs, enc\<lparr>e_table := t'\<rparr>))
    \<and> tbl_ok t' \<and> tmaxSize t' = tmaxSize (e_table enc)
    \<and> (\<forall>fuel\<ge>length bs. Decode_loop fuel 0 (Some collect) (dec\<lparr>d_data := bs\<rparr>) hs =
        Some (None, dec\<lparr>d_st := (d_st dec \<or> fs \<noteq> []), d_data := [], d_table := t'\<rparr>, hs @ fs))"
  using assms
proof (induction fs arbitrary: enc dec hs)
  case Nil
  then show ?case
    by (intro exI [of _ "[]"] exI [of _ "e_table enc"]) (simp add: Decode_loop_done)
next
  case (Cons f fs)
  obtain n v s where f: "f = (n, v, s)" by (metis prod_cases3)
  have small: "field_small n v" "fields_small fs"
    using Cons.prems(4) f by (auto simp: fields_small_def field_small_def fsize_def headerEntryOverhead_def)
  note dlv = delivers_field [OF Cons.prems(1,2,3) small(1) Cons.prems(5), of "Some collect" s hs]
  from dlv [of "[]"] obtain hsize bs t1 where
    1: "Encoder_EncodeHeaderField enc dst n v s = Some (hsize, dst @ bs, enc\<lparr>e_table := t1\<rparr>)"
      "tbl_ok t1" "tmaxSize t1 = tmaxSize (e_table enc)" "bs \<noteq> []" for dst
    unfolding delivers_def by blast
  let ?dec = "dec\<lparr>d_st := True, d_table := t1\<rparr>"
  from Cons.IH [of "enc\<lparr>e_table := t1\<rparr>" ?dec "hs @ [f]"] 1 Cons.prems small(2)
  obtain bs2 t2 where
    2: "encode_block (enc\<lparr>e_table := t1\<rparr>) dst fs = Some (dst @ bs2, enc\<lparr>e_table := t2\<rparr>)"
      "tbl_ok t2" "tmaxSize t2 = tmaxSize (e_table enc)"
      "fuel \<ge> length bs2 \<Longrightarrow> Decode_loop fuel 0 (Some collect) (?dec\<lparr>d_data := bs2\<rparr>) (hs @ [f]) =
        Some (None, ?dec\<lparr>d_st := True, d_data := [], d_table := t2\<rparr>, (hs @ [f]) @ fs)" for dst fuel
    by auto
  from dlv [of bs2] 1(1) have
    3: "decode (Some collect) (dec\<lparr>d_data := bs @ bs2\<rparr>) hs =
      Some (hsize, None, dec\<lparr>d_st := True, d_data := bs2, d_table := t1\<rparr>, hs @ [f])"
    by (auto simp: delivers_def call_handler_def collect_def f)
  have "Decode_loop fuel 0 (Some collect) (dec\<lparr>d_data := bs @ bs2\<rparr>) hs =
      Some (None, dec\<lparr>d_st := True, d_data := [], d_table := t2\<rparr>, hs @ f # fs)" if "fuel \<ge> length (bs @ bs2)" for fuel
  proof -
    have l: "0 < fuel" "fuel - 1 \<ge> length bs2" using that 1(4) by (cases bs; simp)+
    show ?thesis
      using 2(4) [OF l(2)] by (subst Decode_loop_step [OF 3 _ l(1)]) (simp_all add: 1(4) data_first)
  qed
  with 1(1) 2(1,2,3) f show ?case
    by (intro exI [of _ "bs @ bs2"] exI [of _ t2]) simp
qed

text \<open>What the updates in front of a field do to the decoder that reads them.\<close>

definition reads_updates :: "'e Decoder \<Rightarrow> headerTable \<Rightarrow> bytes \<Rightarrow> bool" where
  "reads_updates dec t ups \<longleftrightarrow> (\<exists>b bs lim. ups = b # bs \<and> b AND 224 = 32
     \<and> (\<forall>rest fuel. \<forall>h :: field list. fuel \<ge> length (ups @ rest) \<longrightarrow> (\<exists>fuel'\<ge>length rest.
        Decode_loop fuel 0 (Some collect) (dec\<lparr>d_data := ups @ rest\<rparr>) h =
        Decode_loop fuel' 0 (Some collect)
          (dec\<lparr>d_data := rest, d_maxSizeLimit := lim, d_sizeChanged := False, d_table := t\<rparr>) h)))"

lemma reads_one_update:
  assumes "\<not> d_st dec" "sz \<le> d_maxSize dec" "headerTable_setMaxSize (d_table dec) sz = Some (c, t)"
  shows "reads_updates dec t (encDynamicTableSizeUpdate [] (ucast sz))"
proof -
  let ?u = "encDynamicTableSizeUpdate [] (ucast sz)"
  note upd = decode_size_update [OF assms]
  from upd(2) obtain b bs where u: "?u = b # bs" "b AND 224 = 32" by blast
  have "Decode_loop fuel 0 (Some collect) (dec\<lparr>d_data := ?u @ rest\<rparr>) h =
      Decode_loop (fuel - 1) 0 (Some collect)
        (dec\<lparr>d_data := rest, d_maxSizeLimit := sz, d_sizeChanged := False, d_table := t\<rparr>) h"
    "fuel - 1 \<ge> length rest"
    if "fuel \<ge> length (?u @ rest)" for rest fuel and h :: "field list"
    by (subst Decode_loop_step [OF upd(1)], use that in \<open>simp_all add: u(1)\<close>)
  with u show ?thesis unfolding reads_updates_def by blast
qed

lemma reads_updates_append:
  assumes "reads_updates dec t1 u1"
    and "\<And>lim. reads_updates (dec\<lparr>d_maxSizeLimit := lim, d_sizeChanged := False, d_table := t1\<rparr>) t2 u2"
  shows "reads_updates dec t2 (u1 @ u2)"
proof -
  from assms(1) obtain b bs lim where 1: "u1 = b # bs" "b AND 224 = 32"
    and step1: "\<And>rest fuel. \<And>h :: field list. fuel \<ge> length (u1 @ rest) \<Longrightarrow> \<exists>fuel'\<ge>length rest.
        Decode_loop fuel 0 (Some collect) (dec\<lparr>d_data := u1 @ rest\<rparr>) h =
        Decode_loop fuel' 0 (Some collect)
          (dec\<lparr>d_data := rest, d_maxSizeLimit := lim, d_sizeChanged := False, d_table := t1\<rparr>) h"
    unfolding reads_updates_def by blast
  let ?dec = "dec\<lparr>d_maxSizeLimit := lim, d_sizeChanged := False, d_table := t1\<rparr>"
  from assms(2) [of lim] obtain lim2 where
    step2: "\<And>rest fuel. \<And>h :: field list. fuel \<ge> length (u2 @ rest) \<Longrightarrow> \<exists>fuel'\<ge>length rest.
        Decode_loop fuel 0 (Some collect) (?dec\<lparr>d_data := u2 @ rest\<rparr>) h =
        Decode_loop fuel' 0 (Some collect)
          (?dec\<lparr>d_data := rest, d_maxSizeLimit := lim2, d_sizeChanged := False, d_table := t2\<rparr>) h"
    unfolding reads_updates_def by blast
  have "\<exists>fuel'\<ge>length rest.
      Decode_loop fuel 0 (Some collect) (dec\<lparr>d_data := (u1 @ u2) @ rest\<rparr>) h =
      Decode_loop fuel' 0 (Some collect)
        (dec\<lparr>d_data := rest, d_maxSizeLimit := lim2, d_sizeChanged := False, d_table := t2\<rparr>) h"
    if "fuel \<ge> length ((u1 @ u2) @ rest)" for rest fuel and h :: "field list"
  proof -
    from step1 [of "u2 @ rest" fuel h] that obtain f1 where f1: "f1 \<ge> length (u2 @ rest)"
      "Decode_loop fuel 0 (Some collect) (dec\<lparr>d_data := u1 @ u2 @ rest\<rparr>) h =
       Decode_loop f1 0 (Some collect) (?dec\<lparr>d_data := u2 @ rest\<rparr>) h"
      by (auto simp: data_first)
    from step2 [OF f1(1), of h] f1(2) show ?thesis by (auto simp: data_first)
  qed
  then show ?thesis unfolding reads_updates_def using 1
    by (intro exI [of _ b] exI [of _ "bs @ u2"] exI [of _ lim2]) simp
qed

lemma size_updates_sync:
  fixes dec :: "'e Decoder"
  assumes sync: "in_sync enc dec" and ch: "e_sizeChanged enc" "\<not> d_st dec"
  shows "\<exists>ups. (\<forall>dst. Encoder_size_updates enc dst =
        (dst @ ups, enc\<lparr>e_sizeChanged := False, e_minSize := maxUint32\<rparr>))
    \<and> reads_updates dec (e_table enc) ups"
proof -
  let ?mx = "tmaxSize (e_table enc)" and ?mn = "e_minSize enc"
  let ?u = "\<lambda>sz. encDynamicTableSizeUpdate [] (ucast (sz :: u32))"
  have s: "tbl_ok (e_table enc)" "tbl_ok (d_table dec)" "?mn \<le> ?mx" "?mx \<le> d_maxSize dec"
    "tbl_abs (e_table enc) = fit (unat ?mn) (tbl_abs (d_table dec))"
    using sync ch(1) by (simp_all add: in_sync_def)
  have app: "encDynamicTableSizeUpdate dst sz = dst @ encDynamicTableSizeUpdate [] sz" for dst sz
    unfolding encDynamicTableSizeUpdate_def by (rule encInteger_append)
  show ?thesis
  proof (cases "?mn < ?mx")
    case True
    from dyn.set_max_twice [OF s(2), of ?mn ?mx] s(3) obtain c1 t1 c2 t2 where
      t: "headerTable_setMaxSize (d_table dec) ?mn = Some (c1, t1)" "headerTable_setMaxSize t1 ?mx = Some (c2, t2)"
        "tbl_ok t2" "tmaxSize t2 = ?mx" "tbl_abs t2 = fit (unat ?mn) (tbl_abs (d_table dec))"
      by (auto simp: word_le_nat_alt word_unat_eq_iff)
    have t2: "t2 = e_table enc" by (rule tbl_eqI) (simp_all add: t s)
    have "reads_updates dec (e_table enc) (?u ?mn @ ?u ?mx)"
      using t(1,2) t2 s(3,4) ch(2)
      by (intro reads_updates_append [of dec t1] reads_one_update [of _ _ c1] reads_one_update [of _ _ c2]) auto
    moreover have "Encoder_size_updates enc dst =
        (dst @ ?u ?mn @ ?u ?mx, enc\<lparr>e_sizeChanged := False, e_minSize := maxUint32\<rparr>)" for dst
      using True ch(1) by (simp add: Encoder_size_updates_def Let_def app [of dst] app [of "dst @ _"])
    ultimately show ?thesis by blast
  next
    case False
    with s(3) have eq: "?mn = ?mx" by simp
    from dyn.set_max_law [OF s(2), of ?mx] obtain c t where
      t: "headerTable_setMaxSize (d_table dec) ?mx = Some (c, t)" "tbl_ok t" "tmaxSize t = ?mx"
        "tbl_abs t = fit (unat ?mx) (tbl_abs (d_table dec))"
      by (auto simp: word_unat_eq_iff)
    have "t = e_table enc" by (rule tbl_eqI) (simp_all add: t s eq)
    with reads_one_update [OF ch(2) s(4) t(1)] have "reads_updates dec (e_table enc) (?u ?mx)" by simp
    moreover have "Encoder_size_updates enc dst =
        (dst @ ?u ?mx, enc\<lparr>e_sizeChanged := False, e_minSize := maxUint32\<rparr>)" for dst
      using False ch(1) by (simp add: Encoder_size_updates_def Let_def app [of dst])
    ultimately show ?thesis by blast
  qed
qed

lemma encode_block_updates:
  assumes "Encoder_size_updates enc dst = (dst', enc1)" "\<not> e_sizeChanged enc1" "fs \<noteq> []"
  shows "encode_block enc dst fs = encode_block enc1 dst' fs"
proof -
  obtain n v s fs' where fs: "fs = (n, v, s) # fs'" using assms(3) by (metis neq_Nil_conv prod_cases3)
  have "Encoder_size_updates enc1 dst' = (dst', enc1)" using assms(2) by (simp add: Encoder_size_updates_def)
  then have "Encoder_EncodeHeaderField enc dst n v s = Encoder_EncodeHeaderField enc1 dst' n v s"
    by (simp add: Encoder_EncodeHeaderField_def assms(1))
  then show ?thesis by (simp add: fs)
qed

lemma Decode_fresh:
  assumes "d_err dec = None" "d_b dec = []" "bs \<noteq> []" "d_sizeChanged dec \<longrightarrow> bs ! 0 AND 224 = 32"
    and "Decode_loop (length bs) limit handle (dec\<lparr>d_data := bs\<rparr>) h = Some (None, dec', h')"
  shows "Decoder_Decode dec bs limit handle h = Some (d_n dec', None, dec', h')"
  using assms by (simp add: Decoder_Decode_def Let_def)

lemma block_roundtrip:
  fixes dec :: "'e Decoder"
  assumes sync: "in_sync enc dec" and fresh: "d_err dec = None" "d_b dec = []" "\<not> d_st dec"
    and small: "fields_small fs"
  shows "\<exists>bs enc' dec'. encode_block enc [] fs = Some (bs, enc')
    \<and> Decoder_Decode dec bs 0 (Some collect) hs = Some (d_n dec, None, dec', hs @ fs)
    \<and> in_sync enc' dec' \<and> d_err dec' = None \<and> d_b dec' = [] \<and> d_maxSize dec' = d_maxSize dec"
proof (cases "fs = []")
  case True
  with sync fresh show ?thesis by (simp add: Decoder_Decode_def)
next
  case ne: False
  have mx: "unat (tmaxSize (e_table enc)) < 2 ^ 31" "tbl_ok (e_table enc)" using sync by (simp_all add: in_sync_def)
  show ?thesis
  proof (cases "e_sizeChanged enc")
    case False
    with sync have eq: "d_table dec = e_table enc" "\<not> d_sizeChanged dec" "e_minSize enc = maxUint32"
      by (simp_all add: in_sync_def)
    from encode_block_sync [OF mx(2,1) False small eq(1), of hs] ne obtain bs t' where
      b: "encode_block enc [] fs = Some (bs, enc\<lparr>e_table := t'\<rparr>)" "tbl_ok t'" "tmaxSize t' = tmaxSize (e_table enc)"
        "Decode_loop (length bs) 0 (Some collect) (dec\<lparr>d_data := bs\<rparr>) hs =
          Some (None, dec\<lparr>d_st := True, d_data := [], d_table := t'\<rparr>, hs @ fs)"
      by auto
    then have "bs \<noteq> []" using ne by (auto simp: Decode_loop_done)
    from Decode_fresh [OF fresh(1,2) this _ b(4)] b eq False mx fresh show ?thesis
      by (intro exI [of _ bs] exI [of _ "enc\<lparr>e_table := t'\<rparr>"] exI) (auto simp: in_sync_def)
  next
    case True
    from size_updates_sync [OF sync True fresh(3)] obtain ups where
      u: "Encoder_size_updates enc [] = (ups, enc\<lparr>e_sizeChanged := False, e_minSize := maxUint32\<rparr>)"
      and r: "reads_updates dec (e_table enc) ups"
      by auto
    let ?enc = "enc\<lparr>e_sizeChanged := False, e_minSize := maxUint32\<rparr>"
    from r obtain b us lim where b: "ups = b # us" "b AND 224 = 32"
      and rd: "\<And>rest fuel. \<And>h :: field list. fuel \<ge> length (ups @ rest) \<Longrightarrow> \<exists>fuel'\<ge>length rest.
        Decode_loop fuel 0 (Some collect) (dec\<lparr>d_data := ups @ rest\<rparr>) h =
        Decode_loop fuel' 0 (Some collect)
          (dec\<lparr>d_data := rest, d_maxSizeLimit := lim, d_sizeChanged := False, d_table := e_table enc\<rparr>) h"
      unfolding reads_updates_def by blast
    let ?dec = "dec\<lparr>d_maxSizeLimit := lim, d_sizeChanged := False, d_table := e_table enc\<rparr>"
    have "\<exists>bs t'. (\<forall>dst. encode_block ?enc dst fs = Some (dst @ bs, ?enc\<lparr>e_table := t'\<rparr>))
        \<and> tbl_ok t' \<and> tmaxSize t' = tmaxSize (e_table ?enc)
        \<and> (\<forall>fuel\<ge>length bs. Decode_loop fuel 0 (Some collect) (?dec\<lparr>d_data := bs\<rparr>) hs =
          Some (None, ?dec\<lparr>d_st := (d_st ?dec \<or> fs \<noteq> []), d_data := [], d_table := t'\<rparr>, hs @ fs))"
      using mx by (intro encode_block_sync [OF _ _ _ small]) simp_all
    with ne obtain bs t' where
      e: "encode_block ?enc ups fs = Some (ups @ bs, ?enc\<lparr>e_table := t'\<rparr>)" "tbl_ok t'" "tmaxSize t' = tmaxSize (e_table enc)"
      and l: "\<And>fuel. fuel \<ge> length bs \<Longrightarrow> Decode_loop fuel 0 (Some collect) (?dec\<lparr>d_data := bs\<rparr>) hs =
          Some (None, ?dec\<lparr>d_st := True, d_data := [], d_table := t'\<rparr>, hs @ fs)"
      by auto
    have "Decode_loop (length (ups @ bs)) 0 (Some collect) (dec\<lparr>d_data := ups @ bs\<rparr>) hs =
        Some (None, ?dec\<lparr>d_st := True, d_data := [], d_table := t'\<rparr>, hs @ fs)"
      using rd [of bs "length (ups @ bs)" hs] l by (auto simp: data_first)
    from Decode_fresh [OF fresh(1,2) _ _ this] b
    have "Decoder_Decode dec (ups @ bs) 0 (Some collect) hs =
        Some (d_n dec, None, ?dec\<lparr>d_st := True, d_data := [], d_table := t'\<rparr>, hs @ fs)" by simp
    moreover have "encode_block enc [] fs = Some (ups @ bs, ?enc\<lparr>e_table := t'\<rparr>)"
      using encode_block_updates [OF u _ ne] e(1) by simp
    ultimately show ?thesis
      using e(2,3) mx fresh
      by (intro exI [of _ "ups @ bs"] exI [of _ "?enc\<lparr>e_table := t'\<rparr>"] exI) (auto simp: in_sync_def)
  qed
qed

lemma in_sync_Reset:
  "in_sync enc dec \<Longrightarrow> d_b dec = [] \<Longrightarrow> \<exists>dec'. Decoder_Reset dec = (None, dec') \<and> in_sync enc dec'
     \<and> d_err dec' = None \<and> d_b dec' = [] \<and> \<not> d_st dec'"
  by (simp add: Decoder_Reset_def Let_def in_sync_def)

end
