(* ===== verification/Hpack_Decode.thy ===== *)
theory Hpack_Decode
  imports Hpack_Sync
begin

text \<open>
  The decoder alone (\<^verbatim>\<open>src/hpack/hpack.go\<close>): it returns on every input, it does not depend
  on how a header block is cut into fragments, and it keeps its table within its bound.
\<close>

section \<open>Representations with more input\<close>

lemma decIndexed_more:
  fixes st :: "'e Decoder"
  assumes "decIndexed handle st h = (e, st', h')" "e \<noteq> Some errNeedsMore"
  shows "decIndexed handle (st\<lparr>d_data := d_data st @ x\<rparr>) h = (e, st'\<lparr>d_data := d_data st' @ x\<rparr>, h')
    \<and> length (d_data st') < length (d_data st)"
proof -
  obtain r :: "'e dec_err + u64" and data where d: "decInteger (d_data st) 7 = (r, data)" by fastforce
  with assms have "r \<noteq> Inl errNeedsMore"
    by (auto simp: decIndexed_def Let_def)
  from decInteger_more [OF d this, of x] d assms(1) show ?thesis
    by (auto simp: decIndexed_def Let_def data_first split: sum.splits option.splits prod.splits)
qed

lemma decIndexed_short:
  assumes "decIndexed handle st h = (Some errNeedsMore, st', h')"
  shows "h' = h \<and> (\<exists>d. st' = st\<lparr>d_data := d, d_st := True\<rparr>)"
  using assms
  by (auto simp: decIndexed_def Let_def data_first split: sum.splits option.splits prod.splits dest: call_handler_err)

lemma decLiteral_name_more:
  fixes st :: "'e Decoder"
  assumes "decLiteral_name st k = Some (r, st')" "r \<noteq> Inl errNeedsMore"
  shows "decLiteral_name (st\<lparr>d_data := d_data st @ x\<rparr>) k = Some (r, st'\<lparr>d_data := d_data st' @ x\<rparr>)
    \<and> length (d_data st') < length (d_data st) \<and> (\<exists>d. st' = st\<lparr>d_data := d\<rparr>)"
proof -
  obtain i :: "'e dec_err + u64" and data where d: "decInteger (d_data st) k = (i, data)" by fastforce
  with assms have i: "i \<noteq> Inl errNeedsMore"
    by (auto simp: decLiteral_name_def Let_def)
  note m = decInteger_more [OF d i]
  show ?thesis
  proof (cases "i = Inr 0")
    case False
    with m [of x] d assms(1) show ?thesis
      by (auto simp: decLiteral_name_def Let_def word_gt_0 split: sum.splits option.splits if_splits)
  next
    case True
    obtain s :: "'e dec_err + gostring" and data' where s: "decStringLiteral data = Some (s, data')" using decStringLiteral_total by blast
    with True d assms have "s \<noteq> Inl errNeedsMore"
      by (auto simp: decLiteral_name_def Let_def)
    from decStringLiteral_more [OF s this, of x] m [of x] d s True assms(1) show ?thesis
      by (auto simp: decLiteral_name_def Let_def split: sum.splits)
  qed
qed

lemma decLiteral_name_short:
  assumes "decLiteral_name st k = Some (r, st')"
  shows "\<exists>d. st' = st\<lparr>d_data := d\<rparr>"
  using assms by (auto simp: decLiteral_name_def Let_def
      split: sum.splits option.splits prod.splits if_splits Option.bind_splits)

definition lit_width :: "indexType \<Rightarrow> nat" where
  "lit_width ty = (case ty of indexedTrue \<Rightarrow> 6 | indexedFalse \<Rightarrow> 4 | indexedNever \<Rightarrow> 4)"

text \<open>The tail of \<open>decLiteral\<close>, once the name is known.\<close>

definition decLiteral_value ::
  "('e, 'h) HeaderFieldHandler option \<Rightarrow> indexType \<Rightarrow> gostring \<Rightarrow> u32 \<Rightarrow> 'e Decoder \<Rightarrow> 'h \<Rightarrow> gostring \<Rightarrow>
   (u32 \<times> 'e dec_err option \<times> 'e Decoder \<times> 'h) option" where
  "decLiteral_value handle ty name hsize st h v =
     do {
       st \<leftarrow> (if ty = indexedTrue then
          do { (_, t) \<leftarrow> headerTable_add (d_table st) name v; Some (st\<lparr>d_table := t\<rparr>) }
        else Some st);
       let (e, h) = call_handler handle name v (ty = indexedNever) h;
       Some (hsize + of_nat (length v + headerEntryOverhead), e, st, h)
     }"

lemma decLiteral_unfold:
  "decLiteral handle st ty h =
    (case decLiteral_name (st\<lparr>d_st := True\<rparr>) (lit_width ty) of
       None \<Rightarrow> None
     | Some (Inl err, st) \<Rightarrow> Some (0, Some err, st, h)
     | Some (Inr (name, hsize), st) \<Rightarrow>
         (case decStringLiteral (d_data st) of
            None \<Rightarrow> None
          | Some (Inl err, data) \<Rightarrow> Some (0, Some err, st\<lparr>d_data := data\<rparr>, h)
          | Some (Inr v, data) \<Rightarrow> decLiteral_value handle ty name hsize (st\<lparr>d_data := data\<rparr>) h v))"
  by (auto simp: decLiteral_def lit_width_def decLiteral_value_def Let_def
      split: option.splits sum.splits prod.splits Option.bind_splits intro!: arg_cong2 [where f = Option.bind])

lemma decLiteral_value_data:
  assumes "decLiteral_value handle ty name hsize st h v = Some (n, e, st', h')"
  shows "decLiteral_value handle ty name hsize (st\<lparr>d_data := d\<rparr>) h v = Some (n, e, st'\<lparr>d_data := d\<rparr>, h')
    \<and> e \<noteq> Some errNeedsMore \<and> d_data st' = d_data st"
  using assms by (auto simp: decLiteral_value_def Let_def data_first split: if_splits prod.splits Option.bind_splits
      dest: call_handler_err)

lemma decLiteral_more:
  fixes st :: "'e Decoder"
  assumes "decLiteral handle st ty h = Some (n, e, st', h')" "e \<noteq> Some errNeedsMore"
  shows "decLiteral handle (st\<lparr>d_data := d_data st @ x\<rparr>) ty h = Some (n, e, st'\<lparr>d_data := d_data st' @ x\<rparr>, h')
    \<and> length (d_data st') < length (d_data st)"
proof -
  let ?st = "st\<lparr>d_st := True\<rparr>"
  have x: "st\<lparr>d_data := d_data st @ x, d_st := True\<rparr> = ?st\<lparr>d_data := d_data ?st @ x\<rparr>"
    by (simp add: data_first)
  from assms(1) obtain r st1 where 1: "decLiteral_name ?st (lit_width ty) = Some (r, st1)"
    by (cases "decLiteral_name ?st (lit_width ty)") (auto simp: decLiteral_unfold)
  with assms have "r \<noteq> Inl errNeedsMore" by (auto simp: decLiteral_unfold)
  note m1 = decLiteral_name_more [OF 1 this, of x]
  show ?thesis
  proof (cases r)
    case (Inl err)
    with assms(1) 1 m1 show ?thesis by (auto simp: decLiteral_unfold x)
  next
    case (Inr nh)
    obtain name hsize where nh: "nh = (name, hsize)" by fastforce
    obtain s :: "'e dec_err + gostring" and d where 2: "decStringLiteral (d_data st1) = Some (s, d)"
      using decStringLiteral_total by blast
    with assms 1 Inr nh have "s \<noteq> Inl errNeedsMore" by (auto simp: decLiteral_unfold)
    note m2 = decStringLiteral_more [OF 2 this, of x]
    show ?thesis
    proof (cases s)
      case (Inl err)
      with assms(1) 1 m1 2 m2 Inr nh show ?thesis by (auto simp: decLiteral_unfold x)
    next
      case v: (Inr v)
      from assms(1) 1 2 Inr nh v have "decLiteral_value handle ty name hsize (st1\<lparr>d_data := d\<rparr>) h v = Some (n, e, st', h')"
        by (simp add: decLiteral_unfold)
      from decLiteral_value_data [OF this, of "d @ x"] 1 m1 2 m2 Inr nh v show ?thesis
        by (simp add: decLiteral_unfold x)
    qed
  qed
qed

lemma decLiteral_short:
  assumes "decLiteral handle st ty h = Some (n, Some errNeedsMore, st', h')"
  shows "h' = h \<and> (\<exists>d. st' = st\<lparr>d_data := d, d_st := True\<rparr>)"
  using assms decLiteral_name_short [of "st\<lparr>d_st := True\<rparr>"]
  by (fastforce simp: decLiteral_unfold data_first split: option.splits sum.splits prod.splits
      dest: decLiteral_value_data decLiteral_name_short)

lemma decSizeUpdate_more:
  fixes st :: "'e Decoder"
  assumes "decDynamicTableSizeUpdate st = Some (e, st')" "e \<noteq> Some errNeedsMore"
  shows "decDynamicTableSizeUpdate (st\<lparr>d_data := d_data st @ x\<rparr>) = Some (e, st'\<lparr>d_data := d_data st' @ x\<rparr>)
    \<and> length (d_data st') \<le> length (d_data st) \<and> (e = None \<longrightarrow> length (d_data st') < length (d_data st))"
proof (cases "d_st st")
  case True
  with assms show ?thesis by (auto simp: decDynamicTableSizeUpdate_def)
next
  case False
  obtain r :: "'e dec_err + u64" and data where d: "decInteger (d_data st) 5 = (r, data)" by fastforce
  with assms False have "r \<noteq> Inl errNeedsMore" by (auto simp: decDynamicTableSizeUpdate_def Let_def)
  from decInteger_more [OF d this, of x] d False assms(1) show ?thesis
    by (auto simp: decDynamicTableSizeUpdate_def Let_def data_first
        split: sum.splits if_splits prod.splits Option.bind_splits)
qed

lemma decSizeUpdate_short:
  assumes "decDynamicTableSizeUpdate st = Some (Some errNeedsMore, st')"
  shows "\<exists>d. st' = st\<lparr>d_data := d\<rparr>"
  using assms
  by (auto simp: decDynamicTableSizeUpdate_def Let_def split: sum.splits if_splits prod.splits Option.bind_splits)

lemma decode_instr_more:
  fixes st :: "'e Decoder"
  assumes "decode_instr handle st h = Some (n, e, st', h')" "e \<noteq> Some errNeedsMore" "d_data st \<noteq> []"
  shows "decode_instr handle (st\<lparr>d_data := d_data st @ x\<rparr>) h = Some (n, e, st'\<lparr>d_data := d_data st' @ x\<rparr>, h')
    \<and> (e = None \<longrightarrow> length (d_data st') < length (d_data st))"
proof -
  let ?b = "d_data st ! 0"
  have b: "(d_data st @ x) ! 0 = ?b" using assms(3) by (simp add: nth_append)
  note defs = decode_instr_def Let_def b
  consider (i) "?b AND 128 \<noteq> 0" | (t) "?b AND 128 = 0" "?b AND 192 = 64"
    | (f) "?b AND 128 = 0" "?b AND 192 \<noteq> 64" "?b AND 240 = 0" | (n) "?b AND 128 = 0" "?b AND 192 \<noteq> 64" "?b AND 240 = 16"
    | (u) "?b AND 128 = 0" "?b AND 192 \<noteq> 64" "?b AND 240 \<noteq> 0" "?b AND 240 \<noteq> 16" "?b AND 224 = 32"
    | (bad) "?b AND 128 = 0" "?b AND 192 \<noteq> 64" "?b AND 240 \<noteq> 0" "?b AND 240 \<noteq> 16" "?b AND 224 \<noteq> 32"
    by blast
  then show ?thesis
  proof cases
    case i
    with assms(1) have "decIndexed handle st h = (e, st', h')" "n = 0" by (simp_all add: defs)
    from decIndexed_more [OF this(1) assms(2), of x] this(2) i show ?thesis by (simp add: defs)
  next
    case t
    with assms(1) have "decLiteral handle st indexedTrue h = Some (n, e, st', h')" by (simp add: defs)
    from decLiteral_more [OF this assms(2), of x] t show ?thesis by (simp add: defs)
  next
    case f
    with assms(1) have "decLiteral handle st indexedFalse h = Some (n, e, st', h')" by (simp add: defs)
    from decLiteral_more [OF this assms(2), of x] f show ?thesis by (simp add: defs)
  next
    case n
    with assms(1) have "decLiteral handle st indexedNever h = Some (n, e, st', h')" by (simp add: defs)
    from decLiteral_more [OF this assms(2), of x] n show ?thesis by (simp add: defs)
  next
    case u
    with assms(1) have "decDynamicTableSizeUpdate st = Some (e, st')" "n = 0" "h' = h"
      by (auto simp: defs split: Option.bind_splits)
    from decSizeUpdate_more [OF this(1) assms(2), of x] this u show ?thesis by (simp add: defs)
  next
    case bad
    with assms(1) have "n = 0" "e = Some errBadHeaderBlock" "st' = st" "h' = h" by (simp_all add: defs)
    with bad show ?thesis by (simp add: defs)
  qed
qed

lemma decode_instr_short:
  assumes "decode_instr handle st h = Some (n, Some errNeedsMore, st', h')" "d_data st \<noteq> []"
  shows "h' = h \<and> (\<exists>d. st' = st\<lparr>d_data := d\<rparr> \<or> st' = st\<lparr>d_data := d, d_st := True\<rparr>
    \<and> (\<forall>x. decode_instr handle (st\<lparr>d_data := d_data st @ x, d_st := True\<rparr>) h =
           decode_instr handle (st\<lparr>d_data := d_data st @ x\<rparr>) h))"
proof (cases "d_data st ! 0 AND 128 = 0 \<and> d_data st ! 0 AND 192 \<noteq> 64 \<and> d_data st ! 0 AND 240 \<noteq> 0 \<and> d_data st ! 0 AND 240 \<noteq> 16")
  case True
  with assms(1) decSizeUpdate_short [of st] show ?thesis
    by (auto simp: decode_instr_def Let_def split: if_splits Option.bind_splits)
next
  case False
  have st: "decIndexed handle (s\<lparr>d_st := True\<rparr>) h = decIndexed handle s h"
    "decLiteral handle (s\<lparr>d_st := True\<rparr>) ty h = decLiteral handle s ty h" for s ty
    by (simp_all add: decIndexed_def decLiteral_def)
  have "decode_instr handle (st\<lparr>d_data := d_data st @ x, d_st := True\<rparr>) h =
           decode_instr handle (st\<lparr>d_data := d_data st @ x\<rparr>) h" for x
    using False assms(2) by (auto simp: decode_instr_def Let_def st nth_append)
  moreover have "h' = h \<and> (\<exists>d. st' = st\<lparr>d_data := d, d_st := True\<rparr>)"
    using False assms(1) decIndexed_short [of handle st h] decLiteral_short [of handle st _ h]
    by (auto simp: decode_instr_def Let_def split: if_splits)
  ultimately show ?thesis by blast
qed

lemma decode_more:
  assumes "decode handle dec h = Some (n, e, dec', h')" "e \<noteq> Some errNeedsMore" "d_data dec \<noteq> []"
  shows "decode handle (dec\<lparr>d_data := d_data dec @ x\<rparr>) h = Some (n, e, dec'\<lparr>d_data := d_data dec' @ x\<rparr>, h')
    \<and> (e = None \<longrightarrow> length (d_data dec') < length (d_data dec))"
proof -
  from assms(1,2) have "decode_instr handle dec h = Some (n, e, dec', h')"
    by (auto simp: decode_def split: Option.bind_splits prod.splits if_splits)
  from decode_instr_more [OF this assms(2,3), of x] assms(2) show ?thesis
    by (simp add: decode_def)
qed

lemma decode_short:
  assumes "decode handle dec h = Some (n, Some errNeedsMore, dec', h')" "d_data dec \<noteq> []"
  shows "h' = h" "dec' = dec \<or> dec' = dec\<lparr>d_st := True\<rparr>"
    "decode handle (dec'\<lparr>d_data := d_data dec @ x\<rparr>) h = decode handle (dec\<lparr>d_data := d_data dec @ x\<rparr>) h"
proof -
  from assms(1) obtain st where i: "decode_instr handle dec h = Some (n, Some errNeedsMore, st, h')"
    and d: "dec' = st\<lparr>d_data := d_data dec\<rparr>"
    by (auto simp: decode_def split: Option.bind_splits prod.splits if_splits)
  note s = decode_instr_short [OF i assms(2)]
  from s show "h' = h" by blast
  from s d show "dec' = dec \<or> dec' = dec\<lparr>d_st := True\<rparr>" by (auto simp: data_first)
  from s d show "decode handle (dec'\<lparr>d_data := d_data dec @ x\<rparr>) h = decode handle (dec\<lparr>d_data := d_data dec @ x\<rparr>) h"
    by (auto simp: decode_def data_first cong: if_cong)
qed

lemma Decode_loop_unfold:
  assumes "d_data dec \<noteq> []" "length (d_data dec) \<le> fuel"
  shows "Decode_loop fuel limit handle dec h =
    (case decode handle dec h of
       None \<Rightarrow> None
     | Some (n, Some err, dec, h) \<Rightarrow>
         if err = errNeedsMore then Some (None, dec\<lparr>d_b := d_b dec @ d_data dec\<rparr>, h) else Some (Some err, dec, h)
     | Some (n, None, dec, h) \<Rightarrow>
         if limit \<noteq> 0 \<and> d_n dec + n > limit then Some (Some ErrHeaderFieldsTooLarge, dec, h)
         else Decode_loop (fuel - 1) limit handle (if limit \<noteq> 0 then dec\<lparr>d_n := d_n dec + n\<rparr> else dec) h)"
proof -
  have "fuel \<noteq> 0" using assms by (cases "d_data dec") auto
  then show ?thesis
    using assms(1)
    by (subst Decode_loop.simps) (auto simp: more_def split: nat.split option.split Option.bind_split prod.split)
qed

lemma Decode_loop_fuel:
  assumes "length (d_data dec) \<le> f" "length (d_data dec) \<le> g"
  shows "Decode_loop f limit handle dec h = Decode_loop g limit handle dec h"
  using assms
proof (induction "length (d_data dec)" arbitrary: dec h f g rule: less_induct)
  case less
  show ?case
  proof (cases "d_data dec = []")
    case True
    then show ?thesis by (simp add: Decode_loop_done)
  next
    case False
    have "Decode_loop (f - 1) limit handle dec' h' = Decode_loop (g - 1) limit handle dec' h'"
      if "decode handle dec h = Some (n, None, dec0, h')" "d_data dec' = d_data dec0" for n dec0 dec' h'
    proof -
      have "length (d_data dec') < length (d_data dec)" using decode_more [OF that(1) _ False] that(2) by simp
      with less.prems show ?thesis by (intro less.hyps) auto
    qed
    then show ?thesis
      by (auto simp: Decode_loop_unfold [OF False less.prems(1)] Decode_loop_unfold [OF False less.prems(2)]
          split: option.split prod.split)
  qed
qed

lemma decLiteral_frame:
  assumes "decLiteral handle st ty h = Some (n, e, st', h')"
  shows "\<exists>d t. st' = st\<lparr>d_data := d, d_st := True, d_table := t\<rparr>"
proof -
  have keep: "\<exists>d t. st\<lparr>d_data := d', d_st := True\<rparr> = st\<lparr>d_data := d, d_st := True, d_table := t\<rparr>" for d'
    by (intro exI [of _ d'] exI [of _ "d_table st"]) simp
  from assms show ?thesis
    by (auto simp: decLiteral_unfold decLiteral_value_def Let_def data_first keep
        split: option.splits sum.splits prod.splits if_splits Option.bind_splits dest!: decLiteral_name_short) blast+
qed

lemma decIndexed_frame:
  assumes "decIndexed handle st h = (e, st', h')"
  shows "\<exists>d t. st' = st\<lparr>d_data := d, d_st := True, d_table := t\<rparr>"
proof -
  from assms have "\<exists>d. st' = st\<lparr>d_data := d, d_st := True\<rparr>"
    by (auto simp: decIndexed_def Let_def data_first split: sum.splits option.splits prod.splits)
  then obtain d where "st' = st\<lparr>d_data := d, d_st := True\<rparr>" by blast
  then show ?thesis by (intro exI [of _ d] exI [of _ "d_table st"]) simp
qed

lemma decode_frame:
  assumes "decode handle st h = Some (n, e, st', h')"
  shows "d_err st' = d_err st" "d_b st' = d_b st" "d_n st' = d_n st" "d_maxSize st' = d_maxSize st"
    "d_sizeChanged st' \<longrightarrow> d_sizeChanged st \<and> (e = None \<longrightarrow> d_data st ! 0 AND 224 \<noteq> 32)"
proof -
  from assms obtain st1 where i: "decode_instr handle st h = Some (n, e, st1, h')"
    and s: "st' = st1 \<or> st' = st1\<lparr>d_data := d_data st\<rparr>"
    by (auto simp: decode_def split: Option.bind_splits prod.splits if_splits)
  consider (l) d t where "st1 = st\<lparr>d_data := d, d_st := True, d_table := t\<rparr>" "d_data st ! 0 AND 224 \<noteq> 32"
    | (u) "decDynamicTableSizeUpdate st = Some (e, st1)" | (b) "st1 = st" "d_data st ! 0 AND 224 \<noteq> 32"
  proof (cases "d_data st ! 0 AND 224 = 32")
    case True
    with i tag_size_update [OF True] have "decDynamicTableSizeUpdate st = Some (e, st1)"
      by (auto simp: decode_instr_def Let_def split: Option.bind_splits)
    then show ?thesis by (rule u)
  next
    case False
    with i have "(\<exists>d t. st1 = st\<lparr>d_data := d, d_st := True, d_table := t\<rparr>) \<or> st1 = st"
      by (auto simp: decode_instr_def Let_def split: if_splits dest: decIndexed_frame decLiteral_frame)
    with False show ?thesis using l b by blast
  qed
  then show "d_err st' = d_err st" "d_b st' = d_b st" "d_n st' = d_n st" "d_maxSize st' = d_maxSize st"
    "d_sizeChanged st' \<longrightarrow> d_sizeChanged st \<and> (e = None \<longrightarrow> d_data st ! 0 AND 224 \<noteq> 32)"
    using s
    by (cases; force simp: decDynamicTableSizeUpdate_def Let_def split: if_splits sum.splits prod.splits Option.bind_splits)+
qed

text \<open>
  What a run of the loop without an error leaves: the input it could not complete is in the
  buffer, and the loop on more input goes on from there.
\<close>

lemma Decode_loop_ok:
  assumes "Decode_loop f limit handle dec h = Some (None, dec', h')" "length (d_data dec) \<le> f"
  shows "\<exists>p. d_b dec' = d_b dec @ p \<and> d_err dec' = d_err dec
    \<and> (d_sizeChanged dec' \<longrightarrow> d_sizeChanged dec \<and> (p = d_data dec \<or> d_data dec ! 0 AND 224 \<noteq> 32))
    \<and> (\<forall>x F. x \<noteq> [] \<longrightarrow> length (d_data dec @ x) \<le> F \<longrightarrow>
        Decode_loop F limit handle (dec\<lparr>d_data := d_data dec @ x\<rparr>) h =
        Decode_loop (length (p @ x)) limit handle (dec'\<lparr>d_data := p @ x, d_b := d_b dec\<rparr>) h')"
  using assms
proof (induction "length (d_data dec)" arbitrary: dec h f rule: less_induct)
  case less
  show ?case
  proof (cases "d_data dec = []")
    case True
    with less.prems show ?thesis
      by (intro exI [of _ "[]"]) (auto simp: Decode_loop_done intro: Decode_loop_fuel)
  next
    case False
    note loop = less.prems(1) [unfolded Decode_loop_unfold [OF False less.prems(2)]]
    from loop obtain n e dec0 h0 where dc: "decode handle dec h = Some (n, e, dec0, h0)"
      by (auto split: option.splits)
    note fr = decode_frame [OF dc]
    show ?thesis
    proof (cases e)
      case (Some err)
      with loop dc have e: "e = Some errNeedsMore" and r: "dec' = dec0\<lparr>d_b := d_b dec0 @ d_data dec0\<rparr>" "h' = h0"
        by (auto split: if_splits)
      note sh = decode_short [OF dc [unfolded e] False]
      have d0: "d_data dec0 = d_data dec" using sh(2) by auto
      have "Decode_loop F limit handle (dec\<lparr>d_data := d_data dec @ x\<rparr>) h =
        Decode_loop (length (d_data dec @ x)) limit handle (dec'\<lparr>d_data := d_data dec @ x, d_b := d_b dec\<rparr>) h'"
        if "length (d_data dec @ x) \<le> F" for x F
      proof -
        have s: "dec'\<lparr>d_data := d_data dec @ x, d_b := d_b dec\<rparr> = dec0\<lparr>d_data := d_data dec @ x\<rparr>"
          using r(1) fr(2) by (cases dec0) simp
        have "Decode_loop F limit handle (dec\<lparr>d_data := d_data dec @ x\<rparr>) h =
          Decode_loop (length (d_data dec @ x)) limit handle (dec\<lparr>d_data := d_data dec @ x\<rparr>) h"
          using that by (intro Decode_loop_fuel) simp_all
        also have "\<dots> = Decode_loop (length (d_data dec @ x)) limit handle (dec0\<lparr>d_data := d_data dec @ x\<rparr>) h"
          using False sh(3) [of x] by (subst (1 2) Decode_loop_unfold) simp_all
        finally show ?thesis using s r(2) sh(1) by simp
      qed
      with fr r d0 show ?thesis by (intro exI [of _ "d_data dec"]) auto
    next
      case None
      let ?dec = "if limit \<noteq> 0 then dec0\<lparr>d_n := d_n dec0 + n\<rparr> else dec0"
      from loop dc None have lim: "\<not> (limit \<noteq> 0 \<and> d_n dec0 + n > limit)"
        and l: "Decode_loop (f - 1) limit handle ?dec h0 = Some (None, dec', h')"
        by (auto split: if_splits)
      note m = decode_more [OF dc _ False]
      have sh: "length (d_data ?dec) < length (d_data dec)" using m None by simp
      then have sh2: "length (d_data ?dec) \<le> f - 1" using less.prems(2) by linarith
      from less.hyps [OF sh l sh2] obtain p where
        p: "d_b dec' = d_b ?dec @ p" "d_err dec' = d_err ?dec" "d_sizeChanged dec' \<longrightarrow> d_sizeChanged ?dec"
        and q: "\<And>x F. x \<noteq> [] \<Longrightarrow> length (d_data ?dec @ x) \<le> F \<Longrightarrow>
          Decode_loop F limit handle (?dec\<lparr>d_data := d_data ?dec @ x\<rparr>) h0 =
          Decode_loop (length (p @ x)) limit handle (dec'\<lparr>d_data := p @ x, d_b := d_b ?dec\<rparr>) h'"
        by blast
      have "Decode_loop F limit handle (dec\<lparr>d_data := d_data dec @ x\<rparr>) h =
        Decode_loop (length (p @ x)) limit handle (dec'\<lparr>d_data := p @ x, d_b := d_b dec\<rparr>) h'"
        if "x \<noteq> []" "length (d_data dec @ x) \<le> F" for x F
      proof -
        have "Decode_loop F limit handle (dec\<lparr>d_data := d_data dec @ x\<rparr>) h =
          Decode_loop (F - 1) limit handle (?dec\<lparr>d_data := d_data ?dec @ x\<rparr>) h0"
          using that m None lim by (subst Decode_loop_unfold) (auto simp: data_first)
        also have "\<dots> = Decode_loop (length (p @ x)) limit handle (dec'\<lparr>d_data := p @ x, d_b := d_b ?dec\<rparr>) h'"
          using that sh by (intro q) auto
        finally show ?thesis using fr(2) by simp
      qed
      with p fr None show ?thesis by (intro exI [of _ p]) auto
    qed
  qed
qed

lemma Decode_loop_err:
  assumes "Decode_loop f limit handle dec h = Some (Some err, dec', h')" "length (d_data dec) \<le> f"
    "length (d_data dec @ x) \<le> F"
  shows "Decode_loop F limit handle (dec\<lparr>d_data := d_data dec @ x\<rparr>) h =
    Some (Some err, dec'\<lparr>d_data := d_data dec' @ x\<rparr>, h')"
  using assms
proof (induction "length (d_data dec)" arbitrary: dec h f F rule: less_induct)
  case less
  have ne: "d_data dec \<noteq> []" using less.prems(1) by (auto simp: Decode_loop_done)
  note loop = less.prems(1) [unfolded Decode_loop_unfold [OF ne less.prems(2)]]
  from loop obtain n e dec0 h0 where dc: "decode handle dec h = Some (n, e, dec0, h0)"
    by (auto split: option.splits)
  have e: "e \<noteq> Some errNeedsMore" using loop dc by auto
  note m = decode_more [OF dc e ne]
  have un: "Decode_loop F limit handle (dec\<lparr>d_data := d_data dec @ x\<rparr>) h =
    (case e of
       Some err \<Rightarrow> Some (Some err, dec0\<lparr>d_data := d_data dec0 @ x\<rparr>, h0)
     | None \<Rightarrow>
         if limit \<noteq> 0 \<and> d_n dec0 + n > limit then Some (Some ErrHeaderFieldsTooLarge, dec0\<lparr>d_data := d_data dec0 @ x\<rparr>, h0)
         else Decode_loop (F - 1) limit handle
           (if limit \<noteq> 0 then dec0\<lparr>d_data := d_data dec0 @ x, d_n := d_n dec0 + n\<rparr> else dec0\<lparr>d_data := d_data dec0 @ x\<rparr>) h0)"
    using ne e m less.prems(3) by (subst Decode_loop_unfold) (auto split: option.split)
  show ?case
  proof (cases e)
    case (Some err')
    with loop dc e un show ?thesis by auto
  next
    case None
    let ?dec = "if limit \<noteq> 0 then dec0\<lparr>d_n := d_n dec0 + n\<rparr> else dec0"
    have len: "length (d_data ?dec) < length (d_data dec)" using m None by simp
    show ?thesis
    proof (cases "limit \<noteq> 0 \<and> d_n dec0 + n > limit")
      case True
      with loop dc None un show ?thesis by auto
    next
      case False
      with loop dc None have "Decode_loop (f - 1) limit handle ?dec h0 = Some (Some err, dec', h')" by auto
      from less.hyps [OF len this, of "F - 1"] len less.prems(2,3)
      have "Decode_loop (F - 1) limit handle (?dec\<lparr>d_data := d_data ?dec @ x\<rparr>) h0 =
          Some (Some err, dec'\<lparr>d_data := d_data dec' @ x\<rparr>, h')" by auto
      with un None False show ?thesis by (auto simp: data_first)
    qed
  qed
qed

section \<open>Blocks in chunks\<close>

definition load :: "'e Decoder \<Rightarrow> bytes \<Rightarrow> 'e Decoder" where
  "load dec bs = dec\<lparr>d_data := d_b dec @ bs, d_b := []\<rparr>"

lemma load_sel [simp]:
  "d_data (load dec bs) = d_b dec @ bs" "d_sizeChanged (load dec bs) = d_sizeChanged dec"
  "d_n (load dec bs) = d_n dec" "d_b (load dec bs) = []" "d_err (load dec bs) = d_err dec"
  by (simp_all add: load_def)

lemma Decode_load:
  assumes "d_err dec = None" "bs \<noteq> []"
  shows "Decoder_Decode dec bs limit handle h =
    (if d_sizeChanged dec \<and> (d_b dec @ bs) ! 0 AND 224 \<noteq> 32
     then Some (d_n dec, Some errHeaderTableSizeUpdateRequired, (load dec bs)\<lparr>d_err := Some errHeaderTableSizeUpdateRequired\<rparr>, h)
     else (case Decode_loop (length (d_b dec @ bs)) limit handle (load dec bs) h of
             None \<Rightarrow> None
           | Some (None, dec, h) \<Rightarrow> Some (d_n dec, None, dec, h)
           | Some (Some e, dec, h) \<Rightarrow> Some (d_n dec, Some e, dec\<lparr>d_err := Some e\<rparr>, h)))"
proof -
  have l: "(if length (d_b dec) = 0 then dec\<lparr>d_data := bs\<rparr> else dec\<lparr>d_data := d_b dec @ bs, d_b := []\<rparr>) = load dec bs"
    by (cases dec) (simp add: load_def)
  show ?thesis
    unfolding Decoder_Decode_def Let_def l using assms
    by (auto split: option.split Option.bind_split)
qed

lemma Decode_chunk_ok:
  assumes "d_err dec = None" "Decoder_Decode dec a limit handle h = Some (n, None, dec1, h1)"
  shows "Decoder_Decode dec (a @ b) limit handle h = Decoder_Decode dec1 b limit handle h1"
proof (cases "a = []")
  case True
  with assms show ?thesis by (simp add: Decoder_Decode_def)
next
  case a: False
  then have ab: "a @ b \<noteq> []" by simp
  let ?d = "d_b dec @ a"
  from assms(2) have g: "\<not> (d_sizeChanged dec \<and> ?d ! 0 AND 224 \<noteq> 32)"
    and l: "Decode_loop (length ?d) limit handle (load dec a) h = Some (None, dec1, h1)" and n: "n = d_n dec1"
    by (auto simp: Decode_load [OF assms(1) a] split: if_splits option.splits)
  have fits: "length (d_data (load dec a)) \<le> length ?d" by (simp add: load_def)
  from Decode_loop_ok [OF l fits] obtain p where
    p: "d_b dec1 = p" "d_err dec1 = None" "d_sizeChanged dec1 \<longrightarrow> d_sizeChanged dec \<and> (p = ?d \<or> ?d ! 0 AND 224 \<noteq> 32)"
    and q: "\<And>x F. x \<noteq> [] \<Longrightarrow> length (?d @ x) \<le> F \<Longrightarrow>
        Decode_loop F limit handle ((load dec a)\<lparr>d_data := ?d @ x\<rparr>) h =
        Decode_loop (length (p @ x)) limit handle (dec1\<lparr>d_data := p @ x, d_b := []\<rparr>) h1"
    using assms(1) by (auto simp: load_def)
  have ld: "(load dec a)\<lparr>d_data := ?d @ b\<rparr> = load dec (a @ b)" "dec1\<lparr>d_data := p @ b, d_b := []\<rparr> = load dec1 b"
    by (simp_all add: load_def p data_first)
  have z: "(?d @ b) ! 0 = ?d ! 0" using a by (cases "d_b dec"; cases a) auto
  show ?thesis
  proof (cases "b = []")
    case True
    with assms(2) n p(2) show ?thesis by (simp add: Decoder_Decode_def)
  next
    case b: False
    have lp: "Decode_loop (length (d_b dec @ a @ b)) limit handle (load dec (a @ b)) h =
        Decode_loop (length (d_b dec1 @ b)) limit handle (load dec1 b) h1"
      using q [OF b, of "length (?d @ b)"] ld p(1) by simp
    have g1: "\<not> (d_sizeChanged dec1 \<and> (d_b dec1 @ b) ! 0 AND 224 \<noteq> 32)"
      using g p z by auto
    have g2: "\<not> (d_sizeChanged dec \<and> (d_b dec @ a @ b) ! 0 AND 224 \<noteq> 32)"
      using g z by simp
    show ?thesis
      unfolding Decode_load [OF assms(1) ab] Decode_load [OF p(2) b] if_not_P [OF g1] if_not_P [OF g2] lp ..
  qed
qed

lemma Decode_chunk_err:
  assumes "d_err dec = None" "Decoder_Decode dec a limit handle h = Some (n, Some e, dec1, h1)"
  shows "\<exists>d. Decoder_Decode dec (a @ b) limit handle h = Some (n, Some e, dec1\<lparr>d_data := d\<rparr>, h1)
    \<and> Decoder_Decode dec1 b limit handle h1 = Some (n, Some e, dec1, h1)"
proof -
  have a: "a \<noteq> []" using assms by (auto simp: Decoder_Decode_def)
  then have ab: "a @ b \<noteq> []" by simp
  let ?d = "d_b dec @ a"
  have z: "(d_b dec @ a @ b) ! 0 = ?d ! 0" using a by (cases "d_b dec"; cases a) auto
  have ld: "(load dec a)\<lparr>d_data := ?d @ b\<rparr> = load dec (a @ b)" by (simp add: load_def data_first)
  show ?thesis
  proof (cases "d_sizeChanged dec \<and> ?d ! 0 AND 224 \<noteq> 32")
    case True
    with assms(2) z show ?thesis
      unfolding Decode_load [OF assms(1) ab] unfolding Decode_load [OF assms(1) a]
      by (auto simp: load_def data_first Decoder_Decode_def)
  next
    case False
    with assms(2) obtain dec' where l: "Decode_loop (length ?d) limit handle (load dec a) h = Some (Some e, dec', h1)"
      and r: "n = d_n dec'" "dec1 = dec'\<lparr>d_err := Some e\<rparr>"
      unfolding Decode_load [OF assms(1) a] by (auto split: option.splits)
    have "Decode_loop (length (d_b dec @ a @ b)) limit handle (load dec (a @ b)) h =
        Some (Some e, dec'\<lparr>d_data := d_data dec' @ b\<rparr>, h1)"
      using Decode_loop_err [OF l, of b "length (?d @ b)"] ld by simp
    with False z r show ?thesis
      unfolding Decode_load [OF assms(1) ab] by (auto simp: Decoder_Decode_def data_first)
  qed
qed

section \<open>The decoder returns\<close>

lemma parse_length: "\<forall>s\<in>set syms. s < 257 \<Longrightarrow> 5 * length syms \<le> length (concat (map sym_bits syms))"
proof (induction syms)
  case (Cons s syms)
  then have "5 \<le> length (sym_bits s)" using sym_bits_length [of s] by simp
  with Cons show ?case by simp
qed simp

lemma HuffmanDecode_length:
  assumes "HuffmanDecode [] src = Some s"
  shows "5 * length s \<le> 8 * length src"
proof -
  from HuffmanDecode_parses [of "[]" src] assms obtain syms where s: "s = map of_nat syms"
    and c: "huff.complete_parse (bits_of src) syms" by auto
  then obtain rest where "bits_of src = concat (map sym_bits syms) @ rest" and l: "\<forall>s\<in>set syms. s < 257"
    by (auto simp: huff.complete_parse_def sym_bits_def [abs_def])
  then have "length (concat (map sym_bits syms)) \<le> 8 * length src" by (metis length_bits_of length_append le_add1)
  with parse_length [OF l] s show ?thesis by simp
qed

lemma decStringLiteral_length:
  fixes s :: gostring
  assumes "decStringLiteral data = Some (Inr s :: 'e dec_err + gostring, rest)"
  shows "length s \<le> 2 * length data"
proof -
  from assms obtain l d where d: "decInteger data 7 = (Inr l :: 'e dec_err + u64, d)" "unat l \<le> length d"
    "s = take (unat l) d \<or> HuffmanDecode [] (take (unat l) d) = Some s"
    by (auto simp: decStringLiteral_def Let_def split: if_splits sum.splits prod.splits Option.bind_splits)
  from d(3) HuffmanDecode_length [of "take (unat l) d" s] have "5 * length s \<le> 8 * length d" by auto
  with decInteger_more [OF d(1), of "[]"] show ?thesis by simp
qed

definition dec_ok :: "'e Decoder \<Rightarrow> bool" where
  "dec_ok dec \<longleftrightarrow> tbl_ok (d_table dec) \<and> unat (tmaxSize (d_table dec)) < 2 ^ 31 \<and> unat (d_maxSize dec) < 2 ^ 31"

lemma static_name_length: "\<forall>x\<in>set staticTable. length (hf_name x) < 2 ^ 30"
  by (simp add: staticTable_def str_def)

lemma entry_name_length:
  assumes "tbl_ok t" "unat (tmaxSize t) < 2 ^ 31" "headerTable_entry t i = Some x"
  shows "length (hf_name x) + 32 \<le> 2 ^ 31"
proof (cases "unat i \<le> 61")
  case True
  note r = entry_range [OF assms(3) tbl_ok_length [OF assms(1)]]
  then have "i \<noteq> 0" by auto
  with True entry_static [of i t] tbl_ok_length [OF assms(1)] assms(3) have "x = staticTable ! (unat i - 1)" by simp
  moreover have "unat i - 1 < 61" using True r by linarith
  ultimately have "x \<in> set staticTable" by (simp add: nth_mem)
  with static_name_length have "length (hf_name x) < 2 ^ 30" by blast
  then show ?thesis by simp
next
  case False
  note r = entry_range [OF assms(3) tbl_ok_length [OF assms(1)]]
  define k where "k = unat i - 62"
  from False r have k: "k < length (tdata t)" "unat i = 62 + k" by (auto simp: k_def)
  then have i: "i = of_nat (62 + k)" by (metis of_nat_unat ucast_id)
  from entry_dynamic [OF k(1) tbl_ok_length [OF assms(1)]] assms(3) i have "x = tbl_abs t ! k" by simp
  with k(1) have "x \<in> set (tdata t)" by (simp add: tbl_abs_def rev_nth)
  then have "fsize x \<le> total (tdata t)" unfolding total_def by (rule member_le_sum_list_map)
  with assms(1,2) have "fsize x \<le> 2 ^ 31" by (simp add: tbl_ok_def word_le_nat_alt)
  then show ?thesis by (simp add: fsize_def headerEntryOverhead_def)
qed

lemma decLiteral_name_length:
  fixes st :: "'e Decoder"
  assumes "decLiteral_name st k = Some (Inr (name, hs), st')" "dec_ok st" "length (d_data st) < 2 ^ 29"
  shows "length name + 32 \<le> 2 ^ 31"
proof -
  obtain r :: "'e dec_err + u64" and d where d: "decInteger (d_data st) k = (r, d)" by fastforce
  from assms(1) d consider i x where "headerTable_entry (d_table st) i = Some x" "name = hf_name x"
    | rest where "r \<noteq> Inl errNeedsMore" "decStringLiteral d = Some (Inr name :: 'e dec_err + gostring, rest)"
    by (auto simp: decLiteral_name_def Let_def split: sum.splits if_splits option.splits prod.splits Option.bind_splits)
  then show ?thesis
  proof cases
    case 1
    from entry_name_length [OF _ _ 1(1)] assms(2) 1(2) show ?thesis by (simp add: dec_ok_def)
  next
    case 2
    from decStringLiteral_length [OF 2(2)] decInteger_more [OF d 2(1), of "[]"] assms(3) show ?thesis by simp
  qed
qed

lemma decStringLiteral_not_None [simp]: "decStringLiteral d \<noteq> None"
  using decStringLiteral_total [of d] by auto

lemma decLiteral_name_total: "\<exists>r st'. decLiteral_name st k = Some (r, st')"
proof -
  show ?thesis
    by (auto simp: decLiteral_name_def Let_def split: prod.splits sum.splits option.splits Option.bind_splits)
qed

lemma decLiteral_total:
  fixes st :: "'e Decoder"
  assumes "dec_ok st" "length (d_data st) < 2 ^ 29"
  shows "\<exists>n e st' h'. decLiteral handle st ty h = Some (n, e, st', h') \<and> dec_ok st'"
proof -
  let ?st = "st\<lparr>d_st := True\<rparr>"
  obtain r st1 where 1: "decLiteral_name ?st (lit_width ty) = Some (r, st1)" using decLiteral_name_total by blast
  obtain d1 where st1: "st1 = ?st\<lparr>d_data := d1\<rparr>" using decLiteral_name_short [OF 1] by blast
  have ok: "dec_ok ?st" using assms(1) by (simp add: dec_ok_def)
  show ?thesis
  proof (cases r)
    case (Inl err)
    with 1 st1 ok show ?thesis by (simp add: decLiteral_unfold dec_ok_def)
  next
    case (Inr nh)
    obtain name hs where nh: "nh = (name, hs)" by fastforce
    obtain s :: "'e dec_err + gostring" and d where 2: "decStringLiteral d1 = Some (s, d)"
      using decStringLiteral_total by blast
    show ?thesis
    proof (cases s)
      case (Inl err)
      with 1 2 st1 ok Inr nh show ?thesis by (simp add: decLiteral_unfold dec_ok_def)
    next
      case v: (Inr v)
      have n: "length name + 32 \<le> 2 ^ 31"
        using decLiteral_name_length [OF 1 [unfolded Inr nh] ok] assms(2) by simp
      have "length d1 < 2 ^ 29" using decLiteral_name_more [OF 1, of "[]"] Inr st1 assms(2) by simp
      with decStringLiteral_length [OF 2 [unfolded v]] have "length v < 2 ^ 30" by simp
      with n have "fsize (mk_field name v) < 2 ^ 32" by (simp add: fsize_def headerEntryOverhead_def)
      from dyn.add_law [OF _ this, of "d_table st"] assms(1) obtain c t where
        "headerTable_add (d_table st) name v = Some (c, t)" "tbl_ok t" "tmaxSize t = tmaxSize (d_table st)"
        by (auto simp: dec_ok_def word_unat_eq_iff)
      with 1 2 st1 Inr nh v assms(1) show ?thesis
        by (auto simp: decLiteral_unfold decLiteral_value_def dec_ok_def Let_def split: prod.split)
    qed
  qed
qed

lemma decode_total:
  fixes dec :: "'e Decoder"
  assumes ok: "dec_ok dec" and len: "length (d_data dec) < 2 ^ 29"
  shows "\<exists>n e dec' h'. decode handle dec h = Some (n, e, dec', h') \<and> dec_ok dec'"
proof -
  have "dec_ok st'" if "decIndexed handle dec h = (e, st', h')" for e st' h'
    using that ok by (auto simp: decIndexed_def Let_def dec_ok_def split: sum.splits option.splits prod.splits)
  moreover have "\<exists>e st'. decDynamicTableSizeUpdate dec = Some (e, st') \<and> dec_ok st'"
  proof -
    obtain r :: "'e dec_err + u64" and d where d: "decInteger (d_data dec) 5 = (r, d)" by fastforce
    let ?sz = "ucast (projr r) :: u32"
    obtain c t where "headerTable_setMaxSize (d_table dec) ?sz = Some (c, t)" "tbl_ok t" "tmaxSize t = ?sz"
      using dyn.set_max_law [of "d_table dec" ?sz] ok by (auto simp: dec_ok_def word_unat_eq_iff)
    with d ok show ?thesis
      by (cases r) (auto simp: decDynamicTableSizeUpdate_def Let_def dec_ok_def word_le_nat_alt not_less)
  qed
  moreover note decLiteral_total [OF ok len]
  ultimately have "\<exists>n e st' h'. decode_instr handle dec h = Some (n, e, st', h') \<and> dec_ok st'"
    using ok unfolding decode_instr_def Let_def by (cases "decIndexed handle dec h") (auto split: Option.bind_split)
  then show ?thesis by (auto simp: decode_def dec_ok_def)
qed

lemma Decode_loop_total:
  fixes dec :: "'e Decoder"
  assumes "dec_ok dec" "length (d_data dec) < 2 ^ 29" "length (d_data dec) \<le> fuel"
  shows "\<exists>e dec' h'. Decode_loop fuel limit handle dec h = Some (e, dec', h') \<and> dec_ok dec'"
  using assms
proof (induction "length (d_data dec)" arbitrary: dec h fuel rule: less_induct)
  case less
  show ?case
  proof (cases "d_data dec = []")
    case True
    with less.prems show ?thesis by (simp add: Decode_loop_done)
  next
    case False
    from decode_total [OF less.prems(1,2), of handle h] obtain n e dec0 h0 where
      d: "decode handle dec h = Some (n, e, dec0, h0)" "dec_ok dec0" by blast
    note un = Decode_loop_unfold [OF False less.prems(3), of limit handle h]
    show ?thesis
    proof (cases e)
      case (Some err)
      with d un show ?thesis by (simp add: dec_ok_def)
    next
      case None
      let ?dec = "if limit \<noteq> 0 then dec0\<lparr>d_n := d_n dec0 + n\<rparr> else dec0"
      have len: "length (d_data ?dec) < length (d_data dec)" using decode_more [OF d(1) _ False] None by simp
      then have "\<exists>e dec' h'. Decode_loop (fuel - 1) limit handle ?dec h0 = Some (e, dec', h') \<and> dec_ok dec'"
        using less.prems(2,3) d(2) by (intro less.hyps) (auto simp: dec_ok_def)
      with d un None show ?thesis by auto
    qed
  qed
qed

lemma Decode_total:
  fixes dec :: "'e Decoder"
  assumes "dec_ok dec" "length (d_b dec @ bs) < 2 ^ 29"
  shows "\<exists>n e dec' h'. Decoder_Decode dec bs limit handle h = Some (n, e, dec', h') \<and> dec_ok dec'"
proof (cases "d_err dec = None \<and> bs \<noteq> []")
  case False
  with assms show ?thesis by (auto simp: Decoder_Decode_def split: option.split)
next
  case True
  then have e: "d_err dec = None" and b: "bs \<noteq> []" by simp_all
  have ok: "dec_ok (load dec bs)" using assms(1) by (simp add: dec_ok_def load_def)
  from Decode_loop_total [OF ok, of "length (d_b dec @ bs)" limit handle h] assms(2)
  obtain r dec' h' where "Decode_loop (length (d_b dec @ bs)) limit handle (load dec bs) h = Some (r, dec', h')" "dec_ok dec'"
    by auto
  with ok show ?thesis
    unfolding Decode_load [OF e b] by (cases r) (auto simp: dec_ok_def)
qed

end
