(* ===== verification/Hpack_Theorems.thy ===== *)
theory Hpack_Theorems
  imports Hpack_Decode
begin

text \<open>
  The properties of the HPACK package (\<^verbatim>\<open>src/hpack\<close>), each with a witness at a concrete
  input where it has hypotheses.  The proofs are in the theories this one imports.
\<close>

section \<open>Header compression\<close>

text \<open>
  C2 A header block written by the encoder is read back by a decoder that is in step with it:
  \<open>Decode\<close> reports exactly the encoded fields, in order and with their sensitivity, and the
  two sides are in step again afterwards, ready for the next block.
\<close>

theorem hpack_block_roundtrip:
  fixes dec :: "'e Decoder"
  assumes "in_sync enc dec" "d_err dec = None" "d_b dec = []" "\<not> d_st dec" "fields_small fs"
  shows "\<exists>bs enc' dec'. encode_block enc [] fs = Some (bs, enc')
    \<and> Decoder_Decode dec bs 0 (Some collect) hs = Some (d_n dec, None, dec', hs @ fs)
    \<and> in_sync enc' dec' \<and> d_err dec' = None \<and> d_b dec' = []"
  using block_roundtrip [OF assms] by blast

theorem hpack_block_roundtrip_witness:
  "\<exists>bs enc' (dec' :: unit Decoder). encode_block (NewEncoder 4096) [] [(str '':path'', str ''/a'', False), (str ''x'', str ''y'', True)] = Some (bs, enc')
    \<and> Decoder_Decode (NewDecoder 4096) bs 0 (Some collect) [] =
        Some (0, None, dec', [(str '':path'', str ''/a'', False), (str ''x'', str ''y'', True)])
    \<and> in_sync enc' dec' \<and> d_err dec' = None \<and> d_b dec' = []"
  using hpack_block_roundtrip [of "NewEncoder 4096" "NewDecoder 4096 :: unit Decoder"
      "[(str '':path'', str ''/a'', False), (str ''x'', str ''y'', True)]" "[]"] in_sync_new [of 4096]
  by (simp add: NewDecoder_def fields_small_def str_def)

text \<open>
  C19 A change of the header table size keeps encoder and decoder in step: when the decoder's
  limit is set and the encoder adopts it, whatever sizes were set since the last block, the
  size updates in front of the next field bring both tables together.
\<close>

theorem hpack_resize_in_sync:
  fixes dec :: "'e Decoder"
  assumes "in_sync enc dec" "unat m < 2 ^ 31"
  shows "\<exists>dec' enc'. Decoder_SetMaxHeaderTableSize dec m = Some dec'
    \<and> Encoder_SetMaxHeaderTableSize enc m = Some enc' \<and> in_sync enc' dec'"
  using in_sync_resize [OF assms] .

theorem hpack_resize_in_sync_witness:
  "\<exists>(dec' :: unit Decoder) enc'. Decoder_SetMaxHeaderTableSize (NewDecoder 4096) 256 = Some dec'
    \<and> Encoder_SetMaxHeaderTableSize (NewEncoder 4096) 256 = Some enc' \<and> in_sync enc' dec'"
  by (rule hpack_resize_in_sync [OF in_sync_new]) simp_all

text \<open>
  C18 Decoding does not depend on how a header block is cut into fragments: a fragment decoded
  without an error leaves a decoder that treats the next fragment as the whole would have
  been treated, and an error of a fragment is the error of the whole block and stays.
\<close>

theorem hpack_decode_fragments:
  fixes dec :: "'e Decoder"
  assumes "d_err dec = None" "Decoder_Decode dec a limit handle h = Some (n, e, dec1, h1)"
  shows "(e = None \<longrightarrow> Decoder_Decode dec (a @ b) limit handle h = Decoder_Decode dec1 b limit handle h1)
    \<and> (e \<noteq> None \<longrightarrow> (\<exists>d. Decoder_Decode dec (a @ b) limit handle h = Some (n, e, dec1\<lparr>d_data := d\<rparr>, h1))
        \<and> Decoder_Decode dec1 b limit handle h1 = Some (n, e, dec1, h1))"
  using Decode_chunk_ok [OF assms(1), of a limit handle h n dec1 h1 b]
    Decode_chunk_err [OF assms(1), of a limit handle h n _ dec1 h1 b] assms(2)
  by (cases e) auto

theorem hpack_decode_fragments_witness:
  "Decoder_Decode (NewDecoder 4096 :: unit Decoder) ([0xff] @ [0x80]) 0 (Some collect) [] =
   Decoder_Decode (NewDecoder 4096\<lparr>d_data := [0xff], d_b := [0xff], d_st := True\<rparr>) [0x80] 0 (Some collect) []"
proof -
  have "Decoder_Decode (NewDecoder 4096 :: unit Decoder) [0xff] 0 (Some collect) [] =
      Some (0, None, NewDecoder 4096\<lparr>d_data := [0xff], d_b := [0xff], d_st := True\<rparr>, [])"
    by (simp add: Decoder_Decode_def NewDecoder_def new_table_def Decode_loop.simps more_def decode_def
        decode_instr_def decIndexed_def int_bound_def Let_def)
  from hpack_decode_fragments [OF _ this, of "[0x80]"] show ?thesis by (simp add: NewDecoder_def)
qed

text \<open>
  C9 The decoder returns on every input: under a table limit below \<open>2 ^ 31\<close> no header block
  makes \<open>Decode\<close> panic or run forever, and the decoder's invariant, with the size of its
  dynamic table within the limit, holds again afterwards.
\<close>

theorem hpack_decode_total:
  fixes dec :: "'e Decoder"
  assumes "dec_ok dec" "length (d_b dec @ bs) < 2 ^ 29"
  shows "\<exists>n e dec' h'. Decoder_Decode dec bs limit handle h = Some (n, e, dec', h') \<and> dec_ok dec'
    \<and> total (tdata (d_table dec')) \<le> unat (tmaxSize (d_table dec'))"
  using Decode_total [OF assms, of limit handle h] by (fastforce simp: dec_ok_def tbl_ok_def word_le_nat_alt)

theorem hpack_decode_total_witness:
  "\<exists>n e dec' h'. Decoder_Decode (NewDecoder 4096 :: unit Decoder) [0x00, 0xff, 0x17] 16 (Some collect) [] = Some (n, e, dec', h')
    \<and> dec_ok dec' \<and> total (tdata (d_table dec')) \<le> unat (tmaxSize (d_table dec'))"
  by (rule hpack_decode_total) (simp_all add: dec_ok_def NewDecoder_def new_table_def tbl_ok_def)

section \<open>The Huffman code\<close>

text \<open>C23 Decoding inverts encoding, for every string and whatever the output buffer holds.\<close>

theorem huffman_roundtrip: "HuffmanDecode dst (HuffmanEncode [] s) = Some (dst @ s)"
  by (rule HuffmanDecode_HuffmanEncode)

text \<open>
  C24 The Huffman decoder is total: for every input it returns the symbols of a sequence of
  code words the input starts with, and no further code word fits in what is left.
\<close>

theorem huffman_decode_maximal:
  "\<exists>syms rest. HuffmanDecode dst src = Some (dst @ map of_nat syms)
     \<and> bits_of src = concat (map sym_bits syms) @ rest \<and> (\<forall>i<257. \<not> prefix (sym_bits i) rest)"
  using HuffmanDecode_parses [of dst src]
  by (auto simp: huff.complete_parse_def sym_bits_def [abs_def])

theorem huffman_decode_maximal_witness:
  "\<exists>syms rest. HuffmanDecode [] [0x1f] = Some ([] @ map of_nat syms)
     \<and> bits_of [0x1f] = concat (map sym_bits syms) @ rest \<and> (\<forall>i<257. \<not> prefix (sym_bits i) rest)"
  by (rule huffman_decode_maximal)

section \<open>Prefixed integers\<close>

text \<open>
  C27 The integers that can be transmitted with a prefix of \<open>n\<close> bits are exactly those below
  2^63 + 2^n - 1: they are read back with just their bytes consumed, and all others are refused as an
  overflow.
\<close>

theorem integer_roundtrip:
  assumes "n \<le> 8" "msk AND mask n = 0"
  shows "if unat i < 2 ^ 63 + 2 ^ n - 1 then decInteger (encInteger [] msk n i @ rest) n = (Inr i, rest)
    else fst (decInteger (encInteger [] msk n i @ rest) n) = Inl errIntegerOverflow"
  by (simp add: decInteger_encInteger_wide [OF assms] decInteger_encInteger_overflow [OF assms] not_less)

theorem integer_roundtrip_witness:
  "decInteger (encInteger [] 0x80 7 (2 ^ 63) @ [5]) 7 = (Inr (2 ^ 63), [5])
     \<and> fst (decInteger (encInteger [] 0x80 7 (2 ^ 63 + 127) @ [5]) 7) = Inl errIntegerOverflow"
  using integer_roundtrip [where n = 7 and msk = "0x80" and i = "2 ^ 63" and rest = "[5]"]
    integer_roundtrip [where n = 7 and msk = "0x80" and i = "2 ^ 63 + 127" and rest = "[5]"] by (simp add: mask_eq_exp_minus_1)

text \<open>
  C28 The decoder's integer arithmetic does not wrap: the 64-bit result is the number the
  consumed bytes stand for, of which there are at most ten.
\<close>

theorem integer_decode_exact:
  assumes "decInteger data n = (Inr i :: 'e dec_err + u64, rest)" "n \<le> 8"
  shows "\<exists>b used. data = b # used @ rest \<and> length used \<le> 9 \<and> unat i = unat b mod 2 ^ n + septets used
    \<and> unat i < 2 ^ 63 + 2 ^ n"
proof -
  from decInteger_value [OF assms] obtain b used where
    u: "data = b # used @ rest" "length used \<le> 9" "unat i = unat b mod 2 ^ n + septets used" by blast
  have "septets used < 128 ^ length used" by (rule septets_bound)
  also have "\<dots> \<le> 128 ^ 9" using u(2) by (intro power_increasing) simp_all
  finally have "septets used < 2 ^ 63" by simp
  moreover have "unat b mod 2 ^ n < 2 ^ n" by simp
  ultimately show ?thesis using u by (intro exI [of _ b] exI [of _ used]) linarith
qed

theorem integer_decode_exact_witness:
  "\<exists>b used. [0xff, 0xba, 0x09] = b # used @ [] \<and> length used \<le> 9
    \<and> unat (1337 :: u64) = unat b mod 2 ^ 7 + septets used \<and> unat (1337 :: u64) < 2 ^ 63 + 2 ^ 7"
proof -
  have "decInteger [0xff, 0xba, 0x09] 7 = (Inr 1337 :: unit dec_err + u64, [])"
    by (simp add: int_bound_def Let_def)
  from integer_decode_exact [OF this] show ?thesis by simp
qed

text \<open>
  A table size update is compared with the limit after truncation to 32 bits: the update
  to \<open>2 ^ 32\<close> is accepted by every decoder, as an update to zero.
\<close>

lemma size_update_truncates:
  fixes dec :: "'e Decoder"
  assumes "\<not> d_st dec" "d_data dec = encDynamicTableSizeUpdate [] (2 ^ 32)"
  shows "\<exists>dec'. decDynamicTableSizeUpdate dec = Some (None, dec') \<and> tmaxSize (d_table dec') = 0
    \<and> tdata (d_table dec') = (if tmaxSize (d_table dec) = 0 then tdata (d_table dec) else [])"
proof -
  have "decInteger (encInteger [] 0x20 5 (2 ^ 32) @ []) 5 = (Inr (2 ^ 32) :: 'e dec_err + u64, [])"
    by (rule decInteger_encInteger) (simp_all add: mask_eq_exp_minus_1)
  moreover have z: "(4294967296 :: u32) = 0" by code_simp
  have "\<not> d_maxSize dec < 4294967296" unfolding z by simp
  ultimately show ?thesis
    using assms by (simp add: decDynamicTableSizeUpdate_def encDynamicTableSizeUpdate_def headerTable_setMaxSize_def Let_def)
qed

section \<open>The indexing tables\<close>

text \<open>
  C25 The dynamic table implements the abstract table of RFC 7541: adding a field puts it in
  front and keeps the longest run of newest fields that fits, resizing keeps such a run, the
  stored size is the sum of the field sizes, and neither operation panics.
\<close>

theorem table_refines:
  assumes "tbl_ok t" "fsize (mk_field n v) < 2 ^ 32" "unat (tmaxSize t) < 2 ^ 31"
  shows "(\<exists>t'. headerTable_add t n v = Some (fsize (mk_field n v) \<le> unat (tmaxSize t), t') \<and> tbl_ok t'
       \<and> tbl_abs t' = fit (unat (tmaxSize t)) (mk_field n v # tbl_abs t))
    \<and> (\<exists>t'. headerTable_setMaxSize t mx = Some (mx \<noteq> tmaxSize t, t') \<and> tbl_ok t' \<and> tmaxSize t' = mx
       \<and> tbl_abs t' = fit (unat mx) (tbl_abs t))"
  using add_spec [OF assms] setMaxSize_spec [OF assms(1), of mx] by blast

theorem table_refines_witness:
  "(\<exists>t'. headerTable_add (new_table 70) (str ''a'') (str ''b'') = Some (True, t') \<and> tbl_ok t'
       \<and> tbl_abs t' = fit 70 (mk_field (str ''a'') (str ''b'') # tbl_abs (new_table 70)))"
  using table_refines [of "new_table 70" "str ''a''" "str ''b''" 0]
  by (simp add: new_table_def tbl_ok_def fsize_def headerEntryOverhead_def str_def)

text \<open>
  C26 Lookup after insertion: a field that was added to the table is found, with its name and
  value, at the index the search returns.
\<close>

theorem table_find_after_add:
  assumes "tbl_ok t" "fsize (mk_field n v) \<le> unat (tmaxSize t)" "unat (tmaxSize t) < 2 ^ 31"
  shows "\<exists>t' i. headerTable_add t n v = Some (True, t') \<and> headerTable_find t' n v = (i, True)
    \<and> headerTable_entry t' i = Some (mk_field n v)"
  by (rule dyn.find_after_add [OF assms])

theorem table_find_after_add_witness:
  "\<exists>t' i. headerTable_add (new_table 70) (str ''a'') (str ''b'') = Some (True, t')
    \<and> headerTable_find t' (str ''a'') (str ''b'') = (i, True)
    \<and> headerTable_entry t' i = Some (mk_field (str ''a'') (str ''b''))"
  by (rule table_find_after_add)
     (simp_all add: new_table_def tbl_ok_def fsize_def headerEntryOverhead_def str_def)

end
