(* ===== verification/H2_Types.thy ===== *)
theory H2_Types
  imports H2_Prelude
begin

text \<open>
  The data types of the package: \<^verbatim>\<open>src/http2.go\<close>, and of \<^verbatim>\<open>src/util.go\<close> the error types, the
  settings and the methods of the frame types.

  \<open>ErrCode\<close>, \<open>SettingID\<close>, \<open>FrameType\<close> and \<open>Flags\<close> are words of their Go width, so unknown
  codes are values like any other.  A Go \<open>error\<close> is a value of \<open>h2error\<close>.  A Go map is an
  association list with distinct keys whose order stands for the iteration order of the run
  time; a nil map is \<open>None\<close>.  An \<open>io.Reader\<close> is the list of the bytes it will yield before
  its end, or \<open>None\<close> for a nil reader.
\<close>

section \<open>Constants\<close>

definition ClientPreface :: gostring where
  "ClientPreface = str ''PRI * HTTP/2.0'' @ [13, 10, 13, 10] @ str ''SM'' @ [13, 10, 13, 10]"

type_synonym ErrCode = u32

definition ErrCodeNo :: ErrCode where [simp]: "ErrCodeNo = 0x0"
definition ErrCodeProtocol :: ErrCode where [simp]: "ErrCodeProtocol = 0x1"
definition ErrCodeInternal :: ErrCode where [simp]: "ErrCodeInternal = 0x2"
definition ErrCodeFlowControl :: ErrCode where [simp]: "ErrCodeFlowControl = 0x3"
definition ErrCodeSettingsTimeout :: ErrCode where [simp]: "ErrCodeSettingsTimeout = 0x4"
definition ErrCodeStreamClosed :: ErrCode where [simp]: "ErrCodeStreamClosed = 0x5"
definition ErrCodeFrameSize :: ErrCode where [simp]: "ErrCodeFrameSize = 0x6"
definition ErrCodeRefusedStream :: ErrCode where [simp]: "ErrCodeRefusedStream = 0x7"
definition ErrCodeCancel :: ErrCode where [simp]: "ErrCodeCancel = 0x8"
definition ErrCodeCompression :: ErrCode where [simp]: "ErrCodeCompression = 0x9"
definition ErrCodeConnect :: ErrCode where [simp]: "ErrCodeConnect = 0xa"
definition ErrCodeEnhanceYourCalm :: ErrCode where [simp]: "ErrCodeEnhanceYourCalm = 0xb"
definition ErrCodeInadequateSecurity :: ErrCode where [simp]: "ErrCodeInadequateSecurity = 0xc"
definition ErrCodeHTTP11Required :: ErrCode where [simp]: "ErrCodeHTTP11Required = 0xd"

definition maxConcurrentStreams :: u32 where [simp]: "maxConcurrentStreams = 2147483647"
definition maxInitialWindowSize :: int where [simp]: "maxInitialWindowSize = 2147483647"
definition maxFrameSizeLowerBound :: u32 where [simp]: "maxFrameSizeLowerBound = 16384"
definition maxFrameSizeUpperBound :: u32 where [simp]: "maxFrameSizeUpperBound = 16777215"
definition defaultHeaderTableSize :: u32 where [simp]: "defaultHeaderTableSize = 4096"
definition defaultEnablePush :: u32 where [simp]: "defaultEnablePush = 1"
definition defaultMaxConcurrentStreams :: u32 where [simp]: "defaultMaxConcurrentStreams = maxConcurrentStreams"
definition defaultInitialWindowSize :: u32 where [simp]: "defaultInitialWindowSize = 65535"
definition defaultMaxFrameSize :: u32 where [simp]: "defaultMaxFrameSize = maxFrameSizeLowerBound"

type_synonym SettingID = u16

definition SettingHeaderTableSize :: SettingID where [simp]: "SettingHeaderTableSize = 0x1"
definition SettingEnablePush :: SettingID where [simp]: "SettingEnablePush = 0x2"
definition SettingMaxConcurrentStreams :: SettingID where [simp]: "SettingMaxConcurrentStreams = 0x3"
definition SettingInitialWindowSize :: SettingID where [simp]: "SettingInitialWindowSize = 0x4"
definition SettingMaxFrameSize :: SettingID where [simp]: "SettingMaxFrameSize = 0x5"
definition SettingMaxHeaderListSize :: SettingID where [simp]: "SettingMaxHeaderListSize = 0x6"

definition settingLen :: nat where [simp]: "settingLen = 6"

type_synonym FrameType = u8

definition FrameData :: FrameType where [simp]: "FrameData = 0x0"
definition FrameHeaders :: FrameType where [simp]: "FrameHeaders = 0x1"
definition FramePriority :: FrameType where [simp]: "FramePriority = 0x2"
definition FrameRSTStream :: FrameType where [simp]: "FrameRSTStream = 0x3"
definition FrameSettings :: FrameType where [simp]: "FrameSettings = 0x4"
definition FramePushPromise :: FrameType where [simp]: "FramePushPromise = 0x5"
definition FramePing :: FrameType where [simp]: "FramePing = 0x6"
definition FrameGoAway :: FrameType where [simp]: "FrameGoAway = 0x7"
definition FrameWindowUpdate :: FrameType where [simp]: "FrameWindowUpdate = 0x8"
definition FrameContinuation :: FrameType where [simp]: "FrameContinuation = 0x9"

type_synonym Flags = u8

definition FlagEndStream :: Flags where [simp]: "FlagEndStream = 0x1"
definition FlagEndHeaders :: Flags where [simp]: "FlagEndHeaders = 0x4"
definition FlagAck :: Flags where [simp]: "FlagAck = 0x1"
definition FlagPadded :: Flags where [simp]: "FlagPadded = 0x8"
definition FlagPriority :: Flags where [simp]: "FlagPriority = 0x20"

section \<open>Numbers in text\<close>

text \<open>The verbs \<open>%d\<close> and \<open>%x\<close> of \<open>fmt\<close>, for the unsigned values they are used with.\<close>

function dec_string :: "nat \<Rightarrow> gostring" where
  "dec_string n = (if n < 10 then [of_nat (48 + n)] else dec_string (n div 10) @ [of_nat (48 + n mod 10)])"
  by pat_completeness auto
termination by (relation "measure id") auto

definition hex_digit :: "nat \<Rightarrow> u8" where
  "hex_digit d = (if d < 10 then of_nat (48 + d) else of_nat (87 + d))"

function hex_string :: "nat \<Rightarrow> gostring" where
  "hex_string n = (if n < 16 then [hex_digit n] else hex_string (n div 16) @ [hex_digit (n mod 16)])"
  by pat_completeness auto
termination by (relation "measure id") auto

declare dec_string.simps [simp del] hex_string.simps [simp del]

section \<open>Names\<close>

definition ErrCode_String :: "ErrCode \<Rightarrow> gostring" where
  "ErrCode_String e =
     (if e = ErrCodeNo then str ''NO_ERROR''
      else if e = ErrCodeProtocol then str ''PROTOCOL_ERROR''
      else if e = ErrCodeInternal then str ''INTERNAL_ERROR''
      else if e = ErrCodeFlowControl then str ''FLOW_CONTROL_ERROR''
      else if e = ErrCodeSettingsTimeout then str ''SETTINGS_TIMEOUT''
      else if e = ErrCodeStreamClosed then str ''STREAM_CLOSED''
      else if e = ErrCodeFrameSize then str ''FRAME_SIZE_ERROR''
      else if e = ErrCodeRefusedStream then str ''REFUSED_STREAM''
      else if e = ErrCodeCancel then str ''CANCEL''
      else if e = ErrCodeCompression then str ''COMPRESSION_ERROR''
      else if e = ErrCodeConnect then str ''CONNECT_ERROR''
      else if e = ErrCodeEnhanceYourCalm then str ''ENHANCE_YOUR_CALM''
      else if e = ErrCodeInadequateSecurity then str ''INADEQUATE_SECURITY''
      else if e = ErrCodeHTTP11Required then str ''HTTP_1_1_REQUIRED''
      else str ''unknown error code 0x'' @ hex_string (unat e))"

definition SettingID_String :: "SettingID \<Rightarrow> gostring" where
  "SettingID_String i =
     (if i = SettingHeaderTableSize then str ''HEADER_TABLE_SIZE''
      else if i = SettingEnablePush then str ''ENABLE_PUSH''
      else if i = SettingMaxConcurrentStreams then str ''MAX_CONCURRENT_STREAMS''
      else if i = SettingInitialWindowSize then str ''INITIAL_WINDOW_SIZE''
      else if i = SettingMaxFrameSize then str ''MAX_FRAME_SIZE''
      else if i = SettingMaxHeaderListSize then str ''MAX_HEADER_LIST_SIZE''
      else str ''UNKNOWN_SETTING_'' @ dec_string (unat i))"

definition FrameType_String :: "FrameType \<Rightarrow> gostring" where
  "FrameType_String t =
     (if t = FrameData then str ''DATA''
      else if t = FrameHeaders then str ''HEADERS''
      else if t = FramePriority then str ''PRIORITY''
      else if t = FrameRSTStream then str ''RST_STREAM''
      else if t = FrameSettings then str ''SETTINGS''
      else if t = FramePushPromise then str ''PUSH_PROMISE''
      else if t = FramePing then str ''PING''
      else if t = FrameGoAway then str ''GOAWAY''
      else if t = FrameWindowUpdate then str ''WINDOW_UPDATE''
      else if t = FrameContinuation then str ''CONTINUATION''
      else str ''UNKNOWN_FRAME_TYPE_'' @ dec_string (unat t))"

section \<open>Errors\<close>

text \<open>
  The error values of the package: those made with \<open>errors.New\<close> and \<open>fmt.Errorf\<close> by their
  text, the error types, and those of the standard library and of the HPACK package that
  the code tells apart; a \<open>net.Error\<close> is its text and whether it is temporary.
\<close>

datatype h2error =
    Errorf gostring
  | ConnError h2error ErrCode
  | StreamError h2error ErrCode u32
  | StreamErrorList "(h2error \<times> ErrCode \<times> u32) list"
  | MalformedError gostring
  | HandshakeError gostring
  | HpackDecodingError gostring
  | HpackTooLarge
  | ErrClosed
  | EOF
  | ErrUnexpectedEOF
  | NetError gostring bool

fun h2error_Error :: "h2error \<Rightarrow> gostring" where
  "h2error_Error (Errorf s) = s"
| "h2error_Error (ConnError e c) = str ''connection error('' @ ErrCode_String c @ str ''): '' @ h2error_Error e"
| "h2error_Error (StreamError e c sid) =
     str ''stream error(stream ID='' @ dec_string (unat sid) @ str ''; '' @ ErrCode_String c @ str ''): '' @ h2error_Error e"
| "h2error_Error (StreamErrorList []) = str ''no errors''"
| "h2error_Error (StreamErrorList [(e, c, sid)]) =
     str ''stream error(stream ID='' @ dec_string (unat sid) @ str ''; '' @ ErrCode_String c @ str ''): '' @ h2error_Error e"
| "h2error_Error (StreamErrorList ((e, c, sid) # es)) =
     str ''stream error(stream ID='' @ dec_string (unat sid) @ str ''; '' @ ErrCode_String c @ str ''): '' @ h2error_Error e
       @ str '' (and '' @ dec_string (length es) @ str '' more stream errors)''"
| "h2error_Error (MalformedError s) = str ''http2: malformed; '' @ s"
| "h2error_Error (HandshakeError s) = str ''http2: '' @ s"
| "h2error_Error (HpackDecodingError s) = str ''decode error: '' @ s"
| "h2error_Error HpackTooLarge = str ''header fields too large''"
| "h2error_Error ErrClosed = str ''http2: connection has been closed''"
| "h2error_Error EOF = str ''EOF''"
| "h2error_Error ErrUnexpectedEOF = str ''unexpected EOF''"
| "h2error_Error (NetError s temporary) = s"

definition StreamErrorList_add ::
  "(h2error \<times> ErrCode \<times> u32) list \<Rightarrow> u32 \<Rightarrow> ErrCode \<Rightarrow> h2error \<Rightarrow> (h2error \<times> ErrCode \<times> u32) list" where
  "StreamErrorList_add e streamID errCode err = e @ [(err, errCode, streamID)]"

definition StreamErrorList_Err :: "(h2error \<times> ErrCode \<times> u32) list \<Rightarrow> h2error option" where
  "StreamErrorList_Err e = (if length e = 0 then None else Some (StreamErrorList e))"

section \<open>Settings\<close>

record setting =
  set_ID :: SettingID
  set_Value :: u32

type_synonym Settings = "setting list"

fun Settings_value :: "Settings \<Rightarrow> SettingID \<Rightarrow> u32 option" where
  "Settings_value [] i = None"
| "Settings_value (x # s) i = (if set_ID x = i then Some (set_Value x) else Settings_value s i)"

definition Settings_Value :: "Settings \<Rightarrow> SettingID \<Rightarrow> u32" where
  "Settings_Value s i =
     (case Settings_value s i of
        Some v \<Rightarrow> v
      | None \<Rightarrow>
          if i = SettingHeaderTableSize then defaultHeaderTableSize
          else if i = SettingEnablePush then defaultEnablePush
          else if i = SettingMaxConcurrentStreams then defaultMaxConcurrentStreams
          else if i = SettingInitialWindowSize then defaultInitialWindowSize
          else if i = SettingMaxFrameSize then defaultMaxFrameSize
          else 0)"

definition setting_valid :: "SettingID \<Rightarrow> u32 \<Rightarrow> bool" where
  "setting_valid i v =
     (if i = SettingEnablePush then v < 2
      else if i = SettingInitialWindowSize then uint v \<le> maxInitialWindowSize
      else if i = SettingMaxFrameSize then maxFrameSizeLowerBound \<le> v \<and> v \<le> maxFrameSizeUpperBound
      else True)"

fun Settings_store :: "Settings \<Rightarrow> SettingID \<Rightarrow> u32 \<Rightarrow> Settings" where
  "Settings_store [] i v = [\<lparr>set_ID = i, set_Value = v\<rparr>]"
| "Settings_store (x # s) i v = (if set_ID x = i then x\<lparr>set_Value := v\<rparr> # s else x # Settings_store s i v)"

definition Settings_SetValue :: "Settings \<Rightarrow> SettingID \<Rightarrow> u32 \<Rightarrow> h2error option \<times> Settings" where
  "Settings_SetValue s i v =
     (if \<not> setting_valid i v
      then (Some (Errorf (str ''invalid '' @ SettingID_String i @ str '' specified; '' @ dec_string (unat v))), s)
      else (None, Settings_store s i v))"

definition Settings_HeaderTableSize :: "Settings \<Rightarrow> u32" where
  "Settings_HeaderTableSize s = Settings_Value s SettingHeaderTableSize"
definition Settings_SetHeaderTableSize :: "Settings \<Rightarrow> u32 \<Rightarrow> h2error option \<times> Settings" where
  "Settings_SetHeaderTableSize s v = Settings_SetValue s SettingHeaderTableSize v"
definition Settings_PushEnabled :: "Settings \<Rightarrow> bool" where
  "Settings_PushEnabled s \<longleftrightarrow> Settings_Value s SettingEnablePush \<noteq> 0"
definition Settings_SetPushEnabled :: "Settings \<Rightarrow> bool \<Rightarrow> h2error option \<times> Settings" where
  "Settings_SetPushEnabled s enabled = Settings_SetValue s SettingEnablePush (if enabled then 1 else 0)"
definition Settings_MaxConcurrentStreams :: "Settings \<Rightarrow> u32" where
  "Settings_MaxConcurrentStreams s = Settings_Value s SettingMaxConcurrentStreams"
definition Settings_SetMaxConcurrentStreams :: "Settings \<Rightarrow> u32 \<Rightarrow> h2error option \<times> Settings" where
  "Settings_SetMaxConcurrentStreams s v = Settings_SetValue s SettingMaxConcurrentStreams v"
definition Settings_InitialWindowSize :: "Settings \<Rightarrow> u32" where
  "Settings_InitialWindowSize s = Settings_Value s SettingInitialWindowSize"
definition Settings_SetInitialWindowSize :: "Settings \<Rightarrow> u32 \<Rightarrow> h2error option \<times> Settings" where
  "Settings_SetInitialWindowSize s v = Settings_SetValue s SettingInitialWindowSize v"
definition Settings_MaxFrameSize :: "Settings \<Rightarrow> u32" where
  "Settings_MaxFrameSize s = Settings_Value s SettingMaxFrameSize"
definition Settings_SetMaxFrameSize :: "Settings \<Rightarrow> u32 \<Rightarrow> h2error option \<times> Settings" where
  "Settings_SetMaxFrameSize s v = Settings_SetValue s SettingMaxFrameSize v"
definition Settings_MaxHeaderListSize :: "Settings \<Rightarrow> u32" where
  "Settings_MaxHeaderListSize s = Settings_Value s SettingMaxHeaderListSize"
definition Settings_SetMaxHeaderListSize :: "Settings \<Rightarrow> u32 \<Rightarrow> h2error option \<times> Settings" where
  "Settings_SetMaxHeaderListSize s v = Settings_SetValue s SettingMaxHeaderListSize v"

definition setting_text :: "setting \<Rightarrow> gostring" where
  "setting_text x = SettingID_String (set_ID x) @ str '':'' @ dec_string (unat (set_Value x))"

fun Settings_texts :: "Settings \<Rightarrow> gostring" where
  "Settings_texts [] = []"
| "Settings_texts [x] = setting_text x"
| "Settings_texts (x # s) = setting_text x @ str '','' @ Settings_texts s"

definition Settings_String :: "Settings \<Rightarrow> gostring" where
  "Settings_String s = str ''settings={'' @ Settings_texts s @ str ''}''"

section \<open>Frames\<close>

type_synonym Header = "(gostring \<times> gostring list) list option"

record Priority =
  StreamDependency :: u32
  Weight :: u8
  Exclusive :: bool

definition no_Priority :: Priority where
  "no_Priority = \<lparr>StreamDependency = 0, Weight = 0, Exclusive = False\<rparr>"

datatype Frame =
    DataFrame u32 "bytes option" int u8 bool
  | HeadersFrame u32 Header Priority u8 bool
  | PriorityFrame u32 Priority
  | RSTStreamFrame u32 ErrCode
  | SettingsFrame bool Settings
  | PushPromiseFrame u32 u32 Header u8
  | PingFrame bool bytes
  | GoAwayFrame u32 ErrCode bytes
  | WindowUpdateFrame u32 u32
  | UnknownFrame FrameType u32 Flags "bytes option" int

definition Flags_Has :: "Flags \<Rightarrow> Flags \<Rightarrow> bool" where
  "Flags_Has f v \<longleftrightarrow> f AND v = v"

fun Frame_Type :: "Frame \<Rightarrow> FrameType" where
  "Frame_Type (DataFrame _ _ _ _ _) = FrameData"
| "Frame_Type (HeadersFrame _ _ _ _ _) = FrameHeaders"
| "Frame_Type (PriorityFrame _ _) = FramePriority"
| "Frame_Type (RSTStreamFrame _ _) = FrameRSTStream"
| "Frame_Type (SettingsFrame _ _) = FrameSettings"
| "Frame_Type (PushPromiseFrame _ _ _ _) = FramePushPromise"
| "Frame_Type (PingFrame _ _) = FramePing"
| "Frame_Type (GoAwayFrame _ _ _) = FrameGoAway"
| "Frame_Type (WindowUpdateFrame _ _) = FrameWindowUpdate"
| "Frame_Type (UnknownFrame t _ _ _ _) = t"

fun Frame_Stream :: "Frame \<Rightarrow> u32" where
  "Frame_Stream (DataFrame i _ _ _ _) = i"
| "Frame_Stream (HeadersFrame i _ _ _ _) = i"
| "Frame_Stream (PriorityFrame i _) = i"
| "Frame_Stream (RSTStreamFrame i _) = i"
| "Frame_Stream (SettingsFrame _ _) = 0"
| "Frame_Stream (PushPromiseFrame i _ _ _) = i"
| "Frame_Stream (PingFrame _ _) = 0"
| "Frame_Stream (GoAwayFrame _ _ _) = 0"
| "Frame_Stream (WindowUpdateFrame i _) = i"
| "Frame_Stream (UnknownFrame _ i _ _ _) = i"

fun Frame_EndOfStream :: "Frame \<Rightarrow> bool" where
  "Frame_EndOfStream (DataFrame _ _ _ _ e) = e"
| "Frame_EndOfStream (HeadersFrame _ _ _ _ e) = e"
| "Frame_EndOfStream (UnknownFrame _ _ f _ _) = Flags_Has f FlagEndStream"
| "Frame_EndOfStream _ = False"

definition HasPriority :: "Priority \<Rightarrow> bool" where
  "HasPriority p \<longleftrightarrow> p \<noteq> no_Priority"

section \<open>Settings as a map with defaults\<close>

lemma Settings_value_store:
  "Settings_value (Settings_store s i v) j = (if j = i then Some v else Settings_value s j)"
  by (induction s i v rule: Settings_store.induct) auto

lemma Settings_store_ids:
  "map set_ID (Settings_store s i v) = (if i \<in> set_ID ` set s then map set_ID s else map set_ID s @ [i])"
  by (induction s i v rule: Settings_store.induct) auto

text \<open>
  The settings a connection may hold: every parameter at most once and every value in the
  range the protocol allows for it.
\<close>

definition settings_ok :: "Settings \<Rightarrow> bool" where
  "settings_ok s \<longleftrightarrow> distinct (map set_ID s) \<and> (\<forall>x\<in>set s. setting_valid (set_ID x) (set_Value x))"

lemma settings_ok_store:
  assumes "settings_ok s" "setting_valid i v"
  shows "settings_ok (Settings_store s i v)"
proof -
  have "\<forall>x\<in>set (Settings_store s i v). setting_valid (set_ID x) (set_Value x)"
    using assms by (induction s i v rule: Settings_store.induct) (auto simp: settings_ok_def)
  with assms show ?thesis
    by (auto simp: settings_ok_def Settings_store_ids)
qed

lemma Settings_value_in: "Settings_value s i = Some v \<Longrightarrow> \<exists>x\<in>set s. set_ID x = i \<and> set_Value x = v"
  by (induction s i rule: Settings_value.induct) (auto split: if_splits)

lemma settings_ok_Value:
  assumes "settings_ok s"
  shows "setting_valid i (Settings_Value s i)"
proof (cases "Settings_value s i")
  case None
  then show ?thesis by (auto simp: Settings_Value_def setting_valid_def)
next
  case (Some v)
  with Settings_value_in [OF Some] assms show ?thesis by (auto simp: Settings_Value_def settings_ok_def)
qed

lemma SetValue_get:
  assumes "setting_valid i v"
  shows "\<exists>s'. Settings_SetValue s i v = (None, s') \<and> Settings_Value s' i = v
    \<and> (\<forall>j. j \<noteq> i \<longrightarrow> Settings_Value s' j = Settings_Value s j)"
  using assms by (simp add: Settings_SetValue_def Settings_Value_def Settings_value_store)

lemma SetValue_map:
  assumes "settings_ok s"
  shows "\<exists>e s'. Settings_SetValue s i v = (e, s') \<and> settings_ok s' \<and> (e = None \<longleftrightarrow> setting_valid i v)
    \<and> (e \<noteq> None \<longrightarrow> s' = s)
    \<and> (\<forall>j. Settings_Value s' j = (if j = i \<and> e = None then v else Settings_Value s j) \<and> setting_valid j (Settings_Value s' j))"
proof (cases "setting_valid i v")
  case True
  from SetValue_get [OF this, of s] obtain s' where s': "Settings_SetValue s i v = (None, s')" "Settings_Value s' i = v"
    "\<forall>j. j \<noteq> i \<longrightarrow> Settings_Value s' j = Settings_Value s j" by blast
  moreover have "settings_ok s'"
    using s'(1) settings_ok_store [OF assms True] by (auto simp: Settings_SetValue_def split: if_splits)
  ultimately show ?thesis using True settings_ok_Value by (intro exI [of _ None] exI [of _ s']) auto
next
  case False
  with settings_ok_Value [OF assms] assms show ?thesis by (auto simp: Settings_SetValue_def)
qed

end
