(* ===== verification/H2_StreamState.thy ===== *)
theory H2_StreamState
  imports H2_Types
begin

text \<open>
  The stream states and their transition function: \<open>StreamState\<close> of \<^verbatim>\<open>src/stream.go\<close> and its
  \<open>String\<close> method of \<^verbatim>\<open>src/util.go\<close>.

  The states are ordered as their Go constants are.  Transitions never go down in this
  order, and on the two directions of an active stream they act as RFC 7540 prescribes.
\<close>

datatype StreamState =
    StateIdle
  | StateReservedLocal
  | StateReservedRemote
  | StateOpen
  | StateHalfClosedLocal
  | StateHalfClosedRemote
  | StateClosed

fun state_code :: "StreamState \<Rightarrow> nat" where
  "state_code StateIdle = 0"
| "state_code StateReservedLocal = 1"
| "state_code StateReservedRemote = 2"
| "state_code StateOpen = 3"
| "state_code StateHalfClosedLocal = 4"
| "state_code StateHalfClosedRemote = 5"
| "state_code StateClosed = 6"

lemma state_code_inj: "state_code a = state_code b \<Longrightarrow> a = b"
  by (cases a; cases b) simp_all

instantiation StreamState :: linorder
begin

definition less_eq_StreamState :: "StreamState \<Rightarrow> StreamState \<Rightarrow> bool" where
  "a \<le> b \<longleftrightarrow> state_code a \<le> state_code b"

definition less_StreamState :: "StreamState \<Rightarrow> StreamState \<Rightarrow> bool" where
  "a < b \<longleftrightarrow> state_code a < state_code b"

instance
  by standard (auto simp: less_eq_StreamState_def less_StreamState_def intro: state_code_inj)

end

definition StreamState_String :: "StreamState \<Rightarrow> gostring" where
  "StreamState_String s =
     (case s of
        StateIdle \<Rightarrow> str ''Idle''
      | StateReservedLocal \<Rightarrow> str ''ReservedLocal''
      | StateReservedRemote \<Rightarrow> str ''ReservedRemote''
      | StateOpen \<Rightarrow> str ''Open''
      | StateHalfClosedLocal \<Rightarrow> str ''HalfClosedLocal''
      | StateHalfClosedRemote \<Rightarrow> str ''HalfClosedRemote''
      | StateClosed \<Rightarrow> str ''Closed'')"

definition active :: "StreamState \<Rightarrow> bool" where
  "active s \<longleftrightarrow> s \<in> {StateOpen, StateHalfClosedLocal, StateHalfClosedRemote}"

definition readable :: "StreamState \<Rightarrow> bool" where
  "readable s \<longleftrightarrow> s \<in> {StateOpen, StateHalfClosedLocal}"

definition writable :: "StreamState \<Rightarrow> bool" where
  "writable s \<longleftrightarrow> s \<in> {StateOpen, StateHalfClosedRemote}"

section \<open>Transitions\<close>

text \<open>The target of a received frame and of a sent frame before the end of the stream is looked at.\<close>

definition recv_target :: "StreamState \<Rightarrow> FrameType \<Rightarrow> StreamState option" where
  "recv_target from t =
     (case from of
        StateIdle \<Rightarrow>
          if t = FrameHeaders then Some StateOpen
          else if t = FramePriority then Some from
          else if t = FramePushPromise then Some StateReservedRemote
          else None
      | StateReservedLocal \<Rightarrow>
          if t = FramePriority \<or> t = FrameWindowUpdate then Some from
          else if t = FrameRSTStream then Some StateClosed
          else None
      | StateHalfClosedRemote \<Rightarrow>
          if t = FramePriority \<or> t = FrameWindowUpdate then Some from
          else if t = FrameRSTStream then Some StateClosed
          else None
      | StateReservedRemote \<Rightarrow>
          if t = FrameHeaders then Some StateHalfClosedLocal
          else if t = FramePriority then Some from
          else if t = FrameRSTStream then Some StateClosed
          else None
      | StateOpen \<Rightarrow> if t = FrameRSTStream then Some StateClosed else Some from
      | StateHalfClosedLocal \<Rightarrow> if t = FrameRSTStream then Some StateClosed else Some from
      | StateClosed \<Rightarrow> if t = FramePriority then Some from else None)"

definition send_target :: "StreamState \<Rightarrow> FrameType \<Rightarrow> StreamState option" where
  "send_target from t =
     (case from of
        StateIdle \<Rightarrow>
          if t = FrameHeaders then Some StateOpen
          else if t = FramePriority then Some from
          else if t = FramePushPromise then Some StateReservedLocal
          else None
      | StateReservedLocal \<Rightarrow>
          if t = FrameHeaders then Some StateHalfClosedRemote
          else if t = FramePriority then Some from
          else if t = FrameRSTStream then Some StateClosed
          else None
      | StateReservedRemote \<Rightarrow>
          if t = FramePriority \<or> t = FrameWindowUpdate then Some from
          else if t = FrameRSTStream then Some StateClosed
          else None
      | StateHalfClosedLocal \<Rightarrow>
          if t = FramePriority \<or> t = FrameWindowUpdate then Some from
          else if t = FrameRSTStream then Some StateClosed
          else None
      | StateOpen \<Rightarrow> if t = FrameRSTStream then Some StateClosed else Some from
      | StateHalfClosedRemote \<Rightarrow>
          if t = FrameData \<or> t = FrameHeaders \<or> t = FramePriority then Some from
          else if t = FrameRSTStream then Some StateClosed
          else None
      | StateClosed \<Rightarrow> if t = FramePriority then Some from else None)"

definition end_stream :: "bool \<Rightarrow> StreamState \<Rightarrow> StreamState" where
  "end_stream recv to =
     (case to of
        StateOpen \<Rightarrow> if recv then StateHalfClosedRemote else StateHalfClosedLocal
      | StateHalfClosedLocal \<Rightarrow> StateClosed
      | StateHalfClosedRemote \<Rightarrow> StateClosed
      | _ \<Rightarrow> to)"

definition StreamState_transition :: "StreamState \<Rightarrow> bool \<Rightarrow> FrameType \<Rightarrow> bool \<Rightarrow> StreamState \<times> bool" where
  "StreamState_transition from recv frameType endStream =
     (case if recv then recv_target from frameType else send_target from frameType of
        None \<Rightarrow> (from, False)
      | Some to \<Rightarrow> (if endStream then end_stream recv to else to, True))"

lemmas transition_defs = StreamState_transition_def recv_target_def send_target_def end_stream_def

section \<open>The order of the states\<close>

lemma transition_mono:
  "StreamState_transition from recv t e = (to, ok) \<Longrightarrow> from \<le> to"
  by (cases "from") (auto simp: transition_defs less_eq_StreamState_def split: if_splits)

lemma transition_fail: "StreamState_transition from recv t e = (to, False) \<Longrightarrow> to = from"
  by (auto simp: StreamState_transition_def split: option.splits if_splits)

lemma transition_closed:
  "StreamState_transition StateClosed recv t e = (StateClosed, t = FramePriority)"
  by (simp add: transition_defs)

text \<open>
  A run: the events of a stream, each a direction, a frame type and whether the frame ends
  the stream.  A refused event leaves the state as it is.
\<close>

inductive stream_step :: "StreamState \<Rightarrow> bool \<times> FrameType \<times> bool \<Rightarrow> StreamState \<Rightarrow> bool" where
  step: "StreamState_transition s recv t e = (s', True) \<Longrightarrow> stream_step s (recv, t, e) s'"

inductive stream_run :: "StreamState \<Rightarrow> (bool \<times> FrameType \<times> bool) list \<Rightarrow> StreamState \<Rightarrow> bool" where
  run_nil: "stream_run s [] s"
| run_cons: "stream_step s ev s' \<Longrightarrow> stream_run s' evs s'' \<Longrightarrow> stream_run s (ev # evs) s''"

inductive_simps stream_step_iff: "stream_step s (recv, t, e) s'"
inductive_simps stream_run_nil [simp]: "stream_run s [] s'"
inductive_simps stream_run_cons: "stream_run s (ev # evs) s'"

lemma stream_run_mono: "stream_run s evs s' \<Longrightarrow> s \<le> s'"
proof (induction rule: stream_run.induct)
  case (run_cons s ev s' evs s'')
  from run_cons.hyps(1) have "s \<le> s'" by (cases rule: stream_step.cases) (auto dest: transition_mono)
  with run_cons.IH show ?case by simp
qed simp

lemma stream_run_append:
  "stream_run s (xs @ ys) s' \<longleftrightarrow> (\<exists>m. stream_run s xs m \<and> stream_run m ys s')"
  by (induction xs arbitrary: s) (auto simp: stream_run_cons)

lemma stream_run_closed:
  "stream_run StateClosed evs s' \<Longrightarrow> s' = StateClosed \<and> (\<forall>(recv, t, e)\<in>set evs. t = FramePriority)"
proof (induction StateClosed evs s' rule: stream_run.induct)
  case (run_cons ev s' evs s'')
  then show ?case
    by (auto elim!: stream_step.cases simp: transition_closed)
qed simp

section \<open>The two directions of a stream\<close>

text \<open>
  The specification: a stream that has been opened is two one-way channels, receiving and
  sending.  A frame with END_STREAM ends the direction it travels in and RST_STREAM ends both.
\<close>

record directions =
  receiving :: bool
  sending :: bool

definition dirs :: "StreamState \<Rightarrow> directions" where
  "dirs s = \<lparr>receiving = readable s, sending = writable s\<rparr>"

definition dirs_step :: "bool \<Rightarrow> FrameType \<Rightarrow> bool \<Rightarrow> directions \<Rightarrow> directions" where
  "dirs_step recv t e d =
     (if t = FrameRSTStream then \<lparr>receiving = False, sending = False\<rparr>
      else if \<not> e then d
      else if recv then d\<lparr>receiving := False\<rparr>
      else d\<lparr>sending := False\<rparr>)"

definition opened :: "StreamState \<Rightarrow> bool" where
  "opened s \<longleftrightarrow> active s \<or> s = StateClosed"

text \<open>Frames that end a stream are DATA, HEADERS and, while it is open, frames of unknown type.\<close>

lemma transition_dirs:
  assumes "opened s" "StreamState_transition s recv t e = (s', True)"
    and "e \<longrightarrow> t \<noteq> FramePriority \<and> t \<noteq> FrameWindowUpdate"
  shows "opened s' \<and> dirs s' = dirs_step recv t e (dirs s)"
  using assms
  by (cases s) (auto simp: transition_defs opened_def active_def dirs_def dirs_step_def readable_def writable_def
      split: if_splits)

text \<open>A frame is refused on an opened stream exactly when its direction has ended.\<close>

lemma transition_accepts:
  assumes "active s" "t = FrameData \<or> t = FrameHeaders"
  shows "snd (StreamState_transition s recv t e) \<longleftrightarrow> (if recv then receiving (dirs s) else sending (dirs s))"
  using assms by (cases s) (auto simp: transition_defs active_def dirs_def readable_def writable_def)

end
