(* ===== verification/H2_Flow.thy ===== *)
theory H2_Flow
  imports H2_Types
begin

text \<open>
  Flow control: \<^verbatim>\<open>src/flow_control.go\<close>.

  A controller is a record of its counters.  The operations of the receiving side that queue
  a WINDOW_UPDATE frame return the frames they queue; the controller of a stream first acts
  on the controller of the connection, so those operations take and return both.  The
  one-element channel \<open>winCh\<close> of the sending side is an \<open>option\<close>.  The counters are Go \<open>int\<close>s,
  whose 64 bits the values of this protocol do not exceed, and are \<open>int\<close> here.
\<close>

section \<open>The receiving side\<close>

record flowController =
  win :: int
  winLowerBound :: int
  winUpperBound :: int
  processedWin :: int

definition new_flowController :: "int \<Rightarrow> flowController" where
  "new_flowController w = \<lparr>win = w, winLowerBound = 0, winUpperBound = w, processedWin = w\<rparr>"

definition flow_initialWindow :: "flowController \<Rightarrow> u32" where
  "flow_initialWindow c = of_int (winUpperBound c)"

definition flow_window :: "flowController \<Rightarrow> int" where
  "flow_window c = win c"

definition flow_consumedBytes :: "flowController \<Rightarrow> int" where
  "flow_consumedBytes c = processedWin c - win c"

definition flow_updateWindow :: "flowController \<Rightarrow> int \<Rightarrow> h2error option \<times> flowController" where
  "flow_updateWindow c delta =
     (if delta > 0 \<and> maxInitialWindowSize - delta < win c
      then (Some (Errorf (str ''window size overflow'')), c)
      else (None, c\<lparr>win := win c + delta, processedWin := processedWin c + delta,
                    winLowerBound := (if delta < 0 then delta else 0)\<rparr>))"

definition flow_updateInitialWindow :: "flowController \<Rightarrow> int \<Rightarrow> flowController" where
  "flow_updateInitialWindow c delta =
     (let n = winUpperBound c + delta;
          n = (if n < uint defaultInitialWindowSize then uint defaultInitialWindowSize else n);
          n = (if n > maxInitialWindowSize then maxInitialWindowSize else n);
          delta = n - winUpperBound c
      in c\<lparr>winUpperBound := winUpperBound c + delta\<rparr>)"

text \<open>
  The conversion of a non-negative \<open>int\<close> to \<open>float32\<close>: 24 significant bits, rounded to the
  nearest, ties to even.  Halving a \<open>float32\<close> of this size is exact.
\<close>

function float32_shift :: "int \<Rightarrow> nat" where
  "float32_shift x = (if x < 2 ^ 24 then 0 else Suc (float32_shift (x div 2)))"
  by pat_completeness auto
termination by (relation "measure nat") auto

declare float32_shift.simps [simp del]

definition float32 :: "int \<Rightarrow> int" where
  "float32 x =
     (let e = float32_shift x; q = x div 2 ^ e; r = x mod 2 ^ e in
      if 2 * r > 2 ^ e \<or> (2 * r = 2 ^ e \<and> odd q) then (q + 1) * 2 ^ e else q * 2 ^ e)"

definition window_threshold :: "int \<Rightarrow> int" where
  "window_threshold ub = float32 ub div 2"

definition flow_windowUpdate :: "u32 \<Rightarrow> flowController \<Rightarrow> h2error option \<times> flowController \<times> Frame list" where
  "flow_windowUpdate sid c =
     (if winUpperBound c \<le> 0 then (None, c, [])
      else if processedWin c > window_threshold (winUpperBound c) then (None, c, [])
      else
        let delta = winUpperBound c - processedWin c in
        (case flow_updateWindow c delta of
           (Some _, c) \<Rightarrow> (Some (ConnError (Errorf (str ''attempting to return too many bytes'')) ErrCodeInternal), c, [])
         | (None, c) \<Rightarrow> (None, c, [WindowUpdateFrame sid (of_int delta)])))"

definition flow_incrementInitialWindow :: "u32 \<Rightarrow> flowController \<Rightarrow> int \<Rightarrow> h2error option \<times> flowController" where
  "flow_incrementInitialWindow sid c delta =
     (if sid = 0 then (None, c)
      else (case flow_updateWindow c delta of
              (None, c) \<Rightarrow> (None, flow_updateInitialWindow c delta)
            | (Some e, c) \<Rightarrow> (Some e, c)))"

definition flow_incrementWindow :: "u32 \<Rightarrow> flowController \<Rightarrow> int \<Rightarrow> h2error option \<times> flowController \<times> Frame list" where
  "flow_incrementWindow sid c delta = flow_windowUpdate sid (flow_updateInitialWindow c delta)"

text \<open>The error of a controller: a connection error for the connection, else a stream error.\<close>

definition flow_error :: "u32 \<Rightarrow> string \<Rightarrow> ErrCode \<Rightarrow> h2error" where
  "flow_error sid text code =
     (if sid = 0 then ConnError (Errorf (str text)) code else StreamError (Errorf (str text)) code sid)"

text \<open>The part of \<open>consumeBytes\<close> and \<open>returnBytes\<close> on the controller's own counters.\<close>

definition consume_own :: "u32 \<Rightarrow> flowController \<Rightarrow> int \<Rightarrow> h2error option \<times> flowController" where
  "consume_own sid c n =
     (let c = c\<lparr>win := win c - n\<rparr> in
      (if win c < winLowerBound c then Some (flow_error sid ''window size limit exceeded'' ErrCodeFlowControl) else None, c))"

definition return_own :: "u32 \<Rightarrow> flowController \<Rightarrow> int \<Rightarrow> h2error option \<times> flowController \<times> Frame list" where
  "return_own sid c delta =
     (if processedWin c - delta < win c
      then (Some (flow_error sid ''attempting to return too many bytes'' ErrCodeInternal), c, [])
      else flow_windowUpdate sid (c\<lparr>processedWin := processedWin c - delta\<rparr>))"

definition conn_consumeBytes :: "flowController \<Rightarrow> int \<Rightarrow> h2error option \<times> flowController" where
  "conn_consumeBytes c n = (if n \<le> 0 then (None, c) else consume_own 0 c n)"

definition conn_returnBytes :: "flowController \<Rightarrow> int \<Rightarrow> h2error option \<times> flowController \<times> Frame list" where
  "conn_returnBytes c delta = return_own 0 c delta"

definition stream_consumeBytes ::
  "u32 \<Rightarrow> flowController \<Rightarrow> flowController \<Rightarrow> int \<Rightarrow> h2error option \<times> flowController \<times> flowController" where
  "stream_consumeBytes sid cc c n =
     (if n \<le> 0 then (None, cc, c)
      else (case conn_consumeBytes cc n of
              (Some e, cc) \<Rightarrow> (Some e, cc, c)
            | (None, cc) \<Rightarrow> (case consume_own sid c n of (e, c) \<Rightarrow> (e, cc, c))))"

definition stream_returnBytes ::
  "u32 \<Rightarrow> flowController \<Rightarrow> flowController \<Rightarrow> int \<Rightarrow> h2error option \<times> flowController \<times> flowController \<times> Frame list" where
  "stream_returnBytes sid cc c delta =
     (case conn_returnBytes cc delta of
        (Some e, cc, fs) \<Rightarrow> (Some e, cc, c, fs)
      | (None, cc, fs) \<Rightarrow> (case return_own sid c delta of (e, c, fs') \<Rightarrow> (e, cc, c, fs @ fs')))"

section \<open>The sending side\<close>

record remoteFlowController =
  rwin :: int
  winCh :: "int option"

definition new_remoteFlowController :: remoteFlowController where
  "new_remoteFlowController = \<lparr>rwin = 0, winCh = None\<rparr>"

definition remote_window :: "remoteFlowController \<Rightarrow> int" where
  "remote_window c = rwin c"

text \<open>A non-blocking receive from \<open>winCh\<close> into \<open>win\<close>, and a non-blocking send of \<open>win\<close>.\<close>

definition drain_winCh :: "remoteFlowController \<Rightarrow> remoteFlowController" where
  "drain_winCh c = (case winCh c of Some n \<Rightarrow> c\<lparr>rwin := rwin c + n, winCh := None\<rparr> | None \<Rightarrow> c)"

definition offer_winCh :: "remoteFlowController \<Rightarrow> remoteFlowController" where
  "offer_winCh c = (if winCh c = None then c\<lparr>winCh := Some (rwin c), rwin := 0\<rparr> else c)"

definition remote_updateWindow ::
  "u32 \<Rightarrow> remoteFlowController \<Rightarrow> int \<Rightarrow> bool \<Rightarrow> h2error option \<times> remoteFlowController" where
  "remote_updateWindow sid c delta reset =
     (if delta > 0 \<and> maxInitialWindowSize - delta < rwin c
      then (Some (flow_error sid ''window size overflow'' ErrCodeFlowControl), c)
      else
        let c = (if reset then drain_winCh c else c);
            c = c\<lparr>rwin := rwin c + delta\<rparr>
        in (None, if rwin c \<le> 0 then c else offer_winCh c))"

definition remote_incrementInitialWindow :: "u32 \<Rightarrow> remoteFlowController \<Rightarrow> int \<Rightarrow> h2error option \<times> remoteFlowController" where
  "remote_incrementInitialWindow sid c delta = remote_updateWindow sid c delta True"

definition remote_incrementWindow :: "u32 \<Rightarrow> remoteFlowController \<Rightarrow> int \<Rightarrow> h2error option \<times> remoteFlowController" where
  "remote_incrementWindow sid c delta = remote_updateWindow sid c delta False"

definition remote_cancel :: "remoteFlowController \<Rightarrow> remoteFlowController" where
  "remote_cancel c = drain_winCh c"

text \<open>
  \<open>allocateBytes\<close> in the three pieces its two blocking receives cut it into: the offer on the
  stream's channel before the first, the offer on the connection's channel before the second,
  and the rest.  Between the pieces other goroutines may run.
\<close>

definition allocate_offer :: "u32 \<Rightarrow> remoteFlowController \<Rightarrow> remoteFlowController" where
  "allocate_offer sid c = snd (remote_incrementWindow sid c 0)"

definition allocate_take :: "remoteFlowController \<Rightarrow> (int \<times> remoteFlowController) option" where
  "allocate_take c = map_option (\<lambda>n. (n, c\<lparr>winCh := None\<rparr>)) (winCh c)"

definition allocate_finish ::
  "u32 \<Rightarrow> int \<Rightarrow> int \<Rightarrow> int \<Rightarrow> remoteFlowController \<Rightarrow> remoteFlowController \<Rightarrow> int \<times> remoteFlowController \<times> remoteFlowController" where
  "allocate_finish sid n sw cw c s =
     (let n = (if sw < n then sw else n);
          n = (if cw < n then cw else n);
          s = (if n < sw then snd (remote_incrementWindow sid s (sw - n)) else s);
          c = (if n < cw then snd (remote_incrementWindow 0 c (cw - n)) else c)
      in (n, c, s))"

text \<open>The whole function when nothing comes in between; \<open>None\<close> when it has to wait.\<close>

definition allocateBytes ::
  "u32 \<Rightarrow> remoteFlowController \<Rightarrow> remoteFlowController \<Rightarrow> int \<Rightarrow> (int \<times> remoteFlowController \<times> remoteFlowController) option" where
  "allocateBytes sid c s n =
     (if n \<le> 0 then Some (0, c, s)
      else (case allocate_take (allocate_offer sid s) of
              None \<Rightarrow> None
            | Some (sw, s) \<Rightarrow>
                (case allocate_take (allocate_offer 0 c) of
                   None \<Rightarrow> None
                 | Some (cw, c) \<Rightarrow> Some (allocate_finish sid n sw cw c s))))"

section \<open>The threshold of the receiving side\<close>

lemma float32_shift_bound: "0 < x \<Longrightarrow> 2 ^ float32_shift x \<le> x"
proof (induction x rule: float32_shift.induct)
  case (1 x)
  show ?case
  proof (cases "x < 2 ^ 24")
    case True
    with 1 show ?thesis by (simp add: float32_shift.simps)
  next
    case False
    then have "2 ^ float32_shift (x div 2) \<le> x div 2" using 1 by simp
    with False show ?thesis by (simp add: float32_shift.simps [of x])
  qed
qed

lemma float32_shift_small: "float32_shift x \<noteq> 0 \<Longrightarrow> 2 ^ 23 * 2 ^ float32_shift x \<le> x"
proof (induction x rule: float32_shift.induct)
  case (1 x)
  from "1.prems" have big: "\<not> x < 2 ^ 24" by (simp add: float32_shift.simps split: if_splits)
  then have e: "float32_shift x = Suc (float32_shift (x div 2))" by (simp add: float32_shift.simps)
  show ?case
  proof (cases "float32_shift (x div 2) = 0")
    case True
    with big e show ?thesis by simp
  next
    case False
    then have "2 ^ 23 * 2 ^ float32_shift (x div 2) \<le> x div 2" using 1 big by blast
    with e show ?thesis by simp
  qed
qed

lemma float32_exact: "x < 2 ^ 24 \<Longrightarrow> float32 x = x"
  by (simp add: float32_def float32_shift.simps)

text \<open>The rounding error is at most half of the last place kept, so the threshold stays below the bound.\<close>

lemma float32_error: "2 * \<bar>float32 x - x\<bar> \<le> 2 ^ float32_shift x"
proof -
  define e where "e = float32_shift x"
  define q where "q = x div 2 ^ e"
  define r where "r = x mod 2 ^ e"
  have x: "x = q * 2 ^ e + r" by (simp only: q_def r_def div_mult_mod_eq)
  have r: "0 \<le> r" "r < 2 ^ e" by (simp_all add: r_def)
  show ?thesis
    unfolding float32_def e_def [symmetric] Let_def q_def [symmetric] r_def [symmetric]
    using x r by (auto simp: distrib_right)
qed

lemma float32_nonneg: "0 \<le> x \<Longrightarrow> 0 \<le> float32 x"
  by (simp add: float32_def Let_def pos_imp_zdiv_nonneg_iff)

lemma float32_less_twice:
  assumes "0 < x"
  shows "float32 x < 2 * x"
proof -
  have "2 * \<bar>float32 x - x\<bar> \<le> x"
    using float32_error [of x] float32_shift_bound [OF assms] by (rule order_trans)
  with assms show ?thesis by (auto simp: abs_if split: if_splits)
qed

lemma window_threshold_less: "0 < ub \<Longrightarrow> window_threshold ub < ub"
  using float32_less_twice [of ub] by (simp add: window_threshold_def)

lemma window_threshold_nonneg: "0 \<le> ub \<Longrightarrow> 0 \<le> window_threshold ub"
  using float32_nonneg [of ub] by (simp add: window_threshold_def)

lemma window_threshold_half: "ub < 2 ^ 24 \<Longrightarrow> window_threshold ub = ub div 2"
  by (simp add: window_threshold_def float32_exact)

section \<open>The ledger of the receiving side\<close>

text \<open>
  The invariant of a controller.  A reduction of the initial window size may make \<open>win\<close> negative, and
  \<open>winLowerBound\<close> is then the reduction; neither goes below \<open>- maxInitialWindowSize\<close>.  What has been handed
  to the reader and not returned is \<open>processedWin - win\<close>, and the upper bound is a legal window size.  For
  the induction over histories the two lower bounds depend on the initial window size \<open>i\<close> in force.
\<close>

definition flow_ok :: "flowController \<Rightarrow> bool" where
  "flow_ok c \<longleftrightarrow> - maxInitialWindowSize \<le> winLowerBound c \<and> winLowerBound c \<le> 0 \<and> - maxInitialWindowSize \<le> win c
     \<and> win c \<le> processedWin c \<and> 0 \<le> winUpperBound c \<and> winUpperBound c \<le> maxInitialWindowSize"

definition flow_ok_at :: "int \<Rightarrow> flowController \<Rightarrow> bool" where
  "flow_ok_at i c \<longleftrightarrow> flow_ok c \<and> i - maxInitialWindowSize \<le> winLowerBound c \<and> i - maxInitialWindowSize \<le> win c"

text \<open>The stronger form for a controller whose initial window was never reduced.\<close>

definition unreduced :: "flowController \<Rightarrow> bool" where
  "unreduced c \<longleftrightarrow> winLowerBound c = 0 \<and> 0 \<le> win c"

lemma flow_ok_new:
  assumes "0 \<le> w" "w \<le> maxInitialWindowSize"
  shows "flow_ok (new_flowController w)" "flow_ok_at w (new_flowController w)" "unreduced (new_flowController w)"
  using assms by (simp_all add: flow_ok_def flow_ok_at_def unreduced_def new_flowController_def)

lemma updateInitialWindow_simps [simp]:
  "win (flow_updateInitialWindow c d) = win c"
  "winLowerBound (flow_updateInitialWindow c d) = winLowerBound c"
  "processedWin (flow_updateInitialWindow c d) = processedWin c"
  by (simp_all add: flow_updateInitialWindow_def Let_def)

lemma updateInitialWindow_bound:
  "uint defaultInitialWindowSize \<le> winUpperBound (flow_updateInitialWindow c d)"
  "winUpperBound (flow_updateInitialWindow c d) \<le> maxInitialWindowSize"
  by (simp_all add: flow_updateInitialWindow_def Let_def)

lemma flow_ok_updateInitial: "flow_ok c \<Longrightarrow> flow_ok (flow_updateInitialWindow c d)"
  using updateInitialWindow_bound [of c d] by (simp add: flow_ok_def)

fun increment_of :: "Frame \<Rightarrow> int" where
  "increment_of (WindowUpdateFrame _ n) = uint n"
| "increment_of _ = 0"

text \<open>
  \<open>windowUpdate\<close> never fails from such a state, and the increment it announces is exactly what
  it adds to the credit of the peer; it is a legal one unless the window is negative.
\<close>

lemma windowUpdate_ok:
  assumes "flow_ok c" "flow_windowUpdate sid c = (e, c', fs)"
  shows "e = None \<and> flow_ok c' \<and> win c' = win c + (\<Sum>f\<leftarrow>fs. increment_of f) \<and> winUpperBound c' = winUpperBound c
    \<and> processedWin c' - win c' = processedWin c - win c
    \<and> (0 < winUpperBound c \<longrightarrow> window_threshold (winUpperBound c) < processedWin c')
    \<and> win c \<le> win c' \<and> (winLowerBound c' = winLowerBound c \<or> winLowerBound c' = 0)
    \<and> (\<forall>f\<in>set fs. \<exists>n. f = WindowUpdateFrame sid n \<and> 0 < uint n \<and> (0 \<le> win c \<longrightarrow> uint n \<le> maxInitialWindowSize))"
proof -
  consider (none) "winUpperBound c \<le> 0 \<or> processedWin c > window_threshold (winUpperBound c)"
    | (update) "0 < winUpperBound c" "processedWin c \<le> window_threshold (winUpperBound c)"
    by linarith
  then show ?thesis
  proof cases
    case none
    then have "flow_windowUpdate sid c = (None, c, [])" by (auto simp: flow_windowUpdate_def)
    with assms none show ?thesis by auto
  next
    case update
    define delta where "delta = winUpperBound c - processedWin c"
    have d: "0 < delta" "delta < 2 ^ 32" "win c + delta \<le> maxInitialWindowSize" "0 \<le> win c \<longrightarrow> delta \<le> maxInitialWindowSize"
      using update assms(1) window_threshold_less [OF update(1)] by (auto simp: delta_def flow_ok_def)
    then have u: "uint (of_int delta :: u32) = delta"
      by (simp add: uint_word_of_int_eq take_bit_int_eq_self)
    define c1 where "c1 = c\<lparr>win := win c + delta, processedWin := processedWin c + delta, winLowerBound := 0\<rparr>"
    have "flow_windowUpdate sid c = (None, c1, [WindowUpdateFrame sid (of_int delta)])"
      using update d by (simp add: flow_windowUpdate_def flow_updateWindow_def c1_def delta_def [symmetric])
    moreover have "flow_ok c1" "window_threshold (winUpperBound c) < processedWin c1"
      using assms(1) d window_threshold_less [OF update(1)] by (auto simp: flow_ok_def c1_def delta_def)
    ultimately show ?thesis using d u assms(2) by (auto simp: c1_def)
  qed
qed

text \<open>
  What happens to the receiving side of a stream or of the connection: bytes arrive, the
  reader hands bytes back, the application asks for a larger window, the local initial window
  size changes.  An event carries its amount; a history is the list of events with the frames
  each queued.
\<close>

datatype recv_event = Consume int | Return int | Increment int | Initial int

fun recv_event_step :: "u32 \<Rightarrow> flowController \<Rightarrow> recv_event \<Rightarrow> h2error option \<times> flowController \<times> Frame list" where
  "recv_event_step sid c (Consume n) =
     (if n \<le> 0 then (None, c, []) else case consume_own sid c n of (e, c) \<Rightarrow> (e, c, []))"
| "recv_event_step sid c (Return n) = return_own sid c n"
| "recv_event_step sid c (Increment n) = flow_incrementWindow sid c n"
| "recv_event_step sid c (Initial n) = (case flow_incrementInitialWindow sid c n of (e, c) \<Rightarrow> (e, c, []))"

text \<open>The run stops at the first error, as the stream or the connection is then closed.\<close>

fun recv_run :: "u32 \<Rightarrow> flowController \<Rightarrow> recv_event list \<Rightarrow> h2error option \<times> flowController \<times> (recv_event \<times> Frame list) list" where
  "recv_run sid c [] = (None, c, [])"
| "recv_run sid c (ev # evs) =
     (case recv_event_step sid c ev of
        (Some e, c, fs) \<Rightarrow> (Some e, c, [(ev, fs)])
      | (None, c, fs) \<Rightarrow> (case recv_run sid c evs of (e, c, h) \<Rightarrow> (e, c, (ev, fs) # h)))"

text \<open>
  The events that the rest of the program can cause: no negative numbers of bytes, and settings with
  initial window sizes from 0 to \<open>maxInitialWindowSize\<close>, whose differences are the amounts of \<open>Initial\<close>, on
  top of the one in force.
\<close>

fun legal_events :: "u32 \<Rightarrow> int \<Rightarrow> recv_event list \<Rightarrow> bool" where
  "legal_events sid i [] \<longleftrightarrow> 0 \<le> i \<and> i \<le> maxInitialWindowSize"
| "legal_events sid i (Consume n # evs) \<longleftrightarrow> 0 \<le> n \<and> legal_events sid i evs"
| "legal_events sid i (Return n # evs) \<longleftrightarrow> 0 \<le> n \<and> legal_events sid i evs"
| "legal_events sid i (Increment n # evs) \<longleftrightarrow> legal_events sid i evs"
| "legal_events sid i (Initial n # evs) \<longleftrightarrow>
     0 \<le> i \<and> i \<le> maxInitialWindowSize \<and> legal_events sid (if sid = 0 then i else i + n) evs"

lemma legal_initial: "legal_events sid i evs \<Longrightarrow> 0 \<le> i \<and> i \<le> maxInitialWindowSize"
  by (induction sid i evs rule: legal_events.induct) auto

definition initial_after :: "u32 \<Rightarrow> int \<Rightarrow> recv_event \<Rightarrow> int" where
  "initial_after sid i ev = (case ev of Initial n \<Rightarrow> if sid = 0 then i else i + n | _ \<Rightarrow> i)"

lemma legal_Cons:
  "legal_events sid i (ev # evs) \<Longrightarrow> legal_events sid (initial_after sid i ev) evs
     \<and> 0 \<le> i \<and> i \<le> maxInitialWindowSize \<and> (\<forall>n. ev = Consume n \<or> ev = Return n \<longrightarrow> 0 \<le> n)"
  using legal_initial [of sid i "ev # evs"] by (cases ev) (auto simp: initial_after_def)

text \<open>
  The specification: the credit of the peer as the peer computes it, from the bytes it sent, the
  WINDOW_UPDATE frames it is sent and the settings; and the bytes the reader still holds.
\<close>

fun peer_credit :: "u32 \<Rightarrow> (recv_event \<times> Frame list) list \<Rightarrow> int" where
  "peer_credit sid [] = 0"
| "peer_credit sid ((ev, fs) # h) =
     (case ev of Consume n \<Rightarrow> - n | Initial n \<Rightarrow> if sid = 0 then 0 else n | _ \<Rightarrow> 0)
       + (\<Sum>f\<leftarrow>fs. increment_of f) + peer_credit sid h"

fun held_bytes :: "(recv_event \<times> Frame list) list \<Rightarrow> int" where
  "held_bytes [] = 0"
| "held_bytes ((ev, fs) # h) = (case ev of Consume n \<Rightarrow> n | Return n \<Rightarrow> - n | _ \<Rightarrow> 0) + held_bytes h"

lemma event_step_ok:
  assumes ok: "flow_ok_at i c" and legal: "legal_events sid i (ev # evs)" and st: "recv_event_step sid c ev = (None, c', fs)"
  shows "flow_ok_at (initial_after sid i ev) c' \<and> win c' = win c + peer_credit sid [(ev, fs)]
    \<and> processedWin c' - win c' = processedWin c - win c + held_bytes [(ev, fs)]
    \<and> (unreduced c \<and> (\<forall>n. ev = Initial n \<longrightarrow> 0 \<le> n) \<longrightarrow> unreduced c')"
proof (cases ev)
  case (Consume n)
  with assms show ?thesis
    by (auto simp: consume_own_def flow_ok_at_def flow_ok_def unreduced_def initial_after_def Let_def split: if_splits)
next
  case (Return n)
  with assms have "flow_ok (c\<lparr>processedWin := processedWin c - n\<rparr>)"
    and "flow_windowUpdate sid (c\<lparr>processedWin := processedWin c - n\<rparr>) = (None, c', fs)"
    by (auto simp: return_own_def flow_ok_def flow_ok_at_def split: if_splits)
  from windowUpdate_ok [OF this] Return ok legal_Cons [OF legal] show ?thesis
    by (auto simp: flow_ok_at_def unreduced_def initial_after_def)
next
  case (Increment n)
  with st have w: "flow_windowUpdate sid (flow_updateInitialWindow c n) = (None, c', fs)"
    by (simp add: flow_incrementWindow_def)
  have "flow_ok (flow_updateInitialWindow c n)" by (rule flow_ok_updateInitial) (use ok in \<open>simp add: flow_ok_at_def\<close>)
  from windowUpdate_ok [OF this w] Increment ok legal_Cons [OF legal] show ?thesis
    by (auto simp: flow_ok_at_def unreduced_def initial_after_def)
next
  case (Initial n)
  have "0 \<le> initial_after sid i ev" "initial_after sid i ev \<le> maxInitialWindowSize" "0 \<le> i" "i \<le> maxInitialWindowSize"
    using legal_Cons [OF legal] legal_initial by blast+
  with Initial ok st show ?thesis
    using updateInitialWindow_bound [of "c\<lparr>win := win c + n, processedWin := processedWin c + n, winLowerBound := 0\<rparr>" n]
      updateInitialWindow_bound [of "c\<lparr>win := win c + n, processedWin := processedWin c + n, winLowerBound := n\<rparr>" n]
    by (auto simp: flow_incrementInitialWindow_def flow_updateWindow_def flow_ok_def flow_ok_at_def unreduced_def initial_after_def
        split: if_splits prod.splits option.splits)
qed

lemma recv_run_ledger:
  assumes "flow_ok_at i c" "legal_events sid i evs" "recv_run sid c evs = (None, c', h)"
  shows "flow_ok c' \<and> win c' = win c + peer_credit sid h \<and> processedWin c' - win c' = processedWin c - win c + held_bytes h
    \<and> (unreduced c \<and> (\<forall>n. Initial n \<in> set evs \<longrightarrow> 0 \<le> n) \<longrightarrow> unreduced c')"
  using assms
proof (induction sid c evs arbitrary: i h rule: recv_run.induct)
  case (2 sid c ev evs)
  then obtain c1 fs h1 where s: "recv_event_step sid c ev = (None, c1, fs)"
    "recv_run sid c1 evs = (None, c', h1)" "h = (ev, fs) # h1"
    by (auto split: prod.splits option.splits)
  note st = event_step_ok [OF "2.prems"(1, 2) s(1)]
  have l: "legal_events sid (initial_after sid i ev) evs" using legal_Cons [OF "2.prems"(2)] by blast
  have "flow_ok c' \<and> win c' = win c1 + peer_credit sid h1 \<and> processedWin c' - win c' = processedWin c1 - win c1 + held_bytes h1
    \<and> (unreduced c1 \<and> (\<forall>n. Initial n \<in> set evs \<longrightarrow> 0 \<le> n) \<longrightarrow> unreduced c')"
    using "2.IH" [OF s(1) [symmetric] refl refl conjunct1 [OF st] l s(2)] .
  with st s(3) show ?case by auto
qed (auto simp: flow_ok_at_def)

text \<open>Both controllers of a stream: returning what is held succeeds and refills.\<close>

lemma return_own_ok:
  assumes "flow_ok c" "0 \<le> n" "n \<le> flow_consumedBytes c"
  shows "\<exists>c' fs. return_own sid c n = (None, c', fs) \<and> flow_ok c' \<and> flow_consumedBytes c' = flow_consumedBytes c - n
    \<and> (0 < winUpperBound c \<longrightarrow> window_threshold (winUpperBound c) < win c' + flow_consumedBytes c')"
proof -
  let ?c = "c\<lparr>processedWin := processedWin c - n\<rparr>"
  have ok: "flow_ok ?c" using assms by (simp add: flow_ok_def flow_consumedBytes_def)
  obtain e c' fs where w: "flow_windowUpdate sid ?c = (e, c', fs)" by (metis prod_cases3)
  from windowUpdate_ok [OF ok w] have "e = None" "flow_ok c'" "flow_consumedBytes c' = flow_consumedBytes c - n"
    "0 < winUpperBound c \<longrightarrow> window_threshold (winUpperBound c) < win c' + flow_consumedBytes c'" by (auto simp: flow_consumedBytes_def)
  with w assms show ?thesis by (auto simp: return_own_def flow_consumedBytes_def)
qed

lemma stream_returnBytes_ok:
  assumes "flow_ok cc" "flow_ok c" "0 \<le> n" "n \<le> flow_consumedBytes cc" "n \<le> flow_consumedBytes c"
    and "0 < winUpperBound cc" "0 < winUpperBound c"
  shows "\<exists>cc' c' fs. stream_returnBytes sid cc c n = (None, cc', c', fs) \<and> flow_ok cc' \<and> flow_ok c'
    \<and> flow_consumedBytes cc' = flow_consumedBytes cc - n \<and> flow_consumedBytes c' = flow_consumedBytes c - n
    \<and> window_threshold (winUpperBound cc) < win cc' + flow_consumedBytes cc'
    \<and> window_threshold (winUpperBound c) < win c' + flow_consumedBytes c'"
  using return_own_ok [OF assms(1, 3, 4), of 0] return_own_ok [OF assms(2, 3, 5), of sid] assms(6, 7)
  by (auto simp: stream_returnBytes_def conn_returnBytes_def)

section \<open>The credit of the sending side\<close>

text \<open>The credit of a controller is what it counts and what waits in its channel.\<close>

definition credit :: "remoteFlowController \<Rightarrow> int" where
  "credit c = rwin c + (case winCh c of Some n \<Rightarrow> n | None \<Rightarrow> 0)"

definition remote_ok :: "remoteFlowController \<Rightarrow> bool" where
  "remote_ok c \<longleftrightarrow> (case winCh c of Some n \<Rightarrow> 0 < n | None \<Rightarrow> True)"

lemma remote_ok_new: "remote_ok new_remoteFlowController" "credit new_remoteFlowController = 0"
  by (simp_all add: remote_ok_def credit_def new_remoteFlowController_def)

lemma drain_credit [simp]: "credit (drain_winCh c) = credit c"
  by (simp add: credit_def drain_winCh_def split: option.splits)

lemma drain_winCh_None [simp]: "winCh (drain_winCh c) = None"
  by (simp add: drain_winCh_def split: option.splits)

lemma offer_credit [simp]: "credit (offer_winCh c) = credit c"
  by (simp add: credit_def offer_winCh_def split: option.splits)

lemma credit_add: "credit (c\<lparr>rwin := rwin c + d\<rparr>) = credit c + d"
  by (simp add: credit_def)

lemma remote_updateWindow_ok:
  assumes "remote_ok c" "remote_updateWindow sid c d reset = (None, c')"
  shows "remote_ok c'" "credit c' = credit c + d" "0 < rwin c' \<longrightarrow> winCh c' \<noteq> None"
  using assms
  by (auto simp: remote_updateWindow_def Let_def remote_ok_def offer_winCh_def credit_add drain_winCh_def
      credit_def split: if_splits option.splits)

lemma remote_updateWindow_error:
  "remote_updateWindow sid c d reset = (Some e, c') \<Longrightarrow>
    c' = c \<and> e = flow_error sid ''window size overflow'' ErrCodeFlowControl \<and> maxInitialWindowSize < rwin c + d"
  by (auto simp: remote_updateWindow_def Let_def split: if_splits)

lemma allocate_offer_eq: "remote_updateWindow sid c 0 False = (None, allocate_offer sid c)"
  by (simp add: allocate_offer_def remote_incrementWindow_def remote_updateWindow_def Let_def)

lemma allocate_offer_ok:
  assumes "remote_ok c"
  shows "remote_ok (allocate_offer sid c)" "credit (allocate_offer sid c) = credit c"
  using remote_updateWindow_ok [OF assms allocate_offer_eq [of sid c]] by simp_all

lemma allocate_take_Some:
  assumes "allocate_take c = Some (n, c')" "remote_ok c"
  shows "0 < n" "remote_ok c'" "credit c' = credit c - n" "rwin c' = rwin c"
  using assms by (auto simp: allocate_take_def remote_ok_def credit_def)

lemma give_back:
  assumes "remote_ok c" "remote_incrementWindow sid c d = (e, c')"
  shows "remote_ok c'" "0 \<le> d \<Longrightarrow> credit c' \<le> credit c + d" "rwin c + d \<le> maxInitialWindowSize \<Longrightarrow> credit c' = credit c + d"
  using assms remote_updateWindow_ok [of c sid d False c'] remote_updateWindow_error [of sid c d False]
  by (cases e; auto simp: remote_incrementWindow_def)+

lemma allocate_finish_ok:
  assumes "remote_ok c" "remote_ok s" "0 < n" "0 < sw" "0 < cw" "allocate_finish sid n sw cw c s = (k, c', s')"
  shows "0 < k" "k \<le> n" "k \<le> sw" "k \<le> cw" "remote_ok c'" "remote_ok s'"
    "credit c' \<le> credit c + cw - k" "credit s' \<le> credit s + sw - k"
    "rwin c + cw \<le> maxInitialWindowSize \<Longrightarrow> credit c' = credit c + cw - k"
    "rwin s + sw \<le> maxInitialWindowSize \<Longrightarrow> credit s' = credit s + sw - k"
proof -
  define m where "m = min (min n sw) cw"
  have k: "k = m" and m: "0 < m" "m \<le> n" "m \<le> sw" "m \<le> cw"
    using assms by (auto simp: allocate_finish_def Let_def m_def split: if_splits)
  have s': "s' = (if m < sw then snd (remote_incrementWindow sid s (sw - m)) else s)"
    and c': "c' = (if m < cw then snd (remote_incrementWindow 0 c (cw - m)) else c)"
    using assms(6) by (auto simp: allocate_finish_def Let_def m_def min_def split: if_splits)
  note gs = give_back [OF assms(2), of sid "sw - m" "fst (remote_incrementWindow sid s (sw - m))" "snd (remote_incrementWindow sid s (sw - m))"]
  note gc = give_back [OF assms(1), of 0 "cw - m" "fst (remote_incrementWindow 0 c (cw - m))" "snd (remote_incrementWindow 0 c (cw - m))"]
  show "0 < k" "k \<le> n" "k \<le> sw" "k \<le> cw" using m k by auto
  show "remote_ok c'" "credit c' \<le> credit c + cw - k"
    "rwin c + cw \<le> maxInitialWindowSize \<Longrightarrow> credit c' = credit c + cw - k"
    using gc c' m k assms(1) by auto
  show "remote_ok s'" "credit s' \<le> credit s + sw - k"
    "rwin s + sw \<le> maxInitialWindowSize \<Longrightarrow> credit s' = credit s + sw - k"
    using gs s' m k assms(2) by auto
qed

text \<open>Undisturbed, \<open>allocateBytes\<close> grants what both windows and the request allow, and takes just that.\<close>

lemma allocate_take_offer:
  assumes "remote_ok c" "rwin c + (case winCh c of Some n \<Rightarrow> n | None \<Rightarrow> 0) \<le> maxInitialWindowSize"
  shows "(allocate_take (allocate_offer sid c) = None \<longleftrightarrow> winCh c = None \<and> rwin c \<le> 0)"
  using assms by (auto simp: allocate_take_def allocate_offer_def remote_incrementWindow_def remote_updateWindow_def
      Let_def offer_winCh_def split: option.splits)

lemma allocateBytes_ok:
  assumes "remote_ok c" "remote_ok s" "0 < n" "credit c \<le> maxInitialWindowSize" "credit s \<le> maxInitialWindowSize"
    and "allocateBytes sid c s n = Some (k, c', s')"
  shows "0 < k \<and> k \<le> n \<and> credit c' = credit c - k \<and> credit s' = credit s - k \<and> remote_ok c' \<and> remote_ok s'"
proof -
  from assms obtain sw s1 cw c1 where
    t: "allocate_take (allocate_offer sid s) = Some (sw, s1)" "allocate_take (allocate_offer 0 c) = Some (cw, c1)"
    and f: "allocate_finish sid n sw cw c1 s1 = (k, c', s')"
    by (auto simp: allocateBytes_def split: if_splits option.splits prod.splits)
  note os = allocate_take_Some [OF t(1) allocate_offer_ok(1) [OF assms(2)]]
  note oc = allocate_take_Some [OF t(2) allocate_offer_ok(1) [OF assms(1)]]
  have cr: "credit s1 = credit s - sw" "credit c1 = credit c - cw"
    using os oc allocate_offer_ok assms by auto
  have "winCh s1 = None" "winCh c1 = None" using t by (auto simp: allocate_take_def)
  then have "rwin s1 + sw \<le> maxInitialWindowSize" "rwin c1 + cw \<le> maxInitialWindowSize"
    using cr assms(4, 5) by (simp_all add: credit_def)
  with allocate_finish_ok [OF oc(2) os(2) assms(3) os(1) oc(1) f] cr show ?thesis by simp
qed

text \<open>What a call finds in the channel: its content, or the counter that it puts there first.\<close>

definition on_offer :: "remoteFlowController \<Rightarrow> int" where
  "on_offer c = (case winCh c of Some n \<Rightarrow> n | None \<Rightarrow> rwin c)"

lemma take_on_offer:
  "remote_ok c \<Longrightarrow> 0 < on_offer c \<Longrightarrow> \<exists>c'. allocate_take (allocate_offer sid c) = Some (on_offer c, c')"
  by (auto simp: allocate_take_def allocate_offer_def remote_incrementWindow_def remote_updateWindow_def on_offer_def
      Let_def offer_winCh_def split: option.splits)

lemma allocateBytes_total:
  assumes "remote_ok c" "remote_ok s" "0 < n" "credit c \<le> maxInitialWindowSize" "credit s \<le> maxInitialWindowSize"
    and "0 < on_offer c" "0 < on_offer s"
  shows "\<exists>c' s'. allocateBytes sid c s n = Some (min n (min (on_offer s) (on_offer c)), c', s')
    \<and> credit c' = credit c - min n (min (on_offer s) (on_offer c))
    \<and> credit s' = credit s - min n (min (on_offer s) (on_offer c)) \<and> remote_ok c' \<and> remote_ok s'"
proof -
  obtain c1 s1 where t: "allocate_take (allocate_offer 0 c) = Some (on_offer c, c1)"
    "allocate_take (allocate_offer sid s) = Some (on_offer s, s1)"
    using take_on_offer assms by blast
  obtain k c' s' where f: "allocate_finish sid n (on_offer s) (on_offer c) c1 s1 = (k, c', s')" by (metis prod_cases3)
  then have "k = min n (min (on_offer s) (on_offer c))" by (auto simp: allocate_finish_def Let_def min_def split: if_splits)
  moreover have "allocateBytes sid c s n = Some (k, c', s')" using t f assms(3) by (simp add: allocateBytes_def)
  ultimately show ?thesis using allocateBytes_ok [OF assms(1-5)] by blast
qed

text \<open>The overflow check does not count what waits in the channel.\<close>

lemma remote_overflow_undetected:
  "\<exists>c. remote_incrementInitialWindow sid new_remoteFlowController (uint defaultInitialWindowSize) = (None, c)
    \<and> (\<exists>c'. remote_incrementWindow sid c maxInitialWindowSize = (None, c') \<and> maxInitialWindowSize < credit c')"
  by (simp add: remote_incrementInitialWindow_def remote_incrementWindow_def remote_updateWindow_def Let_def
      new_remoteFlowController_def drain_winCh_def offer_winCh_def credit_def)

end
