(* ===== verification/H2_Sender.thy ===== *)
theory H2_Sender
  imports H2_Flow
begin

text \<open>
  Sending DATA: \<open>stream.write\<close> of \<^verbatim>\<open>src/stream.go\<close> and \<open>allocateBytes\<close> of
  \<^verbatim>\<open>src/flow_control.go\<close> when several streams send at the same time.

  The first part is the cutting of a DATA frame into the chunks that flow control allows.  The
  second is a step relation in which the writers of a fixed set of streams, the reader that
  applies WINDOW_UPDATE and SETTINGS frames, and the closing of streams interleave between
  the blocking operations of \<open>allocateBytes\<close>.
\<close>

section \<open>Chunks\<close>

text \<open>
  The loop of \<open>write\<close> after the label \<open>again\<close>, for the sequence of amounts that the calls of
  \<open>allocateBytes\<close> return.  The reader of the frame is shared by the chunks: each leaves what it
  did not copy to the next.  The result is the chunks queued and, when the amounts run out
  first, what is left of the frame.
\<close>

definition min_int :: "int \<Rightarrow> int \<Rightarrow> int" where
  "min_int a b = (if a > b then b else a)"

fun write_again :: "u32 \<Rightarrow> bytes \<Rightarrow> int \<Rightarrow> int \<Rightarrow> bool \<Rightarrow> int list \<Rightarrow> Frame list \<times> (int \<times> int) option" where
  "write_again sid rd dataLen padLen endStream [] = ([], Some (dataLen, padLen))"
| "write_again sid rd dataLen padLen endStream (allowed # as) =
     (let len = min_int dataLen allowed;
          padding = min_int (allowed - len) padLen;
          dataLen' = dataLen - len;
          padLen' = padLen - padding;
          lastFrame = (dataLen' + padLen' = 0);
          chunk = DataFrame sid (Some rd) len (of_int padding) (endStream \<and> lastFrame)
      in if lastFrame then ([chunk], None)
         else case write_again sid (drop (nat len) rd) dataLen' padLen' endStream as of
                (cs, left) \<Rightarrow> (chunk # cs, left))"

fun stream_write_data :: "Frame \<Rightarrow> int list \<Rightarrow> Frame list \<times> (int \<times> int) option" where
  "stream_write_data (DataFrame sid rd dataLen pad endStream) (allowed # as) =
     (if allowed = dataLen + uint pad then ([DataFrame sid rd dataLen pad endStream], None)
      else write_again sid (case rd of Some b \<Rightarrow> b | None \<Rightarrow> []) dataLen (uint pad) endStream (allowed # as))"
| "stream_write_data f as = ([], None)"

fun chunk_len :: "Frame \<Rightarrow> int" where
  "chunk_len (DataFrame _ _ n _ _) = n"
| "chunk_len _ = 0"

fun chunk_pad :: "Frame \<Rightarrow> int" where
  "chunk_pad (DataFrame _ _ _ p _) = uint p"
| "chunk_pad _ = 0"

fun chunk_data :: "Frame \<Rightarrow> bytes" where
  "chunk_data (DataFrame _ rd n _ _) = take (nat n) (case rd of Some b \<Rightarrow> b | None \<Rightarrow> [])"
| "chunk_data _ = []"

text \<open>The amounts \<open>allocateBytes\<close> may return: positive and at most what is asked for.\<close>

fun allowances :: "int \<Rightarrow> int list \<Rightarrow> bool" where
  "allowances n [] = True"
| "allowances n (a # as) \<longleftrightarrow> 0 < a \<and> a \<le> n \<and> (a = n \<longrightarrow> as = []) \<and> allowances (n - a) as"

lemma chunk_split:
  assumes "0 \<le> dataLen" "0 \<le> padLen" "0 < allowed" "allowed \<le> dataLen + padLen"
  shows "0 \<le> min_int dataLen allowed" "min_int dataLen allowed \<le> dataLen"
    "0 \<le> min_int (allowed - min_int dataLen allowed) padLen" "min_int (allowed - min_int dataLen allowed) padLen \<le> padLen"
    "min_int dataLen allowed + min_int (allowed - min_int dataLen allowed) padLen = allowed"
  using assms by (auto simp: min_int_def)

definition left_data :: "(int \<times> int) option \<Rightarrow> int" where
  "left_data l = (case l of Some (d, p) \<Rightarrow> d | None \<Rightarrow> 0)"

definition left_pad :: "(int \<times> int) option \<Rightarrow> int" where
  "left_pad l = (case l of Some (d, p) \<Rightarrow> p | None \<Rightarrow> 0)"

text \<open>
  The chunks take each allowance in full, carry the data and the padding of the frame in order
  and without loss, and only the last chunk of a complete frame may end the stream.
\<close>

definition chunks_ok :: "bytes \<Rightarrow> int \<Rightarrow> int \<Rightarrow> bool \<Rightarrow> int list \<Rightarrow> Frame list \<Rightarrow> (int \<times> int) option \<Rightarrow> bool" where
  "chunks_ok rd dataLen padLen e as cs left \<longleftrightarrow>
     map (\<lambda>c. chunk_len c + chunk_pad c) cs = as
     \<and> (\<Sum>c\<leftarrow>cs. chunk_len c) + left_data left = dataLen
     \<and> (\<Sum>c\<leftarrow>cs. chunk_pad c) + left_pad left = padLen
     \<and> list_all (\<lambda>c. 0 \<le> chunk_len c) cs
     \<and> concat (map chunk_data cs) = take (nat (\<Sum>c\<leftarrow>cs. chunk_len c)) rd
     \<and> (left = None \<longleftrightarrow> as \<noteq> [] \<and> sum_list as = dataLen + padLen)
     \<and> map Frame_EndOfStream cs = (if left = None then replicate (length cs - 1) False @ [e] else replicate (length cs) False)"

lemma chunks_ok_Cons:
  assumes "chunks_ok (drop (nat len) rd) (dataLen - len) (padLen - pad) e as cs left"
    and "0 \<le> len" "0 \<le> pad" "pad < 256" "len + pad = a" "0 < dataLen - len + (padLen - pad)"
  shows "chunks_ok rd dataLen padLen e (a # as) (DataFrame sid (Some rd) len (of_int pad) False # cs) left"
proof -
  have u: "uint (of_int pad :: u8) = pad"
    using assms(3, 4) by (simp add: uint_word_of_int_eq take_bit_int_eq_self)
  have nn: "0 \<le> (\<Sum>c\<leftarrow>cs. chunk_len c)"
    using assms(1) by (auto simp: chunks_ok_def list_all_iff intro!: sum_list_nonneg)
  have ne: "left = None \<Longrightarrow> cs \<noteq> []" using assms(1) by (auto simp: chunks_ok_def)
  have tk: "take (nat len) rd @ take (nat (\<Sum>c\<leftarrow>cs. chunk_len c)) (drop (nat len) rd)
    = take (nat (len + (\<Sum>c\<leftarrow>cs. chunk_len c))) rd"
    using assms(2) nn by (simp add: nat_add_distrib take_add)
  show ?thesis
    using assms u ne tk unfolding chunks_ok_def by (cases cs) (auto split: if_splits)
qed

lemma write_again_chunks:
  assumes "0 \<le> dataLen" "0 \<le> padLen" "padLen < 256" "allowances (dataLen + padLen) as" "0 < dataLen + padLen"
    and "write_again sid rd dataLen padLen e as = (cs, left)"
  shows "chunks_ok rd dataLen padLen e as cs left"
  using assms
proof (induction sid rd dataLen padLen e as arbitrary: cs left rule: write_again.induct)
  case (1 sid rd dataLen padLen e)
  then show ?case by (auto simp: chunks_ok_def left_data_def left_pad_def)
next
  case (2 sid rd dataLen padLen e a as)
  define len where "len = min_int dataLen a"
  define pad where "pad = min_int (a - len) padLen"
  have s: "0 \<le> len" "len \<le> dataLen" "0 \<le> pad" "pad \<le> padLen" "len + pad = a"
    using chunk_split [of dataLen padLen a] 2(2-5) unfolding len_def pad_def by auto
  have p: "pad < 256" using s 2(4) by simp
  have u: "uint (of_int pad :: u8) = pad" using s(3) p by (simp add: uint_word_of_int_eq take_bit_int_eq_self)
  show ?case
  proof (cases "dataLen - len + (padLen - pad) = 0")
    case True
    then have e: "cs = [DataFrame sid (Some rd) len (of_int pad) e]" "left = None"
      using 2(7) by (auto simp: Let_def len_def [symmetric] pad_def [symmetric])
    have "dataLen = len" "padLen = pad" "as = []" using True s 2(5) by auto
    with s u e show ?thesis by (auto simp: chunks_ok_def left_data_def left_pad_def)
  next
    case False
    then obtain cs' where r: "write_again sid (drop (nat len) rd) (dataLen - len) (padLen - pad) e as = (cs', left)"
      "cs = DataFrame sid (Some rd) len (of_int pad) False # cs'"
      using 2(7) by (auto simp: Let_def len_def [symmetric] pad_def [symmetric] split: prod.splits)
    have al: "allowances (dataLen - len + (padLen - pad)) as"
      using 2(5) s by (simp add: algebra_simps)
    have "chunks_ok (drop (nat len) rd) (dataLen - len) (padLen - pad) e as cs' left"
      by (rule "2.IH" [OF len_def pad_def refl refl refl refl]) (use False s 2(4) al r in auto)
    from chunks_ok_Cons [OF this s(1, 3) p s(5)] False s r(2) show ?thesis by simp
  qed
qed

lemma stream_write_chunks:
  assumes "0 \<le> dataLen" "allowances (dataLen + uint pad) as" "as \<noteq> []" "0 < dataLen + uint pad"
    and "stream_write_data (DataFrame sid (Some rd) dataLen pad e) as = (cs, left)"
  shows "chunks_ok rd dataLen (uint pad) e as cs left"
proof (cases as)
  case (Cons a as')
  have p: "0 \<le> uint pad" "uint pad < 256" using uint_bounded [of pad] by simp_all
  show ?thesis
  proof (cases "a = dataLen + uint pad")
    case True
    with assms Cons show ?thesis by (auto simp: chunks_ok_def left_data_def left_pad_def)
  next
    case False
    with assms(5) Cons have "write_again sid rd dataLen (uint pad) e as = (cs, left)" by simp
    from write_again_chunks [OF assms(1) p assms(2, 4) this] show ?thesis .
  qed
qed (use assms in simp)

section \<open>Several senders\<close>

text \<open>
  Where the writer of a stream stands in \<open>allocateBytes\<close>: outside, waiting for the stream's
  channel, waiting for the connection's channel with \<open>sw\<close> in hand, or past both.
\<close>

datatype phase = Outside | WaitStream int | WaitConn int int | Granted int int int

text \<open>
  The controllers, the writers, and the ledger: bytes granted for sending, credit received and
  credit withdrawn by a smaller initial window, for each stream and for the connection.
\<close>

record sender =
  conn_fc :: remoteFlowController
  stream_fc :: "u32 \<Rightarrow> remoteFlowController"
  phase_of :: "u32 \<Rightarrow> phase"
  sent :: "u32 \<Rightarrow> int"
  sent_all :: int
  received :: "u32 \<Rightarrow> int"
  received_all :: int
  withdrawn :: "u32 \<Rightarrow> int"

definition new_sender :: sender where
  "new_sender = \<lparr>conn_fc = new_remoteFlowController, stream_fc = (\<lambda>_. new_remoteFlowController),
     phase_of = (\<lambda>_. Outside), sent = (\<lambda>_. 0), sent_all = 0, received = (\<lambda>_. 0), received_all = 0,
     withdrawn = (\<lambda>_. 0)\<rparr>"

definition set_stream :: "u32 \<Rightarrow> remoteFlowController \<Rightarrow> phase \<Rightarrow> sender \<Rightarrow> sender" where
  "set_stream sid s ph st = st\<lparr>stream_fc := (stream_fc st)(sid := s), phase_of := (phase_of st)(sid := ph)\<rparr>"

text \<open>What \<open>compareAndSwapState\<close> does to the controller of a stream that stops sending.\<close>

definition remote_stop :: "u32 \<Rightarrow> remoteFlowController \<Rightarrow> remoteFlowController" where
  "remote_stop sid s = (let s = remote_cancel s in snd (remote_incrementWindow sid s (- remote_window s)))"

inductive sender_step :: "sender \<Rightarrow> sender \<Rightarrow> bool" where
  ask: "phase_of st sid = Outside \<Longrightarrow> 0 < n \<Longrightarrow>
    sender_step st (set_stream sid (allocate_offer sid (stream_fc st sid)) (WaitStream n) st)"
| got_stream: "phase_of st sid = WaitStream n \<Longrightarrow> allocate_take (stream_fc st sid) = Some (sw, s) \<Longrightarrow>
    sender_step st ((set_stream sid s (WaitConn n sw) st)\<lparr>conn_fc := allocate_offer 0 (conn_fc st)\<rparr>)"
| got_conn: "phase_of st sid = WaitConn n sw \<Longrightarrow> allocate_take (conn_fc st) = Some (cw, c) \<Longrightarrow>
    sender_step st ((set_stream sid (stream_fc st sid) (Granted n sw cw) st)\<lparr>conn_fc := c\<rparr>)"
| finish: "phase_of st sid = Granted n sw cw \<Longrightarrow>
    allocate_finish sid n sw cw (conn_fc st) (stream_fc st sid) = (k, c, s) \<Longrightarrow>
    sender_step st ((set_stream sid s Outside st)\<lparr>conn_fc := c, sent := (sent st)(sid := sent st sid + k),
      sent_all := sent_all st + k\<rparr>)"
| leave_stream: "phase_of st sid = WaitStream n \<Longrightarrow>
    sender_step st (set_stream sid (stream_fc st sid) Outside st)"
| leave_conn: "phase_of st sid = WaitConn n sw \<Longrightarrow>
    sender_step st ((set_stream sid (stream_fc st sid) Outside st)\<lparr>conn_fc := remote_cancel (conn_fc st)\<rparr>)"
| leave_closed: "phase_of st sid = WaitConn n sw \<Longrightarrow>
    sender_step st (set_stream sid (stream_fc st sid) Outside st)"
| update_conn: "0 < d \<Longrightarrow> remote_incrementWindow 0 (conn_fc st) d = (None, c) \<Longrightarrow>
    sender_step st (st\<lparr>conn_fc := c, received_all := received_all st + d\<rparr>)"
| update_stream: "0 < d \<Longrightarrow> remote_incrementWindow sid (stream_fc st sid) d = (None, s) \<Longrightarrow>
    sender_step st ((set_stream sid s (phase_of st sid) st)\<lparr>received := (received st)(sid := received st sid + d)\<rparr>)"
| settings: "remote_incrementInitialWindow sid (stream_fc st sid) d = (None, s) \<Longrightarrow>
    sender_step st ((set_stream sid s (phase_of st sid) st)
      \<lparr>received := (received st)(sid := received st sid + max 0 d),
       withdrawn := (withdrawn st)(sid := withdrawn st sid + max 0 (- d))\<rparr>)"
| stop: "remote_stop sid (stream_fc st sid) = s \<Longrightarrow>
    sender_step st ((set_stream sid s (phase_of st sid) st)
      \<lparr>withdrawn := (withdrawn st)(sid := withdrawn st sid - max 0 (- credit (stream_fc st sid)))\<rparr>)"

section \<open>No more is sent than the peer allows\<close>

fun phase_ok :: "phase \<Rightarrow> bool" where
  "phase_ok Outside = True"
| "phase_ok (WaitStream n) = (0 < n)"
| "phase_ok (WaitConn n sw) = (0 < n \<and> 0 < sw)"
| "phase_ok (Granted n sw cw) = (0 < n \<and> 0 < sw \<and> 0 < cw)"

fun held_stream :: "phase \<Rightarrow> int" where
  "held_stream (WaitConn n sw) = sw"
| "held_stream (Granted n sw cw) = sw"
| "held_stream _ = 0"

fun held_conn :: "phase \<Rightarrow> int" where
  "held_conn (Granted n sw cw) = cw"
| "held_conn _ = 0"

definition stream_ledger :: "sender \<Rightarrow> u32 \<Rightarrow> bool" where
  "stream_ledger st sid \<longleftrightarrow>
     remote_ok (stream_fc st sid) \<and> phase_ok (phase_of st sid)
     \<and> 0 \<le> withdrawn st sid \<and> 0 \<le> rwin (stream_fc st sid) + withdrawn st sid
     \<and> sent st sid + credit (stream_fc st sid) + held_stream (phase_of st sid) + withdrawn st sid \<le> received st sid"

definition conn_ledger :: "sender \<Rightarrow> bool" where
  "conn_ledger st \<longleftrightarrow>
     remote_ok (conn_fc st) \<and> 0 \<le> rwin (conn_fc st)
     \<and> sent_all st + credit (conn_fc st) + (\<Sum>sid\<in>UNIV. held_conn (phase_of st sid)) \<le> received_all st"

definition sender_ok :: "sender \<Rightarrow> bool" where
  "sender_ok st \<longleftrightarrow> conn_ledger st \<and> (\<forall>sid. stream_ledger st sid)"

lemma sender_ok_new: "sender_ok new_sender"
  by (simp add: sender_ok_def conn_ledger_def stream_ledger_def new_sender_def remote_ok_new)
    (simp add: new_remoteFlowController_def)

lemma sum_held_update:
  "(\<Sum>x\<in>UNIV. held_conn ((g(sid := ph)) (x::u32))) = (\<Sum>x\<in>UNIV. held_conn (g x)) - held_conn (g sid) + held_conn ph"
proof -
  have "(\<Sum>x\<in>UNIV. held_conn ((g(sid := ph)) x)) = held_conn ph + (\<Sum>x\<in>UNIV - {sid}. held_conn (g x))"
    by (subst sum.remove [of UNIV sid]) (auto intro!: sum.cong)
  also have "(\<Sum>x\<in>UNIV - {sid}. held_conn (g x)) = (\<Sum>x\<in>UNIV. held_conn (g x)) - held_conn (g sid)"
    by (simp add: sum.remove [of UNIV sid])
  finally show ?thesis by simp
qed

lemma updateWindow_rwin:
  assumes "remote_updateWindow sid c d reset = (None, c')" "remote_ok c" "0 \<le> w" "0 \<le> rwin c + w"
  shows "0 \<le> rwin c' + (w + max 0 (- d))"
  using assms by (auto simp: remote_updateWindow_def Let_def drain_winCh_def offer_winCh_def remote_ok_def
      split: if_splits option.splits)

lemma offer_rwin: "remote_ok c \<Longrightarrow> 0 \<le> w \<Longrightarrow> 0 \<le> rwin c + w \<Longrightarrow> 0 \<le> rwin (allocate_offer sid c) + w"
  using updateWindow_rwin [OF allocate_offer_eq] by fastforce

lemma incrementWindow_rwin:
  assumes "remote_ok c" "0 \<le> w" "0 \<le> rwin c + w" "0 \<le> d"
  shows "0 \<le> rwin (snd (remote_incrementWindow sid c d)) + w"
proof (cases "fst (remote_incrementWindow sid c d)")
  case None
  then have "remote_updateWindow sid c d False = (None, snd (remote_incrementWindow sid c d))"
    by (simp add: remote_incrementWindow_def prod_eq_iff)
  from updateWindow_rwin [OF this assms(1-3)] assms(4) show ?thesis by simp
next
  case (Some e)
  then have "remote_updateWindow sid c d False = (Some e, snd (remote_incrementWindow sid c d))"
    by (simp add: remote_incrementWindow_def prod_eq_iff)
  from remote_updateWindow_error [OF this] assms(3) show ?thesis by simp
qed

lemma finish_rwin:
  assumes "allocate_finish sid n sw cw c s = (k, c', s')"
  shows "remote_ok s \<Longrightarrow> 0 \<le> w \<Longrightarrow> 0 \<le> rwin s + w \<Longrightarrow> 0 \<le> rwin s' + w"
    and "remote_ok c \<Longrightarrow> 0 \<le> rwin c \<Longrightarrow> 0 \<le> rwin c'"
  using assms incrementWindow_rwin [of s w "sw - k" sid] incrementWindow_rwin [of c 0 "cw - k" 0]
  by (auto simp: allocate_finish_def Let_def split: if_splits)

lemma cancel_ok: "remote_ok c \<Longrightarrow> remote_ok (remote_cancel c) \<and> rwin c \<le> rwin (remote_cancel c)"
  by (auto simp: remote_cancel_def drain_winCh_def remote_ok_def split: option.splits)

lemma remote_stop_eq: "remote_stop sid s = \<lparr>rwin = 0, winCh = None\<rparr>"
  by (cases s) (auto simp: remote_stop_def Let_def remote_cancel_def drain_winCh_def remote_incrementWindow_def
      remote_updateWindow_def remote_window_def split: option.splits)

text \<open>A step changes one stream at most, and each part of the ledger is kept by itself.\<close>

lemma set_stream_other [simp]:
  "x \<noteq> sid \<Longrightarrow> stream_fc (set_stream sid s ph st) x = stream_fc st x"
  "x \<noteq> sid \<Longrightarrow> phase_of (set_stream sid s ph st) x = phase_of st x"
  "stream_fc (set_stream sid s ph st) sid = s"
  "phase_of (set_stream sid s ph st) sid = ph"
  "conn_fc (set_stream sid s ph st) = conn_fc st"
  "sent (set_stream sid s ph st) = sent st" "sent_all (set_stream sid s ph st) = sent_all st"
  "received (set_stream sid s ph st) = received st" "received_all (set_stream sid s ph st) = received_all st"
  "withdrawn (set_stream sid s ph st) = withdrawn st"
  by (simp_all add: set_stream_def)

lemma set_stream_held:
  "(\<Sum>x\<in>UNIV. held_conn (phase_of (set_stream sid s ph st) x)) =
   (\<Sum>x\<in>UNIV. held_conn (phase_of st x)) - held_conn (phase_of st sid) + held_conn ph"
  unfolding set_stream_def using sum_held_update [of "phase_of st" sid ph] by simp

lemma conn_ledger_step:
  assumes "sender_step st st'" "sender_ok st"
  shows "conn_ledger st'"
  using assms
proof (cases rule: sender_step.cases)
  case (got_stream sid n sw s)
  with assms(2) allocate_offer_ok [of "conn_fc st" 0] offer_rwin [of "conn_fc st" 0 0] show ?thesis
    by (auto simp: sender_ok_def conn_ledger_def set_stream_held)
next
  case (got_conn sid n sw cw c)
  with assms(2) allocate_take_Some [OF got_conn(3)] show ?thesis
    by (auto simp: sender_ok_def conn_ledger_def set_stream_held)
next
  case (finish sid n sw cw k c s)
  then have "stream_ledger st sid" "conn_ledger st" using assms(2) by (auto simp: sender_ok_def)
  then have ok: "remote_ok (conn_fc st)" "remote_ok (stream_fc st sid)" "0 < n" "0 < sw" "0 < cw" "0 \<le> rwin (conn_fc st)"
    using finish(2) by (auto simp: stream_ledger_def conn_ledger_def)
  note f = allocate_finish_ok [OF ok(1-5) finish(3)] finish_rwin(2) [OF finish(3) ok(1) ok(6)]
  with finish \<open>conn_ledger st\<close> show ?thesis by (simp add: conn_ledger_def set_stream_held)
next
  case (leave_conn sid n sw)
  with assms(2) cancel_ok [of "conn_fc st"] show ?thesis
    by (auto simp: sender_ok_def conn_ledger_def set_stream_held remote_cancel_def)
next
  case (update_conn d c)
  with assms(2) remote_updateWindow_ok [of "conn_fc st" 0 d False c] updateWindow_rwin [of 0 "conn_fc st" d False c 0]
  show ?thesis by (auto simp: sender_ok_def conn_ledger_def remote_incrementWindow_def)
qed (auto simp: sender_ok_def conn_ledger_def set_stream_held)

lemma stream_ledger_step:
  assumes "sender_step st st'" "sender_ok st"
  shows "stream_ledger st' x"
proof -
  have all: "stream_ledger st y" for y using assms(2) by (simp add: sender_ok_def)
  from assms(1) show ?thesis
  proof (cases rule: sender_step.cases)
    case (ask sid n)
    with all [of x] allocate_offer_ok [of "stream_fc st sid" sid] offer_rwin [of "stream_fc st sid" "withdrawn st sid" sid] show ?thesis
      by (cases "x = sid") (auto simp: stream_ledger_def)
  next
    case (got_stream sid n sw s)
    with all [of x] allocate_take_Some [OF got_stream(3)] show ?thesis
      by (cases "x = sid") (auto simp: stream_ledger_def)
  next
    case (got_conn sid n sw cw c)
    then have "0 < cw" using assms(2) allocate_take_Some [OF got_conn(3)] by (simp add: sender_ok_def conn_ledger_def)
    with got_conn all [of x] show ?thesis by (cases "x = sid") (auto simp: stream_ledger_def)
  next
    case (finish sid n sw cw k c s)
    have ok: "remote_ok (conn_fc st)" "remote_ok (stream_fc st sid)" "0 < n" "0 < sw" "0 < cw"
      "0 \<le> withdrawn st sid" "0 \<le> rwin (stream_fc st sid) + withdrawn st sid"
      using finish(2) all [of sid] assms(2) by (auto simp: stream_ledger_def sender_ok_def conn_ledger_def)
    note f = allocate_finish_ok [OF ok(1-5) finish(3)] finish_rwin(1) [OF finish(3) ok(2, 6, 7)]
    with finish all [of x] show ?thesis by (cases "x = sid") (simp_all add: stream_ledger_def)
  next
    case (update_stream d sid s)
    with all [of x] remote_updateWindow_ok [of "stream_fc st sid" sid d False s]
      updateWindow_rwin [of sid "stream_fc st sid" d False s "withdrawn st sid"]
    show ?thesis by (cases "x = sid") (auto simp: stream_ledger_def remote_incrementWindow_def)
  next
    case (settings sid d s)
    with all [of x] remote_updateWindow_ok [of "stream_fc st sid" sid d True s]
      updateWindow_rwin [of sid "stream_fc st sid" d True s "withdrawn st sid"]
    show ?thesis by (cases "x = sid") (auto simp: stream_ledger_def remote_incrementInitialWindow_def)
  next
    case (stop sid s)
    have "- withdrawn st sid \<le> credit (stream_fc st sid)"
      using all [of sid] by (auto simp: stream_ledger_def credit_def remote_ok_def split: option.splits)
    with stop all [of x] show ?thesis
      by (cases "x = sid") (auto simp: stream_ledger_def remote_stop_eq remote_ok_def credit_def)
  qed (use all [of x] in \<open>auto simp: stream_ledger_def set_stream_def split: if_splits\<close>)
qed

lemma sender_ok_step: "sender_ok st \<Longrightarrow> sender_step st st' \<Longrightarrow> sender_ok st'"
  by (simp add: sender_ok_def [of st'] conn_ledger_step stream_ledger_step)

lemma sent_bounded:
  assumes "sender_ok st"
  shows "sent st sid \<le> received st sid" "sent_all st \<le> received_all st"
proof -
  have c: "conn_ledger st" using assms by (simp add: sender_ok_def)
  have s: "stream_ledger st y" for y using assms by (simp add: sender_ok_def)
  have "0 \<le> held_stream (phase_of st sid)" using s [of sid] by (cases "phase_of st sid") (auto simp: stream_ledger_def)
  with s [of sid] show "sent st sid \<le> received st sid"
    by (auto simp: stream_ledger_def credit_def remote_ok_def split: option.splits)
  have "0 \<le> held_conn (phase_of st y)" for y using s [of y] by (cases "phase_of st y") (auto simp: stream_ledger_def)
  then have "0 \<le> (\<Sum>y\<in>UNIV. held_conn (phase_of st y))" by (intro sum_nonneg) simp
  with c show "sent_all st \<le> received_all st"
    by (auto simp: conn_ledger_def credit_def remote_ok_def split: option.splits)
qed

interpretation sending: step_invariant sender_step sender_ok
  by unfold_locales (rule sender_ok_step)

section \<open>Credit a waiting writer does not see\<close>

text \<open>
  Two streams wait for the connection's channel; credit that arrived while the channel was full
  stays in the counter when the first takes the channel's content and uses all of it.
\<close>

definition reached :: "remoteFlowController \<Rightarrow> (u32 \<Rightarrow> remoteFlowController) \<Rightarrow> (u32 \<Rightarrow> phase) \<Rightarrow> bool" where
  "reached c F P \<longleftrightarrow> (\<exists>st. sender_step\<^sup>*\<^sup>* new_sender st \<and> conn_fc st = c \<and> stream_fc st = F \<and> phase_of st = P)"

lemma reached_step:
  assumes "reached c F P"
    and "\<And>st. conn_fc st = c \<Longrightarrow> stream_fc st = F \<Longrightarrow> phase_of st = P \<Longrightarrow>
      \<exists>st'. sender_step st st' \<and> conn_fc st' = c' \<and> stream_fc st' = F' \<and> phase_of st' = P'"
  shows "reached c' F' P'"
proof -
  from assms(1) obtain st where st: "sender_step\<^sup>*\<^sup>* new_sender st" "conn_fc st = c" "stream_fc st = F" "phase_of st = P"
    by (auto simp: reached_def)
  from assms(2) [OF st(2-4)] obtain st' where
    "sender_step st st'" "conn_fc st' = c'" "stream_fc st' = F'" "phase_of st' = P'" by blast
  with st(1) show ?thesis unfolding reached_def by (blast intro: rtranclp.rtrancl_into_rtrancl)
qed

lemma reached_new: "reached new_remoteFlowController (\<lambda>_. new_remoteFlowController) (\<lambda>_. Outside)"
  unfolding reached_def by (rule exI [of _ new_sender]) (simp add: new_sender_def)

lemma reached_ask:
  assumes "reached c F P" "P sid = Outside" "0 < n"
  shows "reached c (F(sid := allocate_offer sid (F sid))) (P(sid := WaitStream n))"
  by (rule reached_step [OF assms(1)]) (use assms in \<open>force intro!: ask simp: set_stream_def\<close>)

lemma reached_got_stream:
  assumes "reached c F P" "P sid = WaitStream n" "allocate_take (F sid) = Some (sw, s)"
  shows "reached (allocate_offer 0 c) (F(sid := s)) (P(sid := WaitConn n sw))"
  by (rule reached_step [OF assms(1)]) (use assms in \<open>force intro!: got_stream simp: set_stream_def\<close>)

lemma reached_got_conn:
  assumes "reached c F P" "P sid = WaitConn n sw" "allocate_take c = Some (cw, c')"
  shows "reached c' (F(sid := F sid)) (P(sid := Granted n sw cw))"
  by (rule reached_step [OF assms(1)]) (use assms in \<open>force intro!: got_conn simp: set_stream_def\<close>)

lemma reached_update_conn:
  assumes "reached c F P" "0 < d" "remote_incrementWindow 0 c d = (None, c')"
  shows "reached c' F P"
  by (rule reached_step [OF assms(1)]) (use assms in \<open>force intro!: update_conn\<close>)

lemma reached_update_stream:
  assumes "reached c F P" "0 < d" "remote_incrementWindow sid (F sid) d = (None, s)"
  shows "reached c (F(sid := s)) (P(sid := P sid))"
  by (rule reached_step [OF assms(1)]) (use assms in \<open>force intro!: update_stream simp: set_stream_def\<close>)

lemmas remote_eval = remote_incrementWindow_def remote_updateWindow_def Let_def new_remoteFlowController_def
  drain_winCh_def offer_winCh_def allocate_offer_def allocate_take_def allocate_finish_def

lemma stranded_run:
  "reached \<lparr>rwin = 5, winCh = None\<rparr> ((\<lambda>_. new_remoteFlowController)(1 := \<lparr>rwin = 0, winCh = None\<rparr>, 3 := \<lparr>rwin = 0, winCh = None\<rparr>))
     ((\<lambda>_. Outside)(1 := Granted 10 10 10, 3 := WaitConn 10 10))"
proof -
  let ?F = "\<lambda>a b. (\<lambda>_. new_remoteFlowController)(1 := a, 3 := b)" and ?P = "\<lambda>a b. (\<lambda>_. Outside)(1 := a, 3 := b)"
  let ?w = "\<lambda>n. \<lparr>rwin = 0, winCh = Some n\<rparr>" and ?e = "\<lparr>rwin = 0, winCh = None\<rparr>"
  have "reached (?w 10) (\<lambda>_. new_remoteFlowController) (\<lambda>_. Outside)"
    by (rule reached_update_conn [OF reached_new, of 10]) (simp_all add: remote_eval)
  from reached_update_stream [OF this, of 10 1 "?w 10"] have "reached (?w 10) (?F (?w 10) ?e) (?P Outside Outside)"
    by (simp add: remote_eval fun_upd_def if_distrib cong: if_cong)
  from reached_update_stream [OF this, of 10 3 "?w 10"] have "reached (?w 10) (?F (?w 10) (?w 10)) (?P Outside Outside)"
    by (simp add: remote_eval)
  from reached_ask [OF this, of 1 10] have "reached (?w 10) (?F (?w 10) (?w 10)) (?P (WaitStream 10) Outside)"
    by (simp add: remote_eval fun_upd_twist)
  from reached_got_stream [OF this, of 1 10 10 ?e] have "reached (?w 10) (?F ?e (?w 10)) (?P (WaitConn 10 10) Outside)"
    by (simp add: remote_eval fun_upd_twist)
  from reached_ask [OF this, of 3 10] have "reached (?w 10) (?F ?e (?w 10)) (?P (WaitConn 10 10) (WaitStream 10))"
    by (simp add: remote_eval)
  from reached_got_stream [OF this, of 3 10 10 ?e] have "reached (?w 10) (?F ?e ?e) (?P (WaitConn 10 10) (WaitConn 10 10))"
    by (simp add: remote_eval)
  from reached_update_conn [OF this, of 5 "\<lparr>rwin = 5, winCh = Some 10\<rparr>"]
  have "reached \<lparr>rwin = 5, winCh = Some 10\<rparr> (?F ?e ?e) (?P (WaitConn 10 10) (WaitConn 10 10))"
    by (simp add: remote_eval)
  from reached_got_conn [OF this, of 1 10 10 10 "\<lparr>rwin = 5, winCh = None\<rparr>"]
  show ?thesis by (simp add: remote_eval fun_upd_twist)
qed

end
