(* ===== verification/H2_Header.thy ===== *)
theory H2_Header
  imports H2_Types "HOL-Library.AList" "HOL-Library.Monad_Syntax"
begin

text \<open>
  Header collections: the \<open>Header\<close> methods, \<open>requestToHeader\<close>, the canonical form of keys and
  the helpers on headers of \<^verbatim>\<open>src/util.go\<close>.

  Go's case mapping, case folding and white space on strings that are not ASCII need the
  Unicode tables of the standard library; they are the parameter \<open>U\<close>, a record of three
  functions, and on ASCII strings they are defined here.  Writing to a nil map and indexing an
  empty string panic: such an operation returns \<open>None\<close>.
\<close>

section \<open>Strings\<close>

record unicode =
  u_ToLower :: "gostring \<Rightarrow> gostring"
  u_EqualFold :: "gostring \<Rightarrow> gostring \<Rightarrow> bool"
  u_TrimSpace :: "gostring \<Rightarrow> gostring"

text \<open>The parameter for strings of bytes, which the witnesses use.\<close>

definition bytewise :: unicode where
  "bytewise = \<lparr>u_ToLower = map (\<lambda>c. if 65 \<le> c \<and> c \<le> 90 then c + 32 else c), u_EqualFold = (=), u_TrimSpace = id\<rparr>"

definition ascii :: "gostring \<Rightarrow> bool" where
  "ascii s \<longleftrightarrow> list_all (\<lambda>c. c < 128) s"

definition lower :: "u8 \<Rightarrow> u8" where
  "lower c = (if 65 \<le> c \<and> c \<le> 90 then c + 32 else c)"

definition space :: "u8 \<Rightarrow> bool" where
  "space c \<longleftrightarrow> c \<in> {9, 10, 11, 12, 13, 32}"

definition strings_ToLower :: "unicode \<Rightarrow> gostring \<Rightarrow> gostring" where
  "strings_ToLower U s = (if ascii s then map lower s else u_ToLower U s)"

definition strings_EqualFold :: "unicode \<Rightarrow> gostring \<Rightarrow> gostring \<Rightarrow> bool" where
  "strings_EqualFold U a b = (if ascii a \<and> ascii b then map lower a = map lower b else u_EqualFold U a b)"

definition strings_TrimSpace :: "unicode \<Rightarrow> gostring \<Rightarrow> gostring" where
  "strings_TrimSpace U s =
     (if ascii s then rev (dropWhile space (rev (dropWhile space s))) else u_TrimSpace U s)"

fun strings_Split :: "gostring \<Rightarrow> u8 \<Rightarrow> gostring list" where
  "strings_Split [] sep = [[]]"
| "strings_Split (c # s) sep =
     (if c = sep then [] # strings_Split s sep
      else (case strings_Split s sep of p # ps \<Rightarrow> (c # p) # ps | [] \<Rightarrow> [[c]]))"

fun strings_IndexByte :: "gostring \<Rightarrow> u8 \<Rightarrow> int" where
  "strings_IndexByte [] c = -1"
| "strings_IndexByte (x # s) c =
     (if x = c then 0 else let i = strings_IndexByte s c in if i < 0 then -1 else i + 1)"

definition strings_LastIndexByte :: "gostring \<Rightarrow> u8 \<Rightarrow> int" where
  "strings_LastIndexByte s c =
     (let i = strings_IndexByte (rev s) c in if i < 0 then -1 else int (length s) - 1 - i)"

section \<open>Keys\<close>

definition validHeaderKey :: "gostring \<Rightarrow> bool" where
  "validHeaderKey v \<longleftrightarrow> v \<noteq> [] \<and> list_all (\<lambda>c. \<not> (c \<ge> 127 \<or> (65 \<le> c \<and> c \<le> 90))) v"

definition badHeader :: "gostring \<Rightarrow> bool" where
  "badHeader key \<longleftrightarrow> key \<in> set (map str
     [''connection'', ''keep-alive'', ''proxy-connection'', ''transfer-encoding'', ''host'', ''upgrade''])"

text \<open>The constants of \<open>crypto/tls\<close> by their IANA numbers.\<close>

definition badCipher :: "u16 \<Rightarrow> bool" where
  "badCipher cipher \<longleftrightarrow> cipher \<in> set [0x0005, 0x000a, 0x002f, 0x0035, 0xc007, 0xc009, 0xc00a, 0xc011, 0xc012, 0xc013, 0xc014]"

definition pseudoHeader :: "gostring list" where
  "pseudoHeader = map str ['':method'', '':scheme'', '':authority'', '':path'', '':status'']"

definition commonHeader_names :: "gostring list" where
  "commonHeader_names = map str
    [''Accept'', ''Accept-Charset'', ''Accept-Encoding'', ''Accept-Language'', ''Accept-Ranges'',
     ''Age'', ''Allow'', ''ALPN'', ''Authentication-Info'', ''Authorization'', ''Cache-Control'',
     ''Connection'', ''Content-Disposition'', ''Content-Encoding'', ''Content-Language'',
     ''Content-Length'', ''Content-Location'', ''Content-Range'', ''Content-Type'', ''Cookie'',
     ''DASL'', ''DAV'', ''Date'', ''Depth'', ''Destination'', ''ETag'', ''Expect'', ''Expires'',
     ''Forwarded'', ''From'', ''Host'', ''HTTP2-Settings'', ''If'', ''If-Match'',
     ''If-Modified-Since'', ''If-None-Match'', ''If-Range'', ''If-Schedule-Tag-Match'',
     ''If-Unmodified-Since'', ''Last-Modified'', ''Location'', ''Lock-Token'', ''Max-Forwards'',
     ''MIME-Version'', ''Ordering-Type'', ''Origin'', ''Overwrite'', ''Position'', ''Pragma'',
     ''Prefer'', ''Preference-Applied'', ''Proxy-Authenticate'', ''Proxy-Authentication-Info'',
     ''Proxy-Authorization'', ''Public-Key-Pins'', ''Public-Key-Pins-Report-Only'', ''Range'',
     ''Referer'', ''Retry-After'', ''Schedule-Reply'', ''Schedule-Tag'', ''Sec-WebSocket-Accept'',
     ''Sec-WebSocket-Extensions'', ''Sec-WebSocket-Key'', ''Sec-WebSocket-Protocol'',
     ''Sec-WebSocket-Version'', ''Server'', ''Set-Cookie'', ''SLUG'', ''Strict-Transport-Security'',
     ''TE'', ''Timeout'', ''Trailer'', ''Transfer-Encoding'', ''Upgrade'', ''User-Agent'', ''Vary'',
     ''Via'', ''WWW-Authenticate'', ''Warning'', ''Access-Control-Allow-Credentials'',
     ''Access-Control-Allow-Headers'', ''Access-Control-Allow-Methods'',
     ''Access-Control-Allow-Origin'', ''Access-Control-Max-Age'', ''Access-Control-Request-Method'',
     ''Access-Control-Request-Headers'', ''Compliance'', ''Content-Transfer-Encoding'', ''Cost'',
     ''EDIINT-Features'', ''Message-ID'', ''Non-Compliance'', ''Optional'', ''Resolution-Hint'',
     ''Resolver-Location'', ''SubOK'', ''Subst'', ''Title'', ''UA-Color'', ''UA-Media'',
     ''UA-Pixels'', ''UA-Resolution'', ''UA-Windowpixels'', ''Version'', ''X-Device-Accept'',
     ''X-Device-Accept-Charset'', ''X-Device-Accept-Encoding'', ''X-Device-Accept-Language'',
     ''X-Device-User-Agent'']"

definition commonHeader :: "gostring \<Rightarrow> gostring option" where
  "commonHeader = fold (\<lambda>v m. m(v \<mapsto> map lower v, map lower v \<mapsto> map lower v)) commonHeader_names Map.empty"

definition CanonicalHTTP2HeaderKey :: "unicode \<Rightarrow> gostring \<Rightarrow> gostring" where
  "CanonicalHTTP2HeaderKey U s =
     (case commonHeader s of
        Some v \<Rightarrow> v
      | None \<Rightarrow> if validHeaderKey s then s else strings_ToLower U s)"

section \<open>Header collections\<close>

definition Header_lookup :: "Header \<Rightarrow> gostring \<Rightarrow> gostring list" where
  "Header_lookup h k =
     (case h of None \<Rightarrow> [] | Some al \<Rightarrow> (case map_of al k of None \<Rightarrow> [] | Some vv \<Rightarrow> vv))"

definition Header_put :: "Header \<Rightarrow> gostring \<Rightarrow> gostring list \<Rightarrow> Header option" where
  "Header_put h k vv = (case h of None \<Rightarrow> None | Some al \<Rightarrow> Some (Some (AList.update k vv al)))"

definition Header_get :: "Header \<Rightarrow> gostring \<Rightarrow> gostring" where
  "Header_get h key = (case Header_lookup h key of v # _ \<Rightarrow> v | [] \<Rightarrow> [])"

definition Header_Method :: "Header \<Rightarrow> gostring" where
  "Header_Method h = Header_get h (str '':method'')"
definition Header_SetMethod :: "Header \<Rightarrow> gostring \<Rightarrow> Header option" where
  "Header_SetMethod h v = Header_put h (str '':method'') [v]"
definition Header_Scheme :: "Header \<Rightarrow> gostring" where
  "Header_Scheme h = Header_get h (str '':scheme'')"
definition Header_SetScheme :: "Header \<Rightarrow> gostring \<Rightarrow> Header option" where
  "Header_SetScheme h v = Header_put h (str '':scheme'') [v]"
definition Header_Authority :: "Header \<Rightarrow> gostring" where
  "Header_Authority h = Header_get h (str '':authority'')"
definition Header_SetAuthority :: "Header \<Rightarrow> gostring \<Rightarrow> Header option" where
  "Header_SetAuthority h v = Header_put h (str '':authority'') [v]"
definition Header_Path :: "Header \<Rightarrow> gostring" where
  "Header_Path h = Header_get h (str '':path'')"
definition Header_SetPath :: "Header \<Rightarrow> gostring \<Rightarrow> Header option" where
  "Header_SetPath h v = Header_put h (str '':path'') [v]"
definition Header_Status :: "Header \<Rightarrow> gostring" where
  "Header_Status h = Header_get h (str '':status'')"
definition Header_SetStatus :: "Header \<Rightarrow> gostring \<Rightarrow> Header option" where
  "Header_SetStatus h v = Header_put h (str '':status'') [v]"

definition Header_Add :: "unicode \<Rightarrow> Header \<Rightarrow> gostring \<Rightarrow> gostring \<Rightarrow> Header option" where
  "Header_Add U h key value =
     (case key of
        [] \<Rightarrow> None
      | c # _ \<Rightarrow>
          if c \<noteq> 58 then
            let key = CanonicalHTTP2HeaderKey U key in Header_put h key (Header_lookup h key @ [value])
          else Some h)"

definition Header_Set :: "unicode \<Rightarrow> Header \<Rightarrow> gostring \<Rightarrow> gostring \<Rightarrow> Header option" where
  "Header_Set U h key value = Header_put h (CanonicalHTTP2HeaderKey U key) [value]"

definition Header_Get :: "unicode \<Rightarrow> Header \<Rightarrow> gostring \<Rightarrow> gostring" where
  "Header_Get U h key =
     (if h = None then []
      else (case Header_lookup h (CanonicalHTTP2HeaderKey U key) of [] \<Rightarrow> [] | v # _ \<Rightarrow> v))"

definition Header_Del :: "unicode \<Rightarrow> Header \<Rightarrow> gostring \<Rightarrow> Header" where
  "Header_Del U h key = map_option (AList.delete (CanonicalHTTP2HeaderKey U key)) h"

definition Header_Len :: "Header \<Rightarrow> nat" where
  "Header_Len h = (case h of None \<Rightarrow> 0 | Some al \<Rightarrow> (\<Sum>(k, vv)\<leftarrow>al. length vv))"

definition errMalformedHeader :: h2error where
  "errMalformedHeader = MalformedError (str ''invalid header field'')"

definition Header_add :: "Header \<Rightarrow> gostring \<Rightarrow> gostring \<Rightarrow> (h2error option \<times> Header) option" where
  "Header_add h key value =
     (case key of
        [] \<Rightarrow> None
      | c # _ \<Rightarrow>
          if c = 58 \<and> (Header_Len h > 5 \<or> key \<notin> set pseudoHeader) then Some (Some errMalformedHeader, h)
          else if \<not> validHeaderKey key then Some (Some errMalformedHeader, h)
          else
            let h = (case h of None \<Rightarrow> Some [] | Some al \<Rightarrow> Some al)
            in do { h \<leftarrow> Header_put h key (Header_lookup h key @ [value]); Some (None, h) })"

section \<open>From HTTP/1 headers\<close>

fun Add_all :: "unicode \<Rightarrow> Header \<Rightarrow> gostring \<Rightarrow> gostring list \<Rightarrow> Header option" where
  "Add_all U h k [] = Some h"
| "Add_all U h k (v # vv) = do { h \<leftarrow> Header_Add U h k v; Add_all U h k vv }"

fun Add_cookies :: "unicode \<Rightarrow> Header \<Rightarrow> gostring \<Rightarrow> gostring list \<Rightarrow> Header option" where
  "Add_cookies U h k [] = Some h"
| "Add_cookies U h k (v # vv) =
     do {
       h \<leftarrow> (if strings_IndexByte v 59 > 0
             then Add_all U h k (map (strings_TrimSpace U) (strings_Split v 59))
             else Header_Add U h k v);
       Add_cookies U h k vv
     }"

definition addHeader_one ::
  "unicode \<Rightarrow> Header \<Rightarrow> gostring \<Rightarrow> gostring list \<Rightarrow> (h2error option \<times> Header) option" where
  "addHeader_one U h k vv =
     (let k = CanonicalHTTP2HeaderKey U k in
      if badHeader k then Some (None, h)
      else if k = str ''cookie'' then map_option (Pair None) (Add_cookies U h k vv)
      else if k = str ''te'' \<and> length vv \<noteq> 1 \<and> vv = [] then None
      else if k = str ''te'' \<and> length vv \<noteq> 1 \<and> strings_ToLower U (hd vv) \<noteq> str ''trailers''
        then Some (Some (MalformedError (str ''bad value for te: '' @ hd vv)), h)
      else map_option (Pair None) (Add_all U h k vv))"

fun Header_addHeader :: "unicode \<Rightarrow> Header \<Rightarrow> (gostring \<times> gostring list) list \<Rightarrow> (h2error option \<times> Header) option" where
  "Header_addHeader U h [] = Some (None, h)"
| "Header_addHeader U h ((k, vv) # hs) =
     (case addHeader_one U h k vv of
        None \<Rightarrow> None
      | Some (Some e, h) \<Rightarrow> Some (Some e, h)
      | Some (None, h) \<Rightarrow> Header_addHeader U h hs)"

text \<open>
  The request a client sends: the fields of \<open>http.Request\<close> and of its \<open>URL\<close> that the code
  reads; \<open>rq_RequestURI\<close> is what \<open>URL.RequestURI\<close> of \<open>net/url\<close> returns for it.
\<close>

record request =
  rq_Method :: gostring
  rq_Scheme :: gostring
  rq_Host :: gostring
  rq_RequestURI :: gostring
  rq_Fragment :: gostring
  rq_Header :: "(gostring \<times> gostring list) list"

definition scheme_of_port :: "gostring \<Rightarrow> gostring" where
  "scheme_of_port host =
     (let i = strings_LastIndexByte host 58 in
      if i \<ge> 0 \<and> i > strings_LastIndexByte host 93 then
        let p = drop (nat i) host in
        if p = str '':http'' \<or> p = str '':80'' then str ''http''
        else if p = str '':https'' \<or> p = str '':443'' then str ''https''
        else []
      else [])"

definition request_scheme :: "request \<Rightarrow> bool \<Rightarrow> Header \<Rightarrow> (h2error + Header) option" where
  "request_scheme req skipVerify h =
     (if rq_Scheme req \<noteq> [] then map_option Inr (Header_SetScheme h (rq_Scheme req))
      else
        let scheme = scheme_of_port (rq_Host req) in
        if scheme \<noteq> [] then map_option Inr (Header_SetScheme h scheme)
        else if \<not> skipVerify then Some (Inl (MalformedError (str '':scheme must be specified'')))
        else Some (Inr h))"

definition request_path :: "request \<Rightarrow> bool \<Rightarrow> Header \<Rightarrow> (h2error + Header) option" where
  "request_path req skipVerify h =
     (if rq_RequestURI req \<noteq> [] then
        map_option Inr (Header_SetPath h
          (if rq_Fragment req \<noteq> [] then rq_RequestURI req @ str ''#'' @ rq_Fragment req else rq_RequestURI req))
      else if \<not> skipVerify then Some (Inl (MalformedError (str '':path must be specified'')))
      else map_option Inr (Header_SetPath h (str ''/'')))"

definition requestToHeader :: "unicode \<Rightarrow> request \<Rightarrow> bool \<Rightarrow> (h2error + Header) option" where
  "requestToHeader U req skipVerify =
     do {
       r \<leftarrow> (if rq_Method req \<noteq> str ''CONNECT'' then
               do {
                 h \<leftarrow> Header_SetMethod (Some []) (rq_Method req);
                 r \<leftarrow> request_scheme req skipVerify h;
                 (case r of Inl e \<Rightarrow> Some (Inl e) | Inr h \<Rightarrow> request_path req skipVerify h)
               }
             else Some (Inr (Some [])));
       (case r of
          Inl e \<Rightarrow> Some (Inl e)
        | Inr h \<Rightarrow>
            do {
              h \<leftarrow> Header_SetAuthority h (rq_Host req);
              (e, h) \<leftarrow> Header_addHeader U h (rq_Header req);
              Some (case e of Some e \<Rightarrow> Inl e | None \<Rightarrow> Inr h)
            })
     }"

section \<open>Values in HTTP/1 headers\<close>

fun splitHeader :: "unicode \<Rightarrow> (gostring \<times> gostring list) list \<Rightarrow> gostring \<Rightarrow> gostring list" where
  "splitHeader U [] key = []"
| "splitHeader U ((k, v) # hs) key =
     (if strings_EqualFold U key k
      then concat (map (\<lambda>vv. map (strings_TrimSpace U) (strings_Split vv 44)) v)
      else splitHeader U hs key)"

definition containsValue :: "unicode \<Rightarrow> (gostring \<times> gostring list) list \<Rightarrow> gostring \<Rightarrow> gostring list \<Rightarrow> bool" where
  "containsValue U header key values =
     (let ss = splitHeader U header key in
      if length ss = 0 then False
      else list_all (\<lambda>v. list_ex (\<lambda>s. strings_EqualFold U v s) ss) values)"

section \<open>Canonical keys\<close>

lemma lower_lower [simp]: "lower (lower c) = lower c"
  by (auto simp: lower_def word_le_nat_alt unat_word_ariths)

lemma lower_ascii [simp]: "c < 128 \<Longrightarrow> lower c < 128"
  by (auto simp: lower_def word_le_nat_alt word_less_nat_alt unat_word_ariths)

lemma ascii_lower [simp]: "ascii s \<Longrightarrow> ascii (map lower s)"
  by (auto simp: ascii_def list_all_iff)

lemma map_lower_idem [simp]: "map lower (map lower s) = map lower s"
  by simp

lemma commonHeader_names_ascii: "list_all ascii commonHeader_names"
  unfolding commonHeader_names_def by code_simp

lemma commonHeader_fold:
  assumes "list_all ascii names" "\<And>k v. m k = Some v \<Longrightarrow> ascii k \<and> v = map lower k"
    and "fold (\<lambda>v m. m(v \<mapsto> map lower v, map lower v \<mapsto> map lower v)) names m k = Some v"
  shows "ascii k \<and> v = map lower k"
  using assms
proof (induction names arbitrary: m)
  case (Cons a names)
  show ?case
    by (rule Cons.IH [OF _ _ Cons.prems(3) [unfolded fold_Cons o_apply]])
      (use Cons.prems(1, 2) in \<open>auto split: if_splits\<close>)
qed simp

lemma commonHeader_Some: "commonHeader k = Some v \<Longrightarrow> ascii k \<and> v = map lower k"
  unfolding commonHeader_def by (rule commonHeader_fold [OF commonHeader_names_ascii]) auto

lemma validHeaderKey_lower: "validHeaderKey s \<Longrightarrow> ascii s \<and> map lower s = s"
  by (fastforce simp: validHeaderKey_def ascii_def lower_def list_all_iff map_idI word_le_nat_alt word_less_nat_alt)

lemma canonical_ToLower: "CanonicalHTTP2HeaderKey U s = strings_ToLower U s"
  by (auto simp: CanonicalHTTP2HeaderKey_def strings_ToLower_def
      dest: commonHeader_Some validHeaderKey_lower split: option.splits)

text \<open>What the proofs use of the case mapping of the standard library: it is idempotent.\<close>

definition ToLower_idem :: "unicode \<Rightarrow> bool" where
  "ToLower_idem U \<longleftrightarrow> (\<forall>s. strings_ToLower U (u_ToLower U s) = u_ToLower U s)"

lemma bytewise_ToLower: "ToLower_idem bytewise"
  using lower_lower unfolding lower_def by (simp add: ToLower_idem_def strings_ToLower_def bytewise_def lower_def)

lemma ToLower_ToLower:
  "ToLower_idem U \<Longrightarrow> strings_ToLower U (strings_ToLower U s) = strings_ToLower U s"
  by (simp add: ToLower_idem_def strings_ToLower_def [of U s]) (simp add: strings_ToLower_def)

lemma canonical_idem [simp]:
  "ToLower_idem U \<Longrightarrow> CanonicalHTTP2HeaderKey U (CanonicalHTTP2HeaderKey U s) = CanonicalHTTP2HeaderKey U s"
  by (simp add: canonical_ToLower ToLower_ToLower)

section \<open>A header collection as a multimap\<close>

lemma Header_put_lookup:
  "Header_put h k vv = Some h' \<Longrightarrow> Header_lookup h' j = (if j = k then vv else Header_lookup h j)"
  by (auto simp: Header_put_def Header_lookup_def update_conv split: option.splits)

lemma Header_lookup_update [simp]:
  "Header_lookup (Some (AList.update k vv al)) j = (if j = k then vv else Header_lookup (Some al) j)"
  by (auto simp: Header_lookup_def update_conv)

lemma Header_lookup_empty [simp]: "Header_lookup None k = []" "Header_lookup (Some []) k = []"
  by (simp_all add: Header_lookup_def)

lemma Header_put_Some [simp]: "Header_put (Some al) k vv = Some (Some (AList.update k vv al))"
  by (simp add: Header_put_def)

lemma Header_put_nonnil: "Header_put h k vv = Some h' \<Longrightarrow> h' \<noteq> None"
  by (auto simp: Header_put_def split: option.splits)

lemma Header_Add_lookup:
  "Header_Add U h key value = Some h' \<Longrightarrow> Header_lookup h' k =
     (if hd key \<noteq> 58 \<and> k = CanonicalHTTP2HeaderKey U key then Header_lookup h k @ [value] else Header_lookup h k)"
  by (auto simp: Header_Add_def Let_def dest: Header_put_lookup split: list.splits if_splits)

lemma Header_Del_lookup:
  "Header_lookup (Header_Del U h key) k = (if k = CanonicalHTTP2HeaderKey U key then [] else Header_lookup h k)"
  by (cases h) (auto simp: Header_Del_def Header_lookup_def delete_conv)

lemma Header_Get_lookup:
  "Header_Get U h key = (case Header_lookup h (strings_ToLower U key) of [] \<Rightarrow> [] | v # _ \<Rightarrow> v)"
  by (simp add: Header_Get_def canonical_ToLower Header_lookup_def split: option.splits)

section \<open>Headers received\<close>

text \<open>
  The collections that \<open>Header.add\<close> builds from decoded fields: distinct keys, every key a
  valid one in lower case, and of the keys with a colon only the five pseudo headers.
\<close>

definition header_wf :: "Header \<Rightarrow> bool" where
  "header_wf h \<longleftrightarrow>
     (case h of
        None \<Rightarrow> True
      | Some al \<Rightarrow> distinct (map fst al) \<and> (\<forall>(k, vv)\<in>set al.
          validHeaderKey k \<and> vv \<noteq> [] \<and> (hd k = 58 \<longrightarrow> k \<in> set pseudoHeader)))"

lemma AList_update_set:
  "(k', vv') \<in> set (AList.update k vv al) \<Longrightarrow> (k' = k \<and> vv' = vv) \<or> (k', vv') \<in> set al"
  by (induction al) (auto split: if_splits)

lemma Header_add_wf:
  assumes "header_wf h" "Header_add h key value = Some (e, h')"
  shows "header_wf h'"
proof (cases "h' = h")
  case False
  then show ?thesis
    using assms
    by (auto simp: Header_add_def header_wf_def Let_def distinct_update split: list.splits if_splits option.splits
        dest!: AList_update_set)
qed (use assms in simp)

lemma Header_add_panic: "Header_add h key value = None \<longleftrightarrow> key = []"
  by (auto simp: Header_add_def Let_def Header_put_def split: list.splits option.splits)

lemma Header_add_lookup:
  assumes "Header_add h key value = Some (e, h')"
  shows "if e = None then \<forall>k. Header_lookup h' k = (if k = key then Header_lookup h k @ [value] else Header_lookup h k)
    else e = Some errMalformedHeader \<and> h' = h"
  using assms
  by (cases h) (auto simp: Header_add_def Let_def Header_lookup_update [of _ _ "[]", simplified]
      split: list.splits if_splits)

section \<open>Headers sent\<close>

lemma Add_all_lookup:
  assumes "CanonicalHTTP2HeaderKey U k = k" "Add_all U h k vv = Some h'" "j \<noteq> k \<or> hd k = 58"
  shows "Header_lookup h' j = Header_lookup h j"
  using assms
proof (induction U h k vv rule: Add_all.induct)
  case (2 U h k v vv)
  then show ?case by (auto simp: Header_Add_lookup split: bind_splits)
qed simp

lemma Add_cookies_lookup:
  assumes "CanonicalHTTP2HeaderKey U k = k" "Add_cookies U h k vv = Some h'" "j \<noteq> k \<or> hd k = 58"
  shows "Header_lookup h' j = Header_lookup h j"
  using assms
proof (induction U h k vv rule: Add_cookies.induct)
  case (2 U h k v vv)
  then show ?case
    by (auto simp: Header_Add_lookup Add_all_lookup split: bind_splits if_splits)
qed simp

text \<open>Connection-specific headers are dropped and pseudo headers are left alone.\<close>

lemma addHeader_one_lookup:
  assumes "ToLower_idem U" "addHeader_one U h k vv = Some (e, h')" "badHeader j \<or> hd j = 58"
  shows "Header_lookup h' j = Header_lookup h j"
proof -
  define c where "c = CanonicalHTTP2HeaderKey U k"
  have canon: "CanonicalHTTP2HeaderKey U c = c" using assms(1) by (simp add: c_def)
  have "Header_lookup x j = Header_lookup h j" if "Add_all U h c vv = Some x \<or> Add_cookies U h c vv = Some x" "\<not> badHeader c" for x
    using Add_all_lookup [OF canon, of h vv x j] Add_cookies_lookup [OF canon, of h vv x j] that assms(3) by auto
  with assms(2) show ?thesis
    by (auto simp: addHeader_one_def Let_def c_def [symmetric] split: if_splits)
qed

lemma addHeader_lookup:
  assumes "ToLower_idem U" "Header_addHeader U h hs = Some (e, h')" "badHeader j \<or> hd j = 58"
  shows "Header_lookup h' j = Header_lookup h j"
  using assms
proof (induction U h hs rule: Header_addHeader.induct)
  case (2 U h k vv hs)
  then show ?case
    by (auto split: option.splits prod.splits dest!: addHeader_one_lookup [OF "2.prems"(1) _ "2.prems"(3)])
qed simp

lemma Header_SetMethod_lookup:
  "Header_SetMethod h v = Some h' \<Longrightarrow> Header_lookup h' k = (if k = str '':method'' then [v] else Header_lookup h k)"
  by (simp add: Header_SetMethod_def Header_put_lookup)

lemma Header_SetScheme_lookup:
  "Header_SetScheme h v = Some h' \<Longrightarrow> Header_lookup h' k = (if k = str '':scheme'' then [v] else Header_lookup h k)"
  by (simp add: Header_SetScheme_def Header_put_lookup)

lemma Header_SetPath_lookup:
  "Header_SetPath h v = Some h' \<Longrightarrow> Header_lookup h' k = (if k = str '':path'' then [v] else Header_lookup h k)"
  by (simp add: Header_SetPath_def Header_put_lookup)

lemma Header_SetAuthority_lookup:
  "Header_SetAuthority h v = Some h' \<Longrightarrow> Header_lookup h' k = (if k = str '':authority'' then [v] else Header_lookup h k)"
  by (simp add: Header_SetAuthority_def Header_put_lookup)

lemmas Set_lookup = Header_SetMethod_lookup Header_SetScheme_lookup Header_SetPath_lookup Header_SetAuthority_lookup

lemma request_scheme_lookup:
  "request_scheme req sv h = Some (Inr h') \<Longrightarrow> k \<noteq> str '':scheme'' \<Longrightarrow> Header_lookup h' k = Header_lookup h k"
  by (auto simp: request_scheme_def Let_def Set_lookup split: if_splits)

lemma request_path_lookup:
  "request_path req sv h = Some (Inr h') \<Longrightarrow> Header_lookup h' k =
     (if k = str '':path'' then
        [if rq_RequestURI req = [] then str ''/''
         else if rq_Fragment req \<noteq> [] then rq_RequestURI req @ str ''#'' @ rq_Fragment req
         else rq_RequestURI req]
      else Header_lookup h k)"
  by (auto simp: request_path_def Set_lookup split: if_splits)

lemma request_scheme_set:
  "request_scheme req sv h = Some (Inr h') \<Longrightarrow> \<not> sv \<Longrightarrow> \<exists>v. v \<noteq> [] \<and> Header_lookup h' (str '':scheme'') = [v]"
  by (auto simp: request_scheme_def Let_def Set_lookup split: if_splits)

lemma pseudo_names [simp]:
  "str '':method'' \<noteq> str '':scheme''" "str '':method'' \<noteq> str '':authority''" "str '':method'' \<noteq> str '':path''"
  "str '':scheme'' \<noteq> str '':authority''" "str '':scheme'' \<noteq> str '':path''" "str '':authority'' \<noteq> str '':path''"
  "str '':scheme'' \<noteq> str '':method''" "str '':authority'' \<noteq> str '':method''" "str '':path'' \<noteq> str '':method''"
  "str '':authority'' \<noteq> str '':scheme''" "str '':path'' \<noteq> str '':scheme''" "str '':path'' \<noteq> str '':authority''"
  "str '':status'' \<noteq> str '':method''" "str '':status'' \<noteq> str '':scheme''" "str '':status'' \<noteq> str '':authority''"
  "str '':status'' \<noteq> str '':path''"
  by (simp_all add: str_def)

lemma pseudo_hd [simp]:
  "hd (str '':method'') = 58" "hd (str '':scheme'') = 58" "hd (str '':authority'') = 58" "hd (str '':path'') = 58"
  "hd (str '':status'') = 58"
  by (simp_all add: str_def)

lemma badHeader_hd: "badHeader k \<Longrightarrow> hd k \<noteq> 58"
  by (auto simp: badHeader_def str_def)

lemma requestToHeader_parts:
  assumes "requestToHeader U req sv = Some (Inr h)"
  obtains h0 h1 where "Header_SetAuthority h0 (rq_Host req) = Some h1" "Header_addHeader U h1 (rq_Header req) = Some (None, h)"
    "if rq_Method req = str ''CONNECT'' then h0 = Some []
     else \<exists>a b. Header_SetMethod (Some []) (rq_Method req) = Some a \<and> request_scheme req sv a = Some (Inr b)
       \<and> request_path req sv b = Some (Inr h0)"
  using assms unfolding requestToHeader_def
  by (auto split: bind_splits sum.splits option.splits if_splits)

lemma requestToHeader_lookup:
  assumes "ToLower_idem U" "requestToHeader U req sv = Some (Inr h)"
  shows "(\<forall>k. badHeader k \<longrightarrow> Header_lookup h k = [])
    \<and> Header_lookup h (str '':authority'') = [rq_Host req] \<and> Header_lookup h (str '':status'') = []
    \<and> (if rq_Method req = str ''CONNECT''
       then Header_lookup h (str '':method'') = [] \<and> Header_lookup h (str '':scheme'') = [] \<and> Header_lookup h (str '':path'') = []
       else Header_lookup h (str '':method'') = [rq_Method req]
         \<and> Header_lookup h (str '':path'') =
             [if rq_RequestURI req = [] then str ''/''
              else if rq_Fragment req \<noteq> [] then rq_RequestURI req @ str ''#'' @ rq_Fragment req else rq_RequestURI req]
         \<and> (\<not> sv \<longrightarrow> (\<exists>v. v \<noteq> [] \<and> Header_lookup h (str '':scheme'') = [v])))"
proof -
  from requestToHeader_parts [OF assms(2)] obtain h0 h1 where
    p: "Header_SetAuthority h0 (rq_Host req) = Some h1" "Header_addHeader U h1 (rq_Header req) = Some (None, h)"
    "if rq_Method req = str ''CONNECT'' then h0 = Some []
     else \<exists>a b. Header_SetMethod (Some []) (rq_Method req) = Some a \<and> request_scheme req sv a = Some (Inr b)
       \<and> request_path req sv b = Some (Inr h0)" .
  have h: "Header_lookup h k = (if k = str '':authority'' then [rq_Host req] else Header_lookup h0 k)" if "badHeader k \<or> hd k = 58" for k
    using addHeader_lookup [OF assms(1) p(2) that] Header_SetAuthority_lookup [OF p(1)] by simp
  have bad: "k \<noteq> str '':authority''" "k \<noteq> str '':method''" "k \<noteq> str '':scheme''" "k \<noteq> str '':path''" if "badHeader k" for k
    using badHeader_hd [OF that] by auto
  show ?thesis
  proof (cases "rq_Method req = str ''CONNECT''")
    case True
    with p(3) h bad show ?thesis by auto
  next
    case False
    with p(3) obtain a b where ab: "Header_SetMethod (Some []) (rq_Method req) = Some a"
      "request_scheme req sv a = Some (Inr b)" "request_path req sv b = Some (Inr h0)" by auto
    note l = request_path_lookup [OF ab(3)] request_scheme_lookup [OF ab(2)] Header_SetMethod_lookup [OF ab(1)]
    have "\<exists>v. v \<noteq> [] \<and> Header_lookup b (str '':scheme'') = [v]" if "\<not> sv"
      using request_scheme_set [OF ab(2) that] .
    with False h l bad show ?thesis by auto
  qed
qed

end
