(* ===== verification/H2_Write.thy ===== *)
theory H2_Write
  imports H2_Header Hpack_Decode
begin

text \<open>
  The frame writer: \<^verbatim>\<open>src/write.go\<close>.

  The \<open>io.Writer\<close> below it is its output so far and its fault: it accepts everything, or fails
  with a given error once the given number of bytes has been accepted.  The order in which Go
  ranges over the map \<open>pseudoHeader\<close> is the parameter \<open>ord\<close>, and the order of a header is that of
  its association list.  The loop of a DATA frame and the loop at the label \<open>write\<close> end only
  when the frame size limit is large enough; they are partial functions, \<open>None\<close> when they do not
  return.  \<open>None\<close> is also the result of an operation that panics.
\<close>

record frameWriter =
  w_out :: bytes
  w_fault :: "(nat \<times> h2error) option"
  w_buf :: bytes
  w_maxFrameSize :: u32
  w_err :: "h2error option"
  w_enc :: Encoder
  w_hpackBuf :: bytes
  w_maxHeaderListSize :: u32

definition newFrameWriter :: "(nat \<times> h2error) option \<Rightarrow> frameWriter" where
  "newFrameWriter fault =
     \<lparr>w_out = [], w_fault = fault, w_buf = [], w_maxFrameSize = defaultMaxFrameSize, w_err = None,
      w_enc = NewEncoder defaultHeaderTableSize, w_hpackBuf = [], w_maxHeaderListSize = 0\<rparr>"

section \<open>Output\<close>

definition out_Write :: "frameWriter \<Rightarrow> bytes \<Rightarrow> h2error option \<times> frameWriter" where
  "out_Write w src =
     (case w_fault w of
        None \<Rightarrow> (None, w\<lparr>w_out := w_out w @ src\<rparr>)
      | Some (k, e) \<Rightarrow>
          if length src \<le> k then (None, w\<lparr>w_out := w_out w @ src, w_fault := Some (k - length src, e)\<rparr>)
          else (Some e, w\<lparr>w_out := w_out w @ take k src, w_fault := Some (0, e)\<rparr>))"

definition frameWriter_Write :: "frameWriter \<Rightarrow> bytes \<Rightarrow> frameWriter" where
  "frameWriter_Write w src =
     (if w_err w \<noteq> None then w else case out_Write w src of (e, w) \<Rightarrow> w\<lparr>w_err := e\<rparr>)"

text \<open>\<open>io.CopyN\<close> from a reader that yields the given bytes and then ends.\<close>

definition io_CopyN :: "frameWriter \<Rightarrow> bytes \<Rightarrow> nat \<Rightarrow> h2error option \<times> frameWriter" where
  "io_CopyN w rd n =
     (case out_Write w (take n rd) of
        (Some e, w) \<Rightarrow> (Some e, w)
      | (None, w) \<Rightarrow> (if length rd < n then Some EOF else None, w))"

definition frame_header :: "u32 \<Rightarrow> FrameType \<Rightarrow> Flags \<Rightarrow> u32 \<Rightarrow> bytes" where
  "frame_header payloadLen frameType flags streamID =
     [ucast (drop_bit 16 payloadLen), ucast (drop_bit 8 payloadLen), ucast payloadLen, frameType, flags,
      ucast (drop_bit 24 streamID), ucast (drop_bit 16 streamID), ucast (drop_bit 8 streamID), ucast streamID]"

definition writeFrameHeader :: "frameWriter \<Rightarrow> u32 \<Rightarrow> FrameType \<Rightarrow> Flags \<Rightarrow> u32 \<Rightarrow> frameWriter" where
  "writeFrameHeader w payloadLen frameType flags streamID =
     w\<lparr>w_buf := frame_header payloadLen frameType flags streamID\<rparr>"

definition writeByte :: "frameWriter \<Rightarrow> u8 \<Rightarrow> frameWriter" where
  "writeByte w v = w\<lparr>w_buf := w_buf w @ [v]\<rparr>"

definition writeUint16 :: "frameWriter \<Rightarrow> u16 \<Rightarrow> frameWriter" where
  "writeUint16 w v = w\<lparr>w_buf := w_buf w @ [ucast (drop_bit 8 v), ucast v]\<rparr>"

definition uint32_bytes :: "u32 \<Rightarrow> bytes" where
  "uint32_bytes v = [ucast (drop_bit 24 v), ucast (drop_bit 16 v), ucast (drop_bit 8 v), ucast v]"

definition writeUint32 :: "frameWriter \<Rightarrow> u32 \<Rightarrow> frameWriter" where
  "writeUint32 w v = w\<lparr>w_buf := w_buf w @ uint32_bytes v\<rparr>"

definition validStreamID :: "u32 \<Rightarrow> bool" where
  "validStreamID streamID \<longleftrightarrow> streamID \<noteq> 0 \<and> streamID AND 0x80000000 = 0"

definition zeroBuf :: bytes where
  "zeroBuf = replicate 255 0"

section \<open>DATA\<close>

definition data_pad :: "u32 \<Rightarrow> u32 \<Rightarrow> u32 \<Rightarrow> u32" where
  "data_pad maxFrameSize dataLen padding =
     (let padLen = maxFrameSize - dataLen;
          padLen = (if padLen > 0 then padLen - 1 else padLen)
      in if padLen > padding then padding else padLen)"

definition write_data_frame :: "frameWriter \<Rightarrow> u32 \<Rightarrow> Flags \<Rightarrow> bytes \<Rightarrow> u32 \<Rightarrow> u32 \<Rightarrow> frameWriter" where
  "write_data_frame w sid flags rd dataLen padLen =
     (let w = (if padLen > 0
               then writeByte (writeFrameHeader w (dataLen + padLen + 1) FrameData (flags OR FlagPadded) sid) (ucast padLen)
               else writeFrameHeader w dataLen FrameData flags sid);
          w = frameWriter_Write w (w_buf w);
          w = (if dataLen > 0 then case io_CopyN w rd (unat dataLen) of (e, w) \<Rightarrow> w\<lparr>w_err := e\<rparr> else w)
      in frameWriter_Write w (take (unat padLen) zeroBuf))"

partial_function (option) data_loop ::
  "u32 \<Rightarrow> bool \<Rightarrow> frameWriter \<Rightarrow> bytes \<Rightarrow> u32 \<Rightarrow> u32 \<Rightarrow> bool \<Rightarrow> frameWriter option" where
  "data_loop sid endStream w rd remainingData padding lastFrame =
     (if lastFrame \<or> w_err w \<noteq> None then Some w
      else
        let dataLen = (if remainingData > w_maxFrameSize w then w_maxFrameSize w else remainingData);
            padLen = data_pad (w_maxFrameSize w) dataLen padding;
            remainingData = remainingData - dataLen;
            padding = padding - padLen;
            lastFrame = (remainingData = 0 \<and> padding = 0);
            flags = (if endStream \<and> lastFrame then FlagEndStream else 0)
        in data_loop sid endStream (write_data_frame w sid flags rd dataLen padLen) (drop (unat dataLen) rd)
             remainingData padding lastFrame)"

definition bad_stream_ID :: "u32 \<Rightarrow> h2error" where
  "bad_stream_ID sid = Errorf (str ''bad stream ID: '' @ dec_string (unat sid))"

definition DataFrame_writeTo ::
  "frameWriter \<Rightarrow> u32 \<Rightarrow> bytes option \<Rightarrow> int \<Rightarrow> u8 \<Rightarrow> bool \<Rightarrow> (h2error option \<times> frameWriter) option" where
  "DataFrame_writeTo w sid data dataLen padLen endStream =
     (if \<not> validStreamID sid then Some (Some (bad_stream_ID sid), w)
      else if dataLen < 0 \<or> (dataLen > 0 \<and> data = None) then Some (Some (Errorf (str ''bad data'')), w)
      else do {
        w \<leftarrow> data_loop sid endStream w (case data of Some b \<Rightarrow> b | None \<Rightarrow> []) (of_int dataLen) (ucast padLen) False;
        Some (w_err w, w)
      })"

section \<open>Header blocks\<close>

text \<open>What HEADERS and PUSH_PROMISE write between the frame header and the fragment.\<close>

definition dependency_word :: "Priority \<Rightarrow> u32" where
  "dependency_word p = (if Exclusive p then StreamDependency p OR 0x80000000 else StreamDependency p)"

definition headers_prefix :: "u8 \<Rightarrow> Priority \<Rightarrow> Flags \<Rightarrow> frameWriter \<Rightarrow> frameWriter" where
  "headers_prefix padLen p flags w =
     (let w = (if Flags_Has flags FlagPadded then writeByte w padLen else w)
      in if Flags_Has flags FlagPriority then writeByte (writeUint32 w (dependency_word p)) (Weight p) else w)"

definition push_prefix :: "u8 \<Rightarrow> u32 \<Rightarrow> Flags \<Rightarrow> frameWriter \<Rightarrow> frameWriter" where
  "push_prefix padLen promised flags w =
     writeUint32 (if Flags_Has flags FlagPadded then writeByte w padLen else w) promised"

definition encode_field :: "frameWriter \<Rightarrow> gostring \<Rightarrow> gostring \<Rightarrow> (u32 \<times> frameWriter) option" where
  "encode_field w k v =
     do {
       (n, buf, enc) \<leftarrow> Encoder_EncodeHeaderField (w_enc w) (w_hpackBuf w) k v False;
       Some (n, w\<lparr>w_enc := enc, w_hpackBuf := buf\<rparr>)
     }"

fun encode_pseudo ::
  "gostring list \<Rightarrow> Header \<Rightarrow> frameWriter \<Rightarrow> u32 \<Rightarrow> int \<Rightarrow> ((h2error + u32 \<times> int) \<times> frameWriter) option" where
  "encode_pseudo [] h w written remainingHeader = Some (Inr (written, remainingHeader), w)"
| "encode_pseudo (k # ks) h w written remainingHeader =
     (case (case h of None \<Rightarrow> None | Some al \<Rightarrow> map_of al k) of
        None \<Rightarrow> encode_pseudo ks h w written remainingHeader
      | Some vv \<Rightarrow>
          if length vv > 1 then Some (Inl errMalformedHeader, w)
          else if vv = [] then None
          else do {
            (n, w) \<leftarrow> encode_field w k (hd vv);
            encode_pseudo ks h w (written + n) (remainingHeader - 1)
          })"

fun encode_values ::
  "gostring \<Rightarrow> gostring list \<Rightarrow> frameWriter \<Rightarrow> u32 \<Rightarrow> int \<Rightarrow> ((h2error + u32 \<times> int) \<times> frameWriter) option" where
  "encode_values k [] w written remainingHeader = Some (Inr (written, remainingHeader), w)"
| "encode_values k (v # vv) w written remainingHeader =
     do {
       (n, w) \<leftarrow> encode_field w k v;
       let written = written + n;
       if w_maxHeaderListSize w \<noteq> 0 \<and> written > w_maxHeaderListSize w then Some (Inl HpackTooLarge, w)
       else encode_values k vv w written (remainingHeader - 1)
     }"

text \<open>The parameters of a header block that do not change while it is written.\<close>

record block =
  b_type :: FrameType
  b_prefix :: "Flags \<Rightarrow> frameWriter \<Rightarrow> frameWriter"
  b_nonFragmentLen :: u32
  b_padLen :: u8
  b_streamID :: u32

definition first_frame :: "block \<Rightarrow> int \<Rightarrow> Flags \<Rightarrow> frameWriter \<Rightarrow> u32 \<times> Flags \<times> frameWriter" where
  "first_frame b remainingHeader flags w =
     (let fragmentLen = of_nat (length (w_hpackBuf w));
          maxFragmentLen = w_maxFrameSize w - b_nonFragmentLen b;
          (fragmentLen, flags) =
            (if fragmentLen > maxFragmentLen then (maxFragmentLen, flags)
             else if remainingHeader = 0 then (fragmentLen, flags OR FlagEndHeaders)
             else (fragmentLen, flags));
          w = writeFrameHeader w (fragmentLen + b_nonFragmentLen b) (b_type b) flags (b_streamID b);
          w = b_prefix b flags w;
          w = frameWriter_Write w (w_buf w);
          w = frameWriter_Write w (take (unat fragmentLen) (w_hpackBuf w));
          w = frameWriter_Write w (take (unat (b_padLen b)) zeroBuf)
      in (fragmentLen, flags, w))"

definition next_frame :: "block \<Rightarrow> int \<Rightarrow> frameWriter \<Rightarrow> u32 \<times> frameWriter" where
  "next_frame b remainingHeader w =
     (let fragmentLen = of_nat (length (w_hpackBuf w));
          (fragmentLen, flags) =
            (if fragmentLen > w_maxFrameSize w then (w_maxFrameSize w, 0)
             else if remainingHeader = 0 then (fragmentLen, FlagEndHeaders)
             else (fragmentLen, 0));
          w = writeFrameHeader w fragmentLen FrameContinuation flags (b_streamID b);
          w = frameWriter_Write w (w_buf w);
          w = frameWriter_Write w (take (unat fragmentLen) (w_hpackBuf w))
      in (fragmentLen, w))"

partial_function (option) write_fragments ::
  "block \<Rightarrow> int \<Rightarrow> Flags \<Rightarrow> bool \<Rightarrow> frameWriter \<Rightarrow> (h2error option \<times> Flags \<times> bool \<times> frameWriter) option" where
  "write_fragments b remainingHeader flags firstFrameSent w =
     (let (fragmentLen, flags, w) =
            (if \<not> firstFrameSent then first_frame b remainingHeader flags w
             else case next_frame b remainingHeader w of (n, w) \<Rightarrow> (n, flags, w))
      in if w_err w \<noteq> None then Some (w_err w, flags, True, w)
         else
           let remainingBytes = of_nat (length (w_hpackBuf w)) - fragmentLen;
               w = w\<lparr>w_hpackBuf := take (unat remainingBytes) (drop (unat fragmentLen) (w_hpackBuf w))\<rparr>
           in if remainingBytes \<ge> w_maxFrameSize w \<or> (remainingHeader = 0 \<and> remainingBytes > 0)
              then write_fragments b remainingHeader flags True w
              else Some (None, flags, True, w))"

fun header_loop ::
  "unicode \<Rightarrow> block \<Rightarrow> (gostring \<times> gostring list) list \<Rightarrow> u32 \<Rightarrow> int \<Rightarrow> Flags \<Rightarrow> bool \<Rightarrow> frameWriter \<Rightarrow>
   (h2error option \<times> frameWriter) option" where
  "header_loop U b [] written remainingHeader flags firstFrameSent w = Some (None, w)"
| "header_loop U b ((k, vv) # hs) written remainingHeader flags firstFrameSent w =
     (if k \<in> set pseudoHeader then header_loop U b hs written remainingHeader flags firstFrameSent w
      else if k = [] \<or> hd k = 58 then Some (Some errMalformedHeader, w)
      else do {
        (r, w) \<leftarrow> encode_values (CanonicalHTTP2HeaderKey U k) vv w written remainingHeader;
        (case r of
           Inl e \<Rightarrow> Some (Some e, w)
         | Inr (written, remainingHeader) \<Rightarrow>
             if remainingHeader > 0 \<and> of_nat (length (w_hpackBuf w)) < w_maxFrameSize w
             then header_loop U b hs written remainingHeader flags firstFrameSent w
             else do {
               (e, flags, firstFrameSent, w) \<leftarrow> write_fragments b remainingHeader flags firstFrameSent w;
               (case e of
                  Some e \<Rightarrow> Some (Some e, w)
                | None \<Rightarrow> header_loop U b hs written remainingHeader flags firstFrameSent w)
             })
      })"

definition write_header_block ::
  "unicode \<Rightarrow> gostring list \<Rightarrow> block \<Rightarrow> Header \<Rightarrow> Flags \<Rightarrow> frameWriter \<Rightarrow> (h2error option \<times> frameWriter) option" where
  "write_header_block U ord b h flags w =
     (let remainingHeader = Header_Len h in
      if remainingHeader = 0 then
        let w = writeFrameHeader w (b_nonFragmentLen b) (b_type b) (flags OR FlagEndHeaders) (b_streamID b);
            w = b_prefix b flags w;
            w = frameWriter_Write w (w_buf w);
            w = frameWriter_Write w (take (unat (b_padLen b)) zeroBuf)
        in Some (w_err w, w)
      else do {
        (r, w) \<leftarrow> encode_pseudo ord h (w\<lparr>w_hpackBuf := []\<rparr>) 0 (int remainingHeader);
        (case r of
           Inl e \<Rightarrow> Some (Some e, w)
         | Inr (written, remainingHeader) \<Rightarrow>
             header_loop U b (case h of None \<Rightarrow> [] | Some al \<Rightarrow> al) written remainingHeader flags False w)
      })"

definition HeadersFrame_writeTo ::
  "unicode \<Rightarrow> gostring list \<Rightarrow> frameWriter \<Rightarrow> u32 \<Rightarrow> Header \<Rightarrow> Priority \<Rightarrow> u8 \<Rightarrow> bool \<Rightarrow> (h2error option \<times> frameWriter) option" where
  "HeadersFrame_writeTo U ord w sid h p padLen endStream =
     (if \<not> validStreamID sid then Some (Some (bad_stream_ID sid), w)
      else if HasPriority p \<and> \<not> validStreamID (StreamDependency p)
      then Some (Some (Errorf (str ''bad stream dependency: '' @ dec_string (unat (StreamDependency p)))), w)
      else
        let flags = 0; nonFragmentLen = 0;
            (flags, nonFragmentLen) = (if padLen > 0 then (flags OR FlagPadded, nonFragmentLen + (ucast padLen + 1)) else (flags, nonFragmentLen));
            (flags, nonFragmentLen) = (if HasPriority p then (flags OR FlagPriority, nonFragmentLen + 5) else (flags, nonFragmentLen));
            flags = (if endStream then flags OR FlagEndStream else flags)
        in write_header_block U ord
             \<lparr>b_type = FrameHeaders, b_prefix = headers_prefix padLen p, b_nonFragmentLen = nonFragmentLen,
              b_padLen = padLen, b_streamID = sid\<rparr> h flags w)"

definition PushPromiseFrame_writeTo ::
  "unicode \<Rightarrow> gostring list \<Rightarrow> frameWriter \<Rightarrow> u32 \<Rightarrow> u32 \<Rightarrow> Header \<Rightarrow> u8 \<Rightarrow> (h2error option \<times> frameWriter) option" where
  "PushPromiseFrame_writeTo U ord w sid promised h padLen =
     (if \<not> validStreamID sid then Some (Some (bad_stream_ID sid), w)
      else if \<not> validStreamID promised
      then Some (Some (Errorf (str ''bad promised stream ID: '' @ dec_string (unat promised))), w)
      else
        let flags = 0; nonFragmentLen = 0 + 4;
            (flags, nonFragmentLen) = (if padLen > 0 then (flags OR FlagPadded, nonFragmentLen + (ucast padLen + 1)) else (flags, nonFragmentLen))
        in write_header_block U ord
             \<lparr>b_type = FramePushPromise, b_prefix = push_prefix padLen promised, b_nonFragmentLen = nonFragmentLen,
              b_padLen = padLen, b_streamID = sid\<rparr> h flags w)"

section \<open>The other frames\<close>

definition PriorityFrame_writeTo :: "frameWriter \<Rightarrow> u32 \<Rightarrow> Priority \<Rightarrow> h2error option \<times> frameWriter" where
  "PriorityFrame_writeTo w sid p =
     (if \<not> validStreamID sid then (Some (bad_stream_ID sid), w)
      else if \<not> validStreamID (StreamDependency p)
      then (Some (Errorf (str ''bad stream dependency: '' @ dec_string (unat (StreamDependency p)))), w)
      else
        let w = writeFrameHeader w 5 FramePriority 0 sid;
            w = writeUint32 w (dependency_word p);
            w = writeByte w (Weight p);
            w = frameWriter_Write w (w_buf w)
        in (w_err w, w))"

definition RSTStreamFrame_writeTo :: "frameWriter \<Rightarrow> u32 \<Rightarrow> ErrCode \<Rightarrow> h2error option \<times> frameWriter" where
  "RSTStreamFrame_writeTo w sid code =
     (if \<not> validStreamID sid then (Some (bad_stream_ID sid), w)
      else
        let w = writeFrameHeader w 4 FrameRSTStream 0 sid;
            w = writeUint32 w code;
            w = frameWriter_Write w (w_buf w)
        in (w_err w, w))"

definition write_settings :: "frameWriter \<Rightarrow> Settings \<Rightarrow> frameWriter" where
  "write_settings w s = fold (\<lambda>x w. writeUint32 (writeUint16 w (set_ID x)) (set_Value x)) s w"

definition SettingsFrame_writeTo :: "frameWriter \<Rightarrow> bool \<Rightarrow> Settings \<Rightarrow> h2error option \<times> frameWriter" where
  "SettingsFrame_writeTo w ack s =
     (if ack \<and> length s > 0 then (Some (Errorf (str ''ACK settings frame must have an empty payload'')), w)
      else
        let w = (if ack then writeFrameHeader w 0 FrameSettings FlagAck 0
                 else write_settings (writeFrameHeader w (of_nat (settingLen * length s)) FrameSettings 0 0) s);
            w = frameWriter_Write w (w_buf w)
        in (w_err w, w))"

definition PingFrame_writeTo :: "frameWriter \<Rightarrow> bool \<Rightarrow> bytes \<Rightarrow> h2error option \<times> frameWriter" where
  "PingFrame_writeTo w ack data =
     (let w = writeFrameHeader w (of_nat (length data)) FramePing (if ack then FlagAck else 0) 0;
          w = frameWriter_Write w (w_buf w);
          w = frameWriter_Write w data
      in (w_err w, w))"

definition GoAwayFrame_writeTo :: "frameWriter \<Rightarrow> u32 \<Rightarrow> ErrCode \<Rightarrow> bytes \<Rightarrow> h2error option \<times> frameWriter" where
  "GoAwayFrame_writeTo w lastID code debugData =
     (let w = writeFrameHeader w (of_nat (8 + length debugData)) FrameGoAway 0 0;
          w = writeUint32 w (lastID AND 0x7fffffff);
          w = writeUint32 w code;
          w = frameWriter_Write w (w_buf w);
          w = frameWriter_Write w debugData
      in (w_err w, w))"

definition WindowUpdateFrame_writeTo :: "frameWriter \<Rightarrow> u32 \<Rightarrow> u32 \<Rightarrow> h2error option \<times> frameWriter" where
  "WindowUpdateFrame_writeTo w sid increment =
     (if increment = 0 \<or> uint increment > maxInitialWindowSize
      then (Some (Errorf (str ''bad window size increment: '' @ dec_string (unat increment))), w)
      else
        let w = writeFrameHeader w 4 FrameWindowUpdate 0 sid;
            w = writeUint32 w increment;
            w = frameWriter_Write w (w_buf w)
        in (w_err w, w))"

definition UnknownFrame_writeTo ::
  "frameWriter \<Rightarrow> FrameType \<Rightarrow> u32 \<Rightarrow> Flags \<Rightarrow> bytes option \<Rightarrow> int \<Rightarrow> h2error option \<times> frameWriter" where
  "UnknownFrame_writeTo w t sid flags payload payloadLen =
     (if payloadLen < 0 \<or> (payloadLen > 0 \<and> payload = None) then (Some (Errorf (str ''bad payload'')), w)
      else
        let w = writeFrameHeader w (of_int payloadLen) t flags sid;
            w = frameWriter_Write w (w_buf w);
            w = (if payloadLen > 0
                 then case io_CopyN w (case payload of Some b \<Rightarrow> b | None \<Rightarrow> []) (nat payloadLen) of (e, w) \<Rightarrow> w\<lparr>w_err := e\<rparr>
                 else w)
        in (w_err w, w))"

fun frameWriter_WriteFrame ::
  "unicode \<Rightarrow> gostring list \<Rightarrow> frameWriter \<Rightarrow> Frame \<Rightarrow> (h2error option \<times> frameWriter) option" where
  "frameWriter_WriteFrame U ord w (DataFrame sid data n pad e) = DataFrame_writeTo w sid data n pad e"
| "frameWriter_WriteFrame U ord w (HeadersFrame sid h p pad e) = HeadersFrame_writeTo U ord w sid h p pad e"
| "frameWriter_WriteFrame U ord w (PriorityFrame sid p) = Some (PriorityFrame_writeTo w sid p)"
| "frameWriter_WriteFrame U ord w (RSTStreamFrame sid code) = Some (RSTStreamFrame_writeTo w sid code)"
| "frameWriter_WriteFrame U ord w (SettingsFrame ack s) = Some (SettingsFrame_writeTo w ack s)"
| "frameWriter_WriteFrame U ord w (PushPromiseFrame sid promised h pad) = PushPromiseFrame_writeTo U ord w sid promised h pad"
| "frameWriter_WriteFrame U ord w (PingFrame ack data) = Some (PingFrame_writeTo w ack data)"
| "frameWriter_WriteFrame U ord w (GoAwayFrame lastID code data) = Some (GoAwayFrame_writeTo w lastID code data)"
| "frameWriter_WriteFrame U ord w (WindowUpdateFrame sid n) = Some (WindowUpdateFrame_writeTo w sid n)"
| "frameWriter_WriteFrame U ord w (UnknownFrame t sid flags payload n) = Some (UnknownFrame_writeTo w t sid flags payload n)"

end
