(* ===== verification/H2_Read.thy ===== *)
theory H2_Read
  imports H2_Header Hpack_Decode
begin

text \<open>
  The frame reader: \<^verbatim>\<open>src/read.go\<close>.

  The input is the list of bytes still to come and the error that follows them (\<open>EOF\<close> at an
  orderly end).  The buffered reader of the standard library is its documented behaviour:
  \<open>Peek\<close> and \<open>ReadFull\<close> fail when fewer bytes are left, \<open>Discard\<close> and \<open>ReadByte\<close> whose error the
  code drops take what there is.  \<open>None\<close> is a panic; it also stands for the settings read from
  stale bytes of the buffer when the input ends inside a SETTINGS payload.  The \<open>Data\<close> and
  \<open>Payload\<close> readers of a frame that was read are the bytes they would yield if read now; the
  unread part stays in the input with its length in \<open>r_payload\<close>.
\<close>

record frameReader =
  r_in :: bytes
  r_end :: h2error
  r_bufSize :: nat
  r_maxFrameSize :: u32
  r_dec :: "h2error Decoder"
  r_maxHeaderListSize :: u32
  r_pendingHeaders :: "Frame option"
  r_payloadLen :: u32
  r_frameType :: FrameType
  r_flags :: Flags
  r_streamID :: u32
  r_lastPayload :: bool
  r_payload :: "int \<times> u8"

definition newFrameReader :: "bytes \<Rightarrow> h2error \<Rightarrow> nat \<Rightarrow> frameReader" where
  "newFrameReader inp e bufSize =
     \<lparr>r_in = inp, r_end = e, r_bufSize = bufSize, r_maxFrameSize = defaultMaxFrameSize,
      r_dec = NewDecoder defaultHeaderTableSize, r_maxHeaderListSize = 0, r_pendingHeaders = None,
      r_payloadLen = 0, r_frameType = 0, r_flags = 0, r_streamID = 0, r_lastPayload = False, r_payload = (0, 0)\<rparr>"

section \<open>Input\<close>

definition r_Peek :: "nat \<Rightarrow> frameReader \<Rightarrow> h2error + bytes" where
  "r_Peek n r = (if n \<le> length (r_in r) then Inr (take n (r_in r)) else Inl (r_end r))"

definition r_Discard :: "nat \<Rightarrow> frameReader \<Rightarrow> h2error option \<times> frameReader" where
  "r_Discard n r = (if n \<le> length (r_in r) then None else Some (r_end r), r\<lparr>r_in := drop n (r_in r)\<rparr>)"

definition r_skip :: "nat \<Rightarrow> frameReader \<Rightarrow> frameReader" where
  "r_skip n r = snd (r_Discard n r)"

definition r_ReadByte :: "frameReader \<Rightarrow> u8 \<times> frameReader" where
  "r_ReadByte r = (case r_in r of [] \<Rightarrow> (0, r) | b # bs \<Rightarrow> (b, r\<lparr>r_in := bs\<rparr>))"

definition io_ReadFull :: "nat \<Rightarrow> frameReader \<Rightarrow> h2error option \<times> bytes \<times> frameReader" where
  "io_ReadFull n r =
     (let bs = take n (r_in r);
          e = (if length bs = n then None
               else if bs \<noteq> [] \<and> r_end r = EOF then Some ErrUnexpectedEOF
               else Some (r_end r))
      in (e, bs @ replicate (n - length bs) 0, r\<lparr>r_in := drop n (r_in r)\<rparr>))"

fun be_Uint16 :: "bytes \<Rightarrow> u16" where
  "be_Uint16 (a # b # _) = push_bit 8 (ucast a) OR ucast b"
| "be_Uint16 _ = 0"

fun be_Uint32 :: "bytes \<Rightarrow> u32" where
  "be_Uint32 (a # b # c # d # _) =
     push_bit 24 (ucast a) OR push_bit 16 (ucast b) OR push_bit 8 (ucast c) OR ucast d"
| "be_Uint32 _ = 0"

definition readUint32 :: "frameReader \<Rightarrow> (u32 \<times> frameReader) option" where
  "readUint32 r =
     (case r_Peek 4 r of Inl _ \<Rightarrow> None | Inr b \<Rightarrow> Some (be_Uint32 b, r_skip 4 r))"

section \<open>Payloads\<close>

definition framePayload_Read :: "nat \<Rightarrow> frameReader \<Rightarrow> bytes \<times> h2error option \<times> frameReader" where
  "framePayload_Read len r =
     (case r_payload r of (n, p) \<Rightarrow>
        if len = 0 then ([], None, r)
        else if n \<le> 0 then ([], Some EOF, r)
        else
          let bs = take (if int len > n then nat n else len) (r_in r) in
          if bs = [] then ([], Some (r_end r), r)
          else (bs, None, r\<lparr>r_in := drop (length bs) (r_in r), r_payload := (n - int (length bs), p)\<rparr>))"

definition framePayload_Close :: "frameReader \<Rightarrow> h2error option \<times> frameReader" where
  "framePayload_Close r =
     (case r_payload r of (n, p) \<Rightarrow>
        let k = n + uint p in
        if k > 0 then (case r_Discard (nat k) r of (e, r) \<Rightarrow> (e, r\<lparr>r_payload := (0, 0)\<rparr>))
        else (None, r))"

definition open_payload :: "int \<Rightarrow> u8 \<Rightarrow> frameReader \<Rightarrow> bytes \<times> frameReader" where
  "open_payload n p r = (take (nat n) (r_in r), r\<lparr>r_payload := (n, p), r_lastPayload := True\<rparr>)"

section \<open>Frames\<close>

definition conn_error :: "string \<Rightarrow> ErrCode \<Rightarrow> h2error" where
  "conn_error text code = ConnError (Errorf (str text)) code"

definition bad_frame_length :: "u32 \<Rightarrow> h2error" where
  "bad_frame_length n = Errorf (str ''bad frame length '' @ dec_string (unat n))"

type_synonym read_result = "((h2error + Frame) \<times> frameReader) option"

definition DataFrame_readFrom :: "frameReader \<Rightarrow> read_result" where
  "DataFrame_readFrom r =
     (if r_streamID r = 0 then Some (Inl (conn_error ''stream ID must be > 0'' ErrCodeProtocol), r)
      else
        let dataLen = uint (r_payloadLen r);
            (padLen, r) = (if Flags_Has (r_flags r) FlagPadded then r_ReadByte r else (0, r))
        in if Flags_Has (r_flags r) FlagPadded \<and> ucast padLen \<ge> r_payloadLen r
           then Some (Inl (conn_error ''payload too small for padding'' ErrCodeProtocol), r)
           else
             let dataLen = (if Flags_Has (r_flags r) FlagPadded then dataLen - (uint padLen + 1) else dataLen);
                 (data, r) = open_payload dataLen padLen r
             in Some (Inr (DataFrame (r_streamID r) (Some data) dataLen padLen (Flags_Has (r_flags r) FlagEndStream)), r))"

text \<open>The handler \<open>Header.add\<close>: its state is the header, or \<open>None\<close> once it has panicked.\<close>

definition add_handler :: "(h2error, Header option) HeaderFieldHandler" where
  "add_handler name value sensitive h =
     (case h of
        None \<Rightarrow> (Some ErrClosed, None)
      | Some hdr \<Rightarrow>
          (case Header_add hdr name value of
             None \<Rightarrow> (Some ErrClosed, None)
           | Some (e, hdr) \<Rightarrow> (e, Some hdr)))"

fun hpack_error :: "h2error dec_err \<Rightarrow> h2error" where
  "hpack_error ErrHeaderFieldsTooLarge = HpackTooLarge"
| "hpack_error errNeedsMore = Errorf (str ''short buffer'')"
| "hpack_error errHeaderTableSizeUpdateRequired = HpackDecodingError (str ''header table size update required'')"
| "hpack_error errHeaderTableSizeUpdate =
     HpackDecodingError (str ''header table size update must occur at the beginning of the first header block'')"
| "hpack_error errTruncated = HpackDecodingError (str ''header field has been truncated'')"
| "hpack_error errBadHeaderBlock = HpackDecodingError (str ''bad header block'')"
| "hpack_error errBadHeaderTableSize = HpackDecodingError (str ''bad max header table size'')"
| "hpack_error errBadIndexValue = HpackDecodingError (str ''bad index value'')"
| "hpack_error errIntegerOverflow = HpackDecodingError (str ''integer overflow'')"
| "hpack_error (HandlerError e) = e"

definition decode_chunk :: "bytes \<Rightarrow> Header \<Rightarrow> frameReader \<Rightarrow> (h2error option \<times> Header \<times> frameReader) option" where
  "decode_chunk chunk h r =
     (case Decoder_Decode (r_dec r) chunk (r_maxHeaderListSize r) (Some add_handler) (Some h) of
        None \<Rightarrow> None
      | Some (_, _, _, None) \<Rightarrow> None
      | Some (_, e, dec, Some h) \<Rightarrow> Some (map_option hpack_error e, h, r\<lparr>r_dec := dec\<rparr>))"

partial_function (option) fragment_loop ::
  "int \<Rightarrow> Header \<Rightarrow> frameReader \<Rightarrow> (h2error option \<times> Header \<times> frameReader) option" where
  "fragment_loop fragmentLen h r =
     (if fragmentLen \<le> 0 then Some (None, h, r)
      else
        let chunkSize = (if nat fragmentLen > r_bufSize r then r_bufSize r else nat fragmentLen) in
        (case r_Peek chunkSize r of
           Inl e \<Rightarrow> Some (Some e, h, r)
         | Inr chunk \<Rightarrow>
             Option.bind (decode_chunk chunk h r) (\<lambda>(e, h, r).
               (case e of
                  Some e \<Rightarrow> Some (Some e, h, r)
                | None \<Rightarrow> fragment_loop (fragmentLen - int chunkSize) h (r_skip chunkSize r)))))"

text \<open>A frame that waits for its CONTINUATION frames is shared: the fields added before an error stay in it.\<close>

definition keep_pending :: "Frame \<Rightarrow> frameReader \<Rightarrow> frameReader" where
  "keep_pending f r = (if r_pendingHeaders r \<noteq> None then r\<lparr>r_pendingHeaders := Some f\<rparr> else r)"

text \<open>The end of the block: padding, and the reset of the decoder at END_HEADERS.\<close>

definition end_fragment :: "FrameType \<Rightarrow> u8 \<Rightarrow> Frame \<Rightarrow> frameReader \<Rightarrow> (h2error + Frame) \<times> frameReader" where
  "end_fragment t padLen f r =
     (let r = (if r_frameType r = t then r_skip (unat padLen) r else r) in
      if Flags_Has (r_flags r) FlagEndHeaders then
        (case Decoder_Reset (r_dec r) of
           (e, dec) \<Rightarrow>
             let r = r\<lparr>r_dec := dec, r_pendingHeaders := None\<rparr> in
             (case e of Some e \<Rightarrow> (Inl (hpack_error e), r) | None \<Rightarrow> (Inr f, r)))
      else (Inr f, r\<lparr>r_pendingHeaders := Some f\<rparr>))"

definition continuation_error :: "u32 \<Rightarrow> u32 \<Rightarrow> h2error" where
  "continuation_error expected actual =
     ConnError (Errorf (str ''continuation stream ID does not match pending headers: expected ''
       @ dec_string (unat expected) @ str '', but received '' @ dec_string (unat actual))) ErrCodeProtocol"

definition read_padding :: "frameReader \<Rightarrow> u8 \<times> int \<times> frameReader" where
  "read_padding r =
     (if Flags_Has (r_flags r) FlagPadded
      then case r_ReadByte r of (padLen, r) \<Rightarrow> (padLen, uint (r_payloadLen r) - (uint padLen + 1), r)
      else (0, uint (r_payloadLen r), r))"

definition read_priority :: "frameReader \<Rightarrow> (Priority \<times> frameReader) option" where
  "read_priority r =
     do {
       (v, r) \<leftarrow> readUint32 r;
       let dep = v AND 0x7fffffff;
       let (weight, r) = r_ReadByte r;
       Some (\<lparr>StreamDependency = dep, Weight = weight, Exclusive = (dep \<noteq> v)\<rparr>, r)
     }"

definition headers_fragment ::
  "int \<Rightarrow> u32 \<Rightarrow> Header \<Rightarrow> Priority \<Rightarrow> u8 \<Rightarrow> bool \<Rightarrow> frameReader \<Rightarrow> read_result" where
  "headers_fragment fragmentLen sid h p padLen endStream r =
     do {
       (e, h, r) \<leftarrow> fragment_loop fragmentLen h r;
       Some (case e of Some e \<Rightarrow> (Inl e, keep_pending (HeadersFrame sid h p padLen endStream) r)
             | None \<Rightarrow> end_fragment FrameHeaders padLen (HeadersFrame sid h p padLen endStream) r)
     }"

definition HeadersFrame_readFrom :: "u32 \<Rightarrow> Header \<Rightarrow> Priority \<Rightarrow> u8 \<Rightarrow> bool \<Rightarrow> frameReader \<Rightarrow> read_result" where
  "HeadersFrame_readFrom sid h p padLen endStream r =
     (if r_streamID r = 0 then Some (Inl (conn_error ''stream ID must be > 0'' ErrCodeProtocol), r)
      else if r_frameType r = FrameContinuation then
        if r_streamID r \<noteq> sid then Some (Inl (continuation_error sid (r_streamID r)), r)
        else headers_fragment (uint (r_payloadLen r)) sid h p padLen endStream r
      else
        let sid = r_streamID r;
            endStream = Flags_Has (r_flags r) FlagEndStream;
            (padLen, fragmentLen, r) =
              (if Flags_Has (r_flags r) FlagPadded then read_padding r else (padLen, uint (r_payloadLen r), r))
        in do {
          (p, fragmentLen, r) \<leftarrow>
            (if Flags_Has (r_flags r) FlagPriority
             then do { (p, r) \<leftarrow> read_priority r; Some (p, fragmentLen - 5, r) }
             else Some (p, fragmentLen, r));
          if fragmentLen < 0
          then Some (Inl (conn_error ''header block fragment too small for padding'' ErrCodeProtocol), r)
          else headers_fragment fragmentLen sid h p padLen endStream r
        })"

definition PriorityFrame_readFrom :: "frameReader \<Rightarrow> read_result" where
  "PriorityFrame_readFrom r =
     (if r_streamID r = 0 then Some (Inl (conn_error ''stream ID must be > 0'' ErrCodeProtocol), r)
      else if r_payloadLen r \<noteq> 5 then
        (case r_Discard (unat (r_payloadLen r)) r of
           (Some e, r) \<Rightarrow> Some (Inl e, r)
         | (None, r) \<Rightarrow> Some (Inl (StreamError (bad_frame_length (r_payloadLen r)) ErrCodeFrameSize (r_streamID r)), r))
      else do { (p, r) \<leftarrow> read_priority r; Some (Inr (PriorityFrame (r_streamID r) p), r) })"

definition RSTStreamFrame_readFrom :: "frameReader \<Rightarrow> read_result" where
  "RSTStreamFrame_readFrom r =
     (if r_streamID r = 0 then Some (Inl (conn_error ''stream ID must be > 0'' ErrCodeProtocol), r)
      else if r_payloadLen r \<noteq> 4 then Some (Inl (ConnError (bad_frame_length (r_payloadLen r)) ErrCodeFrameSize), r)
      else do { (v, r) \<leftarrow> readUint32 r; Some (Inr (RSTStreamFrame (r_streamID r) v), r) })"

definition settings_error :: "SettingID \<Rightarrow> h2error \<Rightarrow> h2error" where
  "settings_error i e =
     (if i = SettingInitialWindowSize then ConnError e ErrCodeFlowControl
      else if i = SettingMaxFrameSize then ConnError e ErrCodeFrameSize
      else ConnError e ErrCodeProtocol)"

fun settings_loop :: "nat \<Rightarrow> Settings \<Rightarrow> frameReader \<Rightarrow> (h2error option \<times> Settings \<times> frameReader) option" where
  "settings_loop 0 s r = Some (None, s, r)"
| "settings_loop (Suc k) s r =
     (case r_Peek settingLen r of
        Inl _ \<Rightarrow> None
      | Inr b \<Rightarrow>
          let i = be_Uint16 b; v = be_Uint32 (drop 2 b); r = r_skip settingLen r in
          (case Settings_SetValue s i v of
             (Some e, s) \<Rightarrow> Some (Some (settings_error i e), s, r)
           | (None, s) \<Rightarrow> settings_loop k s r))"

definition SettingsFrame_readFrom :: "frameReader \<Rightarrow> read_result" where
  "SettingsFrame_readFrom r =
     (if r_streamID r \<noteq> 0 then Some (Inl (conn_error ''stream ID must be zero'' ErrCodeProtocol), r)
      else if Flags_Has (r_flags r) FlagAck then
        if r_payloadLen r > 0
        then Some (Inl (conn_error ''ACK settings frame must have an empty payload'' ErrCodeFrameSize), r)
        else Some (Inr (SettingsFrame True []), r)
      else if unat (r_payloadLen r) mod settingLen \<noteq> 0
      then Some (Inl (ConnError (bad_frame_length (r_payloadLen r)) ErrCodeFrameSize), r)
      else do {
        (e, s, r) \<leftarrow> settings_loop (unat (r_payloadLen r) div settingLen) [] r;
        Some (case e of Some e \<Rightarrow> Inl e | None \<Rightarrow> Inr (SettingsFrame False s), r)
      })"

definition push_fragment :: "int \<Rightarrow> u32 \<Rightarrow> u32 \<Rightarrow> Header \<Rightarrow> u8 \<Rightarrow> frameReader \<Rightarrow> read_result" where
  "push_fragment fragmentLen sid promised h padLen r =
     do {
       (e, h, r) \<leftarrow> fragment_loop fragmentLen h r;
       Some (case e of Some e \<Rightarrow> (Inl e, keep_pending (PushPromiseFrame sid promised h padLen) r)
             | None \<Rightarrow> end_fragment FramePushPromise padLen (PushPromiseFrame sid promised h padLen) r)
     }"

definition PushPromiseFrame_readFrom :: "u32 \<Rightarrow> u32 \<Rightarrow> Header \<Rightarrow> u8 \<Rightarrow> frameReader \<Rightarrow> read_result" where
  "PushPromiseFrame_readFrom sid promised h padLen r =
     (if r_streamID r = 0 then Some (Inl (conn_error ''stream ID must be > 0'' ErrCodeProtocol), r)
      else if r_frameType r = FrameContinuation then
        if r_streamID r \<noteq> sid then Some (Inl (continuation_error sid (r_streamID r)), r)
        else push_fragment (uint (r_payloadLen r)) sid promised h padLen r
      else
        let sid = r_streamID r;
            (padLen, fragmentLen, r) =
              (if Flags_Has (r_flags r) FlagPadded then read_padding r else (padLen, uint (r_payloadLen r), r))
        in if Flags_Has (r_flags r) FlagPadded \<and> ucast padLen \<ge> r_payloadLen r
           then Some (Inl (conn_error ''payload too small for padding'' ErrCodeProtocol), r)
           else do {
             (v, r) \<leftarrow> readUint32 r;
             push_fragment (fragmentLen - 4) sid (v AND 0x7fffffff) h padLen r
           })"

definition PingFrame_readFrom :: "frameReader \<Rightarrow> read_result" where
  "PingFrame_readFrom r =
     (if r_streamID r \<noteq> 0 then Some (Inl (conn_error ''stream ID must be zero'' ErrCodeProtocol), r)
      else if r_payloadLen r \<noteq> 8 then Some (Inl (ConnError (bad_frame_length (r_payloadLen r)) ErrCodeFrameSize), r)
      else (case io_ReadFull 8 r of
              (Some e, _, r) \<Rightarrow> Some (Inl e, r)
            | (None, data, r) \<Rightarrow> Some (Inr (PingFrame (Flags_Has (r_flags r) FlagAck) data), r)))"

definition GoAwayFrame_readFrom :: "frameReader \<Rightarrow> read_result" where
  "GoAwayFrame_readFrom r =
     (if r_streamID r \<noteq> 0 then Some (Inl (conn_error ''stream ID must be zero'' ErrCodeProtocol), r)
      else if r_payloadLen r < 8 then Some (Inl (ConnError (bad_frame_length (r_payloadLen r)) ErrCodeProtocol), r)
      else do {
        (lastID, r) \<leftarrow> readUint32 r;
        (code, r) \<leftarrow> readUint32 r;
        (case io_ReadFull (unat (r_payloadLen r - 8)) r of
           (Some e, _, r) \<Rightarrow> Some (Inl e, r)
         | (None, data, r) \<Rightarrow> Some (Inr (GoAwayFrame (lastID AND 0x7fffffff) code data), r))
      })"

definition WindowUpdateFrame_readFrom :: "frameReader \<Rightarrow> read_result" where
  "WindowUpdateFrame_readFrom r =
     (if r_payloadLen r \<noteq> 4 then Some (Inl (ConnError (bad_frame_length (r_payloadLen r)) ErrCodeFrameSize), r)
      else do {
        (v, r) \<leftarrow> readUint32 r;
        let increment = v AND 0x7fffffff;
        let err = Errorf (str ''received WINDOW_UPDATE with delta 0 for stream ID: '' @ dec_string (unat (r_streamID r)));
        Some (if increment = 0 then
                Inl (if r_streamID r = 0 then ConnError err ErrCodeProtocol else StreamError err ErrCodeProtocol (r_streamID r))
              else Inr (WindowUpdateFrame (r_streamID r) increment), r)
      })"

definition UnknownFrame_readFrom :: "frameReader \<Rightarrow> read_result" where
  "UnknownFrame_readFrom r =
     (let n = uint (r_payloadLen r);
          (data, r) = open_payload n 0 r
      in Some (Inr (UnknownFrame (r_frameType r) (r_streamID r) (r_flags r) (Some data) n), r))"

section \<open>Reading a frame\<close>

text \<open>The constructor table \<open>frameCtor\<close> with the call of \<open>readFrom\<close> on the new frame.\<close>

definition readFrom_new :: "frameReader \<Rightarrow> read_result" where
  "readFrom_new r =
     (let t = r_frameType r in
      if t = FrameData then DataFrame_readFrom r
      else if t = FrameHeaders then HeadersFrame_readFrom 0 None no_Priority 0 False r
      else if t = FramePriority then PriorityFrame_readFrom r
      else if t = FrameRSTStream then RSTStreamFrame_readFrom r
      else if t = FrameSettings then SettingsFrame_readFrom r
      else if t = FramePushPromise then PushPromiseFrame_readFrom 0 0 None 0 r
      else if t = FramePing then PingFrame_readFrom r
      else if t = FrameGoAway then GoAwayFrame_readFrom r
      else if t = FrameWindowUpdate then WindowUpdateFrame_readFrom r
      else UnknownFrame_readFrom r)"

fun readFrom_pending :: "Frame \<Rightarrow> frameReader \<Rightarrow> read_result" where
  "readFrom_pending (HeadersFrame sid h p padLen e) r = HeadersFrame_readFrom sid h p padLen e r"
| "readFrom_pending (PushPromiseFrame sid promised h padLen) r = PushPromiseFrame_readFrom sid promised h padLen r"
| "readFrom_pending _ r = None"

definition set_frame_header :: "bytes \<Rightarrow> frameReader \<Rightarrow> frameReader" where
  "set_frame_header b r =
     r\<lparr>r_payloadLen := push_bit 16 (ucast (b ! 0)) OR push_bit 8 (ucast (b ! 1)) OR ucast (b ! 2),
       r_frameType := b ! 3, r_flags := b ! 4, r_streamID := be_Uint32 (drop 5 b) AND 0x7fffffff\<rparr>"

definition read_failure :: "h2error \<Rightarrow> h2error" where
  "read_failure e =
     (case e of
        HpackTooLarge \<Rightarrow> ConnError e ErrCodeEnhanceYourCalm
      | HpackDecodingError _ \<Rightarrow> ConnError e ErrCodeCompression
      | _ \<Rightarrow> e)"

text \<open>One pass from the label \<open>again\<close>: a frame header and what follows it.\<close>

definition read_pass :: "frameReader \<Rightarrow> read_result" where
  "read_pass r =
     (case r_Peek 9 r of
        Inl e \<Rightarrow> Some (Inl e, r)
      | Inr b \<Rightarrow>
          let r = r_skip 9 (set_frame_header b r) in
          if r_payloadLen r > r_maxFrameSize r then
            Some (Inl (ConnError (Errorf (str ''frame length '' @ dec_string (unat (r_payloadLen r))
              @ str '' exceeds maximum '' @ dec_string (unat (r_maxFrameSize r)))) ErrCodeFrameSize), r)
          else if r_pendingHeaders r \<noteq> None \<and> r_frameType r \<noteq> FrameContinuation then
            Some (Inl (ConnError (Errorf (str ''received frame of type '' @ FrameType_String (r_frameType r)
              @ str '' while processing headers'')) ErrCodeProtocol), r)
          else if r_frameType r = FrameContinuation \<and> r_pendingHeaders r = None then
            Some (Inl (ConnError (Errorf (str ''received '' @ FrameType_String (r_frameType r)
              @ str '' frame but not currently processing headers'')) ErrCodeProtocol), r)
          else do {
            (res, r) \<leftarrow> (case r_pendingHeaders r of Some f \<Rightarrow> readFrom_pending f r | None \<Rightarrow> readFrom_new r);
            Some (case res of Inl e \<Rightarrow> Inl (read_failure e) | Inr f \<Rightarrow> Inr f, r)
          })"

partial_function (option) read_again :: "frameReader \<Rightarrow> read_result" where
  "read_again r =
     Option.bind (read_pass r) (\<lambda>(res, r).
       (case res of
          Inl e \<Rightarrow> Some (Inl e, r)
        | Inr f \<Rightarrow> if r_pendingHeaders r \<noteq> None then read_again r else Some (Inr f, r)))"

definition frameReader_ReadFrame :: "frameReader \<Rightarrow> read_result" where
  "frameReader_ReadFrame r =
     (if r_lastPayload r then
        (case framePayload_Close r of
           (e, r) \<Rightarrow>
             let r = r\<lparr>r_lastPayload := False\<rparr> in
             (case e of Some e \<Rightarrow> Some (Inl e, r) | None \<Rightarrow> read_again r))
      else read_again r)"

end
