(* ===== verification/H2_Frames.thy ===== *)
theory H2_Frames
  imports H2_Write H2_Read
begin

text \<open>
  What is written is what is read: the frame reader inverts the frame writer for every frame
  without a header block, and for DATA frames cut into several.
\<close>

section \<open>Numbers on the wire\<close>

lemma be_Uint32_bytes [simp]: "be_Uint32 (uint32_bytes v @ rest) = v"
proof (rule bit_word_eqI)
  fix n assume "n < LENGTH(32)"
  then show "bit (be_Uint32 (uint32_bytes v @ rest)) n = bit v n"
    by (cases "n < 8"; cases "n < 16"; cases "n < 24") (auto simp: uint32_bytes_def bit_simps)
qed

lemma be_Uint32_4 [simp]: "be_Uint32 (uint32_bytes v) = v"
  using be_Uint32_bytes [of v "[]"] by simp

lemma length_uint32_bytes [simp]: "length (uint32_bytes v) = 4"
  by (simp add: uint32_bytes_def)

lemma be_Uint16_bytes [simp]: "be_Uint16 (ucast (drop_bit 8 v) # ucast v # rest) = (v :: u16)"
  by (rule bit_word_eqI) (auto simp: bit_simps not_less not_le less_Suc_eq_le)

lemma length24:
  assumes "n < 2 ^ 24"
  shows "push_bit 16 (ucast (ucast (drop_bit 16 n) :: u8)) OR push_bit 8 (ucast (ucast (drop_bit 8 n) :: u8)) OR ucast (ucast n :: u8) = (n :: u32)" (is "?l = n")
proof -
  have hi: "\<not> bit n k" if "24 \<le> k" for k
  proof -
    from assms have "take_bit 24 n = n" by (simp add: take_bit_eq_mod mod_word_less)
    then have "bit (take_bit 24 n) k = bit n k" by simp
    with that show ?thesis by (simp add: bit_simps)
  qed
  show ?thesis
  proof (rule bit_word_eqI)
    fix k assume "k < LENGTH(32)"
    then show "bit ?l k = bit n k"
      using hi by (cases "k < 8"; cases "k < 16"; cases "k < 24") (auto simp: bit_simps)
  qed
qed

lemma frame_header_length [simp]: "length (frame_header n t fl sid) = 9"
  by (simp add: frame_header_def)

lemma set_frame_header_eq:
  assumes "n < 2 ^ 24" "sid AND 0x80000000 = 0"
  shows "set_frame_header (frame_header n t fl sid) r =
    r\<lparr>r_payloadLen := n, r_frameType := t, r_flags := fl, r_streamID := sid\<rparr>"
proof -
  have "be_Uint32 [ucast (drop_bit 24 sid), ucast (drop_bit 16 sid), ucast (drop_bit 8 sid), ucast sid] = sid"
    using be_Uint32_4 [of sid] by (simp add: uint32_bytes_def)
  moreover have "sid AND 0x7fffffff = sid"
  proof -
    have m: "(0x7fffffff OR 0x80000000 :: u32) = - 1" by code_simp
    have "sid = sid AND (0x7fffffff OR 0x80000000)" unfolding m by simp
    also have "\<dots> = sid AND 0x7fffffff" using assms(2) by (simp only: bit.conj_disj_distrib) simp
    finally show ?thesis ..
  qed
  ultimately show ?thesis
    by (simp add: set_frame_header_def frame_header_def length24 [OF assms(1), simplified])
qed

section \<open>A writer without faults and a reader between frames\<close>

definition writer_ready :: "frameWriter \<Rightarrow> bool" where
  "writer_ready w \<longleftrightarrow> w_fault w = None \<and> w_err w = None"

lemma Write_ready: "writer_ready w \<Longrightarrow> frameWriter_Write w s = w\<lparr>w_out := w_out w @ s\<rparr>"
  by (cases w) (simp add: writer_ready_def frameWriter_Write_def out_Write_def)

lemma writer_ready_simps [simp]:
  "writer_ready (w\<lparr>w_out := x\<rparr>) = writer_ready w" "writer_ready (w\<lparr>w_buf := y\<rparr>) = writer_ready w"
  by (simp_all add: writer_ready_def)

lemma CopyN_ready:
  "writer_ready w \<Longrightarrow> n \<le> length rd \<Longrightarrow> io_CopyN w rd n = (None, w\<lparr>w_out := w_out w @ take n rd\<rparr>)"
  by (simp add: writer_ready_def io_CopyN_def out_Write_def)

lemma writer_ready_err: "writer_ready w \<Longrightarrow> w_err w = None" "writer_ready w \<Longrightarrow> w\<lparr>w_err := None\<rparr> = w"
  by (simp_all add: writer_ready_def)

lemmas write_bytes = writeFrameHeader_def writeByte_def writeUint16_def writeUint32_def Write_ready Let_def

definition reader_ready :: "frameReader \<Rightarrow> bool" where
  "reader_ready r \<longleftrightarrow> r_pendingHeaders r = None"

text \<open>The input from the next frame header on: what is left of the last payload is skipped.\<close>

definition r_next :: "frameReader \<Rightarrow> bytes" where
  "r_next r = (if r_lastPayload r then drop (nat (fst (r_payload r) + uint (snd (r_payload r)))) (r_in r) else r_in r)"

text \<open>A frame reader at the start of a frame whose header is the given one.\<close>

lemma read_pass_frame:
  assumes "r_in r = frame_header n t fl sid @ rest" "r_pendingHeaders r = None" "n \<le> r_maxFrameSize r"
    and "n < 2 ^ 24" "sid AND 0x80000000 = 0" "t \<noteq> FrameContinuation"
  shows "read_pass r =
    (case readFrom_new (r\<lparr>r_in := rest, r_payloadLen := n, r_frameType := t, r_flags := fl, r_streamID := sid\<rparr>) of
       None \<Rightarrow> None
     | Some (Inl e, r') \<Rightarrow> Some (Inl (read_failure e), r')
     | Some (Inr f, r') \<Rightarrow> Some (Inr f, r'))"
proof -
  have "r_skip 9 (set_frame_header (frame_header n t fl sid) r) =
      r\<lparr>r_in := rest, r_payloadLen := n, r_frameType := t, r_flags := fl, r_streamID := sid\<rparr>"
    using assms(1) by (simp add: set_frame_header_eq [OF assms(4, 5)] r_skip_def r_Discard_def)
  moreover have "\<not> r_maxFrameSize r < n" using assms(3) by simp
  ultimately show ?thesis using assms
    by (simp add: read_pass_def r_Peek_def Let_def split: option.splits sum.splits)
qed

text \<open>What reading a frame without a header block leaves as it was.\<close>

definition same_reader :: "frameReader \<Rightarrow> frameReader \<Rightarrow> bool" where
  "same_reader r r' \<longleftrightarrow> r_pendingHeaders r' = None \<and> r_maxFrameSize r' = r_maxFrameSize r \<and> r_dec r' = r_dec r
     \<and> r_bufSize r' = r_bufSize r \<and> r_maxHeaderListSize r' = r_maxHeaderListSize r \<and> r_end r' = r_end r"

text \<open>The bytes \<open>bs\<close> are read as the frame \<open>f\<close>, whatever follows them.\<close>

definition reads :: "u32 \<Rightarrow> bytes \<Rightarrow> Frame \<Rightarrow> bool" where
  "reads mx bs f \<longleftrightarrow> (\<forall>r rest. reader_ready r \<and> r_maxFrameSize r = mx \<and> r_next r = bs @ rest \<longrightarrow>
     (\<exists>r'. frameReader_ReadFrame r = Some (Inr f, r') \<and> r_next r' = rest \<and> same_reader r r'))"

definition at_payload :: "frameReader \<Rightarrow> bytes \<Rightarrow> u32 \<Rightarrow> FrameType \<Rightarrow> Flags \<Rightarrow> u32 \<Rightarrow> bool" where
  "at_payload r inp n t fl sid \<longleftrightarrow> r_in r = inp \<and> r_payloadLen r = n \<and> r_frameType r = t \<and> r_flags r = fl
     \<and> r_streamID r = sid \<and> r_pendingHeaders r = None \<and> \<not> r_lastPayload r"

lemma ReadFrame_closes:
  assumes "r_next r \<noteq> []"
  obtains r0 where "frameReader_ReadFrame r = read_again r0" "r_in r0 = r_next r" "\<not> r_lastPayload r0"
    "r_pendingHeaders r0 = r_pendingHeaders r" "r_maxFrameSize r0 = r_maxFrameSize r" "r_dec r0 = r_dec r"
    "r_bufSize r0 = r_bufSize r" "r_maxHeaderListSize r0 = r_maxHeaderListSize r" "r_end r0 = r_end r"
proof (cases "r_lastPayload r")
  case False
  then show thesis by (intro that [of r]) (simp_all add: frameReader_ReadFrame_def r_next_def)
next
  case True
  obtain n p where np: "r_payload r = (n, p)" by (cases "r_payload r")
  with True assms have le: "nat (n + uint p) \<le> length (r_in r)"
    by (auto simp: r_next_def)
  show thesis
  proof (cases "n + uint p > 0")
    case pos: True
    show thesis
      by (rule that [of "r\<lparr>r_in := r_next r, r_payload := (0, 0), r_lastPayload := False\<rparr>"])
        (use True pos np le in \<open>simp_all add: frameReader_ReadFrame_def framePayload_Close_def Let_def r_Discard_def r_next_def\<close>)
  next
    case neg: False
    show thesis
      by (rule that [of "r\<lparr>r_lastPayload := False\<rparr>"])
        (use True neg np in \<open>simp_all add: frameReader_ReadFrame_def framePayload_Close_def Let_def r_next_def\<close>)
  qed
qed

lemma reads_frame:
  assumes "n < 2 ^ 24" "n \<le> mx" "sid AND 0x80000000 = 0" "t \<noteq> FrameContinuation"
    and "\<And>r rest. at_payload r (pl @ rest) n t fl sid \<Longrightarrow>
      \<exists>r'. readFrom_new r = Some (Inr f, r') \<and> r_next r' = rest \<and> same_reader r r'"
  shows "reads mx (frame_header n t fl sid @ pl) f"
  unfolding reads_def
proof (intro allI impI, elim conjE)
  fix r rest
  assume r: "reader_ready r" "r_maxFrameSize r = mx" "r_next r = (frame_header n t fl sid @ pl) @ rest"
  then have ne: "r_next r \<noteq> []" by (auto simp: frame_header_def)
  obtain r0 where r0: "frameReader_ReadFrame r = read_again r0" "r_in r0 = r_next r" "\<not> r_lastPayload r0"
    "r_pendingHeaders r0 = r_pendingHeaders r" "r_maxFrameSize r0 = r_maxFrameSize r" "r_dec r0 = r_dec r"
    "r_bufSize r0 = r_bufSize r" "r_maxHeaderListSize r0 = r_maxHeaderListSize r" "r_end r0 = r_end r"
    using ReadFrame_closes [OF ne] by metis
  define r1 where "r1 = r0\<lparr>r_in := pl @ rest, r_payloadLen := n, r_frameType := t, r_flags := fl, r_streamID := sid\<rparr>"
  have "at_payload r1 (pl @ rest) n t fl sid"
    using r r0 by (simp add: at_payload_def r1_def reader_ready_def)
  then obtain r' where r': "readFrom_new r1 = Some (Inr f, r')" "r_next r' = rest" "same_reader r1 r'"
    using assms(5) by blast
  have "read_pass r0 = Some (Inr f, r')"
    using read_pass_frame [of r0 n t fl sid "pl @ rest"] r r0 r' assms(1-4) by (simp add: r1_def reader_ready_def)
  then have "read_again r0 = Some (Inr f, r')"
    using r' by (simp add: read_again.simps same_reader_def)
  with r0 r' show "\<exists>r'. frameReader_ReadFrame r = Some (Inr f, r') \<and> r_next r' = rest \<and> same_reader r r'"
    by (intro exI [of _ r']) (simp add: same_reader_def r1_def)
qed

section \<open>Frames of one piece\<close>

text \<open>The bytes a writer without faults appends for a frame.\<close>

definition writes :: "frameWriter \<Rightarrow> h2error option \<times> frameWriter \<Rightarrow> bytes \<Rightarrow> bool" where
  "writes w res bs \<longleftrightarrow> res = (None, w\<lparr>w_buf := w_buf (snd res), w_out := w_out w @ bs\<rparr>)"

lemma low31:
  assumes "d AND 0x80000000 = (0 :: u32)"
  shows "d AND 0x7fffffff = d" "(d OR 0x80000000) AND 0x7fffffff = d" "d OR 0x80000000 \<noteq> d"
proof -
  have m: "(0x7fffffff OR 0x80000000 :: u32) = - 1" by code_simp
  have "d = d AND (0x7fffffff OR 0x80000000)" unfolding m by simp
  also have "\<dots> = d AND 0x7fffffff" using assms by (simp only: bit.conj_disj_distrib) simp
  finally show l: "d AND 0x7fffffff = d" ..
  have "(d OR 0x80000000) AND 0x7fffffff = (d AND 0x7fffffff) OR (0x80000000 AND 0x7fffffff)"
    by (simp only: bit.conj_disj_distrib2)
  with l show "(d OR 0x80000000) AND 0x7fffffff = d" by simp
  show "d OR 0x80000000 \<noteq> d"
  proof
    assume "d OR 0x80000000 = d"
    then have "(d OR 0x80000000) AND 0x80000000 = 0" using assms by simp
    then show False by (simp add: bit.conj_disj_distrib2)
  qed
qed

lemma dependency_word_read:
  assumes "validStreamID (StreamDependency p)"
  shows "dependency_word p AND 0x7fffffff = StreamDependency p"
    "StreamDependency p \<noteq> dependency_word p \<longleftrightarrow> Exclusive p"
  using low31 [of "StreamDependency p"] assms by (auto simp: dependency_word_def validStreamID_def)

lemma readUint32_bytes:
  "r_in r = uint32_bytes v @ rest \<Longrightarrow> readUint32 r = Some (v, r\<lparr>r_in := rest\<rparr>)"
  by (simp add: readUint32_def r_Peek_def r_skip_def r_Discard_def)

lemma read_priority_bytes:
  assumes "validStreamID (StreamDependency p)" "r_in r = uint32_bytes (dependency_word p) @ Weight p # rest"
  shows "read_priority r = Some (p, r\<lparr>r_in := rest\<rparr>)"
  using dependency_word_read [OF assms(1)] by (simp add: read_priority_def readUint32_bytes [OF assms(2)] r_ReadByte_def)

lemma validStreamID_iff: "validStreamID sid \<longleftrightarrow> sid \<noteq> 0 \<and> sid AND 0x80000000 = 0"
  by (simp add: validStreamID_def)

lemmas at_payload_simps = at_payload_def same_reader_def r_next_def readFrom_new_def

lemma Priority_writes:
  assumes "writer_ready w" "validStreamID sid" "validStreamID (StreamDependency p)"
  shows "writes w (PriorityFrame_writeTo w sid p) (frame_header 5 FramePriority 0 sid @ uint32_bytes (dependency_word p) @ [Weight p])"
  using assms by (auto simp: writes_def PriorityFrame_writeTo_def write_bytes writer_ready_err)

lemma Priority_reads:
  assumes "validStreamID sid" "validStreamID (StreamDependency p)" "5 \<le> mx"
  shows "reads mx (frame_header 5 FramePriority 0 sid @ uint32_bytes (dependency_word p) @ [Weight p]) (PriorityFrame sid p)"
  by (rule reads_frame) (use assms in \<open>auto simp: at_payload_simps PriorityFrame_readFrom_def validStreamID_iff read_priority_bytes\<close>)

lemma RSTStream_writes:
  assumes "writer_ready w" "validStreamID sid"
  shows "writes w (RSTStreamFrame_writeTo w sid code) (frame_header 4 FrameRSTStream 0 sid @ uint32_bytes code)"
  using assms by (auto simp: writes_def RSTStreamFrame_writeTo_def write_bytes writer_ready_err)

lemma RSTStream_reads:
  assumes "validStreamID sid" "4 \<le> mx"
  shows "reads mx (frame_header 4 FrameRSTStream 0 sid @ uint32_bytes code) (RSTStreamFrame sid code)"
  by (rule reads_frame) (use assms in \<open>auto simp: at_payload_simps RSTStreamFrame_readFrom_def validStreamID_iff readUint32_bytes\<close>)

lemma WindowUpdate_writes:
  assumes "writer_ready w" "n \<noteq> 0" "uint n \<le> maxInitialWindowSize"
  shows "writes w (WindowUpdateFrame_writeTo w sid n) (frame_header 4 FrameWindowUpdate 0 sid @ uint32_bytes n)"
  using assms by (auto simp: writes_def WindowUpdateFrame_writeTo_def write_bytes writer_ready_err)

lemma uint_low31: "uint (n :: u32) \<le> 2147483647 \<Longrightarrow> n AND 0x80000000 = 0"
proof -
  assume "uint n \<le> 2147483647"
  then have "n < 2 ^ 31" by (simp add: word_less_iff_unsigned [where 'a = int])
  then have "take_bit 31 n = n" by (simp add: take_bit_eq_mod mod_word_less)
  then have "\<not> bit n 31" by (metis bit_take_bit_iff less_irrefl)
  then have "n AND 2 ^ 31 = 0" by (simp only: and_exp_eq_0_iff_not_bit not_False_eq_True)
  then show ?thesis by simp
qed

lemma WindowUpdate_reads:
  assumes "sid AND 0x80000000 = 0" "n \<noteq> 0" "uint n \<le> maxInitialWindowSize" "4 \<le> mx"
  shows "reads mx (frame_header 4 FrameWindowUpdate 0 sid @ uint32_bytes n) (WindowUpdateFrame sid n)"
  by (rule reads_frame) (use assms low31(1) [OF uint_low31, of n] in
      \<open>auto simp: at_payload_simps WindowUpdateFrame_readFrom_def readUint32_bytes\<close>)

lemma ReadFull_bytes:
  "r_in r = bs @ rest \<Longrightarrow> length bs = n \<Longrightarrow> io_ReadFull n r = (None, bs, r\<lparr>r_in := rest\<rparr>)"
  by (simp add: io_ReadFull_def)

lemma Flags_Has_simps [simp]:
  "\<not> Flags_Has 0 1" "Flags_Has 1 1" "\<not> Flags_Has 0 8" "\<not> Flags_Has 1 8" "Flags_Has 8 8" "\<not> Flags_Has 8 1"
  "Flags_Has 9 8" "Flags_Has 9 1"
  by (simp_all add: Flags_Has_def)

lemma Ping_writes:
  assumes "writer_ready w" "length d = 8"
  shows "writes w (PingFrame_writeTo w ack d) (frame_header 8 FramePing (if ack then FlagAck else 0) 0 @ d)"
  using assms by (auto simp: writes_def PingFrame_writeTo_def write_bytes writer_ready_err)

lemma Ping_reads:
  assumes "length d = 8" "8 \<le> mx"
  shows "reads mx (frame_header 8 FramePing (if ack then FlagAck else 0) 0 @ d) (PingFrame ack d)"
  by (rule reads_frame) (use assms in \<open>auto simp: at_payload_simps PingFrame_readFrom_def ReadFull_bytes\<close>)

lemma GoAway_writes:
  assumes "writer_ready w" "lastID AND 0x80000000 = 0"
  shows "writes w (GoAwayFrame_writeTo w lastID code d)
    (frame_header (of_nat (8 + length d)) FrameGoAway 0 0 @ uint32_bytes lastID @ uint32_bytes code @ d)"
  using assms low31(1) [OF assms(2)] by (auto simp: writes_def GoAwayFrame_writeTo_def write_bytes writer_ready_err)

lemma GoAway_reads:
  assumes "lastID AND 0x80000000 = 0" "8 + length d \<le> unat mx" "8 + length d < 2 ^ 24"
  shows "reads mx (frame_header (of_nat (8 + length d)) FrameGoAway 0 0 @ uint32_bytes lastID @ uint32_bytes code @ d)
    (GoAwayFrame lastID code d)"
proof (rule reads_frame)
  have u: "unat (of_nat (8 + length d) :: u32) = 8 + length d" using assms(3) by (intro unat_of_nat32) simp
  show "of_nat (8 + length d) < (2 ^ 24 :: u32)" "of_nat (8 + length d) \<le> mx"
    using assms(2, 3) u by (simp_all only: word_less_nat_alt word_le_nat_alt) simp_all
  fix r rest
  assume a: "at_payload r ((uint32_bytes lastID @ uint32_bytes code @ d) @ rest) (of_nat (8 + length d)) FrameGoAway 0 0"
  have l: "unat (of_nat (length d) :: u32) = length d" using assms(3) by (intro unat_of_nat32) simp
  have ge: "\<not> r_payloadLen r < 8" and n: "unat (r_payloadLen r - 8) = length d"
    using a u l by (simp_all add: at_payload_def word_less_nat_alt)
  have c1: "readUint32 r = Some (lastID, r\<lparr>r_in := uint32_bytes code @ d @ rest\<rparr>)"
    using a by (intro readUint32_bytes) (simp add: at_payload_def)
  have c2: "readUint32 (r\<lparr>r_in := uint32_bytes code @ d @ rest\<rparr>) = Some (code, r\<lparr>r_in := d @ rest\<rparr>)"
    by (subst readUint32_bytes [of _ code "d @ rest"]) simp_all
  have c3: "io_ReadFull (length d) (r\<lparr>r_in := d @ rest\<rparr>) = (None, d, r\<lparr>r_in := rest\<rparr>)"
    by (subst ReadFull_bytes [of _ d rest]) simp_all
  show "\<exists>r'. readFrom_new r = Some (Inr (GoAwayFrame lastID code d), r') \<and> r_next r' = rest \<and> same_reader r r'"
    using a ge n c1 c2 c3 low31(1) [OF assms(1)]
    by (auto simp: at_payload_simps GoAwayFrame_readFrom_def)
qed (use assms in simp_all)

text \<open>Settings: the reader stores each parameter with \<open>SetValue\<close>.\<close>

definition setting_bytes :: "setting \<Rightarrow> bytes" where
  "setting_bytes x = [ucast (drop_bit 8 (set_ID x)), ucast (set_ID x)] @ uint32_bytes (set_Value x)"

lemma setting_bytes_length [simp]: "length (setting_bytes x) = 6"
  by (simp add: setting_bytes_def)

lemma write_settings_eq: "write_settings w s = w\<lparr>w_buf := w_buf w @ concat (map setting_bytes s)\<rparr>"
  by (induction s arbitrary: w) (simp_all add: write_settings_def writeUint16_def writeUint32_def setting_bytes_def)

lemma Settings_writes:
  assumes "writer_ready w" "ack \<longrightarrow> s = []"
  shows "writes w (SettingsFrame_writeTo w ack s)
    (frame_header (of_nat (6 * length s)) FrameSettings (if ack then FlagAck else 0) 0 @ concat (map setting_bytes s))"
  using assms by (auto simp: writes_def SettingsFrame_writeTo_def write_settings_eq write_bytes writer_ready_err)

lemma Settings_store_new: "i \<notin> set_ID ` set s \<Longrightarrow> Settings_store s i v = s @ [\<lparr>set_ID = i, set_Value = v\<rparr>]"
  by (induction s i v rule: Settings_store.induct) auto

lemma settings_loop_bytes:
  assumes "settings_ok (s @ t)" "r_in r = concat (map setting_bytes t) @ rest"
  shows "settings_loop (length t) s r = Some (None, s @ t, r\<lparr>r_in := rest\<rparr>)"
  using assms
proof (induction t arbitrary: s r)
  case (Cons x t)
  define r1 where "r1 = r\<lparr>r_in := concat (map setting_bytes t) @ rest\<rparr>"
  have b: "r_Peek settingLen r = Inr (setting_bytes x)" "r_skip settingLen r = r1"
    using Cons.prems(2) by (simp_all add: r_Peek_def r_skip_def r_Discard_def r1_def)
  have v: "be_Uint16 (setting_bytes x) = set_ID x" "be_Uint32 (drop 2 (setting_bytes x)) = set_Value x"
    by (simp_all add: setting_bytes_def be_Uint16_bytes del: be_Uint16.simps)
  have x: "x = \<lparr>set_ID = set_ID x, set_Value = set_Value x\<rparr>" by simp
  have "setting_valid (set_ID x) (set_Value x)" "set_ID x \<notin> set_ID ` set s"
    using Cons.prems(1) by (auto simp: settings_ok_def)
  then have "Settings_SetValue s (set_ID x) (set_Value x) = (None, s @ [x])"
    by (simp add: Settings_SetValue_def Settings_store_new)
  moreover have "settings_loop (length t) (s @ [x]) r1 = Some (None, (s @ [x]) @ t, r1\<lparr>r_in := rest\<rparr>)"
    using Cons.prems(1) by (intro Cons.IH) (simp_all add: r1_def)
  ultimately show ?case using b v by (simp add: r1_def)
qed simp

lemma Settings_reads:
  assumes "settings_ok s" "ack \<longrightarrow> s = []" "6 * length s \<le> unat mx" "6 * length s < 2 ^ 24"
  shows "reads mx (frame_header (of_nat (6 * length s)) FrameSettings (if ack then FlagAck else 0) 0 @ concat (map setting_bytes s))
    (SettingsFrame ack s)"
proof (rule reads_frame)
  have u: "unat (of_nat (6 * length s) :: u32) = 6 * length s" using assms(4) by (intro unat_of_nat32) simp
  show "of_nat (6 * length s) < (2 ^ 24 :: u32)" "of_nat (6 * length s) \<le> mx"
    using assms(3, 4) u by (simp_all only: word_less_nat_alt word_le_nat_alt) simp_all
  fix r rest
  assume a: "at_payload r (concat (map setting_bytes s) @ rest) (of_nat (6 * length s)) FrameSettings (if ack then FlagAck else 0) 0"
  show "\<exists>r'. readFrom_new r = Some (Inr (SettingsFrame ack s), r') \<and> r_next r' = rest \<and> same_reader r r'"
  proof (cases ack)
    case True
    with a assms(2) show ?thesis by (auto simp: at_payload_simps SettingsFrame_readFrom_def)
  next
    case False
    have "settings_loop (length s) [] r = Some (None, [] @ s, r\<lparr>r_in := rest\<rparr>)"
      using a assms(1) by (intro settings_loop_bytes) (simp_all add: at_payload_def)
    moreover have "unat (r_payloadLen r) div 6 = length s" "unat (r_payloadLen r) mod 6 = 0"
      using a u by (simp_all add: at_payload_def)
    ultimately show ?thesis using a False by (auto simp: at_payload_simps SettingsFrame_readFrom_def)
  qed
qed simp_all

lemma Unknown_writes:
  assumes "writer_ready w" "n \<le> int (length d)" "0 \<le> n"
  shows "writes w (UnknownFrame_writeTo w t sid fl (Some d) n) (frame_header (of_int n) t fl sid @ take (nat n) d)"
proof (cases "0 < n")
  case True
  then have "io_CopyN (w\<lparr>w_buf := b, w_out := x\<rparr>) d (nat n) = (None, w\<lparr>w_buf := b, w_out := x @ take (nat n) d\<rparr>)" for b x
    using assms by (subst CopyN_ready) auto
  with True assms(1) show ?thesis
    by (simp add: writes_def UnknownFrame_writeTo_def write_bytes writer_ready_err)
qed (use assms in \<open>auto simp: writes_def UnknownFrame_writeTo_def write_bytes writer_ready_err\<close>)

lemma Unknown_reads:
  assumes "n \<le> int (length d)" "0 \<le> n" "n \<le> uint mx" "n < 2 ^ 24" "sid AND 0x80000000 = 0" "t \<ge> 10"
  shows "reads mx (frame_header (of_int n) t fl sid @ take (nat n) d) (UnknownFrame t sid fl (Some (take (nat n) d)) n)"
proof (rule reads_frame)
  have u: "uint (of_int n :: u32) = n" using assms(2, 4) by (simp add: uint_word_of_int_eq take_bit_int_eq_self)
  show "of_int n < (2 ^ 24 :: u32)" "of_int n \<le> mx"
    using assms(3, 4) u by (simp_all add: word_less_iff_unsigned [where 'a = int] word_le_def)
  fix r rest
  assume a: "at_payload r (take (nat n) d @ rest) (of_int n) t fl sid"
  have "t \<noteq> 0" "t \<noteq> 1" "t \<noteq> 2" "t \<noteq> 3" "t \<noteq> 4" "t \<noteq> 5" "t \<noteq> 6" "t \<noteq> 7" "t \<noteq> 8"
    using assms(6) by (auto simp: word_le_nat_alt)
  then show "\<exists>r'. readFrom_new r = Some (Inr (UnknownFrame t sid fl (Some (take (nat n) d)) n), r') \<and> r_next r' = rest \<and> same_reader r r'"
    using a u assms(1, 2) by (auto simp: at_payload_simps UnknownFrame_readFrom_def open_payload_def)
qed (use assms in auto)

section \<open>DATA\<close>

text \<open>A DATA frame on the wire, for its data, its padding and its END_STREAM flag.\<close>

type_synonym piece = "bytes \<times> u8 \<times> bool"

fun piece_bytes :: "u32 \<Rightarrow> piece \<Rightarrow> bytes" where
  "piece_bytes sid (d, p, e) =
     frame_header (of_nat (length d + (if p > 0 then unat p + 1 else 0))) FrameData
       ((if e then FlagEndStream else 0) OR (if p > 0 then FlagPadded else 0)) sid
     @ (if p > 0 then [p] else []) @ d @ replicate (unat p) 0"

fun piece_frame :: "u32 \<Rightarrow> piece \<Rightarrow> Frame" where
  "piece_frame sid (d, p, e) = DataFrame sid (Some d) (int (length d)) p e"

fun piece_len :: "piece \<Rightarrow> nat" where
  "piece_len (d, p, e) = length d + (if p > 0 then unat p + 1 else 0)"

lemma readFrom_plain:
  assumes "at_payload r (d @ rest) n FrameData (if e then FlagEndStream else 0) sid" "uint n = int (length d)" "sid \<noteq> 0"
  shows "\<exists>r'. readFrom_new r = Some (Inr (DataFrame sid (Some d) (int (length d)) 0 e), r') \<and> r_next r' = rest \<and> same_reader r r'"
proof -
  have fl: "\<not> Flags_Has (r_flags r) FlagPadded" "Flags_Has (r_flags r) FlagEndStream = e"
    using assms(1) by (auto simp: at_payload_def)
  show ?thesis
    using assms fl by (auto simp: at_payload_simps DataFrame_readFrom_def open_payload_def Let_def)
qed

lemma readFrom_padded:
  assumes "at_payload r (p # d @ replicate (unat p) 0 @ rest) n FrameData ((if e then FlagEndStream else 0) OR FlagPadded) sid"
    and n: "uint n = int (length d) + uint p + 1" and "sid \<noteq> 0"
  shows "\<exists>r'. readFrom_new r = Some (Inr (DataFrame sid (Some d) (int (length d)) p e), r') \<and> r_next r' = rest \<and> same_reader r r'"
proof -
  define r1 where "r1 = r\<lparr>r_in := d @ replicate (unat p) 0 @ rest\<rparr>"
  have r: "r_payloadLen r = n" "r_streamID r = sid" "r_frameType r = FrameData" "r_pendingHeaders r = None" "\<not> r_lastPayload r"
    using assms(1) by (simp_all add: at_payload_def)
  have r1: "r_payloadLen r1 = n" "r_streamID r1 = sid" "r_flags r1 = r_flags r" "take (length d) (r_in r1) = d"
    using r by (simp_all add: r1_def)
  have rb: "r_ReadByte r = (p, r1)"
    using assms(1) by (simp add: at_payload_def r_ReadByte_def r1_def)
  have lt: "\<not> n \<le> (ucast p :: u32)"
    using n by (simp add: word_le_def uint_up_ucast is_up)
  have fl: "Flags_Has (r_flags r) FlagPadded" "Flags_Has (r_flags r) FlagEndStream = e"
    using assms(1) by (auto simp: at_payload_def)
  have "readFrom_new r = Some (Inr (DataFrame sid (Some d) (int (length d)) p e), r1\<lparr>r_payload := (int (length d), p), r_lastPayload := True\<rparr>)"
    using rb n lt fl r r1 assms(3) by (simp add: readFrom_new_def DataFrame_readFrom_def open_payload_def Let_def)
  moreover have "nat (int (length d) + uint p) = length d + unat p" by (metis nat_int of_nat_add uint_nat)
  ultimately show ?thesis
    using r by (intro exI [of _ "r1\<lparr>r_payload := (int (length d), p), r_lastPayload := True\<rparr>"])
      (simp add: r_next_def same_reader_def r1_def)
qed

lemma piece_reads:
  assumes "validStreamID sid" "piece_len (d, p, e) \<le> unat mx" "piece_len (d, p, e) < 2 ^ 24"
  shows "reads mx (piece_bytes sid (d, p, e)) (piece_frame sid (d, p, e))"
  unfolding piece_bytes.simps append_assoc piece_frame.simps
proof (rule reads_frame)
  let ?n = "length d + (if p > 0 then unat p + 1 else 0)"
  let ?fl = "(if e then FlagEndStream else 0) OR (if p > 0 then FlagPadded else 0)"
  have u: "unat (of_nat ?n :: u32) = ?n" using assms(3) by (intro unat_of_nat32) simp
  show "of_nat ?n < (2 ^ 24 :: u32)" unfolding word_less_nat_alt [of "of_nat ?n"] u using assms(3) by simp
  show "of_nat ?n \<le> mx" unfolding word_le_nat_alt [of "of_nat ?n"] u using assms(2) by simp
  have ui: "uint (of_nat ?n :: u32) = int ?n" using u by (metis uint_nat)
  have sid: "sid \<noteq> 0" using assms(1) by (simp add: validStreamID_iff)
  fix r rest
  assume a: "at_payload r (((if p > 0 then [p] else []) @ d @ replicate (unat p) 0) @ rest) (of_nat ?n) FrameData ?fl sid"
  show "\<exists>r'. readFrom_new r = Some (Inr (DataFrame sid (Some d) (int (length d)) p e), r') \<and> r_next r' = rest \<and> same_reader r r'"
  proof (cases "p > 0")
    case False
    then have p: "p = 0" by (simp add: word_gt_0)
    have "at_payload r (d @ rest) (of_nat (length d)) FrameData (if e then FlagEndStream else 0) sid"
      using a p by (simp only: less_irrefl if_False unsigned_0 replicate_0 or.right_neutral append_Nil append_Nil2 add_0_right)
    moreover have "uint (of_nat (length d) :: u32) = int (length d)" using ui p by (simp only: less_irrefl if_False add_0_right)
    ultimately show ?thesis unfolding p by (rule readFrom_plain [OF _ _ sid])
  next
    case True
    then have "uint (of_nat ?n :: u32) = int (length d) + uint p + 1" using ui by simp
    moreover have "at_payload r (p # d @ replicate (unat p) 0 @ rest) (of_nat ?n) FrameData ((if e then FlagEndStream else 0) OR FlagPadded) sid"
      using a by (simp only: True if_True append_Cons append_Nil append_assoc)
    ultimately show ?thesis by (rule readFrom_padded [OF _ _ sid, rotated])
  qed
qed (use assms in \<open>simp_all add: validStreamID_iff\<close>)

lemma unat_ucast8: "unat (x :: u32) < 256 \<Longrightarrow> unat (ucast x :: u8) = unat x"
  by (simp add: unsigned_ucast_eq take_bit_nat_eq_self)

lemma write_data_frame_eq:
  assumes "writer_ready w" "unat dataLen \<le> length rd" "unat padLen < 256"
  shows "write_data_frame w sid (if e then FlagEndStream else 0) rd dataLen padLen =
    w\<lparr>w_buf := w_buf (write_data_frame w sid (if e then FlagEndStream else 0) rd dataLen padLen),
      w_out := w_out w @ piece_bytes sid (take (unat dataLen) rd, ucast padLen, e)\<rparr>"
proof -
  have z: "take (unat padLen) zeroBuf = replicate (unat padLen) 0"
    using assms(3) by (simp add: zeroBuf_def take_replicate min_def)
  have p: "unat (ucast padLen :: u8) = unat padLen" by (rule unat_ucast8 [OF assms(3)])
  have pos: "ucast padLen > (0 :: u8) \<longleftrightarrow> padLen > 0"
    using p by (simp add: word_less_nat_alt)
  have len: "dataLen + padLen + 1 = of_nat (unat dataLen + (unat padLen + 1))" "of_nat (unat dataLen) = dataLen"
    by simp_all
  have copy: "io_CopyN (w\<lparr>w_buf := b, w_out := x\<rparr>) rd (unat dataLen)
      = (None, w\<lparr>w_buf := b, w_out := x @ take (unat dataLen) rd\<rparr>)" for b x
    using assms(1, 2) by (subst CopyN_ready) auto
  have err: "w\<lparr>w_buf := b, w_out := x, w_err := None\<rparr> = w\<lparr>w_buf := b, w_out := x\<rparr>" for b x
    using assms(1) by (cases w) (simp add: writer_ready_def)
  show ?thesis
    using assms(1, 2) z p pos copy err
    by (simp add: write_data_frame_def write_bytes writer_ready_err min_def)
      (auto simp: word_gt_0 ac_simps)
qed

lemma unat_data_pad:
  assumes "dl \<le> mx"
  shows "unat (data_pad mx dl pad) = min (unat pad) (unat mx - unat dl - 1)"
proof -
  have d: "unat (mx - dl) = unat mx - unat dl" using assms by (simp add: unat_minus_small word_le_nat_alt)
  then have "unat (mx - dl - 1) = unat mx - unat dl - 1" if "mx - dl > 0"
    using that by (simp add: unat_minus_small word_less_nat_alt)
  with d show ?thesis by (auto simp: data_pad_def Let_def word_less_nat_alt min_def)
qed

text \<open>
  The pieces a DATA frame of the given data and padding is cut into: they fit the frame size
  limit, carry the data in order and all of the padding, and the flag is on the last.
\<close>

definition cut_ok :: "u32 \<Rightarrow> bytes \<Rightarrow> nat \<Rightarrow> bool \<Rightarrow> piece list \<Rightarrow> bool" where
  "cut_ok mx d pad e ps \<longleftrightarrow> ps \<noteq> [] \<and> (\<forall>x\<in>set ps. piece_len x \<le> unat mx)
     \<and> concat (map fst ps) = d \<and> (\<Sum>x\<leftarrow>ps. unat (fst (snd x))) = pad
     \<and> map (snd \<circ> snd) ps = replicate (length ps - 1) False @ [e]"

lemma cut_ok_Cons:
  assumes "cut_ok mx d pad e ps" "piece_len (d0, p0, False) \<le> unat mx"
  shows "cut_ok mx (d0 @ d) (unat p0 + pad) e ((d0, p0, False) # ps)"
  using assms by (cases ps) (auto simp: cut_ok_def)

lemma data_loop_last [simp]: "data_loop sid e w rd rem pad True = Some w"
  by (subst data_loop.simps) simp

lemma data_loop_cut:
  assumes "writer_ready w" "unat rem \<le> length rd" "unat pad < 256" "w_maxFrameSize w = mx" "256 \<le> unat mx" "unat mx < 2 ^ 24"
  shows "\<exists>w' ps. data_loop sid e w rd rem pad False = Some w' \<and> writer_ready w'
    \<and> w' = w\<lparr>w_buf := w_buf w', w_out := w_out w @ concat (map (piece_bytes sid) ps)\<rparr>
    \<and> cut_ok mx (take (unat rem) rd) (unat pad) e ps"
  using assms
proof (induction "unat rem + unat pad" arbitrary: w rd rem pad rule: less_induct)
  case less
  define dl where "dl = (if rem > mx then mx else rem)"
  define pl where "pl = data_pad mx dl pad"
  define last where "last \<longleftrightarrow> rem - dl = 0 \<and> pad - pl = 0"
  define w1 where "w1 = write_data_frame w sid (if e \<and> last then FlagEndStream else 0) rd dl pl"
  have dl: "unat dl = min (unat rem) (unat mx)" "dl \<le> mx" by (auto simp: dl_def word_less_nat_alt word_le_nat_alt not_less)
  have pl: "unat pl = min (unat pad) (unat mx - unat dl - 1)" unfolding pl_def by (rule unat_data_pad [OF dl(2)])
  have rest: "unat (rem - dl) = unat rem - unat dl" "unat (pad - pl) = unat pad - unat pl"
    by (rule unat_minus_small; simp add: dl(1) pl)+
  have u8: "unat (ucast pl :: u8) = unat pl" using pl less.prems(3) by (intro unat_ucast8) simp
  have fit: "piece_len (take (unat dl) rd, ucast pl, b) \<le> unat mx" for b
    using u8 dl pl less.prems(2) by (auto simp: word_less_nat_alt)
  have w1: "w1 = w\<lparr>w_buf := w_buf w1, w_out := w_out w @ piece_bytes sid (take (unat dl) rd, ucast pl, e \<and> last)\<rparr>"
    unfolding w1_def using less.prems dl pl by (intro write_data_frame_eq) auto
  have w1': "writer_ready w1" "w_maxFrameSize w1 = mx" "w_out w1 = w_out w @ piece_bytes sid (take (unat dl) rd, ucast pl, e \<and> last)"
    using less.prems(1, 4) arg_cong [OF w1, of writer_ready] arg_cong [OF w1, of w_maxFrameSize] arg_cong [OF w1, of w_out]
    by (simp_all del: piece_bytes.simps)
  have unf: "data_loop sid e w rd rem pad False = data_loop sid e w1 (drop (unat dl) rd) (rem - dl) (pad - pl) last"
    using less.prems(1, 4) by (subst data_loop.simps) (simp add: writer_ready_def Let_def dl_def pl_def last_def w1_def)
  show ?case
  proof (cases last)
    case True
    then have "data_loop sid e w rd rem pad False = Some w1" by (simp add: unf)
    moreover have "unat rem = unat dl" "unat pad = unat pl"
      using True rest by (auto simp: last_def)
    then have "cut_ok mx (take (unat rem) rd) (unat pad) e [(take (unat dl) rd, ucast pl, e \<and> last)]"
      using True fit u8 by (simp add: cut_ok_def)
    moreover have "w1 = w\<lparr>w_buf := w_buf w1, w_out := w_out w @ concat (map (piece_bytes sid) [(take (unat dl) rd, ucast pl, e \<and> last)])\<rparr>"
      by (subst w1) (simp del: piece_bytes.simps)
    ultimately show ?thesis using w1'(1) by blast
  next
    case False
    then have "0 < unat (rem - dl) \<or> 0 < unat (pad - pl)" unfolding last_def unat_gt_0 by blast
    then have dec: "unat (rem - dl) + unat (pad - pl) < unat rem + unat pad"
      using rest dl(1) pl less.prems(5) by linarith
    have "\<exists>w' ps. data_loop sid e w1 (drop (unat dl) rd) (rem - dl) (pad - pl) False = Some w' \<and> writer_ready w'
        \<and> w' = w1\<lparr>w_buf := w_buf w', w_out := w_out w1 @ concat (map (piece_bytes sid) ps)\<rparr>
        \<and> cut_ok mx (take (unat (rem - dl)) (drop (unat dl) rd)) (unat (pad - pl)) e ps"
    proof (rule less.hyps [OF dec w1'(1) _ _ w1'(2) less.prems(5, 6)])
      show "unat (rem - dl) \<le> length (drop (unat dl) rd)" unfolding rest using less.prems(2) by (simp add: diff_le_mono)
      show "unat (pad - pl) < 256" unfolding rest using less.prems(3) by simp
    qed
    then obtain w' ps where ih: "data_loop sid e w1 (drop (unat dl) rd) (rem - dl) (pad - pl) False = Some w'" "writer_ready w'"
      "w' = w1\<lparr>w_buf := w_buf w', w_out := w_out w1 @ concat (map (piece_bytes sid) ps)\<rparr>"
      "cut_ok mx (take (unat (rem - dl)) (drop (unat dl) rd)) (unat (pad - pl)) e ps"
      by blast
    have "take (unat dl) rd @ take (unat (rem - dl)) (drop (unat dl) rd) = take (unat rem) rd"
      using rest(1) dl(1) by (simp flip: take_add)
    then have "cut_ok mx (take (unat rem) rd) (unat pad) e ((take (unat dl) rd, ucast pl, False) # ps)"
      using cut_ok_Cons [OF ih(4) fit] u8 rest(2) pl by simp
    moreover have "w' = w\<lparr>w_buf := w_buf w', w_out := w_out w @ concat (map (piece_bytes sid) ((take (unat dl) rd, ucast pl, False) # ps))\<rparr>"
      by (subst ih(3), subst w1) (use False w1'(3) in \<open>simp del: piece_bytes.simps\<close>)
    moreover have "data_loop sid e w rd rem pad False = Some w'" using ih(1) False unf by simp
    ultimately show ?thesis using ih(2) by blast
  qed
qed

section \<open>The round trip\<close>

text \<open>The frames of one piece that can be sent under the frame size limit \<open>mx\<close>.\<close>

fun wire_ok :: "u32 \<Rightarrow> Frame \<Rightarrow> bool" where
  "wire_ok mx (PriorityFrame sid p) \<longleftrightarrow> validStreamID sid \<and> validStreamID (StreamDependency p)"
| "wire_ok mx (RSTStreamFrame sid code) \<longleftrightarrow> validStreamID sid"
| "wire_ok mx (SettingsFrame ack s) \<longleftrightarrow> settings_ok s \<and> (ack \<longrightarrow> s = []) \<and> 6 * length s \<le> unat mx"
| "wire_ok mx (PingFrame ack d) \<longleftrightarrow> length d = 8"
| "wire_ok mx (GoAwayFrame lastID code d) \<longleftrightarrow> lastID AND 0x80000000 = 0 \<and> 8 + length d \<le> unat mx"
| "wire_ok mx (WindowUpdateFrame sid n) \<longleftrightarrow> sid AND 0x80000000 = 0 \<and> n \<noteq> 0 \<and> uint n \<le> maxInitialWindowSize"
| "wire_ok mx (UnknownFrame t sid fl payload n) \<longleftrightarrow>
     sid AND 0x80000000 = 0 \<and> t \<ge> 10 \<and> (\<exists>d. payload = Some d \<and> n = int (length d) \<and> length d \<le> unat mx)"
| "wire_ok mx _ \<longleftrightarrow> False"

lemma frame_written_read:
  assumes "writer_ready w" "wire_ok mx f" "8 \<le> mx" "unat mx < 2 ^ 24"
  shows "\<exists>bs res. frameWriter_WriteFrame U ord w f = Some res \<and> writes w res bs \<and> reads mx bs f"
proof -
  have mx: "5 \<le> mx" "4 \<le> mx" using assms(3) by (simp_all add: word_le_nat_alt)
  show ?thesis
  proof (cases f)
    case (PriorityFrame sid p)
    with assms(2) Priority_writes [OF assms(1), of sid p] Priority_reads [OF _ _ mx(1), of sid p] show ?thesis
      by (auto intro!: exI conjI)
  next
    case (RSTStreamFrame sid code)
    with assms(2) RSTStream_writes [OF assms(1), of sid code] RSTStream_reads [OF _ mx(2), of sid code] show ?thesis
      by (auto intro!: exI conjI)
  next
    case (SettingsFrame ack s)
    with assms(2, 4) Settings_writes [OF assms(1), of ack s] Settings_reads [of s ack mx] show ?thesis
      by (auto intro!: exI conjI)
  next
    case (PingFrame ack d)
    with assms(2) Ping_writes [OF assms(1), of d ack] Ping_reads [OF _ assms(3), of d ack] show ?thesis
      by (auto intro!: exI conjI)
  next
    case (GoAwayFrame lastID code d)
    with assms(2, 4) GoAway_writes [OF assms(1), of lastID code d] GoAway_reads [of lastID d mx code] show ?thesis
      by (auto intro!: exI conjI)
  next
    case (WindowUpdateFrame sid n)
    with assms(2) WindowUpdate_writes [OF assms(1), of n sid] WindowUpdate_reads [OF _ _ _ mx(2), of sid n] show ?thesis
      by (auto intro!: exI conjI)
  next
    case (UnknownFrame t sid fl payload n)
    with assms(2) obtain d where d: "payload = Some d" "n = int (length d)" "length d \<le> unat mx" "sid AND 0x80000000 = 0" "t \<ge> 10"
      by auto
    have "n \<le> uint mx" using d(2, 3) by (metis of_nat_le_iff uint_nat)
    with UnknownFrame d assms(4) Unknown_writes [OF assms(1), of n d t sid fl] Unknown_reads [of n d mx sid t fl] show ?thesis
      by (auto intro!: exI conjI)
  qed (use assms(2) in auto)
qed

lemma data_written_read:
  assumes "writer_ready w" "w_maxFrameSize w = mx" "256 \<le> unat mx" "unat mx < 2 ^ 24"
    and "validStreamID sid" "length d < 2 ^ 32"
  shows "\<exists>w' ps. DataFrame_writeTo w sid (Some d) (int (length d)) pad e = Some (None, w') \<and> writer_ready w'
    \<and> w_out w' = w_out w @ concat (map (piece_bytes sid) ps) \<and> cut_ok mx d (unat pad) e ps
    \<and> (\<forall>x\<in>set ps. reads mx (piece_bytes sid x) (piece_frame sid x))"
proof -
  have u: "unat (of_nat (length d) :: u32) = length d" using assms(6) by (intro unat_of_nat32) simp
  have p: "unat (ucast pad :: u32) = unat pad" using unat_less_8 [of pad] by (simp add: unsigned_ucast_eq take_bit_nat_eq_self)
  have p8: "unat (ucast pad :: u32) < 256" using p unat_less_8 [of pad] by simp
  have "\<exists>w' ps. data_loop sid e w d (of_nat (length d)) (ucast pad) False = Some w' \<and> writer_ready w'
    \<and> w' = w\<lparr>w_buf := w_buf w', w_out := w_out w @ concat (map (piece_bytes sid) ps)\<rparr>
    \<and> cut_ok mx (take (unat (of_nat (length d) :: u32)) d) (unat (ucast pad :: u32)) e ps"
    by (rule data_loop_cut [OF assms(1) _ p8 assms(2-4)]) (simp add: u)
  then obtain w' ps where l: "data_loop sid e w d (of_nat (length d)) (ucast pad) False = Some w'" "writer_ready w'"
    "w' = w\<lparr>w_buf := w_buf w', w_out := w_out w @ concat (map (piece_bytes sid) ps)\<rparr>" "cut_ok mx d (unat pad) e ps"
    unfolding u p take_all_iff [THEN iffD2, OF order_refl] by blast
  have "reads mx (piece_bytes sid x) (piece_frame sid x)" if "x \<in> set ps" for x
  proof -
    obtain a b c where x: "x = (a, b, c)" by (cases x)
    from that l(4) have "piece_len x \<le> unat mx" by (simp add: cut_ok_def)
    then show ?thesis unfolding x by (rule_tac piece_reads [OF assms(5)]) (use assms(4) in linarith)+
  qed
  moreover have "DataFrame_writeTo w sid (Some d) (int (length d)) pad e = Some (None, w')"
    using l(1, 2) assms(5) by (simp add: DataFrame_writeTo_def writer_ready_err)
  moreover have "w_out w' = w_out w @ concat (map (piece_bytes sid) ps)"
    using arg_cong [OF l(3), of w_out] by simp
  ultimately show ?thesis using l(2, 4) by blast
qed

end
