(* ===== verification/H2_HeaderBlock.thy ===== *)
theory H2_HeaderBlock
  imports H2_Frames
begin

text \<open>
  Header blocks: what HEADERS and PUSH_PROMISE frames write and what is read back from them.
\<close>

section \<open>The fields of a header\<close>

text \<open>The fields in the order they are encoded: pseudo headers first, then the others.\<close>

definition pseudo_fields :: "gostring list \<Rightarrow> (gostring \<times> gostring list) list \<Rightarrow> field list" where
  "pseudo_fields ord al = concat (map (\<lambda>k. case map_of al k of Some vv \<Rightarrow> map (\<lambda>v. (k, v, False)) vv | None \<Rightarrow> []) ord)"

fun other_fields :: "unicode \<Rightarrow> (gostring \<times> gostring list) list \<Rightarrow> field list" where
  "other_fields U [] = []"
| "other_fields U ((k, vv) # hs) =
     (if k \<in> set pseudoHeader then [] else map (\<lambda>v. (CanonicalHTTP2HeaderKey U k, v, False)) vv) @ other_fields U hs"

text \<open>
  Headers that can be sent: distinct keys, every key with a value, pseudo headers with just one,
  and no other key that is empty or starts with a colon.
\<close>

definition sendable :: "(gostring \<times> gostring list) list \<Rightarrow> bool" where
  "sendable al \<longleftrightarrow> distinct (map fst al) \<and>
     (\<forall>(k, vv)\<in>set al. vv \<noteq> [] \<and> (if k \<in> set pseudoHeader then length vv = 1 else k \<noteq> [] \<and> hd k \<noteq> 58))"

section \<open>Encoding\<close>

lemma encode_field_block:
  assumes "encode_block (w_enc w) (w_hpackBuf w) ((k, v, False) # fs) = Some (bs, enc')"
  shows "\<exists>n w1. encode_field w k v = Some (n, w1) \<and> encode_block (w_enc w1) (w_hpackBuf w1) fs = Some (bs, enc')
    \<and> w1 = w\<lparr>w_enc := w_enc w1, w_hpackBuf := w_hpackBuf w1\<rparr>"
  using assms by (cases w) (auto simp: encode_field_def split: bind_splits)

lemma encode_pseudo_block:
  assumes "encode_block (w_enc w) (w_hpackBuf w) (pseudo_fields ord al @ fs) = Some (bs, enc')"
    and "\<forall>k\<in>set ord. \<forall>vv. map_of al k = Some vv \<longrightarrow> length vv = 1"
  shows "\<exists>wr w1. encode_pseudo ord (Some al) w written rem = Some (Inr (wr, rem - int (length (pseudo_fields ord al))), w1)
    \<and> encode_block (w_enc w1) (w_hpackBuf w1) fs = Some (bs, enc')
    \<and> w1 = w\<lparr>w_enc := w_enc w1, w_hpackBuf := w_hpackBuf w1\<rparr>"
  using assms
proof (induction ord arbitrary: w written rem)
  case Nil
  then show ?case by (cases w) (simp add: pseudo_fields_def)
next
  case (Cons k ord)
  have pre: "\<forall>j\<in>set ord. \<forall>vv. map_of al j = Some vv \<longrightarrow> length vv = 1" using Cons.prems(2) by simp
  show ?case
  proof (cases "map_of al k")
    case None
    then have p: "pseudo_fields (k # ord) al = pseudo_fields ord al" by (simp add: pseudo_fields_def)
    from Cons.IH [of w written rem, OF Cons.prems(1) [unfolded p] pre] None show ?thesis
      unfolding p by simp
  next
    case (Some vv)
    with Cons.prems(2) have "length vv = 1" by simp
    then obtain v where v: "vv = [v]" by (auto simp: length_Suc_conv)
    then have b: "encode_block (w_enc w) (w_hpackBuf w) ((k, v, False) # (pseudo_fields ord al @ fs)) = Some (bs, enc')"
      using Cons.prems(1) Some by (simp add: pseudo_fields_def)
    obtain n w1 where 1: "encode_field w k v = Some (n, w1)"
      "encode_block (w_enc w1) (w_hpackBuf w1) (pseudo_fields ord al @ fs) = Some (bs, enc')"
      "w1 = w\<lparr>w_enc := w_enc w1, w_hpackBuf := w_hpackBuf w1\<rparr>"
      using encode_field_block [OF b] by blast
    from Cons.IH [of w1 "written + n" "rem - 1", OF 1(2) pre] obtain wr w2 where
      2: "encode_pseudo ord (Some al) w1 (written + n) (rem - 1) =
        Some (Inr (wr, rem - 1 - int (length (pseudo_fields ord al))), w2)"
      "encode_block (w_enc w2) (w_hpackBuf w2) fs = Some (bs, enc')"
      "w2 = w1\<lparr>w_enc := w_enc w2, w_hpackBuf := w_hpackBuf w2\<rparr>" by auto
    have "w2 = w\<lparr>w_enc := w_enc w2, w_hpackBuf := w_hpackBuf w2\<rparr>"
      by (subst 2(3), subst 1(3)) simp
    with 1(1) 2(1, 2) Some v show ?thesis by (simp add: pseudo_fields_def algebra_simps)
  qed
qed

lemma encode_values_block:
  assumes "encode_block (w_enc w) (w_hpackBuf w) (map (\<lambda>v. (k, v, False)) vv @ fs) = Some (bs, enc')"
    and "w_maxHeaderListSize w = 0"
  shows "\<exists>wr w1. encode_values k vv w written rem = Some (Inr (wr, rem - int (length vv)), w1)
    \<and> encode_block (w_enc w1) (w_hpackBuf w1) fs = Some (bs, enc')
    \<and> w1 = w\<lparr>w_enc := w_enc w1, w_hpackBuf := w_hpackBuf w1\<rparr>"
  using assms
proof (induction vv arbitrary: w written rem)
  case Nil
  then show ?case by (cases w) simp
next
  case (Cons v vv)
  obtain n w1 where 1: "encode_field w k v = Some (n, w1)"
    "encode_block (w_enc w1) (w_hpackBuf w1) (map (\<lambda>v. (k, v, False)) vv @ fs) = Some (bs, enc')"
    "w1 = w\<lparr>w_enc := w_enc w1, w_hpackBuf := w_hpackBuf w1\<rparr>"
    using encode_field_block [of w k v "map (\<lambda>v. (k, v, False)) vv @ fs" bs enc'] Cons.prems(1) by auto
  have z: "w_maxHeaderListSize w1 = 0" using arg_cong [OF 1(3), of w_maxHeaderListSize] Cons.prems(2) by simp
  from Cons.IH [OF 1(2) z, of "written + n" "rem - 1"] obtain wr w2 where
    2: "encode_values k vv w1 (written + n) (rem - 1) = Some (Inr (wr, rem - 1 - int (length vv)), w2)"
    "encode_block (w_enc w2) (w_hpackBuf w2) fs = Some (bs, enc')"
    "w2 = w1\<lparr>w_enc := w_enc w2, w_hpackBuf := w_hpackBuf w2\<rparr>" by auto
  have "w2 = w\<lparr>w_enc := w_enc w2, w_hpackBuf := w_hpackBuf w2\<rparr>"
    by (subst 2(3), subst 1(3)) simp
  with 1(1) 2(1, 2) z show ?case by (simp add: algebra_simps)
qed

section \<open>Fragments on the wire\<close>

text \<open>
  A block is emitted as a list of fragments, each with the END_HEADERS flag or not: the first in
  the HEADERS or PUSH_PROMISE frame, after the bytes \<open>pre\<close> and before the padding, the others in
  CONTINUATION frames.
\<close>

type_synonym fragment = "bytes \<times> bool"

fun cont_bytes :: "u32 \<Rightarrow> fragment \<Rightarrow> bytes" where
  "cont_bytes sid (fr, fin) =
     frame_header (of_nat (length fr)) FrameContinuation (if fin then FlagEndHeaders else 0) sid @ fr"

fun first_bytes :: "block \<Rightarrow> Flags \<Rightarrow> bytes \<Rightarrow> fragment \<Rightarrow> bytes" where
  "first_bytes b flags pre (fr, fin) =
     frame_header (of_nat (length fr) + b_nonFragmentLen b) (b_type b) (if fin then flags OR FlagEndHeaders else flags) (b_streamID b)
     @ pre @ fr @ replicate (unat (b_padLen b)) 0"

fun emitted :: "block \<Rightarrow> Flags \<Rightarrow> bytes \<Rightarrow> fragment list \<Rightarrow> bytes" where
  "emitted b flags pre [] = []"
| "emitted b flags pre (x # xs) = first_bytes b flags pre x @ concat (map (cont_bytes (b_streamID b)) xs)"

lemma emitted_append:
  "ps \<noteq> [] \<Longrightarrow> emitted b flags pre (ps @ qs) = emitted b flags pre ps @ concat (map (cont_bytes (b_streamID b)) qs)"
  by (cases ps) auto

definition fin_flags :: "bool \<Rightarrow> fragment list \<Rightarrow> bool" where
  "fin_flags fin ps \<longleftrightarrow> map snd ps = (if fin then replicate (length ps - 1) False @ [True] else replicate (length ps) False)"

lemma fin_flags_Cons: "fin_flags fin ps \<Longrightarrow> ps \<noteq> [] \<Longrightarrow> fin_flags fin ((fr, False) # ps)"
  by (cases ps) (auto simp: fin_flags_def)

lemma fin_flags_append:
  assumes "fin_flags False ps" "fin_flags fin qs" "qs \<noteq> []"
  shows "fin_flags fin (ps @ qs)"
proof -
  have "length ps + length qs - 1 = length ps + (length qs - 1)" using assms(3) by (cases qs) auto
  with assms(1, 2) show ?thesis by (simp add: fin_flags_def replicate_add)
qed

definition same_writer :: "frameWriter \<Rightarrow> frameWriter \<Rightarrow> bool" where
  "same_writer w w' \<longleftrightarrow> w' = w\<lparr>w_buf := w_buf w', w_out := w_out w', w_enc := w_enc w', w_hpackBuf := w_hpackBuf w'\<rparr>"

lemma same_writer_refl [simp]: "same_writer w w" by (simp add: same_writer_def)

lemma same_writer_enc: "w1 = w\<lparr>w_enc := w_enc w1, w_hpackBuf := w_hpackBuf w1\<rparr> \<Longrightarrow> same_writer w w1"
  by (cases w; cases w1) (simp add: same_writer_def)

lemma same_writer_trans: "same_writer w w1 \<Longrightarrow> same_writer w1 w2 \<Longrightarrow> same_writer w w2"
  unfolding same_writer_def by (cases w; cases w1; cases w2) auto

lemma same_writer_sel:
  assumes "same_writer w w'"
  shows "w_maxFrameSize w' = w_maxFrameSize w" "w_maxHeaderListSize w' = w_maxHeaderListSize w" "writer_ready w' = writer_ready w"
  using assms unfolding same_writer_def by (cases w; cases w'; auto simp: writer_ready_def)+

lemma next_frame_eq:
  assumes "writer_ready w" "length (w_hpackBuf w) < 2 ^ 32" "fr = take (unat (w_maxFrameSize w)) (w_hpackBuf w)"
  shows "\<exists>w'. next_frame b rem w = (of_nat (length fr), w') \<and> same_writer w w' \<and> w_hpackBuf w' = w_hpackBuf w
    \<and> w_out w' = w_out w @ cont_bytes (b_streamID b) (fr, length (w_hpackBuf w) \<le> unat (w_maxFrameSize w) \<and> rem = 0)
    \<and> w_enc w' = w_enc w"
proof -
  let ?mx = "w_maxFrameSize w" and ?buf = "w_hpackBuf w"
  have u: "unat (of_nat (length ?buf) :: u32) = length ?buf" using assms(2) by (intro unat_of_nat32) simp
  have gt: "of_nat (length ?buf) > ?mx \<longleftrightarrow> unat ?mx < length ?buf" using u by (simp add: word_less_nat_alt)
  have lfr: "length fr = min (length ?buf) (unat ?mx)" using assms(3) by simp
  show ?thesis
  proof (cases "unat ?mx < length ?buf")
    case True
    then have "of_nat (length fr) = ?mx" using lfr by simp
    with True gt assms show ?thesis
      by (intro exI) (auto simp: next_frame_def write_bytes same_writer_def)
  next
    case False
    then have "length fr = length ?buf" "fr = ?buf" using lfr assms(3) by simp_all
    with False gt assms u show ?thesis
      by (cases "rem = 0"; intro exI) (auto simp: next_frame_def write_bytes same_writer_def)
  qed
qed

text \<open>What a header block's frame adds to the fragment, and that it fits.\<close>

definition block_ok :: "block \<Rightarrow> Flags \<Rightarrow> bytes \<Rightarrow> bool" where
  "block_ok b flags pre \<longleftrightarrow>
     (\<forall>fl w. fl = flags \<or> fl = flags OR FlagEndHeaders \<longrightarrow> b_prefix b fl w = w\<lparr>w_buf := w_buf w @ pre\<rparr>)
     \<and> length pre + unat (b_padLen b) = unat (b_nonFragmentLen b) \<and> unat (b_nonFragmentLen b) < 512"

definition first_limit :: "frameWriter \<Rightarrow> block \<Rightarrow> nat" where
  "first_limit w b = unat (w_maxFrameSize w) - unat (b_nonFragmentLen b)"

lemma first_frame_eq:
  assumes "writer_ready w" "length (w_hpackBuf w) < 2 ^ 32" "fr = take (first_limit w b) (w_hpackBuf w)"
    and "block_ok b flags pre" "512 \<le> unat (w_maxFrameSize w)"
  shows "\<exists>fl w'. first_frame b rem flags w = (of_nat (length fr), fl, w') \<and> same_writer w w' \<and> w_hpackBuf w' = w_hpackBuf w
    \<and> w_out w' = w_out w @ first_bytes b flags pre (fr, length (w_hpackBuf w) \<le> first_limit w b \<and> rem = 0)
    \<and> w_enc w' = w_enc w"
proof -
  let ?mx = "w_maxFrameSize w" and ?buf = "w_hpackBuf w"
  have nf: "unat (b_nonFragmentLen b) < 512" using assms(4) by (simp add: block_ok_def)
  have u: "unat (of_nat (length ?buf) :: u32) = length ?buf" using assms(2) by (intro unat_of_nat32) simp
  have lim: "unat (?mx - b_nonFragmentLen b) = first_limit w b"
    unfolding first_limit_def using nf assms(5) by (intro unat_minus_small) simp
  have gt: "of_nat (length ?buf) > ?mx - b_nonFragmentLen b \<longleftrightarrow> first_limit w b < length ?buf"
    using u lim by (simp add: word_less_nat_alt)
  have z: "take (unat (b_padLen b)) zeroBuf = replicate (unat (b_padLen b)) 0"
    using unat_less_8 [of "b_padLen b"] by (simp add: zeroBuf_def take_replicate min_def)
  have pre: "b_prefix b flags v = v\<lparr>w_buf := w_buf v @ pre\<rparr>" "b_prefix b (flags OR FlagEndHeaders) v = v\<lparr>w_buf := w_buf v @ pre\<rparr>" for v
    using assms(4) by (simp_all add: block_ok_def)
  have lfr: "length fr = min (length ?buf) (first_limit w b)" using assms(3) by simp
  show ?thesis
  proof (cases "first_limit w b < length ?buf")
    case True
    then have "of_nat (length fr) = ?mx - b_nonFragmentLen b" using lfr lim by (metis min.absorb4 of_nat_unat ucast_id)
    with True gt assms(1, 3) pre z lim show ?thesis
      by (intro exI) (auto simp: first_frame_def write_bytes same_writer_def)
  next
    case False
    then have "length fr = length ?buf" "fr = ?buf" using lfr assms(3) by simp_all
    with False gt assms(1, 3) u pre z show ?thesis
      by (cases "rem = 0"; intro exI) (auto simp: first_frame_def write_bytes same_writer_def)
  qed
qed

text \<open>The loop at the label \<open>write\<close>.\<close>

definition written :: "block \<Rightarrow> Flags \<Rightarrow> bytes \<Rightarrow> bytes \<Rightarrow> frameWriter \<Rightarrow> fragment list \<Rightarrow> bytes \<Rightarrow> bool" where
  "written b flags pre out w ps buf \<longleftrightarrow> w_out w = out @ emitted b flags pre ps \<and> concat (map fst ps) @ w_hpackBuf w = buf
     \<and> (\<forall>x\<in>set ps. length (fst x) \<le> unat (w_maxFrameSize w)) \<and> (ps \<noteq> [] \<longrightarrow> length (fst (hd ps)) \<le> first_limit w b)"

lemma remaining_bytes:
  assumes "length buf < 2 ^ 32" "n \<le> length buf"
  shows "unat (of_nat (length buf) - of_nat n :: u32) = length buf - n"
  using assms by (subst unat_minus_small) (simp_all add: unat_of_nat32)

text \<open>One turn of the loop: the frame it writes, and whether it goes on.\<close>

lemma write_fragments_turn:
  assumes "writer_ready w" "length (w_hpackBuf w) < 2 ^ 32" "0 < n"
    and "n = (if sent then unat (w_maxFrameSize w) else first_limit w b)"
    and "(if \<not> sent then first_frame b rem flags w else case next_frame b rem w of (k, w) \<Rightarrow> (k, flags, w))
      = (of_nat (length (take n (w_hpackBuf w))), fl, w1)"
    and "same_writer w w1" "w_hpackBuf w1 = w_hpackBuf w"
  shows "write_fragments b rem flags sent w =
    (if unat (w_maxFrameSize w) \<le> length (w_hpackBuf w) - n \<or> (rem = 0 \<and> n < length (w_hpackBuf w))
     then write_fragments b rem fl True (w1\<lparr>w_hpackBuf := drop n (w_hpackBuf w)\<rparr>)
     else Some (None, fl, True, w1\<lparr>w_hpackBuf := drop n (w_hpackBuf w)\<rparr>))"
proof -
  let ?buf = "w_hpackBuf w" and ?k = "length (take n (w_hpackBuf w))"
  have k: "?k \<le> length ?buf" by simp
  have u: "unat (of_nat ?k :: u32) = ?k" using assms(2) by (intro unat_of_nat32) simp
  have r: "unat (of_nat (length ?buf) - of_nat ?k :: u32) = length ?buf - ?k"
    by (rule remaining_bytes [OF assms(2) k])
  have e: "w_err w1 = None" "w_maxFrameSize w1 = w_maxFrameSize w"
    using same_writer_sel [OF assms(6)] assms(1) by (simp_all add: writer_ready_def)
  have d: "take (length ?buf - ?k) (drop ?k ?buf) = drop n ?buf" by (simp add: min_def)
  have m: "length ?buf - ?k = length ?buf - n" by simp
  have c: "of_nat (length ?buf) - of_nat ?k \<ge> w_maxFrameSize w \<longleftrightarrow> unat (w_maxFrameSize w) \<le> length ?buf - n"
    "of_nat (length ?buf) - of_nat ?k > (0 :: u32) \<longleftrightarrow> n < length ?buf"
    using r m by (simp_all add: word_le_nat_alt word_less_nat_alt)
  have s: "w_maxFrameSize (w1\<lparr>w_hpackBuf := x\<rparr>) = w_maxFrameSize w" for x using e by simp
  show ?thesis
    by (subst write_fragments.simps)
      (simp only: assms(5, 7) Let_def prod.case e s c r u d not_None_eq simp_thms option.distinct if_False if_True cong: if_cong)
qed

lemma same_writer_buf [simp]: "same_writer w (w1\<lparr>w_hpackBuf := x\<rparr>) = same_writer w w1"
  unfolding same_writer_def by (cases w; cases w1) auto

text \<open>CONTINUATION frames until the buffer is below the limit, or empty at the end of the block.\<close>

lemma write_continuations:
  assumes "writer_ready w" "length (w_hpackBuf w) < 2 ^ 32" "0 < unat (w_maxFrameSize w)"
    and "written b flags pre out w ps buf" "ps \<noteq> []" "fin_flags False ps"
  shows "\<exists>qs fl w'. write_fragments b rem flags0 True w = Some (None, fl, True, w') \<and> same_writer w w' \<and> w_enc w' = w_enc w
    \<and> written b flags pre out w' (ps @ qs) buf \<and> qs \<noteq> [] \<and> fin_flags (rem = 0) qs \<and> (rem = 0 \<longrightarrow> w_hpackBuf w' = [])"
  using assms
proof (induction "length (w_hpackBuf w)" arbitrary: w flags0 ps rule: less_induct)
  case less
  let ?n = "unat (w_maxFrameSize w)" and ?b = "w_hpackBuf w"
  define fr where "fr = take ?n ?b"
  obtain w1 where n: "next_frame b rem w = (of_nat (length fr), w1)" "same_writer w w1" "w_hpackBuf w1 = ?b"
    "w_out w1 = w_out w @ cont_bytes (b_streamID b) (fr, length ?b \<le> ?n \<and> rem = 0)" "w_enc w1 = w_enc w"
    using next_frame_eq [OF less.prems(1, 2) fr_def, of b rem] by blast
  define w2 where "w2 = w1\<lparr>w_hpackBuf := drop ?n ?b\<rparr>"
  have turn: "write_fragments b rem flags0 True w =
    (if ?n \<le> length ?b - ?n \<or> (rem = 0 \<and> ?n < length ?b) then write_fragments b rem flags0 True w2 else Some (None, flags0, True, w2))"
    unfolding w2_def by (rule write_fragments_turn [OF less.prems(1, 2, 3) _ _ n(2, 3)]) (use n(1) in \<open>simp_all add: fr_def\<close>)
  have sel: "w_maxFrameSize w2 = w_maxFrameSize w" "writer_ready w2" "same_writer w w2" "w_hpackBuf w2 = drop ?n ?b" "w_enc w2 = w_enc w"
    using same_writer_sel [OF n(2)] n(2, 5) less.prems(1) by (simp_all add: w2_def writer_ready_def)
  have lim: "first_limit w2 b = first_limit w b" using sel(1) by (simp add: first_limit_def)
  have wr: "written b flags pre out w2 (ps @ [(fr, length ?b \<le> ?n \<and> rem = 0)]) buf"
    using less.prems(4, 5) n(4) sel(1, 4) lim by (auto simp: written_def emitted_append w2_def fr_def hd_append)
  show ?case
  proof (cases "?n \<le> length ?b - ?n \<or> (rem = 0 \<and> ?n < length ?b)")
    case True
    then have big: "?n < length ?b" using less.prems(3) by auto
    have ff: "fin_flags False (ps @ [(fr, length ?b \<le> ?n \<and> rem = 0)])"
      using big less.prems(6) by (intro fin_flags_append) (auto simp: fin_flags_def)
    have dec: "length (w_hpackBuf w2) < length ?b" using big sel(4) less.prems(3) by simp
    obtain qs fl w' where ih: "write_fragments b rem flags0 True w2 = Some (None, fl, True, w')" "same_writer w2 w'" "w_enc w' = w_enc w2"
      "written b flags pre out w' ((ps @ [(fr, length ?b \<le> ?n \<and> rem = 0)]) @ qs) buf" "qs \<noteq> []" "fin_flags (rem = 0) qs"
      "rem = 0 \<longrightarrow> w_hpackBuf w' = []"
      using less.hyps [OF dec sel(2) _ _ wr _ ff, of flags0] dec less.prems(2, 3) sel(1) by auto
    have "fin_flags (rem = 0) ((fr, False) # qs)" by (rule fin_flags_Cons [OF ih(6, 5)])
    with ih turn True big sel(3, 5) show ?thesis
      by (intro exI [of _ "(fr, False) # qs"] exI [of _ fl] exI [of _ w']) (auto intro: same_writer_trans)
  next
    case False
    then have "rem = 0 \<longrightarrow> length ?b \<le> ?n" by auto
    then have "fin_flags (rem = 0) [(fr, length ?b \<le> ?n \<and> rem = 0)]" by (auto simp: fin_flags_def)
    with False turn wr sel show ?thesis
      by (intro exI [of _ "[(fr, length ?b \<le> ?n \<and> rem = 0)]"] exI [of _ flags0] exI [of _ w2]) auto
  qed
qed

lemma write_fragments_written:
  assumes "writer_ready w" "length (w_hpackBuf w) < 2 ^ 32" "1024 \<le> unat (w_maxFrameSize w)" "block_ok b flags pre"
    and "written b flags pre out w ps buf" "fin_flags False ps" "ps = [] \<longrightarrow> flags0 = flags"
  shows "\<exists>qs fl w'. write_fragments b rem flags0 (ps \<noteq> []) w = Some (None, fl, True, w') \<and> same_writer w w' \<and> w_enc w' = w_enc w
    \<and> written b flags pre out w' (ps @ qs) buf \<and> qs \<noteq> [] \<and> fin_flags (rem = 0) qs \<and> (rem = 0 \<longrightarrow> w_hpackBuf w' = [])"
proof (cases "ps = []")
  case False
  with write_continuations [OF assms(1, 2) _ assms(5) False assms(6), of rem flags0] assms(3) show ?thesis by simp
next
  case True
  let ?n = "first_limit w b" and ?b = "w_hpackBuf w"
  define fr where "fr = take ?n ?b"
  have lim0: "0 < ?n" "?n \<le> unat (w_maxFrameSize w)"
    using assms(3, 4) by (simp_all add: first_limit_def block_ok_def)
  have big: "512 \<le> unat (w_maxFrameSize w)" using assms(3) by simp
  obtain fl w1 where n: "first_frame b rem flags w = (of_nat (length fr), fl, w1)" "same_writer w w1" "w_hpackBuf w1 = ?b"
    "w_out w1 = w_out w @ first_bytes b flags pre (fr, length ?b \<le> ?n \<and> rem = 0)" "w_enc w1 = w_enc w"
    using first_frame_eq [OF assms(1, 2) fr_def assms(4) big, of rem] by blast
  define w2 where "w2 = w1\<lparr>w_hpackBuf := drop ?n ?b\<rparr>"
  have turn: "write_fragments b rem flags False w =
    (if unat (w_maxFrameSize w) \<le> length ?b - ?n \<or> (rem = 0 \<and> ?n < length ?b) then write_fragments b rem fl True w2 else Some (None, fl, True, w2))"
    unfolding w2_def by (rule write_fragments_turn [OF assms(1, 2) lim0(1) _ _ n(2, 3)]) (use n(1) in \<open>simp_all add: fr_def\<close>)
  have sel: "w_maxFrameSize w2 = w_maxFrameSize w" "writer_ready w2" "same_writer w w2" "w_hpackBuf w2 = drop ?n ?b" "w_enc w2 = w_enc w"
    using same_writer_sel [OF n(2)] n(2, 5) assms(1) by (simp_all add: w2_def writer_ready_def)
  have lim: "first_limit w2 b = first_limit w b" using sel(1) by (simp add: first_limit_def)
  have wr: "written b flags pre out w2 [(fr, length ?b \<le> ?n \<and> rem = 0)] buf"
    using assms(5) True n(4) sel(1, 4) lim lim0(2) by (auto simp: written_def w2_def fr_def)
  show ?thesis
  proof (cases "unat (w_maxFrameSize w) \<le> length ?b - ?n \<or> (rem = 0 \<and> ?n < length ?b)")
    case go: True
    then have lt: "?n < length ?b" using assms(3) by auto
    then have ff: "fin_flags False [(fr, length ?b \<le> ?n \<and> rem = 0)]" by (simp add: fin_flags_def)
    have l2: "length (w_hpackBuf w2) < 2 ^ 32" using sel(4) assms(2) by simp
    obtain qs fl' w' where ih: "write_fragments b rem fl True w2 = Some (None, fl', True, w')" "same_writer w2 w'" "w_enc w' = w_enc w2"
      "written b flags pre out w' ([(fr, length ?b \<le> ?n \<and> rem = 0)] @ qs) buf" "qs \<noteq> []" "fin_flags (rem = 0) qs"
      "rem = 0 \<longrightarrow> w_hpackBuf w' = []"
      using write_continuations [OF sel(2) l2 _ wr _ ff, of rem fl] assms(3) sel(1) by auto
    have "fin_flags (rem = 0) ((fr, False) # qs)" by (rule fin_flags_Cons [OF ih(6, 5)])
    with ih turn go lt sel(3, 5) True assms(7) show ?thesis
      by (intro exI [of _ "(fr, False) # qs"] exI [of _ fl'] exI [of _ w']) (auto intro: same_writer_trans)
  next
    case False
    then have "rem = 0 \<longrightarrow> length ?b \<le> ?n" by auto
    then have "fin_flags (rem = 0) [(fr, length ?b \<le> ?n \<and> rem = 0)]" by (auto simp: fin_flags_def)
    with False turn wr sel True assms(7) show ?thesis
      by (intro exI [of _ "[(fr, length ?b \<le> ?n \<and> rem = 0)]"] exI [of _ fl] exI [of _ w2]) auto
  qed
qed

section \<open>A whole block\<close>

text \<open>What is left to encode, counted as \<open>remainingHeader\<close> counts it.\<close>

lemma other_fields_pseudo: "(\<forall>(k, vv)\<in>set hs. k \<in> set pseudoHeader) \<Longrightarrow> other_fields U hs = []"
  by (induction hs) auto

lemma header_loop_pseudo:
  "(\<forall>(k, vv)\<in>set hs. k \<in> set pseudoHeader) \<Longrightarrow> header_loop U b hs wr rem fl sent w = Some (None, w)"
  by (induction hs) auto

lemma other_fields_empty:
  "sendable hs \<Longrightarrow> other_fields U hs = [] \<Longrightarrow> \<forall>(k, vv)\<in>set hs. k \<in> set pseudoHeader"
  by (induction hs) (auto simp: sendable_def split: if_splits)

lemma sendable_tl: "sendable (x # hs) \<Longrightarrow> sendable hs"
  by (auto simp: sendable_def)

lemma EncodeHeaderField_append:
  "Encoder_EncodeHeaderField enc dst n v s = map_option (\<lambda>(k, bs, e). (k, dst @ bs, e)) (Encoder_EncodeHeaderField enc [] n v s)"
proof -
  have upd: "encDynamicTableSizeUpdate dst sz = dst @ encDynamicTableSizeUpdate [] sz" for dst sz
    unfolding encDynamicTableSizeUpdate_def by (rule encInteger_append)
  have su: "Encoder_size_updates enc dst = (dst @ fst (Encoder_size_updates enc []), snd (Encoder_size_updates enc []))"
    by (simp add: Encoder_size_updates_def Let_def upd [of dst] upd [of "dst @ _"] upd [of "encDynamicTableSizeUpdate [] _"])
  obtain d e where de: "Encoder_size_updates enc [] = (d, e)" by fastforce
  have lit: "encLiteral (dst @ d) n v ty i h = (fst (encLiteral d n v ty i h), dst @ snd (encLiteral d n v ty i h))" for ty i h
    using encLiteral_append [of "dst @ d" n v ty i h] encLiteral_append [of d n v ty i h] by simp
  have ix: "encIndexed (dst @ d) i = dst @ encIndexed d i" for i
    using encIndexed_append [of "dst @ d" i] encIndexed_append [of d i] by simp
  show ?thesis
    unfolding Encoder_EncodeHeaderField_def su de
    by (simp add: lit ix split_beta Let_def map_option_bind split: bind_splits)
qed

lemma encode_block_append:
  "encode_block enc dst fs = map_option (\<lambda>(bs, e). (dst @ bs, e)) (encode_block enc [] fs)"
proof (induction fs arbitrary: enc dst)
  case (Cons f fs)
  obtain n v s where f: "f = (n, v, s)" by (cases f)
  show ?case
  proof (cases "Encoder_EncodeHeaderField enc [] n v s")
    case None
    then show ?thesis by (simp add: f EncodeHeaderField_append [of enc dst])
  next
    case (Some r)
    obtain k b e where r: "r = (k, b, e)" by (cases r)
    from Cons.IH [of e "dst @ b"] Cons.IH [of e b] Some r show ?thesis
      by (simp add: f EncodeHeaderField_append [of enc dst] option.map_comp o_def split_beta)
  qed
qed simp

lemma encode_block_Some:
  "encode_block enc dst fs = Some (bs, enc') \<longleftrightarrow> (\<exists>b. bs = dst @ b \<and> encode_block enc [] fs = Some (b, enc'))"
  by (subst encode_block_append) auto

lemma header_loop_written:
  assumes "writer_ready w" "1024 \<le> unat (w_maxFrameSize w)" "w_maxHeaderListSize w = 0" "block_ok b flags pre"
    and "written b flags pre out w ps (concat (map fst ps) @ w_hpackBuf w)" "fin_flags False ps" "ps = [] \<longrightarrow> fl = flags"
    and "sendable hs" "other_fields U hs \<noteq> []" "rem = int (length (other_fields U hs))"
    and "encode_block (w_enc w) (w_hpackBuf w) (other_fields U hs) = Some (rest, enc')" "length rest < 2 ^ 32"
  shows "\<exists>w' qs. header_loop U b hs wr rem fl (ps \<noteq> []) w = Some (None, w') \<and> same_writer w w' \<and> w_enc w' = enc'
    \<and> written b flags pre out w' (ps @ qs) (concat (map fst ps) @ rest) \<and> w_hpackBuf w' = []
    \<and> qs \<noteq> [] \<and> fin_flags True (ps @ qs)"
  using assms
proof (induction hs arbitrary: w ps fl wr rem rest)
  case (Cons x hs)
  obtain k vv where x: "x = (k, vv)" by (cases x)
  note send = sendable_tl [OF Cons.prems(8)]
  show ?case
  proof (cases "k \<in> set pseudoHeader")
    case True
    with Cons.IH [OF Cons.prems(1-7) send, of rem rest wr] Cons.prems(9-12) x show ?thesis by simp
  next
    case False
    let ?K = "CanonicalHTTP2HeaderKey U k" and ?os = "other_fields U hs"
    have key: "k \<noteq> []" "hd k \<noteq> 58" using Cons.prems(8) x False by (auto simp: sendable_def)
    have fs: "other_fields U (x # hs) = map (\<lambda>v. (?K, v, False)) vv @ ?os" using x False by simp
    obtain wr1 w1 where 1: "encode_values ?K vv w wr rem = Some (Inr (wr1, rem - int (length vv)), w1)"
      "encode_block (w_enc w1) (w_hpackBuf w1) ?os = Some (rest, enc')"
      "w1 = w\<lparr>w_enc := w_enc w1, w_hpackBuf := w_hpackBuf w1\<rparr>"
      using encode_values_block [OF Cons.prems(11) [unfolded fs] Cons.prems(3), of wr rem] by blast
    have rem': "rem - int (length vv) = int (length ?os)" using Cons.prems(10) fs by simp
    have s1: "same_writer w w1" by (rule same_writer_enc [OF 1(3)])
    have o1: "w_out w1 = w_out w" using arg_cong [OF 1(3), of w_out] by simp
    note sel1 = same_writer_sel [OF s1]
    obtain b2 where b2: "rest = w_hpackBuf w1 @ b2" "encode_block (w_enc w1) [] ?os = Some (b2, enc')"
      using 1(2) encode_block_Some by blast
    have len1: "length (w_hpackBuf w1) < 2 ^ 32" using b2(1) Cons.prems(12) by simp
    have wr1: "written b flags pre out w1 ps (concat (map fst ps) @ w_hpackBuf w1)"
      using Cons.prems(5) o1 sel1 by (simp add: written_def first_limit_def)
    have r1: "writer_ready w1" using sel1(3) Cons.prems(1) by simp
    have m1: "1024 \<le> unat (w_maxFrameSize w1)" "w_maxHeaderListSize w1 = 0" using sel1 Cons.prems(2, 3) by simp_all
    show ?thesis
    proof (cases "int (length ?os) > 0 \<and> of_nat (length (w_hpackBuf w1)) < w_maxFrameSize w1")
      case True
      then have "?os \<noteq> []" by auto
      from Cons.IH [OF r1 m1 Cons.prems(4) wr1 Cons.prems(6, 7) send this refl 1(2) Cons.prems(12), of wr1]
      obtain w' qs where 2: "header_loop U b hs wr1 (int (length ?os)) fl (ps \<noteq> []) w1 = Some (None, w')" "same_writer w1 w'" "w_enc w' = enc'"
        "written b flags pre out w' (ps @ qs) (concat (map fst ps) @ rest)" "w_hpackBuf w' = []" "qs \<noteq> []" "fin_flags True (ps @ qs)"
        by blast
      have "header_loop U b (x # hs) wr rem fl (ps \<noteq> []) w = header_loop U b hs wr1 (int (length ?os)) fl (ps \<noteq> []) w1"
        using True False key 1(1) rem' by (simp add: x del: other_fields.simps)
      with 2 same_writer_trans [OF s1 2(2)] show ?thesis by (intro exI [of _ w'] exI [of _ qs]) simp
    next
      case flush: False
      obtain qs1 fl1 w2 where 2: "write_fragments b (int (length ?os)) fl (ps \<noteq> []) w1 = Some (None, fl1, True, w2)"
        "same_writer w1 w2" "w_enc w2 = w_enc w1" "written b flags pre out w2 (ps @ qs1) (concat (map fst ps) @ w_hpackBuf w1)"
        "qs1 \<noteq> []" "fin_flags (int (length ?os) = 0) qs1" "int (length ?os) = 0 \<longrightarrow> w_hpackBuf w2 = []"
        using write_fragments_written [OF r1 len1 m1(1) Cons.prems(4) wr1 Cons.prems(6, 7), of "int (length ?os)"] by blast
      have nf: "\<not> (?os \<noteq> [] \<and> of_nat (length (w_hpackBuf w1)) < w_maxFrameSize w1)" using flush by simp
      have unf: "header_loop U b (x # hs) wr rem fl (ps \<noteq> []) w = header_loop U b hs wr1 (int (length ?os)) fl1 True w2"
        unfolding x header_loop.simps using False key 1(1) rem' 2(1) by simp (rule impI, erule notE [OF nf])
      note s2 = same_writer_trans [OF s1 2(2)] and sel2 = same_writer_sel [OF 2(2)]
      show ?thesis
      proof (cases "?os = []")
        case True
        have "header_loop U b hs wr1 (int (length ?os)) fl1 True w2 = Some (None, w2)"
          by (rule header_loop_pseudo [OF other_fields_empty [OF send True]])
        moreover have "fin_flags True (ps @ qs1)" using 2(5, 6) True Cons.prems(6) by (intro fin_flags_append) simp_all
        moreover have "rest = w_hpackBuf w1" "enc' = w_enc w2" using b2 2(3) True by simp_all
        ultimately show ?thesis using unf s2 2(4, 5, 7) True by (intro exI [of _ w2] exI [of _ qs1]) simp
      next
        case ne: False
        have ff: "fin_flags False (ps @ qs1)" using 2(5, 6) ne Cons.prems(6) by (intro fin_flags_append) simp_all
        have cat: "concat (map fst (ps @ qs1)) @ w_hpackBuf w2 = concat (map fst ps) @ w_hpackBuf w1"
          using 2(4) by (simp add: written_def)
        have wr2: "written b flags pre out w2 (ps @ qs1) (concat (map fst (ps @ qs1)) @ w_hpackBuf w2)"
          using 2(4) cat by simp
        have e2: "encode_block (w_enc w2) (w_hpackBuf w2) ?os = Some (w_hpackBuf w2 @ b2, enc')"
          using b2(2) 2(3) encode_block_append [of "w_enc w2" "w_hpackBuf w2"] by simp
        have "length (w_hpackBuf w2) \<le> length (w_hpackBuf w1)" using arg_cong [OF cat, of length] by simp
        then have len2: "length (w_hpackBuf w2 @ b2) < 2 ^ 32" using b2(1) Cons.prems(12) by simp
        have m2: "1024 \<le> unat (w_maxFrameSize w2)" "w_maxHeaderListSize w2 = 0" "writer_ready w2" using sel2 m1 r1 by simp_all
        have nn: "ps @ qs1 = [] \<longrightarrow> fl1 = flags" using 2(5) by simp
        obtain w' qs where 3: "header_loop U b hs wr1 (int (length ?os)) fl1 (ps @ qs1 \<noteq> []) w2 = Some (None, w')" "same_writer w2 w'"
          "w_enc w' = enc'" "written b flags pre out w' ((ps @ qs1) @ qs) (concat (map fst (ps @ qs1)) @ w_hpackBuf w2 @ b2)"
          "w_hpackBuf w' = []" "qs \<noteq> []" "fin_flags True ((ps @ qs1) @ qs)"
          using Cons.IH [OF m2(3, 1, 2) Cons.prems(4) wr2 ff nn send ne refl e2 len2, of wr1] by blast
        have "concat (map fst (ps @ qs1)) @ w_hpackBuf w2 @ b2 = concat (map fst ps) @ rest"
          using cat b2(1) by (metis append_assoc)
        with 3 unf 2(5) same_writer_trans [OF s2 3(2)] show ?thesis
          by (intro exI [of _ w'] exI [of _ "qs1 @ qs"]) simp
      qed
    qed
  qed
qed simp

lemma length_pseudo_fields_sum:
  assumes "distinct (map fst al)" "finite S"
  shows "(\<Sum>k\<in>S. length (case map_of al k of Some vv \<Rightarrow> vv | None \<Rightarrow> [])) = (\<Sum>(k, vv)\<leftarrow>al. if k \<in> S then length vv else 0)"
  using assms(1)
proof (induction al)
  case (Cons x al)
  obtain k vv where x: "x = (k, vv)" by (cases x)
  let ?f = "\<lambda>j. length (case map_of al j of Some vv \<Rightarrow> vv | None \<Rightarrow> [])"
  have "map_of al k = None" using Cons.prems x by (simp add: map_of_eq_None_iff)
  then have "length (case map_of (x # al) j of Some vv \<Rightarrow> vv | None \<Rightarrow> []) = ?f j + (if j = k then length vv else 0)" for j
    using x by simp
  then have "(\<Sum>j\<in>S. length (case map_of (x # al) j of Some vv \<Rightarrow> vv | None \<Rightarrow> [])) = (\<Sum>j\<in>S. ?f j) + (if k \<in> S then length vv else 0)"
    using assms(2) by (simp only: sum.distrib) simp
  with Cons.IH Cons.prems x show ?case by simp
qed simp

lemma length_other_fields:
  "length (other_fields U al) = (\<Sum>(k, vv)\<leftarrow>al. if k \<in> set pseudoHeader then 0 else length vv)"
  by (induction al) auto

lemma length_pseudo_fields:
  assumes "sendable al" "distinct ord" "set ord = set pseudoHeader"
  shows "int (Header_Len (Some al)) - int (length (pseudo_fields ord al)) = int (length (other_fields U al))"
proof -
  have "length (pseudo_fields ord al) = (\<Sum>k\<leftarrow>ord. length (case map_of al k of Some vv \<Rightarrow> vv | None \<Rightarrow> []))"
    unfolding pseudo_fields_def length_concat by (simp add: o_def) (rule arg_cong [of _ _ sum_list], auto split: option.split)
  also have "\<dots> = (\<Sum>(k, vv)\<leftarrow>al. if k \<in> set pseudoHeader then length vv else 0)"
    using assms by (simp add: sum_list_distinct_conv_sum_set length_pseudo_fields_sum sendable_def)
  finally have p: "length (pseudo_fields ord al) = (\<Sum>(k, vv)\<leftarrow>al. if k \<in> set pseudoHeader then length vv else 0)" .
  have "Header_Len (Some al) = (\<Sum>(k, vv)\<leftarrow>al. if k \<in> set pseudoHeader then length vv else 0)
      + (\<Sum>(k, vv)\<leftarrow>al. if k \<in> set pseudoHeader then 0 else length vv)"
    by (simp add: Header_Len_def sum_list_addf [symmetric]) (rule arg_cong [of _ _ sum_list], auto)
  with p show ?thesis by (simp add: length_other_fields)
qed

lemma write_header_block_written:
  assumes "writer_ready w" "1024 \<le> unat (w_maxFrameSize w)" "w_maxHeaderListSize w = 0" "block_ok b flags pre"
    and "sendable al" "distinct ord" "set ord = set pseudoHeader" "other_fields U al \<noteq> []"
    and "encode_block (w_enc w) [] (pseudo_fields ord al @ other_fields U al) = Some (bs, enc')" "length bs < 2 ^ 32"
  shows "\<exists>w' ps. write_header_block U ord b (Some al) flags w = Some (None, w') \<and> same_writer w w' \<and> w_enc w' = enc'
    \<and> w_out w' = w_out w @ emitted b flags pre ps \<and> concat (map fst ps) = bs \<and> ps \<noteq> [] \<and> fin_flags True ps
    \<and> (\<forall>x\<in>set ps. length (fst x) \<le> unat (w_maxFrameSize w)) \<and> length (fst (hd ps)) \<le> first_limit w b"
proof -
  let ?w = "w\<lparr>w_hpackBuf := []\<rparr>" and ?n = "int (Header_Len (Some al))"
  have one: "\<forall>k\<in>set ord. \<forall>vv. map_of al k = Some vv \<longrightarrow> length vv = 1"
    using assms(5, 7) by (fastforce simp: sendable_def dest!: map_of_SomeD)
  have rem: "?n - int (length (pseudo_fields ord al)) = int (length (other_fields U al))"
    by (rule length_pseudo_fields [OF assms(5-7)])
  then have "Header_Len (Some al) \<noteq> 0" using assms(8) by (cases "other_fields U al") auto
  obtain wr w1 where 1: "encode_pseudo ord (Some al) ?w 0 ?n = Some (Inr (wr, ?n - int (length (pseudo_fields ord al))), w1)"
    "encode_block (w_enc w1) (w_hpackBuf w1) (other_fields U al) = Some (bs, enc')"
    "w1 = ?w\<lparr>w_enc := w_enc w1, w_hpackBuf := w_hpackBuf w1\<rparr>"
    using encode_pseudo_block [of ?w ord al "other_fields U al" bs enc' 0 ?n] assms(9) one by auto
  have s1: "same_writer w w1" using same_writer_enc [OF 1(3)] unfolding same_writer_def by (cases w; cases w1) auto
  note sel = same_writer_sel [OF s1]
  have o1: "w_out w1 = w_out w" using arg_cong [OF 1(3), of w_out] by simp
  have wr1: "written b flags pre (w_out w) w1 [] (concat (map fst []) @ w_hpackBuf w1)"
    using o1 by (simp add: written_def)
  have "fin_flags False []" by (simp add: fin_flags_def)
  then obtain w' qs where 2: "header_loop U b al wr (int (length (other_fields U al))) flags ([] \<noteq> ([] :: fragment list)) w1 = Some (None, w')"
    "same_writer w1 w'" "w_enc w' = enc'" "written b flags pre (w_out w) w' ([] @ qs) (concat (map fst []) @ bs)" "w_hpackBuf w' = []"
    "qs \<noteq> []" "fin_flags True ([] @ qs)"
    using header_loop_written [OF _ _ _ assms(4) wr1 _ _ assms(5, 8) refl 1(2) assms(10), of flags wr] sel assms(1-3) by auto
  have "write_header_block U ord b (Some al) flags w = Some (None, w')"
    using 1(1) 2(1) rem \<open>Header_Len (Some al) \<noteq> 0\<close> by (simp add: write_header_block_def Let_def)
  moreover have "w_maxFrameSize w' = w_maxFrameSize w" "first_limit w' b = first_limit w b"
    using sel same_writer_sel [OF 2(2)] by (simp_all add: first_limit_def)
  ultimately show ?thesis
    using 2 same_writer_trans [OF s1 2(2)] by (intro exI [of _ w'] exI [of _ qs]) (auto simp: written_def)
qed

end
