(* ===== verification/H2_HeaderRead.thy ===== *)
theory H2_HeaderRead
  imports H2_HeaderBlock
begin

text \<open>
  Reading header blocks back: the decoder drives \<open>Header.add\<close>, over the chunks of a frame and
  over the frames of a block.
\<close>

section \<open>The decoder and its handler\<close>

text \<open>
  The decoder treats its handler as a black box: what it does with any handler is what it
  does when the field is collected, followed by the call of the handler on that field.
\<close>

definition then_handle ::
  "('e, 'h) HeaderFieldHandler \<Rightarrow> 'h \<Rightarrow> 'e dec_err option \<times> 'e Decoder \<times> field list \<Rightarrow> 'e dec_err option \<times> 'e Decoder \<times> 'h" where
  "then_handle f h r =
     (case r of (e, dec, fs) \<Rightarrow>
        (case fs of
           [] \<Rightarrow> (e, dec, h)
         | (k, v, s) # _ \<Rightarrow> (case f k v s h of (e, h) \<Rightarrow> (map_option HandlerError e, dec, h))))"

lemma decIndexed_handle:
  "decIndexed (Some f) dec h = then_handle f h (decIndexed (Some collect) dec [])"
  by (auto simp: decIndexed_def then_handle_def call_handler_def collect_def Let_def
      split: prod.splits sum.splits option.splits)

lemma decLiteral_handle:
  "decLiteral (Some f) dec ty h = map_option (\<lambda>(n, r). (n, then_handle f h r)) (decLiteral (Some collect) dec ty [])"
  unfolding decLiteral_def Let_def
  by (auto simp: then_handle_def call_handler_def collect_def
      split: prod.splits sum.splits option.splits bind_splits)

lemma decode_instr_handle:
  "decode_instr (Some f) dec h = map_option (\<lambda>(n, r). (n, then_handle f h r)) (decode_instr (Some collect) dec [])"
proof -
  have l: "decLiteral (Some f) dec ty h = map_option (\<lambda>(n, r). (n, then_handle f h r)) (decLiteral (Some collect) dec ty [])" for ty
    by (rule decLiteral_handle)
  show ?thesis
    unfolding decode_instr_def Let_def decIndexed_handle [of f dec h] l
    by (auto simp: then_handle_def split: bind_splits)
qed

definition one_field :: "'e dec_err option \<times> 'e Decoder \<times> field list \<Rightarrow> bool" where
  "one_field r \<longleftrightarrow> (case r of (e, dec, fs) \<Rightarrow> fs = [] \<or> (\<exists>k v s. fs = [(k, v, s)] \<and> e = None))"

lemma one_field_indexed: "one_field (decIndexed (Some collect) dec [])"
  by (auto simp: one_field_def decIndexed_def call_handler_def collect_def Let_def split: prod.splits sum.splits option.splits)

lemma one_field_literal: "decLiteral (Some collect) dec ty [] = Some (n, r) \<Longrightarrow> one_field r"
  unfolding decLiteral_def Let_def
  by (auto simp: one_field_def call_handler_def collect_def split: prod.splits sum.splits option.splits bind_splits)

lemma one_field_instr: "decode_instr (Some collect) dec [] = Some (n, r) \<Longrightarrow> one_field r"
  using one_field_indexed [of dec] one_field_literal [of dec]
  by (auto simp: decode_instr_def Let_def one_field_def split: if_splits bind_splits)

lemma collect_one:
  assumes "decode (Some collect) dec [] = Some (n, e, dec', fs)"
  obtains "fs = []" | k v s where "fs = [(k, v, s)]" "e = None"
  using assms one_field_instr [of dec] by (auto simp: decode_def one_field_def split: bind_splits)

lemma decode_handle:
  "decode (Some f) dec h = map_option (\<lambda>(n, r). (n, then_handle f h r)) (decode (Some collect) dec [])"
proof (cases "decode_instr (Some collect) dec []")
  case None
  then show ?thesis by (simp add: decode_def decode_instr_handle [of f dec h])
next
  case (Some r)
  obtain n e dec' fs where r: "r = (n, e, dec', fs)" by (cases r)
  from one_field_instr [OF Some [unfolded r]] Some r show ?thesis
    by (auto simp: decode_def decode_instr_handle [of f dec h] then_handle_def one_field_def split: prod.splits)
qed

text \<open>The two outcomes of an instruction: it brings no field, or one field for the handler.\<close>

lemma decode_none:
  "decode (Some collect) dec [] = Some (n, e, dec', []) \<Longrightarrow> decode (Some f) dec h = Some (n, e, dec', h)"
  by (simp add: decode_handle [of f dec h] then_handle_def)

lemma decode_field:
  "decode (Some collect) dec [] = Some (n, e, dec', [(k, v, s)]) \<Longrightarrow>
    decode (Some f) dec h = (case f k v s h of (e, h) \<Rightarrow> Some (n, map_option HandlerError e, dec', h))"
  by (simp add: decode_handle [of f dec h] then_handle_def split: prod.splits)

lemma decode_Some_collect:
  "decode (Some f) dec h = Some r \<Longrightarrow> \<exists>n e dec' fs. decode (Some collect) dec [] = Some (n, e, dec', fs)"
  by (cases "decode (Some collect) dec []") (auto simp: decode_handle [of f dec h])

fun handle_all :: "('e, 'h) HeaderFieldHandler \<Rightarrow> field list \<Rightarrow> 'h \<Rightarrow> 'h option" where
  "handle_all f [] h = Some h"
| "handle_all f ((k, v, s) # fs) h = (case f k v s h of (None, h) \<Rightarrow> handle_all f fs h | (Some _, h) \<Rightarrow> None)"

lemma handle_all_append: "handle_all f (xs @ ys) h = Option.bind (handle_all f xs h) (handle_all f ys)"
  by (induction f xs h rule: handle_all.induct) (auto split: prod.splits option.splits)

lemma decode_collect:
  assumes "decode (Some collect) dec hs = Some (n, None, dec', hs')"
  shows "\<exists>fs. hs' = hs @ fs \<and> (\<forall>h h'. handle_all f fs h = Some h' \<longrightarrow> decode (Some f) dec h = Some (n, None, dec', h'))"
proof -
  from decode_Some_collect [OF assms] obtain m e d fs where c: "decode (Some collect) dec [] = Some (m, e, d, fs)" by blast
  then show ?thesis
  proof (cases rule: collect_one)
    case 1
    with c decode_none [of dec m e d collect hs] decode_none [of dec m e d f] assms show ?thesis
      by (intro exI [of _ "[]"]) auto
  next
    case (2 k v s)
    with c decode_field [of dec m e d k v s collect hs] decode_field [of dec m e d k v s f] assms show ?thesis
      by (intro exI [of _ fs]) (auto simp: collect_def split: prod.splits option.splits)
  qed
qed

lemma decode_collect_short:
  assumes "decode (Some collect) dec hs = Some (n, Some errNeedsMore, dec', hs')"
  shows "hs' = hs \<and> decode (Some f) dec h = Some (n, Some errNeedsMore, dec', h)"
proof -
  from decode_Some_collect [OF assms] obtain m e d fs where c: "decode (Some collect) dec [] = Some (m, e, d, fs)" by blast
  then show ?thesis
  proof (cases rule: collect_one)
    case 1
    with c decode_none [of dec m e d collect hs] decode_none [of dec m e d f h] assms show ?thesis by auto
  next
    case (2 k v s)
    with c decode_field [of dec m e d k v s collect hs] assms show ?thesis by (auto simp: collect_def)
  qed
qed

lemma Decode_loop_collect:
  assumes "Decode_loop fuel limit (Some collect) dec hs = Some (None, dec', hs')"
  shows "\<exists>fs. hs' = hs @ fs \<and> (\<forall>h h'. handle_all f fs h = Some h' \<longrightarrow> Decode_loop fuel limit (Some f) dec h = Some (None, dec', h'))"
  using assms
proof (induction fuel arbitrary: dec hs)
  case 0
  then show ?case by (auto simp: Decode_loop.simps split: if_splits)
next
  case (Suc fuel)
  show ?case
  proof (cases "Hpack_Codec.more dec")
    case False
    with Suc.prems show ?thesis by (auto simp: Decode_loop.simps)
  next
    case True
    note unf = Decode_loop.simps [of "Suc fuel" limit _ dec]
    from Suc.prems True obtain n e dec1 hs1 where d: "decode (Some collect) dec hs = Some (n, e, dec1, hs1)"
      by (auto simp: unf split: bind_splits)
    show ?thesis
    proof (cases e)
      case (Some x)
      with d Suc.prems True have "x = errNeedsMore" "dec' = dec1\<lparr>d_b := d_b dec1 @ d_data dec1\<rparr>" "hs' = hs1"
        by (auto simp: unf split: if_splits)
      with decode_collect_short [of dec hs n dec1 hs1 f] d Some True show ?thesis
        by (intro exI [of _ "[]"]) (auto simp: unf)
    next
      case None
      from decode_collect [OF d [unfolded None], of f] obtain fs1 where
        1: "hs1 = hs @ fs1" "\<And>h h'. handle_all f fs1 h = Some h' \<Longrightarrow> decode (Some f) dec h = Some (n, None, dec1, h')" by blast
      define dec2 where "dec2 = (if limit \<noteq> 0 then dec1\<lparr>d_n := d_n dec1 + n\<rparr> else dec1)"
      have lim: "limit \<noteq> 0 \<longrightarrow> \<not> d_n dec1 + n > limit" and l: "Decode_loop fuel limit (Some collect) dec2 hs1 = Some (None, dec', hs')"
        using Suc.prems True d None by (auto simp: unf dec2_def split: if_splits)
      from Suc.IH [OF l] obtain fs2 where
        2: "hs' = hs1 @ fs2" "\<And>h h'. handle_all f fs2 h = Some h' \<Longrightarrow> Decode_loop fuel limit (Some f) dec2 h = Some (None, dec', h')" by blast
      have "Decode_loop (Suc fuel) limit (Some f) dec h = Some (None, dec', h')" if "handle_all f (fs1 @ fs2) h = Some h'" for h h'
      proof -
        from that obtain h1 where h1: "handle_all f fs1 h = Some h1" "handle_all f fs2 h1 = Some h'"
          by (auto simp: handle_all_append split: bind_splits)
        show ?thesis using 1(2) [OF h1(1)] 2(2) [OF h1(2)] True lim by (auto simp: unf dec2_def split: if_splits)
      qed
      with 1(1) 2(1) show ?thesis by (intro exI [of _ "fs1 @ fs2"]) simp
    qed
  qed
qed

lemma Decode_collect:
  assumes "Decoder_Decode dec bs limit (Some collect) [] = Some (n, None, dec', fs)" "handle_all f fs h = Some h'"
  shows "Decoder_Decode dec bs limit (Some f) h = Some (n, None, dec', h')"
proof (cases "d_err dec = None \<and> bs \<noteq> []")
  case True
  then have d: "d_err dec = None" "bs \<noteq> []" by auto
  from assms(1) have g: "\<not> (d_sizeChanged dec \<and> (d_b dec @ bs) ! 0 AND 224 \<noteq> 32)"
    and l: "Decode_loop (length (d_b dec @ bs)) limit (Some collect) (load dec bs) [] = Some (None, dec', fs)" "n = d_n dec'"
    by (auto simp: Decode_load [OF d] split: if_splits option.splits)
  from Decode_loop_collect [OF l(1), of f] assms(2) have "Decode_loop (length (d_b dec @ bs)) limit (Some f) (load dec bs) h = Some (None, dec', h')"
    by auto
  with g l(2) show ?thesis by (simp add: Decode_load [OF d])
next
  case False
  with assms show ?thesis by (auto simp: Decoder_Decode_def split: option.splits)
qed

section \<open>The handler's state\<close>

text \<open>
  The interface between the decoder and a handler: a property of the handler's state that every
  call keeps is kept by decoding.
\<close>

locale handler_state =
  fixes handler :: "('e, 'h) HeaderFieldHandler"
    and good :: "'h \<Rightarrow> bool"
  assumes keeps: "good h \<Longrightarrow> handler k v s h = (e, h') \<Longrightarrow> good h'"
begin

lemma decode_keeps:
  assumes "decode (Some handler) dec h = Some (n, e, dec', h')" "good h"
  shows "good h'"
proof -
  from decode_Some_collect [OF assms(1)] obtain m e1 d fs where c: "decode (Some collect) dec [] = Some (m, e1, d, fs)" by blast
  then show ?thesis
  proof (cases rule: collect_one)
    case 1
    with c decode_none [of dec m e1 d handler h] assms show ?thesis by auto
  next
    case (2 k v s)
    with c decode_field [of dec m e1 d k v s handler h] assms keeps show ?thesis by (auto split: prod.splits)
  qed
qed

lemma loop_keeps:
  assumes "Decode_loop fuel limit (Some handler) dec h = Some (e, dec', h')" "good h"
  shows "good h'"
  using assms
proof (induction fuel arbitrary: dec h)
  case 0
  then show ?case by (auto simp: Decode_loop.simps split: if_splits)
next
  case (Suc fuel)
  show ?case
  proof (cases "Hpack_Codec.more dec")
    case False
    with Suc.prems show ?thesis by (simp add: Decode_loop.simps)
  next
    case True
    with Suc.prems obtain n e1 dec1 h1 where d: "decode (Some handler) dec h = Some (n, e1, dec1, h1)"
      by (auto simp: Decode_loop.simps split: bind_splits)
    from decode_keeps [OF d Suc.prems(2)] d True Suc show ?thesis
      by (cases e1) (auto simp: Decode_loop.simps [of "Suc fuel"] split: if_splits)
  qed
qed

lemma Decode_keeps:
  assumes "Decoder_Decode dec bs limit (Some handler) h = Some (n, e, dec', h')" "good h"
  shows "good h'"
proof (cases "d_err dec = None \<and> bs \<noteq> []")
  case True
  then have d: "d_err dec = None" "bs \<noteq> []" by auto
  show ?thesis
  proof (cases "Decode_loop (length (d_b dec @ bs)) limit (Some handler) (load dec bs) h")
    case (Some r)
    obtain e1 d1 h1 where r: "r = (e1, d1, h1)" by (cases r)
    from loop_keeps [OF Some [unfolded r] assms(2)] assms Some r show ?thesis
      by (auto simp: Decode_load [OF d] split: if_splits option.splits)
  qed (use assms in \<open>auto simp: Decode_load [OF d] split: if_splits\<close>)
next
  case False
  with assms show ?thesis by (auto simp: Decoder_Decode_def split: option.splits)
qed

end

text \<open>\<open>Header.add\<close> keeps a header well formed, and once it has panicked nothing follows.\<close>

definition received_ok :: "Header option \<Rightarrow> bool" where
  "received_ok h \<longleftrightarrow> (case h of None \<Rightarrow> True | Some h \<Rightarrow> header_wf h)"

interpretation received: handler_state add_handler received_ok
  by unfold_locales (auto simp: received_ok_def add_handler_def intro: Header_add_wf split: option.splits prod.splits)

interpretation panicked: handler_state add_handler "\<lambda>h. h = None"
  by unfold_locales (simp add: add_handler_def)

section \<open>A fragment in chunks\<close>

text \<open>Every prefix of a block that is decoded without an error is decoded without an error.\<close>

definition decodes :: "h2error Decoder \<Rightarrow> u32 \<Rightarrow> bytes \<Rightarrow> h2error Decoder \<Rightarrow> Header \<Rightarrow> bool" where
  "decodes dec limit bs dec' h \<longleftrightarrow> (\<exists>n. Decoder_Decode dec bs limit (Some add_handler) (Some None) = Some (n, None, dec', Some h))"

lemma decodes_prefix:
  assumes "dec_ok dec" "d_err dec = None" "length (d_b dec @ a @ b) < 2 ^ 29" "decodes dec limit (a @ b) dec' h'"
  shows "\<exists>dec1 h1. decodes dec limit a dec1 h1"
proof -
  have "length (d_b dec @ a) < 2 ^ 29" using assms(3) by simp
  from Decode_total [OF assms(1) this, of limit "Some add_handler" "Some None"] obtain m e dec1 h1 where
    d: "Decoder_Decode dec a limit (Some add_handler) (Some None) = Some (m, e, dec1, h1)" by blast
  obtain n where t: "Decoder_Decode dec (a @ b) limit (Some add_handler) (Some None) = Some (n, None, dec', Some h')"
    using assms(4) by (auto simp: decodes_def)
  have e: "e = None"
    using Decode_chunk_err [OF assms(2), of a limit "Some add_handler" "Some None" m _ dec1 h1 b] d t by (cases e) auto
  have "Decoder_Decode dec1 b limit (Some add_handler) h1 = Some (n, None, dec', Some h')"
    using Decode_chunk_ok [OF assms(2) d [unfolded e], of b] t by simp
  from panicked.Decode_keeps [OF this] have "h1 \<noteq> None" by blast
  with d e show ?thesis by (auto simp: decodes_def)
qed

lemma decodes_chunk:
  assumes "dec_ok dec" "d_err dec = None" "length (d_b dec @ a @ c @ b) < 2 ^ 29" "decodes dec limit (a @ c @ b) dec' h'"
    and "decodes dec limit a (r_dec r) h" "r_maxHeaderListSize r = limit"
  shows "\<exists>dec1 h1. decodes dec limit (a @ c) dec1 h1 \<and> decode_chunk c h r = Some (None, h1, r\<lparr>r_dec := dec1\<rparr>)"
proof -
  from decodes_prefix [of dec "a @ c" b limit dec' h'] assms(1-4) obtain dec1 h1 where d: "decodes dec limit (a @ c) dec1 h1" by auto
  then obtain n where "Decoder_Decode dec (a @ c) limit (Some add_handler) (Some None) = Some (n, None, dec1, Some h1)"
    by (auto simp: decodes_def)
  moreover from assms(5) obtain m where "Decoder_Decode dec a limit (Some add_handler) (Some None) = Some (m, None, r_dec r, Some h)"
    by (auto simp: decodes_def)
  ultimately have "Decoder_Decode (r_dec r) c limit (Some add_handler) (Some h) = Some (n, None, dec1, Some h1)"
    using Decode_chunk_ok [OF assms(2)] by metis
  with d assms(6) show ?thesis by (auto simp: decode_chunk_def)
qed

lemma decodes_nil: "decodes dec limit [] dec None \<longleftrightarrow> d_err dec = None"
  by (auto simp: decodes_def Decoder_Decode_def split: option.splits)

lemma fragment_loop_decodes:
  assumes "dec_ok dec" "d_err dec = None" "length (d_b dec @ a @ fr @ b) < 2 ^ 29" "decodes dec limit (a @ fr @ b) dec' h'"
    and "decodes dec limit a (r_dec r) h" "r_maxHeaderListSize r = limit" "0 < r_bufSize r" "r_in r = fr @ rest"
  shows "\<exists>dec1 h1. decodes dec limit (a @ fr) dec1 h1
    \<and> fragment_loop (int (length fr)) h r = Some (None, h1, r\<lparr>r_in := rest, r_dec := dec1\<rparr>)"
  using assms(3-8)
proof (induction "length fr" arbitrary: a fr h r rule: less_induct)
  case less
  show ?case
  proof (cases "fr = []")
    case True
    with less.prems show ?thesis
      by (intro exI [of _ "r_dec r"] exI [of _ h]) (simp add: fragment_loop.simps)
  next
    case False
    define n where "n = (if length fr > r_bufSize r then r_bufSize r else length fr)"
    define c where "c = take n fr"
    define fr' where "fr' = drop n fr"
    have fr: "fr = c @ fr'" "length c = n" "0 < n"
      using False less.prems(5) by (auto simp: c_def fr'_def n_def)
    from decodes_chunk [OF assms(1, 2), of a c "fr' @ b" limit dec' h' r h] less.prems(1-4) fr(1) obtain dec1 h1 where
      1: "decodes dec limit (a @ c) dec1 h1" "decode_chunk c h r = Some (None, h1, r\<lparr>r_dec := dec1\<rparr>)" by auto
    define r1 where "r1 = r\<lparr>r_in := fr' @ rest, r_dec := dec1\<rparr>"
    have lt: "length fr' < length fr" using fr by simp
    from less.hyps [OF lt, of "a @ c" r1 h1] less.prems fr(1) 1(1) obtain dec2 h2 where
      2: "decodes dec limit ((a @ c) @ fr') dec2 h2"
        "fragment_loop (int (length fr')) h1 r1 = Some (None, h2, r1\<lparr>r_in := rest, r_dec := dec2\<rparr>)"
      by (auto simp: r1_def)
    have ck: "(if nat (int (length fr)) > r_bufSize r then r_bufSize r else nat (int (length fr))) = n" by (simp add: n_def)
    have pk: "r_Peek n r = Inr c" using less.prems(6) fr by (simp add: r_Peek_def)
    have sk: "r_skip n (r\<lparr>r_dec := dec1\<rparr>) = r1" using less.prems(6) fr by (simp add: r_skip_def r_Discard_def r1_def)
    have len: "int (length fr) - int n = int (length fr')" using fr by simp
    have "fragment_loop (int (length fr)) h r = fragment_loop (int (length fr')) h1 r1"
      using False 1(2) pk sk len unfolding fragment_loop.simps [of "int (length fr)" h r] Let_def ck by simp
    with 2 fr(1) show ?thesis by (intro exI [of _ dec2] exI [of _ h2]) (simp add: r1_def)
  qed
qed

section \<open>A block in frames\<close>

text \<open>What \<open>readFrom\<close> of both frame types does with a fragment, for the frame as a function of its header.\<close>

definition fragment_then :: "(Header \<Rightarrow> Frame) \<Rightarrow> FrameType \<Rightarrow> u8 \<Rightarrow> int \<Rightarrow> Header \<Rightarrow> frameReader \<Rightarrow> read_result" where
  "fragment_then F ty pad n h r =
     do {
       (e, h, r) \<leftarrow> fragment_loop n h r;
       Some (case e of Some e \<Rightarrow> (Inl e, keep_pending (F h) r) | None \<Rightarrow> end_fragment ty pad (F h) r)
     }"

text \<open>A decoder \<open>dec\<close> that reads the whole block \<open>bs\<close> into the header \<open>h'\<close> and is \<open>dec2\<close> after its reset.\<close>

definition block_decodes :: "h2error Decoder \<Rightarrow> u32 \<Rightarrow> bytes \<Rightarrow> Header \<Rightarrow> h2error Decoder \<Rightarrow> bool" where
  "block_decodes dec limit bs h' dec2 \<longleftrightarrow> dec_ok dec \<and> d_err dec = None \<and> length (d_b dec @ bs) < 2 ^ 29
     \<and> (\<exists>dec'. decodes dec limit bs dec' h' \<and> Decoder_Reset dec' = (None, dec2))"

definition reading :: "h2error Decoder \<Rightarrow> u32 \<Rightarrow> bytes \<Rightarrow> Header \<Rightarrow> frameReader \<Rightarrow> bool" where
  "reading dec limit a h r \<longleftrightarrow> decodes dec limit a (r_dec r) h \<and> r_maxHeaderListSize r = limit \<and> 0 < r_bufSize r"

lemma decodes_unique: "decodes dec limit bs d1 h1 \<Longrightarrow> decodes dec limit bs d2 h2 \<Longrightarrow> d1 = d2 \<and> h1 = h2"
  by (auto simp: decodes_def)

lemma fragment_then_reads:
  assumes "block_decodes dec limit (a @ fr @ b) h' dec2" "reading dec limit a h r" "r_in r = fr @ zs @ rest"
    and "length zs = (if r_frameType r = ty then unat pad else 0)"
    and "Flags_Has (r_flags r) FlagEndHeaders = fin" "fin \<longrightarrow> b = []"
  shows "if fin then fragment_then F ty pad (int (length fr)) h r =
        Some (Inr (F h'), r\<lparr>r_in := rest, r_dec := dec2, r_pendingHeaders := None\<rparr>)
    else \<exists>dec1 h1. decodes dec limit (a @ fr) dec1 h1 \<and> fragment_then F ty pad (int (length fr)) h r =
        Some (Inr (F h1), r\<lparr>r_in := rest, r_dec := dec1, r_pendingHeaders := Some (F h1)\<rparr>)"
proof -
  from assms(1) obtain dec' where d: "dec_ok dec" "d_err dec = None" "length (d_b dec @ a @ fr @ b) < 2 ^ 29"
    "decodes dec limit (a @ fr @ b) dec' h'" "Decoder_Reset dec' = (None, dec2)"
    by (auto simp: block_decodes_def)
  from fragment_loop_decodes [OF d(1-4), of r h "zs @ rest"] assms(2, 3) obtain dec1 h1 where
    l: "decodes dec limit (a @ fr) dec1 h1"
      "fragment_loop (int (length fr)) h r = Some (None, h1, r\<lparr>r_in := zs @ rest, r_dec := dec1\<rparr>)"
    by (auto simp: reading_def)
  have sk: "end_fragment ty pad f (r\<lparr>r_in := zs @ rest, r_dec := dec1\<rparr>) =
      end_fragment ty 0 f (r\<lparr>r_in := rest, r_dec := dec1\<rparr>)" for f
    using assms(4) by (cases "r_frameType r = ty") (auto simp: end_fragment_def r_skip_def r_Discard_def)
  show ?thesis
  proof (cases fin)
    case True
    with l(1) d(4) assms(6) have "dec1 = dec'" "h1 = h'" by (auto dest: decodes_unique)
    with True sk l(2) d(5) assms(5) show ?thesis
      by (simp add: fragment_then_def end_fragment_def [of _ 0] r_skip_def r_Discard_def Let_def)
  next
    case False
    with sk l(2) assms(5) have "fragment_then F ty pad (int (length fr)) h r =
        Some (Inr (F h1), r\<lparr>r_in := rest, r_dec := dec1, r_pendingHeaders := Some (F h1)\<rparr>)"
      by (simp add: fragment_then_def end_fragment_def [of _ 0] r_skip_def r_Discard_def Let_def)
    with False l(1) show ?thesis by auto
  qed
qed

lemma read_pass_continuation:
  assumes "r_in r = frame_header n FrameContinuation fl sid @ rest" "r_pendingHeaders r = Some f" "n \<le> r_maxFrameSize r"
    and "n < 2 ^ 24" "sid AND 0x80000000 = 0"
  shows "read_pass r =
    (case readFrom_pending f (r\<lparr>r_in := rest, r_payloadLen := n, r_frameType := FrameContinuation, r_flags := fl, r_streamID := sid\<rparr>) of
       None \<Rightarrow> None
     | Some (Inl e, r') \<Rightarrow> Some (Inl (read_failure e), r')
     | Some (Inr f, r') \<Rightarrow> Some (Inr f, r'))"
proof -
  have "r_skip 9 (set_frame_header (frame_header n FrameContinuation fl sid) r) =
      r\<lparr>r_in := rest, r_payloadLen := n, r_frameType := FrameContinuation, r_flags := fl, r_streamID := sid\<rparr>"
    using assms(1) by (simp add: set_frame_header_eq [OF assms(4, 5)] r_skip_def r_Discard_def)
  moreover have "\<not> r_maxFrameSize r < n" using assms(3) by simp
  ultimately show ?thesis using assms
    by (simp add: read_pass_def r_Peek_def Let_def split: option.splits sum.splits)
qed

text \<open>What reading a block leaves as it was.\<close>

definition block_read :: "frameReader \<Rightarrow> frameReader \<Rightarrow> bytes \<Rightarrow> h2error Decoder \<Rightarrow> bool" where
  "block_read r r' rest dec2 \<longleftrightarrow> r_in r' = rest \<and> r_dec r' = dec2 \<and> r_pendingHeaders r' = None
     \<and> r_maxFrameSize r' = r_maxFrameSize r \<and> r_bufSize r' = r_bufSize r
     \<and> r_maxHeaderListSize r' = r_maxHeaderListSize r \<and> r_end r' = r_end r \<and> r_lastPayload r' = r_lastPayload r"

text \<open>
  The interface of the two frame types with a header block: what \<open>readFrom\<close> of the frame that
  waits for its CONTINUATION frames does with one of them.
\<close>

locale pending_frame =
  fixes F :: "Header \<Rightarrow> Frame"
    and ty :: FrameType
    and pad :: u8
    and sid :: u32
  assumes continues: "r_frameType r = FrameContinuation \<Longrightarrow> r_streamID r = sid \<Longrightarrow> sid \<noteq> 0 \<Longrightarrow>
      readFrom_pending (F h) r = fragment_then F ty pad (uint (r_payloadLen r)) h r"
    and other_type: "ty \<noteq> FrameContinuation"
begin

lemma continuation_pass:
  assumes "block_decodes dec limit (a @ fr @ b) h' dec2" "reading dec limit a h r" "fin \<longrightarrow> b = []"
    and "r_in r = cont_bytes sid (fr, fin) @ rest" "r_pendingHeaders r = Some (F h)"
    and "length fr \<le> unat (r_maxFrameSize r)" "unat (r_maxFrameSize r) < 2 ^ 24" "validStreamID sid"
  shows "if fin then \<exists>r'. read_pass r = Some (Inr (F h'), r') \<and> block_read r r' rest dec2
    else \<exists>h1 r'. read_pass r = Some (Inr (F h1), r') \<and> block_read r (r'\<lparr>r_pendingHeaders := None\<rparr>) rest (r_dec r')
      \<and> r_pendingHeaders r' = Some (F h1) \<and> reading dec limit (a @ fr) h1 r'"
proof -
  define n :: u32 where "n = of_nat (length fr)"
  define r1 where "r1 = r\<lparr>r_in := fr @ rest, r_payloadLen := n, r_frameType := FrameContinuation,
    r_flags := (if fin then FlagEndHeaders else 0), r_streamID := sid\<rparr>"
  have n: "unat n = length fr" unfolding n_def using assms(6, 7) by (intro unat_of_nat32) simp
  have n': "n \<le> r_maxFrameSize r" "n < 2 ^ 24" using n assms(6, 7) by (simp_all add: word_le_nat_alt word_less_nat_alt)
  have sid: "sid \<noteq> 0" "sid AND 0x80000000 = 0" using assms(8) by (simp_all add: validStreamID_def)
  have p: "readFrom_pending (F h) r1 = fragment_then F ty pad (int (length fr)) h r1"
    using continues [of r1 h] sid(1) n by (simp add: r1_def uint_nat)
  have rd: "reading dec limit a h r1" using assms(2) by (simp add: reading_def r1_def)
  have fl: "Flags_Has (r_flags r1) FlagEndHeaders = fin" by (simp add: r1_def Flags_Has_def)
  have inp: "r_in r1 = fr @ [] @ rest" and ty: "length [] = (if r_frameType r1 = ty then unat pad else 0)"
    using other_type by (simp_all add: r1_def)
  have pass: "read_pass r = (case readFrom_pending (F h) r1 of None \<Rightarrow> None
     | Some (Inl e, r') \<Rightarrow> Some (Inl (read_failure e), r') | Some (Inr f, r') \<Rightarrow> Some (Inr f, r'))"
    unfolding r1_def by (rule read_pass_continuation [OF _ assms(5) n' sid(2)]) (use assms(4) in \<open>simp add: n_def\<close>)
  show ?thesis
    using fragment_then_reads [OF assms(1) rd inp ty fl assms(3), of F] pass p assms(2)
    by (auto simp: block_read_def reading_def r1_def split: if_splits)
qed

lemma continuations_read:
  assumes "block_decodes dec limit (a @ concat (map fst qs)) h' dec2" "reading dec limit a h r"
    and "qs \<noteq> []" "fin_flags True qs" "r_in r = concat (map (cont_bytes sid) qs) @ rest" "r_pendingHeaders r = Some (F h)"
    and "\<forall>x\<in>set qs. length (fst x) \<le> unat (r_maxFrameSize r)" "unat (r_maxFrameSize r) < 2 ^ 24" "validStreamID sid"
  shows "\<exists>r'. read_again r = Some (Inr (F h'), r') \<and> block_read r r' rest dec2"
  using assms
proof (induction qs arbitrary: a h r)
  case (Cons q qs)
  obtain fr fin where q: "q = (fr, fin)" by (cases q)
  have fin: "fin \<longleftrightarrow> qs = []" and fins: "qs \<noteq> [] \<Longrightarrow> fin_flags True qs"
    using Cons.prems(4) q by (cases qs; auto simp: fin_flags_def)+
  have dec: "block_decodes dec limit (a @ fr @ concat (map fst qs)) h' dec2" using Cons.prems(1) q by simp
  have f: "fin \<longrightarrow> concat (map fst qs) = []" using fin by simp
  have inp: "r_in r = cont_bytes sid (fr, fin) @ (concat (map (cont_bytes sid) qs) @ rest)" using Cons.prems(5) q by simp
  have len: "length fr \<le> unat (r_maxFrameSize r)" using Cons.prems(7) q by simp
  note pass = continuation_pass [OF dec Cons.prems(2) f inp Cons.prems(6) len Cons.prems(8, 9)]
  show ?case
  proof (cases fin)
    case True
    with pass fin show ?thesis by (auto simp: read_again.simps [of r] block_read_def)
  next
    case False
    with pass obtain h1 r1 where 1: "read_pass r = Some (Inr (F h1), r1)"
      "block_read r (r1\<lparr>r_pendingHeaders := None\<rparr>) (concat (map (cont_bytes sid) qs) @ rest) (r_dec r1)"
      "r_pendingHeaders r1 = Some (F h1)" "reading dec limit (a @ fr) h1 r1" by auto
    have ne: "qs \<noteq> []" using False fin by simp
    have d1: "block_decodes dec limit ((a @ fr) @ concat (map fst qs)) h' dec2" using dec by simp
    have b1: "r_in r1 = concat (map (cont_bytes sid) qs) @ rest" "r_maxFrameSize r1 = r_maxFrameSize r"
      using 1(2) by (simp_all add: block_read_def)
    have "\<exists>r'. read_again r1 = Some (Inr (F h'), r') \<and> block_read r1 r' rest dec2"
      by (rule Cons.IH [OF d1 1(4) ne fins [OF ne] b1(1) 1(3)]) (use Cons.prems b1 in simp_all)
    with 1 show ?thesis by (auto simp: read_again.simps [of r] block_read_def)
  qed
qed simp

end

interpretation pending_headers: pending_frame "\<lambda>h. HeadersFrame sid h p pad e" FrameHeaders pad sid for sid p pad e
  by unfold_locales (simp_all add: HeadersFrame_readFrom_def headers_fragment_def fragment_then_def cong: option.case_cong)

interpretation pending_push: pending_frame "\<lambda>h. PushPromiseFrame sid promised h pad" FramePushPromise pad sid for sid promised pad
  by unfold_locales (simp_all add: PushPromiseFrame_readFrom_def push_fragment_def fragment_then_def cong: option.case_cong)

end
