(* ===== verification/H2_HeaderTrip.thy ===== *)
theory H2_HeaderTrip
  imports H2_HeaderRead
begin

text \<open>
  Header blocks from end to end: a HEADERS or PUSH_PROMISE frame with its CONTINUATION frames,
  written by one side and read by the other, gives the header that was sent.
\<close>

section \<open>The first frame of a block\<close>

definition headers_flags :: "u8 \<Rightarrow> Priority \<Rightarrow> bool \<Rightarrow> Flags" where
  "headers_flags pad p e =
     (if pad > 0 then FlagPadded else 0) OR (if HasPriority p then FlagPriority else 0) OR (if e then FlagEndStream else 0)"

definition headers_pre :: "u8 \<Rightarrow> Priority \<Rightarrow> bytes" where
  "headers_pre pad p =
     (if pad > 0 then [pad] else []) @ (if HasPriority p then uint32_bytes (dependency_word p) @ [Weight p] else [])"

definition headers_block :: "u32 \<Rightarrow> Priority \<Rightarrow> u8 \<Rightarrow> block" where
  "headers_block sid p pad =
     \<lparr>b_type = FrameHeaders, b_prefix = headers_prefix pad p,
      b_nonFragmentLen = (if pad > 0 then ucast pad + 1 else 0) + (if HasPriority p then 5 else 0),
      b_padLen = pad, b_streamID = sid\<rparr>"

definition push_flags :: "u8 \<Rightarrow> Flags" where
  "push_flags pad = (if pad > 0 then FlagPadded else 0)"

definition push_pre :: "u8 \<Rightarrow> u32 \<Rightarrow> bytes" where
  "push_pre pad promised = (if pad > 0 then [pad] else []) @ uint32_bytes promised"

definition push_block :: "u32 \<Rightarrow> u32 \<Rightarrow> u8 \<Rightarrow> block" where
  "push_block sid promised pad =
     \<lparr>b_type = FramePushPromise, b_prefix = push_prefix pad promised,
      b_nonFragmentLen = 4 + (if pad > 0 then ucast pad + 1 else 0), b_padLen = pad, b_streamID = sid\<rparr>"

definition headers_valid :: "u32 \<Rightarrow> Priority \<Rightarrow> bool" where
  "headers_valid sid p \<longleftrightarrow> validStreamID sid \<and> (HasPriority p \<longrightarrow> validStreamID (StreamDependency p))"

lemma HeadersFrame_writeTo_block:
  "headers_valid sid p \<Longrightarrow> HeadersFrame_writeTo U ord w sid h p pad e =
     write_header_block U ord (headers_block sid p pad) h (headers_flags pad p e) w"
  by (auto simp: HeadersFrame_writeTo_def headers_valid_def headers_block_def headers_flags_def)

lemma PushPromiseFrame_writeTo_block:
  "validStreamID sid \<Longrightarrow> validStreamID promised \<Longrightarrow> PushPromiseFrame_writeTo U ord w sid promised h pad =
     write_header_block U ord (push_block sid promised pad) h (push_flags pad) w"
  by (auto simp: PushPromiseFrame_writeTo_def push_block_def push_flags_def)

lemma headers_flags_Has:
  assumes "fl = headers_flags pad p e \<or> fl = headers_flags pad p e OR FlagEndHeaders"
  shows "Flags_Has fl FlagPadded \<longleftrightarrow> pad > 0" "Flags_Has fl FlagPriority \<longleftrightarrow> HasPriority p" "Flags_Has fl FlagEndStream \<longleftrightarrow> e"
  using assms by (auto simp: headers_flags_def Flags_Has_def split: if_splits)

lemma push_flags_Has:
  "fl = push_flags pad \<or> fl = push_flags pad OR FlagEndHeaders \<Longrightarrow> Flags_Has fl FlagPadded \<longleftrightarrow> pad > 0"
  by (auto simp: push_flags_def Flags_Has_def split: if_splits)

lemma unat_pad: "unat (ucast (pad :: u8) :: u32) = unat pad"
  using unat_less_8 [of pad] by (simp add: unsigned_ucast_eq take_bit_nat_eq_self)

lemma uint_pad: "uint (ucast (pad :: u8) :: u32) = uint pad"
  by (simp add: uint_up_ucast is_up)

lemma unat_pad_plus: "unat (ucast (pad :: u8) + 1 :: u32) = unat pad + 1"
  using unat_less_8 [of pad] by (subst unat_plus_small) (simp_all add: unat_pad)

lemma headers_nonFragmentLen:
  "unat (b_nonFragmentLen (headers_block sid p pad)) = (if pad > 0 then unat pad + 1 else 0) + (if HasPriority p then 5 else 0)"
  using unat_less_8 [of pad] by (auto simp: headers_block_def unat_pad_plus unat_plus_small)

lemma push_nonFragmentLen:
  "unat (b_nonFragmentLen (push_block sid promised pad)) = 4 + (if pad > 0 then unat pad + 1 else 0)"
  using unat_less_8 [of pad] by (auto simp: push_block_def unat_pad_plus unat_plus_small)

lemma headers_block_ok: "block_ok (headers_block sid p pad) (headers_flags pad p e) (headers_pre pad p)"
proof -
  have "headers_prefix pad p fl w = w\<lparr>w_buf := w_buf w @ headers_pre pad p\<rparr>"
    if "fl = headers_flags pad p e \<or> fl = headers_flags pad p e OR FlagEndHeaders" for fl w
    using headers_flags_Has [OF that]
    by (auto simp: headers_prefix_def headers_pre_def writeByte_def writeUint32_def)
  moreover have "b_prefix (headers_block sid p pad) = headers_prefix pad p" "b_padLen (headers_block sid p pad) = pad"
    by (simp_all add: headers_block_def)
  ultimately show ?thesis
    using unat_less_8 [of pad] by (auto simp: block_ok_def headers_nonFragmentLen headers_pre_def word_gt_0)
qed

lemma push_block_ok: "block_ok (push_block sid promised pad) (push_flags pad) (push_pre pad promised)"
proof -
  have "push_prefix pad promised fl w = w\<lparr>w_buf := w_buf w @ push_pre pad promised\<rparr>"
    if "fl = push_flags pad \<or> fl = push_flags pad OR FlagEndHeaders" for fl w
    using push_flags_Has [OF that] by (auto simp: push_prefix_def push_pre_def writeByte_def writeUint32_def)
  moreover have "b_prefix (push_block sid promised pad) = push_prefix pad promised" "b_padLen (push_block sid promised pad) = pad"
    by (simp_all add: push_block_def)
  ultimately show ?thesis
    using unat_less_8 [of pad] by (auto simp: block_ok_def push_nonFragmentLen push_pre_def word_gt_0)
qed

section \<open>Reading a block\<close>

text \<open>
  The interface of the two frame types at the start of a block: \<open>readFrom\<close> of a new frame parses
  what stands before the fragment and goes on with the fragment.  \<open>valid\<close> is the condition on the
  identifiers that the writer checks.
\<close>

locale header_frame = pending_frame F ty pad sid
  for F :: "Header \<Rightarrow> Frame" and ty :: FrameType and pad :: u8 and sid :: u32 +
  fixes b :: block
    and flags :: Flags
    and pre :: bytes
    and valid :: bool
  assumes shape: "b_type b = ty" "b_padLen b = pad" "b_streamID b = sid" "block_ok b flags pre"
    and no_end: "\<not> Flags_Has flags FlagEndHeaders"
    and sid_valid: "valid \<Longrightarrow> validStreamID sid"
    and starts: "valid \<Longrightarrow> r_in r = pre @ inp \<Longrightarrow> r_frameType r = ty \<Longrightarrow>
      r_flags r = flags \<or> r_flags r = flags OR FlagEndHeaders \<Longrightarrow> r_streamID r = sid \<Longrightarrow>
      uint (r_payloadLen r) = int n + uint (b_nonFragmentLen b) \<Longrightarrow>
      readFrom_new r = fragment_then F ty pad (int n) None (r\<lparr>r_in := inp\<rparr>)"
begin

lemma first_pass:
  assumes "valid" "block_decodes dec limit (fr @ c) h' dec2" "reading dec limit [] None r" "fin \<longrightarrow> c = []"
    and "r_in r = first_bytes b flags pre (fr, fin) @ rest" "r_pendingHeaders r = None"
    and "length fr + unat (b_nonFragmentLen b) \<le> unat (r_maxFrameSize r)" "unat (r_maxFrameSize r) < 2 ^ 24"
  shows "if fin then \<exists>r'. read_pass r = Some (Inr (F h'), r') \<and> block_read r r' rest dec2
    else \<exists>h1 r'. read_pass r = Some (Inr (F h1), r') \<and> block_read r (r'\<lparr>r_pendingHeaders := None\<rparr>) rest (r_dec r')
      \<and> r_pendingHeaders r' = Some (F h1) \<and> reading dec limit fr h1 r'"
proof -
  define n :: u32 where "n = of_nat (length fr) + b_nonFragmentLen b"
  define fl where "fl = (if fin then flags OR FlagEndHeaders else flags)"
  define inp where "inp = fr @ replicate (unat pad) 0 @ rest"
  define r1 where "r1 = r\<lparr>r_in := pre @ inp, r_payloadLen := n, r_frameType := ty, r_flags := fl, r_streamID := sid\<rparr>"
  have "unat (of_nat (length fr) :: u32) = length fr" using assms(7, 8) by (intro unat_of_nat32) simp
  then have n: "unat n = length fr + unat (b_nonFragmentLen b)"
    unfolding n_def using assms(7, 8) by (subst unat_plus_small) simp_all
  have n': "n \<le> r_maxFrameSize r" "n < 2 ^ 24" using n assms(7, 8) by (simp_all add: word_le_nat_alt word_less_nat_alt)
  have ui: "uint n = int (length fr) + uint (b_nonFragmentLen b)" using n by (metis of_nat_add uint_nat)
  have sid: "sid AND 0x80000000 = 0" using sid_valid [OF assms(1)] by (simp add: validStreamID_def)
  have p: "readFrom_new r1 = fragment_then F ty pad (int (length fr)) None (r1\<lparr>r_in := inp\<rparr>)"
    by (rule starts [OF assms(1)]) (use ui in \<open>auto simp: r1_def fl_def\<close>)
  have rd: "reading dec limit [] None (r1\<lparr>r_in := inp\<rparr>)" using assms(3) by (simp add: reading_def r1_def)
  have fl: "Flags_Has (r_flags (r1\<lparr>r_in := inp\<rparr>)) FlagEndHeaders = fin"
    using no_end by (auto simp: r1_def fl_def Flags_Has_def bit.conj_disj_distrib2)
  have zs: "length (replicate (unat pad) (0 :: u8)) = (if r_frameType (r1\<lparr>r_in := inp\<rparr>) = ty then unat pad else 0)"
    by (simp add: r1_def)
  have pass: "read_pass r = (case readFrom_new r1 of None \<Rightarrow> None
     | Some (Inl e, r') \<Rightarrow> Some (Inl (read_failure e), r') | Some (Inr f, r') \<Rightarrow> Some (Inr f, r'))"
    unfolding r1_def by (rule read_pass_frame [OF _ assms(6) n' sid other_type])
      (use assms(5) shape in \<open>simp add: n_def fl_def inp_def\<close>)
  have inp: "r_in (r1\<lparr>r_in := inp\<rparr>) = fr @ replicate (unat pad) 0 @ rest" by (simp add: inp_def)
  have d: "block_decodes dec limit ([] @ fr @ c) h' dec2" using assms(2) by simp
  show ?thesis
    using fragment_then_reads [OF d rd inp zs fl assms(4), of F] pass p assms(3)
    by (auto simp: block_read_def reading_def r1_def split: if_splits)
qed

lemma block_reads:
  assumes "valid" "block_decodes dec limit (concat (map fst ps)) h' dec2" "reading dec limit [] None r"
    and "ps \<noteq> []" "fin_flags True ps" "r_in r = emitted b flags pre ps @ rest" "r_pendingHeaders r = None"
    and "length (fst (hd ps)) + unat (b_nonFragmentLen b) \<le> unat (r_maxFrameSize r)"
    and "\<forall>x\<in>set ps. length (fst x) \<le> unat (r_maxFrameSize r)" "unat (r_maxFrameSize r) < 2 ^ 24"
  shows "\<exists>r'. read_again r = Some (Inr (F h'), r') \<and> block_read r r' rest dec2"
proof -
  obtain fr fin qs where ps: "ps = (fr, fin) # qs" using assms(4) by (metis list.exhaust prod.exhaust)
  have fin: "fin \<longleftrightarrow> qs = []" and fins: "qs \<noteq> [] \<Longrightarrow> fin_flags True qs"
    using assms(5) ps by (cases qs; auto simp: fin_flags_def)+
  have dec: "block_decodes dec limit (fr @ concat (map fst qs)) h' dec2" using assms(2) ps by simp
  have f: "fin \<longrightarrow> concat (map fst qs) = []" using fin by simp
  have inp: "r_in r = first_bytes b flags pre (fr, fin) @ (concat (map (cont_bytes sid) qs) @ rest)"
    using assms(6) ps shape by simp
  have len: "length fr + unat (b_nonFragmentLen b) \<le> unat (r_maxFrameSize r)" using assms(8) ps by simp
  note pass = first_pass [OF assms(1) dec assms(3) f inp assms(7) len assms(10)]
  show ?thesis
  proof (cases fin)
    case True
    with pass fin show ?thesis by (auto simp: read_again.simps [of r] block_read_def)
  next
    case False
    with pass obtain h1 r1 where 1: "read_pass r = Some (Inr (F h1), r1)"
      "block_read r (r1\<lparr>r_pendingHeaders := None\<rparr>) (concat (map (cont_bytes sid) qs) @ rest) (r_dec r1)"
      "r_pendingHeaders r1 = Some (F h1)" "reading dec limit fr h1 r1" by auto
    have ne: "qs \<noteq> []" using False fin by simp
    have b1: "r_in r1 = concat (map (cont_bytes sid) qs) @ rest" "r_maxFrameSize r1 = r_maxFrameSize r"
      using 1(2) by (simp_all add: block_read_def)
    have "\<exists>r'. read_again r1 = Some (Inr (F h'), r') \<and> block_read r1 r' rest dec2"
      by (rule continuations_read [OF dec 1(4) ne fins [OF ne] b1(1) 1(3)])
        (use assms ps b1 sid_valid in auto)
    with 1 show ?thesis by (auto simp: read_again.simps [of r] block_read_def)
  qed
qed

end

lemma uint_headers_len:
  "uint (b_nonFragmentLen (headers_block sid p pad)) = (if pad > 0 then uint pad + 1 else 0) + (if HasPriority p then 5 else 0)"
  unfolding uint_nat headers_nonFragmentLen by simp

lemma uint_push_len:
  "uint (b_nonFragmentLen (push_block sid promised pad)) = 4 + (if pad > 0 then uint pad + 1 else 0)"
  unfolding uint_nat push_nonFragmentLen by simp

lemma headers_starts:
  assumes "headers_valid sid p" "r_in r = headers_pre pad p @ inp" "r_frameType r = FrameHeaders"
    and "r_flags r = headers_flags pad p e \<or> r_flags r = headers_flags pad p e OR FlagEndHeaders" "r_streamID r = sid"
    and "uint (r_payloadLen r) = int n + uint (b_nonFragmentLen (headers_block sid p pad))"
  shows "readFrom_new r = fragment_then (\<lambda>h. HeadersFrame sid h p pad e) FrameHeaders pad (int n) None (r\<lparr>r_in := inp\<rparr>)"
proof -
  note fl = headers_flags_Has [OF assms(4)]
  define inp1 where "inp1 = (if HasPriority p then uint32_bytes (dependency_word p) @ [Weight p] else []) @ inp"
  define r1 where "r1 = r\<lparr>r_in := inp1\<rparr>"
  have pd: "(if Flags_Has (r_flags r) FlagPadded then read_padding r else (0, uint (r_payloadLen r), r)) =
      (pad, int n + (if HasPriority p then 5 else 0), r1)"
    using assms(2, 6) fl unfolding uint_headers_len
    by (auto simp: read_padding_def r_ReadByte_def headers_pre_def inp1_def r1_def word_gt_0)
  have pr: "(if Flags_Has (r_flags r1) FlagPriority
      then do { (p, r) \<leftarrow> read_priority r1; Some (p, int n + (if HasPriority p' then 5 else 0) - 5, r) }
      else Some (no_Priority, int n + (if HasPriority p' then 5 else 0), r1)) = Some (p, int n, r\<lparr>r_in := inp\<rparr>)" if "p' = p" for p'
  proof (cases "HasPriority p")
    case True
    with assms(1) have "read_priority r1 = Some (p, r1\<lparr>r_in := inp\<rparr>)"
      by (intro read_priority_bytes) (simp_all add: headers_valid_def r1_def inp1_def)
    with True fl that show ?thesis by (simp add: r1_def)
  next
    case False
    with fl that show ?thesis by (simp add: r1_def inp1_def HasPriority_def)
  qed
  have sid: "r_streamID r \<noteq> 0" using assms(1, 5) by (simp add: headers_valid_def validStreamID_def)
  have "readFrom_new r = HeadersFrame_readFrom 0 None no_Priority 0 False r"
    using assms(3) by (simp add: readFrom_new_def)
  also have "\<dots> = fragment_then (\<lambda>h. HeadersFrame sid h p pad e) FrameHeaders pad (int n) None (r\<lparr>r_in := inp\<rparr>)"
    unfolding HeadersFrame_readFrom_def Let_def pd prod.case pr [OF refl]
    using sid assms(3, 5) fl by (simp add: headers_fragment_def fragment_then_def cong: option.case_cong)
  finally show ?thesis .
qed

lemma push_starts:
  assumes "validStreamID sid \<and> validStreamID promised" "r_in r = push_pre pad promised @ inp" "r_frameType r = FramePushPromise"
    and "r_flags r = push_flags pad \<or> r_flags r = push_flags pad OR FlagEndHeaders" "r_streamID r = sid"
    and "uint (r_payloadLen r) = int n + uint (b_nonFragmentLen (push_block sid promised pad))"
  shows "readFrom_new r = fragment_then (\<lambda>h. PushPromiseFrame sid promised h pad) FramePushPromise pad (int n) None (r\<lparr>r_in := inp\<rparr>)"
proof -
  note fl = push_flags_Has [OF assms(4)]
  define r1 where "r1 = r\<lparr>r_in := uint32_bytes promised @ inp\<rparr>"
  have pd: "(if Flags_Has (r_flags r) FlagPadded then read_padding r else (0, uint (r_payloadLen r), r)) = (pad, int n + 4, r1)"
    using assms(2, 6) fl unfolding uint_push_len
    by (auto simp: read_padding_def r_ReadByte_def push_pre_def r1_def word_gt_0)
  have lt: "\<not> (r_payloadLen r \<le> (ucast pad :: u32))" if "pad > 0"
    using assms(6) that unfolding uint_push_len by (simp add: word_le_def uint_pad)
  have u: "readUint32 r1 = Some (promised, r\<lparr>r_in := inp\<rparr>)"
    using readUint32_bytes [of r1 promised inp] by (simp add: r1_def)
  have pm: "promised AND 0x7fffffff = promised" using low31 [of promised] assms(1) by (simp add: validStreamID_def)
  have sid: "r_streamID r \<noteq> 0" using assms(1, 5) by (simp add: validStreamID_def)
  have "readFrom_new r = PushPromiseFrame_readFrom 0 0 None 0 r"
    using assms(3) by (simp add: readFrom_new_def)
  also have "\<dots> = fragment_then (\<lambda>h. PushPromiseFrame sid promised h pad) FramePushPromise pad (int n) None (r\<lparr>r_in := inp\<rparr>)"
    unfolding PushPromiseFrame_readFrom_def Let_def pd prod.case u
    using sid assms(3, 5) fl lt pm by (auto simp: push_fragment_def fragment_then_def r1_def cong: option.case_cong)
  finally show ?thesis .
qed

interpretation headers_frame: header_frame "\<lambda>h. HeadersFrame sid h p pad e" FrameHeaders pad sid
  "headers_block sid p pad" "headers_flags pad p e" "headers_pre pad p" "headers_valid sid p" for sid p pad e
proof unfold_locales
  show "\<not> Flags_Has (headers_flags pad p e) FlagEndHeaders"
    by (auto simp: headers_flags_def Flags_Has_def split: if_splits)
qed (simp_all add: headers_block_ok headers_starts, simp_all add: headers_block_def headers_valid_def)

interpretation push_frame: header_frame "\<lambda>h. PushPromiseFrame sid promised h pad" FramePushPromise pad sid
  "push_block sid promised pad" "push_flags pad" "push_pre pad promised" "validStreamID sid \<and> validStreamID promised"
  for sid promised pad
proof unfold_locales
  show "\<not> Flags_Has (push_flags pad) FlagEndHeaders"
    by (auto simp: push_flags_def Flags_Has_def split: if_splits)
qed (simp_all add: push_block_ok push_starts, simp_all add: push_block_def)

end
