(* ===== verification/H2_HeaderDelivery.thy ===== *)
theory H2_HeaderDelivery
  imports H2_HeaderTrip
begin

text \<open>
  The header that is read is the header that was written: the fields of a block collected by
  \<open>Header.add\<close>, the codecs of the two sides kept in step, and the frames in between.
\<close>

section \<open>Collecting fields\<close>

definition values_of :: "gostring \<Rightarrow> field list \<Rightarrow> gostring list" where
  "values_of k fs = map (\<lambda>(n, v, s). v) (filter (\<lambda>(n, v, s). n = k) fs)"

lemma values_of_simps [simp]:
  "values_of k [] = []"
  "values_of k ((n, v, s) # fs) = (if n = k then v # values_of k fs else values_of k fs)"
  "values_of k (xs @ ys) = values_of k xs @ values_of k ys"
  by (simp_all add: values_of_def)

text \<open>Fields that \<open>Header.add\<close> accepts in turn, the first of them with \<open>n\<close> values already there.\<close>

fun addable :: "nat \<Rightarrow> field list \<Rightarrow> bool" where
  "addable n [] = True"
| "addable n ((k, v, s) # fs) \<longleftrightarrow>
     validHeaderKey k \<and> (hd k = 58 \<longrightarrow> n \<le> 5 \<and> k \<in> set pseudoHeader) \<and> addable (Suc n) fs"

lemma addable_append: "addable n (xs @ ys) \<longleftrightarrow> addable n xs \<and> addable (n + length xs) ys"
  by (induction n xs rule: addable.induct) auto

lemma Header_Len_update:
  "Header_Len (Some (AList.update k (Header_lookup (Some al) k @ [v]) al)) = Suc (Header_Len (Some al))"
  by (induction al) (auto simp: Header_Len_def Header_lookup_def)

lemma Header_add_ok:
  assumes "validHeaderKey k" "hd k = 58 \<longrightarrow> Header_Len h \<le> 5 \<and> k \<in> set pseudoHeader"
  shows "\<exists>h'. Header_add h k v = Some (None, h') \<and> Header_Len h' = Suc (Header_Len h)"
proof -
  obtain c cs where k: "k = c # cs" using assms(1) by (cases k) (auto simp: validHeaderKey_def)
  define al where "al = (case h of None \<Rightarrow> [] | Some al \<Rightarrow> al)"
  have "Header_add h k v = Some (None, Some (AList.update k (Header_lookup (Some al) k @ [v]) al))"
    using assms k by (cases h) (auto simp: Header_add_def Let_def al_def)
  moreover have "Header_Len (Some al) = Header_Len h" by (simp add: al_def Header_Len_def split: option.splits)
  ultimately show ?thesis by (simp add: Header_Len_update)
qed

lemma handle_all_add:
  assumes "addable (Header_Len h) fs" "header_wf h"
  shows "\<exists>h'. handle_all add_handler fs (Some h) = Some (Some h') \<and> header_wf h'
    \<and> (\<forall>k. Header_lookup h' k = Header_lookup h k @ values_of k fs)"
  using assms
proof (induction fs arbitrary: h)
  case (Cons f fs)
  obtain k v s where f: "f = (k, v, s)" by (cases f)
  from Header_add_ok [of k h v] Cons.prems f obtain h1 where
    h1: "Header_add h k v = Some (None, h1)" "Header_Len h1 = Suc (Header_Len h)" by auto
  have wf: "header_wf h1" by (rule Header_add_wf [OF Cons.prems(2) h1(1)])
  have "addable (Header_Len h1) fs" using Cons.prems(1) f h1(2) by simp
  from Cons.IH [OF this wf] obtain h' where
    h': "handle_all add_handler fs (Some h1) = Some (Some h')" "header_wf h'"
    "\<forall>k. Header_lookup h' k = Header_lookup h1 k @ values_of k fs" by blast
  with f h1 Header_add_lookup [OF h1(1)] show ?case
    by (intro exI [of _ h']) (auto simp: add_handler_def [of k])
qed auto

section \<open>The fields of a header\<close>

lemma values_pseudo:
  "distinct ord \<Longrightarrow> values_of k (pseudo_fields ord al) = (if k \<in> set ord then Header_lookup (Some al) k else [])"
proof (induction ord)
  case (Cons a ord)
  have "values_of k (map (\<lambda>v. (a, v, False)) vv) = (if a = k then vv else [])" for vv
    by (induction vv) auto
  with Cons show ?case by (auto simp: pseudo_fields_def Header_lookup_def split: option.splits)
qed (simp add: pseudo_fields_def)

lemma canonical_valid: "validHeaderKey k \<Longrightarrow> CanonicalHTTP2HeaderKey U k = k"
  by (auto simp: CanonicalHTTP2HeaderKey_def dest: commonHeader_Some validHeaderKey_lower split: option.splits)

definition valid_keys :: "(gostring \<times> gostring list) list \<Rightarrow> bool" where
  "valid_keys al \<longleftrightarrow> (\<forall>(k, vv)\<in>set al. validHeaderKey k)"

lemma values_other:
  assumes "distinct (map fst al)" "valid_keys al"
  shows "values_of k (other_fields U al) = (if k \<in> set pseudoHeader then [] else Header_lookup (Some al) k)"
  using assms
proof (induction al)
  case (Cons a al)
  obtain j vv where a: "a = (j, vv)" by (cases a)
  have c: "CanonicalHTTP2HeaderKey U j = j" using Cons.prems a by (intro canonical_valid) (simp add: valid_keys_def)
  have "values_of k (map (\<lambda>v. (j, v, False)) vv) = (if j = k then vv else [])"
    by (induction vv) auto
  moreover have "j = k \<Longrightarrow> Header_lookup (Some al) k = []"
    using Cons.prems(1) a by (auto simp: Header_lookup_def map_of_eq_None_iff split: option.splits dest: map_of_SomeD)
      (metis fst_conv imageI map_of_SomeD)
  ultimately show ?case using Cons a c by (auto simp: valid_keys_def Header_lookup_def split: if_splits)
qed (simp add: Header_lookup_def)

lemma pseudo_names_valid: "list_all validHeaderKey pseudoHeader" "list_all (\<lambda>k. hd k = 58) pseudoHeader"
  by code_simp+

lemma addable_same:
  "validHeaderKey k \<Longrightarrow> (hd k = 58 \<longrightarrow> n + length vv \<le> 6 \<and> k \<in> set pseudoHeader) \<Longrightarrow> addable n (map (\<lambda>v. (k, v, False)) vv)"
  by (induction vv arbitrary: n) auto

lemma addable_pseudo:
  assumes "set ord \<subseteq> set pseudoHeader" "\<forall>k\<in>set ord. \<forall>vv. map_of al k = Some vv \<longrightarrow> length vv = 1" "n + length ord \<le> 6"
  shows "addable n (pseudo_fields ord al)"
  using assms
proof (induction ord arbitrary: n)
  case (Cons a ord)
  have a: "validHeaderKey a" using Cons.prems(1) pseudo_names_valid(1) by (auto simp: list_all_iff)
  show ?case
  proof (cases "map_of al a")
    case None
    with Cons show ?thesis by (simp add: pseudo_fields_def)
  next
    case (Some vv)
    then obtain v where "vv = [v]" using Cons.prems(2) by (auto simp: length_Suc_conv)
    with Some Cons a show ?thesis by (auto simp: pseudo_fields_def)
  qed
qed (simp add: pseudo_fields_def)

lemma addable_other: "valid_keys al \<Longrightarrow> sendable al \<Longrightarrow> addable n (other_fields U al)"
proof (induction al arbitrary: n)
  case (Cons a al)
  obtain j vv where a: "a = (j, vv)" by (cases a)
  have j: "validHeaderKey j" using Cons.prems a by (simp add: valid_keys_def)
  have "addable n (map (\<lambda>v. (j, v, False)) vv)" if "j \<notin> set pseudoHeader" for n
    using Cons.prems a that j by (intro addable_same) (auto simp: sendable_def)
  moreover have "valid_keys al" "sendable al" using Cons.prems by (auto simp: valid_keys_def sendable_def)
  ultimately show ?case using Cons.IH a canonical_valid [OF j] by (auto simp: addable_append)
qed simp

text \<open>A header with legal keys is rebuilt from its fields.\<close>

lemma header_rebuilt:
  assumes "sendable al" "valid_keys al" "distinct ord" "set ord = set pseudoHeader"
  shows "\<exists>h'. handle_all add_handler (pseudo_fields ord al @ other_fields U al) (Some None) = Some (Some h')
    \<and> header_wf h' \<and> (\<forall>k. Header_lookup h' k = Header_lookup (Some al) k)"
proof -
  have one: "\<forall>k\<in>set ord. \<forall>vv. map_of al k = Some vv \<longrightarrow> length vv = 1"
    using assms(1, 4) by (fastforce simp: sendable_def dest!: map_of_SomeD)
  have "length ord = card (set pseudoHeader)" using assms(3, 4) by (metis distinct_card)
  also have "\<dots> \<le> 5" using card_length [of pseudoHeader] by (simp add: pseudoHeader_def)
  finally have len: "Header_Len None + length ord \<le> 6" by (simp add: Header_Len_def)
  have "addable (Header_Len None) (pseudo_fields ord al @ other_fields U al)"
    using addable_pseudo [OF _ one len] addable_other [OF assms(2, 1)] assms(4) by (simp add: addable_append)
  moreover have "header_wf None" by (simp add: header_wf_def)
  ultimately obtain h' where h': "handle_all add_handler (pseudo_fields ord al @ other_fields U al) (Some None) = Some (Some h')"
    "header_wf h'" "\<forall>k. Header_lookup h' k = Header_lookup None k @ values_of k (pseudo_fields ord al @ other_fields U al)"
    using handle_all_add by blast
  have "distinct (map fst al)" using assms(1) by (simp add: sendable_def)
  with h' values_pseudo [OF assms(3)] values_other [OF _ assms(2)] assms(4) show ?thesis
    by (intro exI [of _ h']) auto
qed

section \<open>The codecs\<close>

definition codec_ready :: "Encoder \<Rightarrow> h2error Decoder \<Rightarrow> bool" where
  "codec_ready enc dec \<longleftrightarrow> in_sync enc dec \<and> dec_ok dec \<and> d_err dec = None \<and> d_b dec = [] \<and> \<not> d_st dec"

lemma codec_ready_new: "unat m < 2 ^ 31 \<Longrightarrow> codec_ready (NewEncoder m) (NewDecoder m)"
  using in_sync_new [of m] by (simp add: codec_ready_def dec_ok_def NewDecoder_def new_table_def tbl_ok_def)

lemma codec_block:
  assumes "codec_ready enc dec" "fields_small fs" "handle_all add_handler fs (Some None) = Some (Some h')"
    and "\<forall>bs enc'. encode_block enc [] fs = Some (bs, enc') \<longrightarrow> length bs < 2 ^ 29"
  shows "\<exists>bs enc' dec2. encode_block enc [] fs = Some (bs, enc') \<and> block_decodes dec 0 bs h' dec2
    \<and> codec_ready enc' dec2 \<and> length bs < 2 ^ 29"
proof -
  from assms(1) have c: "in_sync enc dec" "dec_ok dec" "d_err dec = None" "d_b dec = []" "\<not> d_st dec"
    by (simp_all add: codec_ready_def)
  from block_roundtrip [OF c(1, 3-5) assms(2), of "[]"] obtain bs enc' dec' where
    b: "encode_block enc [] fs = Some (bs, enc')" "Decoder_Decode dec bs 0 (Some collect) [] = Some (d_n dec, None, dec', fs)"
    "in_sync enc' dec'" "d_b dec' = []" by auto
  have len: "length bs < 2 ^ 29" using assms(4) b(1) by blast
  from Decode_collect [OF b(2) assms(3)] have d: "decodes dec 0 bs dec' h'" by (auto simp: decodes_def)
  from Decode_total [OF c(2), of bs 0 "Some add_handler" "Some None"] d len c(4) have ok: "dec_ok dec'"
    by (auto simp: decodes_def)
  from in_sync_Reset [OF b(3, 4)] obtain dec2 where
    r: "Decoder_Reset dec' = (None, dec2)" "in_sync enc' dec2" "d_err dec2 = None" "d_b dec2 = []" "\<not> d_st dec2" by blast
  have "dec_ok dec2" using ok r(1) by (auto simp: Decoder_Reset_def Let_def dec_ok_def split: if_splits)
  with b d len c r show ?thesis
    by (intro exI [of _ bs] exI [of _ enc'] exI [of _ dec2]) (auto simp: block_decodes_def codec_ready_def)
qed

section \<open>Delivery\<close>

text \<open>Bytes that a reader with this decoder reads as the frame \<open>f\<close>, ending with the decoder \<open>dec2\<close>.\<close>

definition block_reader :: "u32 \<Rightarrow> h2error Decoder \<Rightarrow> frameReader \<Rightarrow> bool" where
  "block_reader mx dec r \<longleftrightarrow> reader_ready r \<and> r_maxFrameSize r = mx \<and> r_maxHeaderListSize r = 0 \<and> 0 < r_bufSize r \<and> r_dec r = dec"

definition reads_block :: "u32 \<Rightarrow> h2error Decoder \<Rightarrow> bytes \<Rightarrow> Frame \<Rightarrow> h2error Decoder \<Rightarrow> bool" where
  "reads_block mx dec bs f dec2 \<longleftrightarrow> (\<forall>r rest. block_reader mx dec r \<and> r_next r = bs @ rest \<longrightarrow>
     (\<exists>r'. frameReader_ReadFrame r = Some (Inr f, r') \<and> r_next r' = rest \<and> block_reader mx dec2 r'))"

context header_frame
begin

lemma emitted_nonempty:
  assumes "ps \<noteq> []"
  shows "emitted b flags pre ps \<noteq> []"
proof -
  from assms obtain x qs where ps: "ps = x # qs" by (cases ps) auto
  obtain fr fin where x: "x = (fr, fin)" by (cases x)
  have "9 \<le> length (first_bytes b flags pre x)" unfolding x first_bytes.simps length_append frame_header_length by linarith
  then show ?thesis unfolding ps emitted.simps by (metis append_is_Nil_conv list.size(3) not_numeral_le_zero)
qed

lemma emitted_reads:
  assumes "valid" "block_decodes dec 0 (concat (map fst ps)) h' dec2" "ps \<noteq> []" "fin_flags True ps"
    and "length (fst (hd ps)) + unat (b_nonFragmentLen b) \<le> unat mx" "\<forall>x\<in>set ps. length (fst x) \<le> unat mx" "unat mx < 2 ^ 24"
  shows "reads_block mx dec (emitted b flags pre ps) (F h') dec2"
  unfolding reads_block_def
proof (intro allI impI, elim conjE)
  fix r rest
  assume r: "block_reader mx dec r" "r_next r = emitted b flags pre ps @ rest"
  have ne: "r_next r \<noteq> []" using r(2) emitted_nonempty [OF assms(3)] by simp
  obtain r0 where r0: "frameReader_ReadFrame r = read_again r0" "r_in r0 = r_next r" "\<not> r_lastPayload r0"
    "r_pendingHeaders r0 = r_pendingHeaders r" "r_maxFrameSize r0 = r_maxFrameSize r" "r_dec r0 = r_dec r"
    "r_bufSize r0 = r_bufSize r" "r_maxHeaderListSize r0 = r_maxHeaderListSize r" "r_end r0 = r_end r"
    using ReadFrame_closes [OF ne] by metis
  have e: "d_err dec = None" using assms(2) by (simp add: block_decodes_def)
  have s: "r_maxFrameSize r0 = mx" "r_maxHeaderListSize r0 = 0" "0 < r_bufSize r0" "r_dec r0 = dec" "r_pendingHeaders r0 = None"
    using r(1) r0(4-8) by (simp_all add: block_reader_def reader_ready_def)
  have rd: "reading dec 0 [] None r0" using e s(2-4) by (simp add: reading_def decodes_nil)
  have inp: "r_in r0 = emitted b flags pre ps @ rest" using r(2) r0(2) by (rule trans [rotated])
  from block_reads [OF assms(1, 2) rd assms(3, 4) inp s(5)] assms(5-7) obtain r' where
    r': "read_again r0 = Some (Inr (F h'), r')" "block_read r0 r' rest dec2" unfolding s(1) by blast
  have "r_next r' = rest" "block_reader mx dec2 r'"
    using r'(2) r0(3) s(1-3) by (simp_all add: block_read_def block_reader_def reader_ready_def r_next_def)
  with r0(1) r'(1) show "\<exists>r'. frameReader_ReadFrame r = Some (Inr (F h'), r') \<and> r_next r' = rest \<and> block_reader mx dec2 r'"
    by auto
qed

lemma block_delivered:
  assumes "valid" "writer_ready w" "w_maxFrameSize w = mx" "1024 \<le> unat mx" "unat mx < 2 ^ 24" "w_maxHeaderListSize w = 0"
    and "sendable al" "valid_keys al" "distinct ord" "set ord = set pseudoHeader" "other_fields U al \<noteq> []"
    and "codec_ready (w_enc w) dec" "fields_small (pseudo_fields ord al @ other_fields U al)"
    and "\<forall>bs enc'. encode_block (w_enc w) [] (pseudo_fields ord al @ other_fields U al) = Some (bs, enc') \<longrightarrow> length bs < 2 ^ 29"
  shows "\<exists>w' bs h' dec2. write_header_block U ord b (Some al) flags w = Some (None, w') \<and> w_out w' = w_out w @ bs
    \<and> writer_ready w' \<and> reads_block mx dec bs (F h') dec2 \<and> codec_ready (w_enc w') dec2 \<and> header_wf h'
    \<and> (\<forall>k. Header_lookup h' k = Header_lookup (Some al) k)"
proof -
  from header_rebuilt [OF assms(7-10)] obtain h' where
    h': "handle_all add_handler (pseudo_fields ord al @ other_fields U al) (Some None) = Some (Some h')"
    "header_wf h'" "\<forall>k. Header_lookup h' k = Header_lookup (Some al) k" by blast
  from codec_block [OF assms(12, 13) h'(1) assms(14)] obtain bs enc' dec2 where
    b: "encode_block (w_enc w) [] (pseudo_fields ord al @ other_fields U al) = Some (bs, enc')"
    "block_decodes dec 0 bs h' dec2" "codec_ready enc' dec2" "length bs < 2 ^ 29" by blast
  have bl: "length bs < 2 ^ 32" using b(4) by simp
  have mx: "1024 \<le> unat (w_maxFrameSize w)" using assms(3, 4) by simp
  from write_header_block_written [OF assms(2) mx assms(6) shape(4) assms(7, 9-11) b(1) bl] obtain w' ps where
    w: "write_header_block U ord b (Some al) flags w = Some (None, w')" "same_writer w w'" "w_enc w' = enc'"
    "w_out w' = w_out w @ emitted b flags pre ps" "concat (map fst ps) = bs" "ps \<noteq> []" "fin_flags True ps"
    "\<forall>x\<in>set ps. length (fst x) \<le> unat mx" "length (fst (hd ps)) \<le> first_limit w b"
    using assms(3) by auto
  have nf: "unat (b_nonFragmentLen b) < 512" using shape(4) by (simp add: block_ok_def)
  have hd: "length (fst (hd ps)) + unat (b_nonFragmentLen b) \<le> unat mx"
    using w(9) nf assms(3, 4) by (simp add: first_limit_def)
  have "reads_block mx dec (emitted b flags pre ps) (F h') dec2"
    by (rule emitted_reads [OF assms(1) _ w(6, 7) hd w(8) assms(5)]) (use b w in simp)
  moreover have "writer_ready w'" using same_writer_sel [OF w(2)] assms(2) by (simp add: writer_ready_def)
  ultimately show ?thesis using w b h' by blast
qed

end

section \<open>Headers without other fields\<close>

text \<open>
  The two headers whose block does not come out of the loop over the fields: the empty one, whose
  frame has no block, and one of pseudo headers only, which is encoded and never written.
\<close>

lemma write_header_block_empty:
  assumes "writer_ready w" "block_ok b flags pre"
  shows "\<exists>w'. write_header_block U ord b (Some []) flags w = Some (None, w') \<and> same_writer w w' \<and> w_enc w' = w_enc w
    \<and> w_out w' = w_out w @ emitted b flags pre [([], True)]"
proof -
  have "take (unat (b_padLen b)) zeroBuf = replicate (unat (b_padLen b)) 0" using unat_less_8 [of "b_padLen b"] by (simp add: zeroBuf_def)
  moreover have "b_prefix b flags v = v\<lparr>w_buf := w_buf v @ pre\<rparr>" for v using assms(2) by (simp add: block_ok_def)
  ultimately show ?thesis using assms(1)
    by (simp add: write_header_block_def Header_Len_def Let_def writeFrameHeader_def Write_ready writer_ready_def same_writer_def)
qed

lemma header_loop_only_pseudo:
  "\<forall>(k, vv)\<in>set al. k \<in> set pseudoHeader \<Longrightarrow> header_loop U b al wr n flags sent w = Some (None, w)"
  by (induction al) auto

lemma only_pseudo:
  assumes "sendable al" "other_fields U al = []"
  shows "\<forall>(k, vv)\<in>set al. k \<in> set pseudoHeader"
proof -
  have "\<forall>(k, vv)\<in>set al. vv \<noteq> []" using assms(1) by (auto simp: sendable_def)
  with assms(2) show ?thesis by (induction al) (auto split: if_splits)
qed

lemma write_header_block_pseudo:
  assumes "sendable al" "distinct ord" "set ord = set pseudoHeader" "other_fields U al = []" "al \<noteq> []"
    and "encode_block (w_enc w) [] (pseudo_fields ord al) = Some (bs, enc')"
  shows "\<exists>w'. write_header_block U ord b (Some al) flags w = Some (None, w') \<and> w_out w' = w_out w \<and> w_enc w' = enc'"
    "pseudo_fields ord al \<noteq> []"
proof -
  let ?n = "int (Header_Len (Some al))"
  have len: "?n = int (length (pseudo_fields ord al))" using length_pseudo_fields [OF assms(1-3), of U] assms(4) by simp
  obtain k vv hs where "al = (k, vv) # hs" "vv \<noteq> []" using assms(1, 5) by (cases al) (auto simp: sendable_def)
  then have n: "Header_Len (Some al) \<noteq> 0" by (simp add: Header_Len_def)
  with len show "pseudo_fields ord al \<noteq> []" by auto
  have one: "\<forall>k\<in>set ord. \<forall>vv. map_of al k = Some vv \<longrightarrow> length vv = 1"
    using assms(1, 3) by (fastforce simp: sendable_def dest!: map_of_SomeD)
  obtain wr w1 where 1: "encode_pseudo ord (Some al) (w\<lparr>w_hpackBuf := []\<rparr>) 0 ?n = Some (Inr (wr, ?n - int (length (pseudo_fields ord al))), w1)"
    "encode_block (w_enc w1) (w_hpackBuf w1) [] = Some (bs, enc')"
    "w1 = w\<lparr>w_hpackBuf := [], w_enc := w_enc w1, w_hpackBuf := w_hpackBuf w1\<rparr>"
    using encode_pseudo_block [of "w\<lparr>w_hpackBuf := []\<rparr>" ord al "[]" bs enc' 0 ?n] assms(6) one by auto
  have "w_out w1 = w_out w" using arg_cong [OF 1(3), of w_out] by simp
  with 1(1, 2) n header_loop_only_pseudo [OF only_pseudo [OF assms(1, 4)]]
  show "\<exists>w'. write_header_block U ord b (Some al) flags w = Some (None, w') \<and> w_out w' = w_out w \<and> w_enc w' = enc'"
    by (simp add: write_header_block_def Let_def)
qed

context header_frame
begin

lemma empty_delivered:
  assumes "valid" "writer_ready w" "1024 \<le> unat mx" "unat mx < 2 ^ 24" "codec_ready (w_enc w) dec"
  shows "\<exists>w' bs h' dec2. write_header_block U ord b (Some []) flags w = Some (None, w') \<and> w_out w' = w_out w @ bs
    \<and> writer_ready w' \<and> reads_block mx dec bs (F h') dec2 \<and> codec_ready (w_enc w') dec2 \<and> header_wf h'
    \<and> (\<forall>k. Header_lookup h' k = Header_lookup (Some []) k)"
proof -
  from write_header_block_empty [OF assms(2) shape(4), of U ord] obtain w' where
    w: "write_header_block U ord b (Some []) flags w = Some (None, w')" "same_writer w w'" "w_enc w' = w_enc w"
    "w_out w' = w_out w @ emitted b flags pre [([], True)]" by blast
  from codec_block [OF assms(5), of "[]" None] obtain dec2 where
    d: "block_decodes dec 0 [] None dec2" "codec_ready (w_enc w) dec2" by (auto simp: fields_small_def)
  have "unat (b_nonFragmentLen b) < 512" using shape(4) by (simp add: block_ok_def)
  then have "reads_block mx dec (emitted b flags pre [([], True)]) (F None) dec2"
    using d(1) assms(3, 4) by (intro emitted_reads [OF assms(1)]) (simp_all add: fin_flags_def)
  moreover have "header_wf None" "\<forall>k. Header_lookup None k = Header_lookup (Some []) k" by (simp_all add: header_wf_def Header_lookup_def)
  ultimately show ?thesis using w d(2) same_writer_sel(3) [OF w(2)] assms(2) by metis
qed

text \<open>What becomes of a header, whatever fields it has.\<close>

lemma block_outcome:
  assumes "valid" "writer_ready w" "w_maxFrameSize w = mx" "1024 \<le> unat mx" "unat mx < 2 ^ 24" "w_maxHeaderListSize w = 0"
    and "sendable al" "valid_keys al" "distinct ord" "set ord = set pseudoHeader"
    and "codec_ready (w_enc w) dec" "fields_small (pseudo_fields ord al @ other_fields U al)"
    and "\<forall>bs enc'. encode_block (w_enc w) [] (pseudo_fields ord al @ other_fields U al) = Some (bs, enc') \<longrightarrow> length bs < 2 ^ 29"
  shows "if al \<noteq> [] \<and> other_fields U al = []
    then \<exists>w' bs. write_header_block U ord b (Some al) flags w = Some (None, w') \<and> w_out w' = w_out w
      \<and> pseudo_fields ord al \<noteq> [] \<and> encode_block (w_enc w) [] (pseudo_fields ord al) = Some (bs, w_enc w')
    else \<exists>w' bs h' dec2. write_header_block U ord b (Some al) flags w = Some (None, w') \<and> w_out w' = w_out w @ bs
      \<and> writer_ready w' \<and> reads_block mx dec bs (F h') dec2 \<and> codec_ready (w_enc w') dec2 \<and> header_wf h'
      \<and> (\<forall>k. Header_lookup h' k = Header_lookup (Some al) k)"
proof (cases "other_fields U al = []")
  case True
  from header_rebuilt [OF assms(7-10)] obtain h' where
    "handle_all add_handler (pseudo_fields ord al @ other_fields U al) (Some None) = Some (Some h')" by blast
  from codec_block [OF assms(11, 12) this assms(13)] True obtain bs enc' where
    e: "encode_block (w_enc w) [] (pseudo_fields ord al) = Some (bs, enc')" by auto
  note p = write_header_block_pseudo(1) [OF assms(7, 9, 10) True _ e, of b flags] write_header_block_pseudo(2) [OF assms(7, 9, 10) True _ e]
  show ?thesis
  proof (cases "al = []")
    case True
    with empty_delivered [OF assms(1, 2, 4, 5, 11), of U ord] show ?thesis by simp
  qed (use p e True in auto)
next
  case False
  with block_delivered [OF assms(1-10) False assms(11-13)] show ?thesis by simp
qed

end

end
