(* ===== verification/H2_ReadSafe.thy ===== *)
theory H2_ReadSafe
  imports H2_HeaderRead
begin

text \<open>
  What the frame reader may deliver, whatever the peer sends: every frame that \<open>ReadFrame\<close>
  returns is valid on its own, and the reader is never left with an ill-formed pending frame.
\<close>

section \<open>Valid frames\<close>

definition low_id :: "u32 \<Rightarrow> bool" where
  "low_id sid \<longleftrightarrow> sid AND 0x80000000 = 0"

fun frame_valid :: "u32 \<Rightarrow> Frame \<Rightarrow> bool" where
  "frame_valid mx (DataFrame sid d n p e) \<longleftrightarrow> validStreamID sid \<and> 0 \<le> n \<and> n + uint p \<le> uint mx"
| "frame_valid mx (HeadersFrame sid h p pad e) \<longleftrightarrow> validStreamID sid \<and> header_wf h \<and> low_id (StreamDependency p)"
| "frame_valid mx (PriorityFrame sid p) \<longleftrightarrow> validStreamID sid \<and> low_id (StreamDependency p)"
| "frame_valid mx (RSTStreamFrame sid code) \<longleftrightarrow> validStreamID sid"
| "frame_valid mx (SettingsFrame ack s) \<longleftrightarrow> settings_ok s \<and> (ack \<longrightarrow> s = [])"
| "frame_valid mx (PushPromiseFrame sid promised h pad) \<longleftrightarrow> validStreamID sid \<and> header_wf h \<and> low_id promised"
| "frame_valid mx (PingFrame ack d) \<longleftrightarrow> length d = 8"
| "frame_valid mx (GoAwayFrame lastID code d) \<longleftrightarrow> low_id lastID \<and> 8 + length d \<le> unat mx"
| "frame_valid mx (WindowUpdateFrame sid n) \<longleftrightarrow> low_id sid \<and> n \<noteq> 0 \<and> low_id n"
| "frame_valid mx (UnknownFrame t sid fl d n) \<longleftrightarrow> low_id sid \<and> t \<ge> 10 \<and> 0 \<le> n \<and> n \<le> uint mx"

fun header_frame_type :: "Frame \<Rightarrow> bool" where
  "header_frame_type (HeadersFrame _ _ _ _ _) = True"
| "header_frame_type (PushPromiseFrame _ _ _ _) = True"
| "header_frame_type _ = False"

definition pending_ok :: "frameReader \<Rightarrow> bool" where
  "pending_ok r \<longleftrightarrow> (case r_pendingHeaders r of None \<Rightarrow> True | Some f \<Rightarrow> header_frame_type f \<and> frame_valid (r_maxFrameSize r) f)"

text \<open>The outcome of reading from a reader: the limit is kept, and a frame that is returned is valid.\<close>

definition outcome_ok :: "u32 \<Rightarrow> read_result \<Rightarrow> bool" where
  "outcome_ok mx res \<longleftrightarrow> (\<forall>x r'. res = Some (x, r') \<longrightarrow> r_maxFrameSize r' = mx \<and> pending_ok r'
     \<and> (\<forall>f. x = Inr f \<longrightarrow> frame_valid mx f \<and> (r_pendingHeaders r' = None \<or> r_pendingHeaders r' = Some f)))"

section \<open>Fragments\<close>

definition same_io :: "frameReader \<Rightarrow> frameReader \<Rightarrow> bool" where
  "same_io r r' \<longleftrightarrow> r' = r\<lparr>r_in := r_in r', r_dec := r_dec r'\<rparr>"

lemma same_io_refl [simp]: "same_io r r" by (simp add: same_io_def)

lemma same_io_update [simp]: "same_io r (r\<lparr>r_in := x\<rparr>)" "same_io r (r\<lparr>r_dec := d\<rparr>)"
  by (cases r; simp add: same_io_def)+

lemma same_io_trans: "same_io r r1 \<Longrightarrow> same_io r1 r2 \<Longrightarrow> same_io r r2"
  unfolding same_io_def by (cases r; cases r1; cases r2) auto

lemma same_io_sel:
  assumes "same_io r r'"
  shows "r_maxFrameSize r' = r_maxFrameSize r" "r_pendingHeaders r' = r_pendingHeaders r" "r_streamID r' = r_streamID r"
    "r_frameType r' = r_frameType r" "r_flags r' = r_flags r" "r_payloadLen r' = r_payloadLen r"
  using assms unfolding same_io_def by (cases r; cases r'; simp)+

lemma r_skip_io [simp]: "same_io r (r_skip n r)"
  by (simp add: r_skip_def r_Discard_def)

lemma r_ReadByte_io: "r_ReadByte r = (x, r') \<Longrightarrow> same_io r r'"
  by (auto simp: r_ReadByte_def split: list.splits)

lemma readUint32_io: "readUint32 r = Some (v, r') \<Longrightarrow> same_io r r'"
  by (auto simp: readUint32_def split: sum.splits)

lemma decode_chunk_wf:
  assumes "decode_chunk c h r = Some (e, h', r')" "header_wf h"
  shows "header_wf h' \<and> same_io r r'"
proof -
  from assms(1) obtain n e1 dec where d: "Decoder_Decode (r_dec r) c (r_maxHeaderListSize r) (Some add_handler) (Some h) = Some (n, e1, dec, Some h')"
    "r' = r\<lparr>r_dec := dec\<rparr>"
    by (auto simp: decode_chunk_def split: option.splits)
  from received.Decode_keeps [OF d(1)] assms(2) d(2) show ?thesis by (simp add: received_ok_def)
qed

lemma fragment_loop_wf:
  assumes "fragment_loop n h r = Some y" "header_wf h"
  shows "case y of (e, h', r') \<Rightarrow> header_wf h' \<and> same_io r r'"
  using assms(2)
proof (induction rule: fragment_loop.raw_induct [OF _ assms(1), consumes 0, case_names 1])
  case (1 loop n h r y)
  show ?case
  proof (cases "n \<le> 0")
    case True
    with 1 show ?thesis by (auto split: prod.splits)
  next
    case False
    define k where "k = (if nat n > r_bufSize r then r_bufSize r else nat n)"
    show ?thesis
    proof (cases "r_Peek k r")
      case (Inl e)
      with 1 False show ?thesis by (auto simp: Let_def k_def [symmetric])
    next
      case (Inr c)
      with 1(2) False obtain e1 h1 r1 where d: "decode_chunk c h r = Some (e1, h1, r1)"
        by (auto simp: Let_def k_def [symmetric] split: bind_splits)
      note wf = decode_chunk_wf [OF d 1(3)]
      show ?thesis
      proof (cases e1)
        case (Some e)
        with 1(2) False Inr d wf show ?thesis by (auto simp: Let_def k_def [symmetric])
      next
        case None
        with 1(2) False Inr d have "loop (n - int k) h1 (r_skip k r1) = Some y"
          by (simp add: Let_def k_def [symmetric])
        moreover have "same_io r (r_skip k r1)" using wf by (blast intro: same_io_trans r_skip_io)
        ultimately show ?thesis using 1(1) [of "n - int k" h1 "r_skip k r1" y] wf by (auto intro: same_io_trans)
      qed
    qed
  qed
qed

text \<open>A fragment read into a frame that is valid with any well-formed header gives a valid outcome.\<close>

lemma pending_ok_io: "same_io r r' \<Longrightarrow> pending_ok r' = pending_ok r"
  by (simp add: pending_ok_def same_io_sel split: option.split)

lemma end_fragment_ok:
  assumes "pending_ok r" "header_frame_type f" "frame_valid (r_maxFrameSize r) f"
  shows "outcome_ok (r_maxFrameSize r) (Some (end_fragment t pad f r))"
proof -
  define r1 where "r1 = (if r_frameType r = t then r_skip (unat pad) r else r)"
  have io: "same_io r r1" by (simp add: r1_def)
  have "end_fragment t pad f r = (if Flags_Has (r_flags r1) FlagEndHeaders then
        (case Decoder_Reset (r_dec r1) of (e, dec) \<Rightarrow>
           (case e of Some e \<Rightarrow> (Inl (hpack_error e), r1\<lparr>r_dec := dec, r_pendingHeaders := None\<rparr>)
            | None \<Rightarrow> (Inr f, r1\<lparr>r_dec := dec, r_pendingHeaders := None\<rparr>)))
      else (Inr f, r1\<lparr>r_pendingHeaders := Some f\<rparr>))"
    unfolding end_fragment_def Let_def r1_def ..
  then show ?thesis
    using assms same_io_sel [OF io]
    by (auto simp: outcome_ok_def pending_ok_def split: prod.splits option.splits if_splits)
qed

lemma fragment_then_ok:
  assumes "pending_ok r" "header_wf h" "\<And>h. header_frame_type (F h)" "\<And>h. header_wf h \<Longrightarrow> frame_valid (r_maxFrameSize r) (F h)"
  shows "outcome_ok (r_maxFrameSize r) (fragment_then F ty pad n h r)"
proof (cases "fragment_loop n h r")
  case None
  then show ?thesis by (simp add: fragment_then_def outcome_ok_def)
next
  case (Some y)
  obtain e h1 r1 where y: "y = (e, h1, r1)" by (cases y)
  from fragment_loop_wf [OF Some assms(2)] y have wf: "header_wf h1" "same_io r r1" by auto
  note sel = same_io_sel [OF wf(2)]
  have ok: "pending_ok r1" using pending_ok_io [OF wf(2)] assms(1) by simp
  have v: "frame_valid (r_maxFrameSize r1) (F h1)" using assms(4) [OF wf(1)] sel by simp
  show ?thesis
  proof (cases e)
    case None
    with Some y have "fragment_then F ty pad n h r = Some (end_fragment ty pad (F h1) r1)" by (simp add: fragment_then_def)
    with end_fragment_ok [OF ok assms(3) v] sel show ?thesis by simp
  next
    case e: (Some x)
    with Some y have "fragment_then F ty pad n h r = Some (Inl x, keep_pending (F h1) r1)" by (simp add: fragment_then_def)
    with ok v sel assms(3) show ?thesis by (auto simp: outcome_ok_def keep_pending_def pending_ok_def)
  qed
qed

lemma headers_fragment_then:
  "headers_fragment n sid h p pad e r = fragment_then (\<lambda>h. HeadersFrame sid h p pad e) FrameHeaders pad n h r"
  by (simp add: headers_fragment_def fragment_then_def cong: option.case_cong)

lemma push_fragment_then:
  "push_fragment n sid promised h pad r = fragment_then (\<lambda>h. PushPromiseFrame sid promised h pad) FramePushPromise pad n h r"
  by (simp add: push_fragment_def fragment_then_def cong: option.case_cong)

section \<open>The frame types\<close>

lemma low_id_mask [simp]: "low_id (v AND 0x7fffffff)"
proof -
  have "(0x7fffffff AND 0x80000000 :: u32) = 0" by simp
  then show ?thesis unfolding low_id_def by (metis and.assoc and_zero_eq)
qed

lemma outcome_error [simp]: "outcome_ok mx (Some (Inl e, r)) \<longleftrightarrow> r_maxFrameSize r = mx \<and> pending_ok r"
  by (auto simp: outcome_ok_def)

lemma outcome_frame:
  "r_pendingHeaders r = None \<Longrightarrow> outcome_ok mx (Some (Inr f, r)) \<longleftrightarrow> r_maxFrameSize r = mx \<and> frame_valid mx f"
  by (auto simp: outcome_ok_def pending_ok_def)

lemma outcome_none [simp]: "outcome_ok mx None"
  by (simp add: outcome_ok_def)

lemma read_priority_ok:
  "read_priority r = Some (p, r') \<Longrightarrow> same_io r r' \<and> low_id (StreamDependency p)"
  by (auto simp: read_priority_def Let_def split: bind_splits prod.splits
      dest!: readUint32_io r_ReadByte_io intro: same_io_trans)

lemma read_padding_io: "read_padding r = (p, n, r') \<Longrightarrow> same_io r r'"
  by (auto simp: read_padding_def split: if_splits prod.splits dest: r_ReadByte_io)

lemma Data_ok:
  assumes "pending_ok r" "r_pendingHeaders r = None" "low_id (r_streamID r)" "r_payloadLen r \<le> r_maxFrameSize r"
  shows "outcome_ok (r_maxFrameSize r) (DataFrame_readFrom r)"
proof -
  obtain p r1 where pr: "(if Flags_Has (r_flags r) FlagPadded then r_ReadByte r else (0, r)) = (p, r1)" by (metis surj_pair)
  have io: "same_io r r1" using pr r_ReadByte_io [of r] by (auto split: if_splits)
  have p0: "\<not> Flags_Has (r_flags r) FlagPadded \<Longrightarrow> p = 0" using pr by auto
  have le: "uint (r_payloadLen r) \<le> uint (r_maxFrameSize r)" using assms(4) by (simp add: word_le_def)
  have lt: "\<not> r_payloadLen r \<le> (ucast p :: u32) \<Longrightarrow> uint p < uint (r_payloadLen r)"
    by (simp add: word_le_def uint_up_ucast is_up)
  show ?thesis
    unfolding DataFrame_readFrom_def Let_def pr prod.case
    using assms same_io_sel [OF io] pending_ok_io [OF io] le lt p0
    by (auto simp: outcome_frame open_payload_def validStreamID_def low_id_def)
qed

lemma Headers_ok:
  assumes "pending_ok r" "low_id (r_streamID r)" "header_wf h"
    and "r_frameType r = FrameContinuation \<Longrightarrow> validStreamID sid" "low_id (StreamDependency p)"
  shows "outcome_ok (r_maxFrameSize r) (HeadersFrame_readFrom sid h p pad e r)"
proof (cases "r_streamID r = 0")
  case True
  with assms show ?thesis by (simp add: HeadersFrame_readFrom_def)
next
  case False
  then have v: "validStreamID (r_streamID r)" using assms(2) by (simp add: validStreamID_def low_id_def)
  have frag: "outcome_ok (r_maxFrameSize r1) (headers_fragment n i h q pad e r1)"
    if "same_io r r1" "validStreamID i" "low_id (StreamDependency q)" for r1 n i q pad e
    unfolding headers_fragment_then
    by (rule fragment_then_ok) (use that assms pending_ok_io [OF that(1)] in auto)
  show ?thesis
  proof (cases "r_frameType r = FrameContinuation")
    case True
    with False assms frag [of r sid] show ?thesis by (simp add: HeadersFrame_readFrom_def)
  next
    case cont: False
    obtain pad1 n1 r1 where pd: "(if Flags_Has (r_flags r) FlagPadded then read_padding r else (pad, uint (r_payloadLen r), r)) = (pad1, n1, r1)"
      by (metis prod_cases3)
    have io: "same_io r r1" using pd read_padding_io [of r] by (auto split: if_splits)
    have pr: "same_io r r2 \<and> low_id (StreamDependency q)"
      if "(if Flags_Has (r_flags r1) FlagPriority then do { (p, r) \<leftarrow> read_priority r1; Some (p, n1 - 5, r) } else Some (p, n1, r1)) = Some (q, n2, r2)"
      for q n2 r2
      using that io assms(5) read_priority_ok [of r1]
      by (auto split: if_splits bind_splits intro: same_io_trans)
    show ?thesis
      unfolding HeadersFrame_readFrom_def Let_def pd prod.case
      using False cont assms(1) frag [OF _ v] pr pending_ok_io same_io_sel(1)
      by (auto split: bind_split)
  qed
qed

lemma Push_ok:
  assumes "pending_ok r" "low_id (r_streamID r)" "header_wf h"
    and "r_frameType r = FrameContinuation \<Longrightarrow> validStreamID sid \<and> low_id promised"
  shows "outcome_ok (r_maxFrameSize r) (PushPromiseFrame_readFrom sid promised h pad r)"
proof (cases "r_streamID r = 0")
  case True
  with assms show ?thesis by (simp add: PushPromiseFrame_readFrom_def)
next
  case False
  then have v: "validStreamID (r_streamID r)" using assms(2) by (simp add: validStreamID_def low_id_def)
  have frag: "outcome_ok (r_maxFrameSize r1) (push_fragment n i q h pad r1)"
    if "same_io r r1" "validStreamID i" "low_id q" for r1 n i q pad
    unfolding push_fragment_then
    by (rule fragment_then_ok) (use that assms pending_ok_io [OF that(1)] in auto)
  show ?thesis
  proof (cases "r_frameType r = FrameContinuation")
    case True
    with False assms frag [of r sid promised] show ?thesis by (simp add: PushPromiseFrame_readFrom_def)
  next
    case cont: False
    obtain pad1 n1 r1 where pd: "(if Flags_Has (r_flags r) FlagPadded then read_padding r else (pad, uint (r_payloadLen r), r)) = (pad1, n1, r1)"
      by (metis prod_cases3)
    have io: "same_io r r1" using pd read_padding_io [of r] by (auto split: if_splits)
    have pr: "same_io r r2" if "readUint32 r1 = Some (v, r2)" for v r2
      using readUint32_io [OF that] io by (rule same_io_trans [rotated])
    show ?thesis
      unfolding PushPromiseFrame_readFrom_def Let_def pd prod.case
      using False cont assms(1) frag [OF _ v] pr pending_ok_io [OF io] same_io_sel(1) [OF io] same_io_sel(1)
      by (auto split: bind_split)
  qed
qed

lemma Priority_ok:
  assumes "pending_ok r" "r_pendingHeaders r = None" "low_id (r_streamID r)"
  shows "outcome_ok (r_maxFrameSize r) (PriorityFrame_readFrom r)"
  using assms same_io_sel
  by (auto simp: PriorityFrame_readFrom_def r_Discard_def outcome_frame pending_ok_def validStreamID_def low_id_def [symmetric]
      split: bind_split dest!: read_priority_ok)

lemma RSTStream_ok:
  assumes "pending_ok r" "r_pendingHeaders r = None" "low_id (r_streamID r)"
  shows "outcome_ok (r_maxFrameSize r) (RSTStreamFrame_readFrom r)"
  using assms same_io_sel
  by (auto simp: RSTStreamFrame_readFrom_def outcome_frame validStreamID_def low_id_def [symmetric]
      split: bind_split dest!: readUint32_io)

lemma settings_loop_ok:
  "settings_loop k s r = Some (e, s', r') \<Longrightarrow> settings_ok s \<Longrightarrow> same_io r r' \<and> settings_ok s'"
proof (induction k s r rule: settings_loop.induct)
  case (2 k s r)
  then obtain b where b: "r_Peek settingLen r = Inr b" by (auto split: sum.splits)
  obtain x s1 where s1: "Settings_SetValue s (be_Uint16 b) (be_Uint32 (drop 2 b)) = (x, s1)" by (cases "Settings_SetValue s (be_Uint16 b) (be_Uint32 (drop 2 b))")
  have ok: "settings_ok s1" using SetValue_map [OF 2(3), of "be_Uint16 b" "be_Uint32 (drop 2 b)"] s1 by auto
  show ?case
  proof (cases x)
    case None
    from 2(2) b s1 None have l: "settings_loop k s1 (r_skip settingLen r) = Some (e, s', r')" by simp
    have "same_io (r_skip settingLen r) r' \<and> settings_ok s'"
      using 2(1) [OF b refl refl refl _ None l ok] s1 by simp
    then show ?thesis by (blast intro: same_io_trans r_skip_io)
  next
    case (Some y)
    with 2(2) b s1 ok show ?thesis by (auto simp: Let_def)
  qed
qed simp

lemma Settings_ok:
  assumes "pending_ok r" "r_pendingHeaders r = None"
  shows "outcome_ok (r_maxFrameSize r) (SettingsFrame_readFrom r)"
  using assms same_io_sel
  by (auto simp: SettingsFrame_readFrom_def outcome_frame pending_ok_def settings_ok_def [of "[]"]
      split: bind_split option.splits dest!: settings_loop_ok)

lemma Ping_ok:
  assumes "pending_ok r" "r_pendingHeaders r = None"
  shows "outcome_ok (r_maxFrameSize r) (PingFrame_readFrom r)"
  using assms by (auto simp: PingFrame_readFrom_def outcome_frame pending_ok_def io_ReadFull_def Let_def)

lemma GoAway_ok:
  assumes "pending_ok r" "r_pendingHeaders r = None" "r_payloadLen r \<le> r_maxFrameSize r"
  shows "outcome_ok (r_maxFrameSize r) (GoAwayFrame_readFrom r)"
proof (cases "r_streamID r \<noteq> 0 \<or> r_payloadLen r < 8")
  case True
  with assms show ?thesis by (auto simp: GoAwayFrame_readFrom_def)
next
  case False
  then have big: "8 \<le> unat (r_payloadLen r)" by (simp add: word_less_nat_alt)
  then have n: "8 + unat (r_payloadLen r - 8) = unat (r_payloadLen r)" by (subst unat_minus_small) simp_all
  have le: "unat (r_payloadLen r) \<le> unat (r_maxFrameSize r)" using assms(3) by (simp add: word_le_nat_alt)
  have "outcome_ok (r_maxFrameSize r) (case io_ReadFull (unat (r_payloadLen r2 - 8)) r2 of
           (Some e, _, r) \<Rightarrow> Some (Inl e, r)
         | (None, data, r) \<Rightarrow> Some (Inr (GoAwayFrame (lastID AND 0x7fffffff) code data), r))"
    if "same_io r r2" for r2 lastID code
    using same_io_sel [OF that] assms n le by (auto simp: outcome_frame pending_ok_def io_ReadFull_def Let_def)
  moreover have "same_io r r2" if "readUint32 r = Some (a, r1)" "readUint32 r1 = Some (c, r2)" for a r1 c r2
    using that by (blast intro: same_io_trans readUint32_io)
  ultimately show ?thesis using False by (auto simp: GoAwayFrame_readFrom_def split: bind_split)
qed

lemma WindowUpdate_ok:
  assumes "pending_ok r" "r_pendingHeaders r = None" "low_id (r_streamID r)"
  shows "outcome_ok (r_maxFrameSize r) (WindowUpdateFrame_readFrom r)"
  using assms same_io_sel
  by (auto simp: WindowUpdateFrame_readFrom_def outcome_frame pending_ok_def Let_def split: bind_split dest!: readUint32_io)

lemma Unknown_ok:
  assumes "pending_ok r" "r_pendingHeaders r = None" "low_id (r_streamID r)" "r_payloadLen r \<le> r_maxFrameSize r"
    and "r_frameType r \<ge> 10"
  shows "outcome_ok (r_maxFrameSize r) (UnknownFrame_readFrom r)"
  using assms by (auto simp: UnknownFrame_readFrom_def outcome_frame open_payload_def Let_def word_le_def)

section \<open>Reading\<close>

lemma frame_type_cases:
  fixes t :: FrameType
  assumes "t \<noteq> FrameData" "t \<noteq> FrameHeaders" "t \<noteq> FramePriority" "t \<noteq> FrameRSTStream" "t \<noteq> FrameSettings"
    "t \<noteq> FramePushPromise" "t \<noteq> FramePing" "t \<noteq> FrameGoAway" "t \<noteq> FrameWindowUpdate" "t \<noteq> FrameContinuation"
  shows "10 \<le> t"
proof (rule ccontr)
  assume "\<not> 10 \<le> t"
  then have "unat t \<in> {0, 1, 2, 3, 4, 5, 6, 7, 8, 9}" by (auto simp: word_le_nat_alt)
  with assms show False by (auto simp: word_unat_eq_iff)
qed

lemma readFrom_new_ok:
  assumes "r_pendingHeaders r = None" "low_id (r_streamID r)" "r_payloadLen r \<le> r_maxFrameSize r" "r_frameType r \<noteq> FrameContinuation"
  shows "outcome_ok (r_maxFrameSize r) (readFrom_new r)"
proof -
  have p: "pending_ok r" using assms(1) by (simp add: pending_ok_def)
  have h: "header_wf None" "low_id (StreamDependency no_Priority)" by (simp_all add: header_wf_def no_Priority_def low_id_def)
  show ?thesis
    unfolding readFrom_new_def Let_def
    using Data_ok [OF p assms(1-3)] Headers_ok [OF p assms(2) h(1) _ h(2), of 0 0 False] Priority_ok [OF p assms(1, 2)]
      RSTStream_ok [OF p assms(1, 2)] Settings_ok [OF p assms(1)] Push_ok [OF p assms(2) h(1), of 0 0 0] Ping_ok [OF p assms(1)]
      GoAway_ok [OF p assms(1, 3)] WindowUpdate_ok [OF p assms(1, 2)] Unknown_ok [OF p assms(1-3)] assms(4)
      frame_type_cases [of "r_frameType r"]
    by simp
qed

lemma readFrom_pending_ok:
  assumes "r_pendingHeaders r = Some f" "pending_ok r" "low_id (r_streamID r)"
  shows "outcome_ok (r_maxFrameSize r) (readFrom_pending f r)"
  using assms by (cases f) (auto simp: pending_ok_def intro!: Headers_ok Push_ok)

lemma set_frame_header_sel:
  "r_maxFrameSize (r_skip n (set_frame_header b r)) = r_maxFrameSize r"
  "r_pendingHeaders (r_skip n (set_frame_header b r)) = r_pendingHeaders r"
  "low_id (r_streamID (r_skip n (set_frame_header b r)))"
  by (simp_all add: r_skip_def r_Discard_def set_frame_header_def)

lemma read_pass_ok:
  assumes "pending_ok r"
  shows "outcome_ok (r_maxFrameSize r) (read_pass r)"
proof (cases "r_Peek 9 r")
  case (Inl e)
  with assms show ?thesis by (simp add: read_pass_def)
next
  case (Inr b)
  define r1 where "r1 = r_skip 9 (set_frame_header b r)"
  note sel = set_frame_header_sel [of 9 b r, folded r1_def]
  have p: "pending_ok r1" using assms sel by (simp add: pending_ok_def split: option.splits)
  have failure: "outcome_ok mx (do { (res, r) \<leftarrow> x; Some (case res of Inl e \<Rightarrow> Inl (read_failure e) | Inr f \<Rightarrow> Inr f, r) })"
    if "outcome_ok mx x" for mx x
    using that by (cases x) (auto simp: outcome_ok_def split: sum.splits)
  have "outcome_ok (r_maxFrameSize r1) (case r_pendingHeaders r1 of Some f \<Rightarrow> readFrom_pending f r1 | None \<Rightarrow> readFrom_new r1)"
    if "\<not> r_maxFrameSize r1 < r_payloadLen r1" "\<not> (r_frameType r1 = FrameContinuation \<and> r_pendingHeaders r1 = None)"
    using that p sel(3) readFrom_new_ok [of r1] readFrom_pending_ok [of r1] by (cases "r_pendingHeaders r1") auto
  from failure [OF this] p sel Inr show ?thesis
    by (auto simp: read_pass_def r1_def [symmetric] Let_def)
qed

lemma read_again_ok:
  assumes "read_again r = Some y" "pending_ok r"
  shows "case y of (x, r') \<Rightarrow> r_maxFrameSize r' = r_maxFrameSize r \<and> pending_ok r'
    \<and> (\<forall>f. x = Inr f \<longrightarrow> frame_valid (r_maxFrameSize r) f \<and> r_pendingHeaders r' = None)"
  using assms(2)
proof (induction rule: read_again.raw_induct [OF _ assms(1), consumes 0, case_names 1])
  case (1 again r y)
  from 1(2) obtain x r1 where p: "read_pass r = Some (x, r1)" by (auto split: bind_splits)
  from read_pass_ok [OF 1(3)] p have ok: "r_maxFrameSize r1 = r_maxFrameSize r" "pending_ok r1"
    "\<And>f. x = Inr f \<Longrightarrow> frame_valid (r_maxFrameSize r) f" by (auto simp: outcome_ok_def)
  show ?case
  proof (cases "\<exists>f. x = Inr f \<and> r_pendingHeaders r1 \<noteq> None")
    case True
    with 1(2) p have "again r1 = Some y" by auto
    from 1(1) [OF this ok(2)] ok(1) show ?thesis by simp
  next
    case False
    with 1(2) p ok show ?thesis by (auto split: sum.splits)
  qed
qed

lemma ReadFrame_ok:
  assumes "pending_ok r" "frameReader_ReadFrame r = Some (x, r')"
  shows "r_maxFrameSize r' = r_maxFrameSize r \<and> pending_ok r'
    \<and> (\<forall>f. x = Inr f \<longrightarrow> frame_valid (r_maxFrameSize r) f \<and> r_pendingHeaders r' = None)"
proof (cases "r_lastPayload r")
  case False
  with read_again_ok [of r "(x, r')"] assms show ?thesis by (simp add: frameReader_ReadFrame_def)
next
  case True
  obtain e r1 where c: "framePayload_Close r = (e, r1)" by fastforce
  have sel: "r_maxFrameSize r1 = r_maxFrameSize r" "r_pendingHeaders r1 = r_pendingHeaders r"
    using c by (auto simp: framePayload_Close_def Let_def r_Discard_def split: prod.splits if_splits)
  define r2 where "r2 = r1\<lparr>r_lastPayload := False\<rparr>"
  have p: "pending_ok r2" "r_maxFrameSize r2 = r_maxFrameSize r"
    using assms(1) sel by (simp_all add: pending_ok_def r2_def split: option.splits)
  show ?thesis
  proof (cases e)
    case None
    with True c assms(2) have "read_again r2 = Some (x, r')" by (simp add: frameReader_ReadFrame_def Let_def r2_def)
    from read_again_ok [OF this p(1)] p(2) show ?thesis by simp
  next
    case (Some e1)
    with True c assms(2) p show ?thesis by (auto simp: frameReader_ReadFrame_def Let_def r2_def)
  qed
qed

end
