(* ===== verification/H2_Theorems.thy ===== *)
theory H2_Theorems
  imports H2_StreamState H2_Sender H2_HeaderDelivery H2_ReadSafe
begin

text \<open>
  The properties of streams, settings, headers, flow control and frames, each with a witness at
  a concrete input where it has hypotheses.  The proofs are in the theories this one imports.
\<close>

section \<open>Flow control of the receiving side\<close>

text \<open>
  C7 The ledger of a receiving flow controller: after any history without an error, in which the
  initial window size may also be reduced, \<open>win\<close> is the credit the peer computes from the bytes it
  sent, the settings and the WINDOW_UPDATE frames it received, \<open>processedWin - win\<close> is what the
  application holds, and the invariant is kept.  The numbers of bytes are not negative and the initial
  window sizes are legal ones.  If none of the settings reduces the initial size, the credit does not
  become negative and there is no slack below it.
\<close>

theorem receive_ledger:
  assumes "flow_ok_at i c" "legal_events sid i evs" "recv_run sid c evs = (None, c', h)"
  shows "flow_ok c' \<and> win c' = win c + peer_credit sid h
    \<and> flow_consumedBytes c' = flow_consumedBytes c + held_bytes h
    \<and> (unreduced c \<and> (\<forall>n. Initial n \<in> set evs \<longrightarrow> 0 \<le> n) \<longrightarrow> winLowerBound c' = 0 \<and> 0 \<le> win c')"
  using recv_run_ledger [OF assms] by (auto simp: flow_consumedBytes_def unreduced_def)

theorem receive_ledger_witness:
  "\<exists>c'. recv_run 1 (new_flowController 65535) [Consume 60000, Initial (- 30000), Return 40000] =
      (None, c', [(Consume 60000, []), (Initial (- 30000), []), (Return 40000, [WindowUpdateFrame 1 70000])])
    \<and> flow_ok c' \<and> win c' = 65535 + (- 60000 - 30000 + 70000) \<and> flow_consumedBytes c' = 20000"
proof -
  have r: "recv_run 1 (new_flowController 65535) [Consume 60000, Initial (- 30000), Return 40000] =
      (None, \<lparr>win = 45535, winLowerBound = 0, winUpperBound = 65535, processedWin = 65535\<rparr>,
       [(Consume 60000, []), (Initial (- 30000), []), (Return 40000, [WindowUpdateFrame 1 70000])])"
    by (simp add: new_flowController_def consume_own_def return_own_def flow_windowUpdate_def flow_updateWindow_def
        flow_incrementInitialWindow_def flow_updateInitialWindow_def window_threshold_half Let_def)
  have "flow_ok_at 65535 (new_flowController 65535)" by (rule flow_ok_new) simp_all
  from receive_ledger [OF this _ r] show ?thesis
    unfolding r by (simp add: new_flowController_def flow_consumedBytes_def)
qed

text \<open>
  C29 Returning bytes refills the windows: when the application hands back bytes it holds,
  \<open>returnBytes\<close> succeeds, keeps the invariant of both controllers, and leaves the credit of the
  peer together with the bytes still held above the update threshold, about half of the window, in
  both; so a window that is short has bytes of it still held, and when all were handed back it is
  itself above the threshold.
\<close>

theorem return_refills_windows:
  assumes "flow_ok cc" "flow_ok c" "0 \<le> n" "n \<le> flow_consumedBytes cc" "n \<le> flow_consumedBytes c"
    and "0 < winUpperBound cc" "0 < winUpperBound c"
  shows "\<exists>cc' c' fs. stream_returnBytes sid cc c n = (None, cc', c', fs) \<and> flow_ok cc' \<and> flow_ok c'
    \<and> flow_consumedBytes cc' = flow_consumedBytes cc - n \<and> flow_consumedBytes c' = flow_consumedBytes c - n
    \<and> window_threshold (winUpperBound cc) < win cc' + flow_consumedBytes cc'
    \<and> window_threshold (winUpperBound c) < win c' + flow_consumedBytes c'
    \<and> (n = flow_consumedBytes cc \<longrightarrow> window_threshold (winUpperBound cc) < win cc')
    \<and> (n = flow_consumedBytes c \<longrightarrow> window_threshold (winUpperBound c) < win c')"
  using stream_returnBytes_ok [OF assms, of sid] by auto

theorem return_refills_windows_witness:
  "\<exists>cc' c' fs. stream_returnBytes 1 ((new_flowController 65535)\<lparr>win := 100\<rparr>) ((new_flowController 65535)\<lparr>win := 100\<rparr>) 65435 =
      (None, cc', c', fs) \<and> window_threshold 65535 < win cc' \<and> window_threshold 65535 < win c'"
  using return_refills_windows [of "(new_flowController 65535)\<lparr>win := 100\<rparr>" "(new_flowController 65535)\<lparr>win := 100\<rparr>" 65435 1]
  by (auto simp: flow_ok_def new_flowController_def flow_consumedBytes_def)

section \<open>Flow control of the sending side\<close>

text \<open>
  C4 However the writers of the streams, the reader of WINDOW_UPDATE and SETTINGS frames and
  the closing of streams interleave, the bytes granted for sending never exceed the credit the
  peer has given, neither on a stream nor on the connection.
\<close>

theorem sender_never_oversends:
  assumes "sender_step\<^sup>*\<^sup>* new_sender st"
  shows "sent st sid \<le> received st sid \<and> sent_all st \<le> received_all st"
  using sent_bounded [OF sending.reach_keeps [OF assms sender_ok_new]] by blast

theorem sender_never_oversends_witness:
  "\<exists>st. sender_step\<^sup>*\<^sup>* new_sender st \<and> received st 1 = 10 \<and> sent st 1 \<le> received st 1 \<and> sent_all st \<le> received_all st"
proof -
  let ?st = "(set_stream 1 \<lparr>rwin = 0, winCh = Some 10\<rparr> Outside new_sender)\<lparr>received := (received new_sender)(1 := 10)\<rparr>"
  have "sender_step new_sender ?st"
    using update_stream [of 10 1 new_sender "\<lparr>rwin = 0, winCh = Some 10\<rparr>"]
    by (simp add: new_sender_def remote_eval)
  then have "sender_step\<^sup>*\<^sup>* new_sender ?st" by (rule r_into_rtranclp)
  from this sender_never_oversends [OF this, of 1] show ?thesis by (intro exI [of _ ?st]) simp
qed

text \<open>
  C30 Undisturbed, \<open>allocateBytes\<close> returns as soon as both windows have credit: it grants the
  request as far as the credit on offer of both windows allows, and takes exactly that much
  from both.
\<close>

theorem allocateBytes_exact:
  assumes "remote_ok c" "remote_ok s" "0 < n" "credit c \<le> maxInitialWindowSize" "credit s \<le> maxInitialWindowSize"
    and "0 < on_offer c" "0 < on_offer s"
  shows "\<exists>c' s'. allocateBytes sid c s n = Some (min n (min (on_offer s) (on_offer c)), c', s')
    \<and> credit c' = credit c - min n (min (on_offer s) (on_offer c))
    \<and> credit s' = credit s - min n (min (on_offer s) (on_offer c)) \<and> remote_ok c' \<and> remote_ok s'"
  by (rule allocateBytes_total [OF assms])

theorem allocateBytes_exact_witness:
  "\<exists>c' s'. allocateBytes 1 \<lparr>rwin = 0, winCh = Some 7\<rparr> \<lparr>rwin = 9, winCh = None\<rparr> 20 = Some (7, c', s') \<and> credit s' = 2"
  using allocateBytes_exact [of "\<lparr>rwin = 0, winCh = Some 7\<rparr>" "\<lparr>rwin = 9, winCh = None\<rparr>" 20 1]
  by (auto simp: remote_ok_def credit_def on_offer_def)

text \<open>
  C38 Credit can be stranded: while two writers wait for the connection's window, an update arrives
  with the channel full and stays in the counter; the first writer takes and uses all that is in the
  channel, and the end of its \<open>allocateBytes\<close> offers nothing again.  After that no other writer is in
  \<open>allocateBytes\<close>, the second one still waits with credit of its own, the connection has credit for five
  bytes, and yet nothing is on offer in the channel it waits on.
\<close>

theorem stranded_credit:
  "\<exists>st st' c s. sender_step\<^sup>*\<^sup>* new_sender st \<and> phase_of st = (\<lambda>_. Outside)(1 := Granted 10 10 10, 3 := WaitConn 10 10)
     \<and> allocate_finish 1 10 10 10 (conn_fc st) (stream_fc st 1) = (10, c, s)
     \<and> st' = (set_stream 1 s Outside st)\<lparr>conn_fc := c, sent := (sent st)(1 := sent st 1 + 10), sent_all := sent_all st + 10\<rparr>
     \<and> sender_step st st' \<and> phase_of st' = (\<lambda>_. Outside)(3 := WaitConn 10 10)
     \<and> credit (conn_fc st') = 5 \<and> allocate_take (conn_fc st') = None"
proof -
  obtain st where st: "sender_step\<^sup>*\<^sup>* new_sender st" "conn_fc st = \<lparr>rwin = 5, winCh = None\<rparr>" "stream_fc st 1 = \<lparr>rwin = 0, winCh = None\<rparr>"
    "phase_of st = (\<lambda>_. Outside)(1 := Granted 10 10 10, 3 := WaitConn 10 10)" using stranded_run by (auto simp: reached_def)
  have f: "allocate_finish 1 10 10 10 (conn_fc st) (stream_fc st 1) = (10, conn_fc st, stream_fc st 1)" by (simp add: allocate_finish_def)
  let ?st = "(set_stream 1 (stream_fc st 1) Outside st)\<lparr>conn_fc := conn_fc st, sent := (sent st)(1 := sent st 1 + 10), sent_all := sent_all st + 10\<rparr>"
  have "phase_of ?st = (\<lambda>_. Outside)(3 := WaitConn 10 10)" by (simp add: set_stream_def st(4) fun_eq_iff)
  moreover have "sender_step st ?st" by (rule sender_step.finish [OF _ f]) (simp add: st(4))
  moreover have "credit (conn_fc ?st) = 5" "allocate_take (conn_fc ?st) = None" by (simp_all add: st(2) credit_def allocate_take_def)
  ultimately show ?thesis using st(1, 4) f by blast
qed

text \<open>
  C31 A DATA frame is cut into chunks as flow control allows: whatever positive amounts
  \<open>allocateBytes\<close> returns, every chunk uses its allowance in full, the chunks carry the data and
  the padding in order and without loss, and only the last one ends the stream.
\<close>

theorem data_chunks:
  assumes "0 \<le> dataLen" "allowances (dataLen + uint pad) as" "as \<noteq> []" "0 < dataLen + uint pad"
    and "stream_write_data (DataFrame sid (Some rd) dataLen pad e) as = (cs, left)"
  shows "chunks_ok rd dataLen (uint pad) e as cs left"
  by (rule stream_write_chunks [OF assms])

theorem data_chunks_witness:
  "chunks_ok [1, 2, 3] 3 2 True [2, 3]
     [DataFrame 1 (Some [1, 2, 3]) 2 0 False, DataFrame 1 (Some [3]) 1 2 True] None"
  by (rule data_chunks [where pad = 2, simplified]) (simp_all add: min_int_def)

section \<open>Streams\<close>

text \<open>
  C32 On an opened stream the transition function implements two one-way channels: a frame with
  END_STREAM ends the direction it travels in, RST_STREAM ends both, and DATA or HEADERS is
  accepted exactly while its direction is open.
\<close>

theorem transition_refines:
  assumes "active s" "e \<longrightarrow> t \<noteq> FramePriority \<and> t \<noteq> FrameWindowUpdate"
  shows "(\<forall>s'. StreamState_transition s recv t e = (s', True) \<longrightarrow>
      opened s' \<and> dirs s' = dirs_step recv t e (dirs s))
    \<and> (t = FrameData \<or> t = FrameHeaders \<longrightarrow>
      snd (StreamState_transition s recv t e) = (if recv then receiving (dirs s) else sending (dirs s)))"
  using transition_dirs [of s recv t e] transition_accepts [OF assms(1), of t recv e] assms by (auto simp: opened_def)

theorem transition_refines_witness:
  "dirs StateHalfClosedRemote = dirs_step True FrameData True (dirs StateOpen)"
  using transition_refines [of StateOpen True FrameData True]
  by (simp add: active_def transition_defs)

section \<open>Settings\<close>

text \<open>
  C33 Settings behave as a map with the protocol's defaults: a legal value that is set is read
  back and no other setting changes, an illegal value is refused and nothing changes, and every
  setting that can be read from a well-formed collection is in its legal range.
\<close>

theorem settings_map:
  assumes "settings_ok s"
  shows "\<exists>e s'. Settings_SetValue s i v = (e, s') \<and> settings_ok s' \<and> (e = None \<longleftrightarrow> setting_valid i v)
    \<and> (e \<noteq> None \<longrightarrow> s' = s)
    \<and> (\<forall>j. Settings_Value s' j = (if j = i \<and> e = None then v else Settings_Value s j) \<and> setting_valid j (Settings_Value s' j))"
  by (rule SetValue_map [OF assms])

theorem settings_map_witness:
  "\<exists>s'. Settings_SetValue [] SettingMaxFrameSize 20000 = (None, s') \<and> Settings_Value s' SettingMaxFrameSize = 20000
     \<and> Settings_Value s' SettingInitialWindowSize = 65535"
  using settings_map [of "[]" SettingMaxFrameSize 20000]
  by (auto simp: settings_ok_def setting_valid_def Settings_SetValue_def Settings_Value_def)

section \<open>Headers\<close>

text \<open>
  C34 The table of common headers and the scan for upper-case letters only save work: the
  canonical form of a key is its lower-case form.
\<close>

theorem canonical_key: "CanonicalHTTP2HeaderKey U s = strings_ToLower U s"
  by (rule canonical_ToLower)



text \<open>
  C36 A received field either extends the header by its value under its own key, or is refused as
  malformed and changes nothing; the keys of a header that was received are valid and in lower
  case, with no pseudo header but the five that exist.  An empty name, which a peer can send,
  panics.
\<close>

theorem received_field:
  assumes "header_wf h"
  shows "(Header_add h key val = None \<longleftrightarrow> key = [])
    \<and> (\<forall>e h'. Header_add h key val = Some (e, h') \<longrightarrow> header_wf h' \<and>
        (if e = None then \<forall>k. Header_lookup h' k = (if k = key then Header_lookup h k @ [val] else Header_lookup h k)
         else e = Some errMalformedHeader \<and> h' = h))"
  using Header_add_panic [of h key val] Header_add_wf [OF assms] Header_add_lookup [of h key val] by blast

theorem received_field_witness:
  "Header_add None [] [] = None \<and> header_wf (Some [(str ''x'', [str ''1''])])"
proof -
  have "Header_add None (str ''x'') (str ''1'') = Some (None, Some [(str ''x'', [str ''1''])])" by code_simp
  moreover have "header_wf None" by (simp add: header_wf_def)
  ultimately show ?thesis
    using received_field [of None "str ''x''" "str ''1''"] received_field [of None "[]" "[]"] by blast
qed

text \<open>
  C37 The header of a request: no connection-specific header is sent, \<open>:authority\<close> is the host,
  and a request other than CONNECT carries its method, its path and a scheme.  A CONNECT request
  carries no \<open>:method\<close>.
\<close>

theorem request_header:
  assumes "ToLower_idem U" "requestToHeader U req skipVerify = Some (Inr h)"
  shows "(\<forall>k. badHeader k \<longrightarrow> Header_lookup h k = [])
    \<and> Header_lookup h (str '':authority'') = [rq_Host req] \<and> Header_lookup h (str '':status'') = []
    \<and> (if rq_Method req = str ''CONNECT''
       then Header_lookup h (str '':method'') = [] \<and> Header_lookup h (str '':scheme'') = [] \<and> Header_lookup h (str '':path'') = []
       else Header_lookup h (str '':method'') = [rq_Method req]
         \<and> Header_lookup h (str '':path'') =
             [if rq_RequestURI req = [] then str ''/''
              else if rq_Fragment req \<noteq> [] then rq_RequestURI req @ str ''#'' @ rq_Fragment req else rq_RequestURI req]
         \<and> (\<not> skipVerify \<longrightarrow> (\<exists>v. v \<noteq> [] \<and> Header_lookup h (str '':scheme'') = [v])))"
  by (rule requestToHeader_lookup [OF assms])

theorem request_header_witness:
  "\<exists>h. requestToHeader bytewise
       \<lparr>rq_Method = str ''CONNECT'', rq_Scheme = [], rq_Host = str ''a:1'', rq_RequestURI = [], rq_Fragment = [],
        rq_Header = [(str ''Connection'', [str ''close''])]\<rparr> False = Some (Inr h)
     \<and> Header_lookup h (str '':method'') = [] \<and> Header_lookup h (str ''connection'') = []"
proof -
  let ?r = "\<lparr>rq_Method = str ''CONNECT'', rq_Scheme = [], rq_Host = str ''a:1'', rq_RequestURI = [], rq_Fragment = [],
        rq_Header = [(str ''Connection'', [str ''close''])]\<rparr>"
  have r: "requestToHeader bytewise ?r False = Some (Inr (Some [(str '':authority'', [str ''a:1''])]))" by code_simp
  have "badHeader (str ''connection'')" by code_simp
  with request_header [OF bytewise_ToLower r] r show ?thesis by auto
qed

section \<open>Frames\<close>

text \<open>
  C20 What is written is what is read: for every valid PRIORITY, RST_STREAM, SETTINGS, PING,
  GOAWAY, WINDOW_UPDATE or unknown frame, a writer whose output does not fail appends bytes that
  any reader between frames with that frame size limit reads as the same frame, consuming just
  these bytes, whatever follows.
\<close>

theorem frame_roundtrip:
  assumes "writer_ready w" "wire_ok mx f" "8 \<le> mx" "unat mx < 2 ^ 24"
  shows "\<exists>bs res. frameWriter_WriteFrame U ord w f = Some res \<and> writes w res bs \<and> reads mx bs f"
  by (rule frame_written_read [OF assms])

theorem frame_roundtrip_witness:
  "\<exists>bs res. frameWriter_WriteFrame bytewise pseudoHeader (newFrameWriter None)
      (SettingsFrame False [\<lparr>set_ID = SettingInitialWindowSize, set_Value = 100000\<rparr>]) = Some res
    \<and> writes (newFrameWriter None) res bs
    \<and> reads 16384 bs (SettingsFrame False [\<lparr>set_ID = SettingInitialWindowSize, set_Value = 100000\<rparr>])"
  by (rule frame_roundtrip) (simp_all add: writer_ready_def newFrameWriter_def settings_ok_def setting_valid_def)

text \<open>
  C21 A DATA frame of any length is written as one or more DATA frames within the frame size
  limit that carry its data and its padding in order and without loss, of which only the last may
  end the stream, and each of them is read back.
\<close>

theorem data_roundtrip:
  assumes "writer_ready w" "w_maxFrameSize w = mx" "256 \<le> unat mx" "unat mx < 2 ^ 24"
    and "validStreamID sid" "length d < 2 ^ 32"
  shows "\<exists>w' ps. DataFrame_writeTo w sid (Some d) (int (length d)) pad e = Some (None, w') \<and> writer_ready w'
    \<and> w_out w' = w_out w @ concat (map (piece_bytes sid) ps) \<and> cut_ok mx d (unat pad) e ps
    \<and> (\<forall>x\<in>set ps. reads mx (piece_bytes sid x) (piece_frame sid x))"
  by (rule data_written_read [OF assms])

theorem data_roundtrip_witness:
  "\<exists>w' ps. DataFrame_writeTo (newFrameWriter None) 1 (Some (str ''hello'')) 5 7 True = Some (None, w')
    \<and> w_out w' = concat (map (piece_bytes 1) ps) \<and> cut_ok 16384 (str ''hello'') 7 True ps"
  using data_roundtrip [of "newFrameWriter None" 16384 1 "str ''hello''" 7 True]
  by (auto simp: writer_ready_def newFrameWriter_def validStreamID_def str_def)

text \<open>
  C6 Whatever bytes the peer sends, a frame that \<open>ReadFrame\<close> returns is valid: identifiers within
  31 bits and not zero where the frame needs a stream, headers with legal lower-case keys, settings
  in range and each at most once, window increments not zero, payloads within the frame size
  limit; and no header block is left open.  The reader's own invariant is kept, errors included.
\<close>

theorem read_frames_valid:
  assumes "pending_ok r" "frameReader_ReadFrame r = Some (x, r')"
  shows "r_maxFrameSize r' = r_maxFrameSize r \<and> pending_ok r'
    \<and> (\<forall>f. x = Inr f \<longrightarrow> frame_valid (r_maxFrameSize r) f \<and> r_pendingHeaders r' = None)"
  by (rule ReadFrame_ok [OF assms])

theorem read_frames_valid_witness:
  "\<exists>r'. frameReader_ReadFrame (newFrameReader (frame_header 4 FrameWindowUpdate 0 1 @ uint32_bytes 100) EOF 4096) =
       Some (Inr (WindowUpdateFrame 1 100), r') \<and> pending_ok r'"
proof -
  let ?r = "newFrameReader (frame_header 4 FrameWindowUpdate 0 1 @ uint32_bytes 100) EOF 4096"
  have p: "pending_ok ?r" "reader_ready ?r" "r_next ?r = (frame_header 4 FrameWindowUpdate 0 1 @ uint32_bytes 100) @ []" "r_maxFrameSize ?r = 16384"
    by (simp_all add: pending_ok_def newFrameReader_def reader_ready_def r_next_def)
  have "reads 16384 (frame_header 4 FrameWindowUpdate 0 1 @ uint32_bytes 100) (WindowUpdateFrame 1 100)"
    by (rule WindowUpdate_reads) simp_all
  with p obtain r' where "frameReader_ReadFrame ?r = Some (Inr (WindowUpdateFrame 1 100), r')" unfolding reads_def by blast
  with read_frames_valid [OF p(1) this] show ?thesis by blast
qed

text \<open>A small header and a new writer that the witnesses use.\<close>

lemma sample_writer:
  "writer_ready (newFrameWriter None)" "w_maxFrameSize (newFrameWriter None) = 16384" "w_maxHeaderListSize (newFrameWriter None) = 0"
  "w_out (newFrameWriter None) = []"
  by (simp_all add: writer_ready_def newFrameWriter_def)

lemma sample_fields:
  "pseudo_fields pseudoHeader [(str '':path'', [str ''/'']), (str ''a'', [str ''b'', str ''c''])]
     @ other_fields bytewise [(str '':path'', [str ''/'']), (str ''a'', [str ''b'', str ''c''])] =
   [(str '':path'', str ''/'', False), (str ''a'', str ''b'', False), (str ''a'', str ''c'', False)]"
  by code_simp

lemma sample_length:
  "map_option (length \<circ> fst) (encode_block (NewEncoder 4096) []
     [(str '':path'', str ''/'', False), (str ''a'', str ''b'', False), (str ''a'', str ''c'', False)]) = Some 9"
  by code_simp

lemma sample_header:
  "sendable [(str '':path'', [str ''/'']), (str ''a'', [str ''b'', str ''c''])]"
  "valid_keys [(str '':path'', [str ''/'']), (str ''a'', [str ''b'', str ''c''])]"
  "distinct pseudoHeader" "set pseudoHeader = set pseudoHeader"
  "codec_ready (w_enc (newFrameWriter None)) (NewDecoder 4096)"
  "fields_small (pseudo_fields pseudoHeader [(str '':path'', [str ''/'']), (str ''a'', [str ''b'', str ''c''])]
     @ other_fields bytewise [(str '':path'', [str ''/'']), (str ''a'', [str ''b'', str ''c''])])"
  "\<forall>bs enc'. encode_block (w_enc (newFrameWriter None)) []
       (pseudo_fields pseudoHeader [(str '':path'', [str ''/'']), (str ''a'', [str ''b'', str ''c''])]
         @ other_fields bytewise [(str '':path'', [str ''/'']), (str ''a'', [str ''b'', str ''c''])]) = Some (bs, enc')
     \<longrightarrow> length bs < 2 ^ 29"
proof -
  have w: "w_enc (newFrameWriter None) = NewEncoder 4096" by (simp add: newFrameWriter_def)
  show "codec_ready (w_enc (newFrameWriter None)) (NewDecoder 4096)" unfolding w by (rule codec_ready_new) simp
  show "fields_small (pseudo_fields pseudoHeader [(str '':path'', [str ''/'']), (str ''a'', [str ''b'', str ''c''])]
     @ other_fields bytewise [(str '':path'', [str ''/'']), (str ''a'', [str ''b'', str ''c''])])"
    unfolding sample_fields by (simp add: fields_small_def str_def)
  show "\<forall>bs enc'. encode_block (w_enc (newFrameWriter None)) []
       (pseudo_fields pseudoHeader [(str '':path'', [str ''/'']), (str ''a'', [str ''b'', str ''c''])]
         @ other_fields bytewise [(str '':path'', [str ''/'']), (str ''a'', [str ''b'', str ''c''])]) = Some (bs, enc')
     \<longrightarrow> length bs < 2 ^ 29"
    unfolding w sample_fields using sample_length by (auto simp del: encode_block.simps)
qed code_simp+

lemma sample_lookup:
  "Header_lookup (Some [(str '':path'', [str ''/'']), (str ''a'', [str ''b'', str ''c''])]) (str ''a'') = [str ''b'', str ''c'']"
  by code_simp

lemma sample_other:
  "\<not> ([(str '':path'', [str ''/'']), (str ''a'', [str ''b'', str ''c''])] \<noteq> []
     \<and> other_fields bytewise [(str '':path'', [str ''/'']), (str ''a'', [str ''b'', str ''c''])] = [])"
  by code_simp

text \<open>A header with a pseudo header only, whose block puts an entry into the table of the encoder.\<close>

lemma path_encoded:
  "map_option (\<lambda>(bs, enc). (length bs, tdata (e_table enc) = [], e_sizeChanged enc))
     (encode_block (NewEncoder 4096) [] [(str '':path'', str ''/x'', False)]) = Some (4, False, False)"
  by code_simp

lemma path_fields:
  "pseudo_fields pseudoHeader [(str '':path'', [str ''/x''])] @ other_fields bytewise [(str '':path'', [str ''/x''])] = [(str '':path'', str ''/x'', False)]"
  "pseudo_fields pseudoHeader [(str '':path'', [str ''/x''])] = [(str '':path'', str ''/x'', False)]"
  "other_fields bytewise [(str '':path'', [str ''/x''])] = []"
  by code_simp+

lemma path_only:
  "sendable [(str '':path'', [str ''/x''])]" "valid_keys [(str '':path'', [str ''/x''])]"
  "distinct pseudoHeader" "set pseudoHeader = set pseudoHeader"
  "fields_small (pseudo_fields pseudoHeader [(str '':path'', [str ''/x''])] @ other_fields bytewise [(str '':path'', [str ''/x''])])"
  "\<forall>bs enc'. encode_block (w_enc (newFrameWriter None)) []
       (pseudo_fields pseudoHeader [(str '':path'', [str ''/x''])] @ other_fields bytewise [(str '':path'', [str ''/x''])]) = Some (bs, enc')
     \<longrightarrow> length bs < 2 ^ 29"
  "other_fields bytewise [(str '':path'', [str ''/x''])] = []"
  "encode_block (w_enc (newFrameWriter None)) [] (pseudo_fields pseudoHeader [(str '':path'', [str ''/x''])]) = Some (bs, enc')
     \<Longrightarrow> \<not> codec_ready enc' (NewDecoder 4096)"
proof -
  have w: "w_enc (newFrameWriter None) = NewEncoder 4096" by (simp add: newFrameWriter_def)
  show "fields_small (pseudo_fields pseudoHeader [(str '':path'', [str ''/x''])] @ other_fields bytewise [(str '':path'', [str ''/x''])])"
    unfolding path_fields by (simp add: fields_small_def str_def)
  show "\<forall>bs enc'. encode_block (w_enc (newFrameWriter None)) []
       (pseudo_fields pseudoHeader [(str '':path'', [str ''/x''])] @ other_fields bytewise [(str '':path'', [str ''/x''])]) = Some (bs, enc')
     \<longrightarrow> length bs < 2 ^ 29"
    unfolding w path_fields using path_encoded by (auto simp del: encode_block.simps)
  show "other_fields bytewise [(str '':path'', [str ''/x''])] = []" by (rule path_fields)
  show "\<not> codec_ready enc' (NewDecoder 4096)"
    if "encode_block (w_enc (newFrameWriter None)) [] (pseudo_fields pseudoHeader [(str '':path'', [str ''/x''])]) = Some (bs, enc')"
  proof -
    have "tdata (e_table enc') \<noteq> []" "\<not> e_sizeChanged enc'" using that path_encoded unfolding w path_fields by (simp_all del: encode_block.simps)
    moreover have "tdata (d_table (NewDecoder 4096)) = []" by (simp add: NewDecoder_def new_table_def)
    ultimately show ?thesis unfolding codec_ready_def in_sync_def by metis
  qed
qed code_simp+

text \<open>
  C3 Headers arrive: a HEADERS frame written with any priority, padding and end of stream, cut
  into CONTINUATION frames where it is longer than the limit, is read as one HEADERS frame with
  the same fields and, for every key, the same values in the same order, and the codecs of the
  two sides are in step again for the next block.  The header is one that can be sent, its keys are
  valid, and the writer has no limit for its size.  Only a header that has fields and all of them
  pseudo headers does not arrive: the writer returns no error and has written nothing, but its
  encoder is the one after a block that no decoder will see.
\<close>

theorem headers_roundtrip:
  assumes "headers_valid sid p" "writer_ready w" "w_maxFrameSize w = mx" "1024 \<le> unat mx" "unat mx < 2 ^ 24" "w_maxHeaderListSize w = 0"
    and "sendable al" "valid_keys al" "distinct ord" "set ord = set pseudoHeader"
    and "codec_ready (w_enc w) dec" "fields_small (pseudo_fields ord al @ other_fields U al)"
    and "\<forall>bs enc'. encode_block (w_enc w) [] (pseudo_fields ord al @ other_fields U al) = Some (bs, enc') \<longrightarrow> length bs < 2 ^ 29"
  shows "if al \<noteq> [] \<and> other_fields U al = []
    then \<exists>w' bs. frameWriter_WriteFrame U ord w (HeadersFrame sid (Some al) p pad e) = Some (None, w') \<and> w_out w' = w_out w
      \<and> pseudo_fields ord al \<noteq> [] \<and> encode_block (w_enc w) [] (pseudo_fields ord al) = Some (bs, w_enc w')
    else \<exists>w' bs h' dec2. frameWriter_WriteFrame U ord w (HeadersFrame sid (Some al) p pad e) = Some (None, w') \<and> w_out w' = w_out w @ bs
      \<and> writer_ready w' \<and> reads_block mx dec bs (HeadersFrame sid h' p pad e) dec2 \<and> codec_ready (w_enc w') dec2 \<and> header_wf h'
      \<and> (\<forall>k. Header_lookup h' k = Header_lookup (Some al) k)"
  unfolding frameWriter_WriteFrame.simps HeadersFrame_writeTo_block [OF assms(1)]
  by (rule headers_frame.block_outcome [OF assms])

theorem headers_roundtrip_witness:
  "(\<exists>w' bs h' dec2. frameWriter_WriteFrame bytewise pseudoHeader (newFrameWriter None)
        (HeadersFrame 1 (Some [(str '':path'', [str ''/'']), (str ''a'', [str ''b'', str ''c''])]) no_Priority 3 True) = Some (None, w')
    \<and> w_out w' = [] @ bs \<and> reads_block 16384 (NewDecoder 4096) bs (HeadersFrame 1 h' no_Priority 3 True) dec2
    \<and> Header_lookup h' (str ''a'') = [str ''b'', str ''c''])
   \<and> (\<exists>w'. frameWriter_WriteFrame bytewise pseudoHeader (newFrameWriter None) (HeadersFrame 1 (Some [(str '':path'', [str ''/x''])]) no_Priority 0 True)
        = Some (None, w') \<and> w_out w' = [] \<and> \<not> codec_ready (w_enc w') (NewDecoder 4096))"
proof
  have v: "headers_valid 1 no_Priority" by (simp add: headers_valid_def validStreamID_def HasPriority_def)
  have mx: "1024 \<le> unat (16384 :: u32)" "unat (16384 :: u32) < 2 ^ 24" by simp_all
  note r = headers_roundtrip [OF v sample_writer(1, 2) mx sample_writer(3) sample_header, of 3 True, unfolded if_not_P [OF sample_other]]
  from r sample_writer(4) sample_lookup show "\<exists>w' bs h' dec2. frameWriter_WriteFrame bytewise pseudoHeader (newFrameWriter None)
        (HeadersFrame 1 (Some [(str '':path'', [str ''/'']), (str ''a'', [str ''b'', str ''c''])]) no_Priority 3 True) = Some (None, w')
    \<and> w_out w' = [] @ bs \<and> reads_block 16384 (NewDecoder 4096) bs (HeadersFrame 1 h' no_Priority 3 True) dec2
    \<and> Header_lookup h' (str ''a'') = [str ''b'', str ''c'']"
    by metis
  have c: "[(str '':path'', [str ''/x''])] \<noteq> [] \<and> other_fields bytewise [(str '':path'', [str ''/x''])] = []" using path_only(7) by simp
  from headers_roundtrip [OF v sample_writer(1, 2) mx sample_writer(3) path_only(1-4) sample_header(5) path_only(5, 6), of 0 True, unfolded if_P [OF c]]
  obtain w' bs where "frameWriter_WriteFrame bytewise pseudoHeader (newFrameWriter None) (HeadersFrame 1 (Some [(str '':path'', [str ''/x''])]) no_Priority 0 True)
        = Some (None, w')" "w_out w' = w_out (newFrameWriter None)"
    "encode_block (w_enc (newFrameWriter None)) [] (pseudo_fields pseudoHeader [(str '':path'', [str ''/x''])]) = Some (bs, w_enc w')" by blast
  with path_only(8) sample_writer(4) show "\<exists>w'. frameWriter_WriteFrame bytewise pseudoHeader (newFrameWriter None) (HeadersFrame 1 (Some [(str '':path'', [str ''/x''])]) no_Priority 0 True)
        = Some (None, w') \<and> w_out w' = [] \<and> \<not> codec_ready (w_enc w') (NewDecoder 4096)"
    by metis
qed

text \<open>
  C22 So do the headers of a promise: a PUSH_PROMISE frame with its CONTINUATION frames is read
  as one with the same promised stream, padding and header, and the codecs stay in step, under the
  same conditions; and a promise with pseudo headers only is not written although the encoder
  has moved on.
\<close>

theorem push_promise_roundtrip:
  assumes "validStreamID sid \<and> validStreamID promised" "writer_ready w" "w_maxFrameSize w = mx" "1024 \<le> unat mx" "unat mx < 2 ^ 24"
    and "w_maxHeaderListSize w = 0" "sendable al" "valid_keys al" "distinct ord" "set ord = set pseudoHeader"
    and "codec_ready (w_enc w) dec" "fields_small (pseudo_fields ord al @ other_fields U al)"
    and "\<forall>bs enc'. encode_block (w_enc w) [] (pseudo_fields ord al @ other_fields U al) = Some (bs, enc') \<longrightarrow> length bs < 2 ^ 29"
  shows "if al \<noteq> [] \<and> other_fields U al = []
    then \<exists>w' bs. frameWriter_WriteFrame U ord w (PushPromiseFrame sid promised (Some al) pad) = Some (None, w') \<and> w_out w' = w_out w
      \<and> pseudo_fields ord al \<noteq> [] \<and> encode_block (w_enc w) [] (pseudo_fields ord al) = Some (bs, w_enc w')
    else \<exists>w' bs h' dec2. frameWriter_WriteFrame U ord w (PushPromiseFrame sid promised (Some al) pad) = Some (None, w') \<and> w_out w' = w_out w @ bs
      \<and> writer_ready w' \<and> reads_block mx dec bs (PushPromiseFrame sid promised h' pad) dec2 \<and> codec_ready (w_enc w') dec2 \<and> header_wf h'
      \<and> (\<forall>k. Header_lookup h' k = Header_lookup (Some al) k)"
  unfolding frameWriter_WriteFrame.simps PushPromiseFrame_writeTo_block [OF assms(1) [THEN conjunct1] assms(1) [THEN conjunct2]]
  by (rule push_frame.block_outcome [OF assms])

theorem push_promise_roundtrip_witness:
  "\<exists>w' bs h' dec2. frameWriter_WriteFrame bytewise pseudoHeader (newFrameWriter None)
        (PushPromiseFrame 1 2 (Some [(str '':path'', [str ''/'']), (str ''a'', [str ''b'', str ''c''])]) 0) = Some (None, w')
    \<and> w_out w' = [] @ bs \<and> reads_block 16384 (NewDecoder 4096) bs (PushPromiseFrame 1 2 h' 0) dec2
    \<and> Header_lookup h' (str ''a'') = [str ''b'', str ''c'']"
proof -
  have v: "validStreamID 1 \<and> validStreamID 2" by (simp add: validStreamID_def)
  have mx: "1024 \<le> unat (16384 :: u32)" "unat (16384 :: u32) < 2 ^ 24" by simp_all
  note r = push_promise_roundtrip [OF v sample_writer(1, 2) mx sample_writer(3) sample_header, of 0, unfolded if_not_P [OF sample_other]]
  from r sample_writer(4) sample_lookup show ?thesis by metis
qed

end
