(* ===== verification/H2_Queue.thy ===== *)
theory H2_Queue
  imports H2_Prelude
begin

text \<open>
  The write queue of a connection: \<open>writeQueue\<close> of \<^verbatim>\<open>src/conn.go\<close>.

  The one-element channel \<open>ch\<close> is an option; the sends in \<open>set\<close> and \<open>add\<close> do not block.  The
  queue does not look at its elements, so it is polymorphic in them.
\<close>

record 'f writeQueue =
  cbuf :: "'f list"
  buf :: "'f list"
  ch :: "'f option"

definition new_writeQueue :: "'f writeQueue" where
  "new_writeQueue = \<lparr>cbuf = [], buf = [], ch = None\<rparr>"

text \<open>A send of the head of a buffer that is not empty, unless the channel is full.\<close>

definition send_cbuf :: "'f writeQueue \<Rightarrow> 'f writeQueue" where
  "send_cbuf w = (if ch w = None then w\<lparr>ch := Some (hd (cbuf w)), cbuf := tl (cbuf w)\<rparr> else w)"

definition send_buf :: "'f writeQueue \<Rightarrow> 'f writeQueue" where
  "send_buf w = (if ch w = None then w\<lparr>ch := Some (hd (buf w)), buf := tl (buf w)\<rparr> else w)"

definition queue_set :: "'f writeQueue \<Rightarrow> bool \<times> 'f writeQueue" where
  "queue_set w =
     (if length (cbuf w) > 0 then (True, send_cbuf w)
      else if length (buf w) > 0 then (True, send_buf w)
      else (False, w))"

definition queue_add :: "'f \<Rightarrow> bool \<Rightarrow> 'f writeQueue \<Rightarrow> 'f writeQueue" where
  "queue_add frame control w =
     (if control then send_cbuf (w\<lparr>cbuf := cbuf w @ [frame]\<rparr>)
      else send_buf (w\<lparr>buf := buf w @ [frame]\<rparr>))"

text \<open>The receive of the write loop, when the channel holds a frame.\<close>

definition queue_get :: "'f writeQueue \<Rightarrow> ('f \<times> 'f writeQueue) option" where
  "queue_get w = map_option (\<lambda>f. (f, w\<lparr>ch := None\<rparr>)) (ch w)"

section \<open>Order\<close>

text \<open>
  A run of the queue: frames are added from any goroutine, the write loop receives, and then
  calls \<open>set\<close>.  A frame carries its class, control or not, as a tag.
\<close>

datatype 'f queue_event = Added bool 'f | Received | Refilled

fun queue_step :: "(bool \<times> 'f) writeQueue \<Rightarrow> 'f queue_event \<Rightarrow> (bool \<times> 'f) list \<times> (bool \<times> 'f) writeQueue" where
  "queue_step w (Added c f) = ([], queue_add (c, f) c w)"
| "queue_step w Received = (case queue_get w of None \<Rightarrow> ([], w) | Some (x, w) \<Rightarrow> ([x], w))"
| "queue_step w Refilled = ([], snd (queue_set w))"

fun queue_run :: "(bool \<times> 'f) writeQueue \<Rightarrow> 'f queue_event list \<Rightarrow> (bool \<times> 'f) list \<times> (bool \<times> 'f) writeQueue" where
  "queue_run w [] = ([], w)"
| "queue_run w (ev # evs) =
     (case queue_step w ev of (out, w) \<Rightarrow> (case queue_run w evs of (outs, w) \<Rightarrow> (out @ outs, w)))"

fun added :: "'f queue_event list \<Rightarrow> (bool \<times> 'f) list" where
  "added [] = []"
| "added (Added c f # evs) = (c, f) # added evs"
| "added (_ # evs) = added evs"

text \<open>What is still in the queue, of the class \<open>c\<close>, in order.\<close>

definition queued :: "bool \<Rightarrow> (bool \<times> 'f) writeQueue \<Rightarrow> (bool \<times> 'f) list" where
  "queued c w = filter (\<lambda>x. fst x = c) (case ch w of None \<Rightarrow> [] | Some x \<Rightarrow> [x]) @ (if c then cbuf w else buf w)"

definition tagged :: "(bool \<times> 'f) writeQueue \<Rightarrow> bool" where
  "tagged w \<longleftrightarrow> (\<forall>x\<in>set (cbuf w). fst x) \<and> (\<forall>x\<in>set (buf w). \<not> fst x)"

lemma tagged_new: "tagged new_writeQueue" "queued c new_writeQueue = []"
  by (simp_all add: tagged_def queued_def new_writeQueue_def)

lemma send_cbuf_queued:
  "cbuf w \<noteq> [] \<Longrightarrow> tagged w \<Longrightarrow> tagged (send_cbuf w) \<and> queued c (send_cbuf w) = queued c w \<and> ch (send_cbuf w) \<noteq> None"
  by (cases "cbuf w") (auto simp: send_cbuf_def tagged_def queued_def)

lemma send_buf_queued:
  "buf w \<noteq> [] \<Longrightarrow> tagged w \<Longrightarrow> tagged (send_buf w) \<and> queued c (send_buf w) = queued c w \<and> ch (send_buf w) \<noteq> None"
  by (cases "buf w") (auto simp: send_buf_def tagged_def queued_def)

lemma queue_add_queued:
  assumes "tagged w"
  shows "tagged (queue_add (a, f) a w) \<and> ch (queue_add (a, f) a w) \<noteq> None
    \<and> queued c (queue_add (a, f) a w) = queued c w @ (if c = a then [(a, f)] else [])"
proof (cases a)
  case True
  let ?w = "w\<lparr>cbuf := cbuf w @ [(a, f)]\<rparr>"
  have "tagged ?w" "queued c ?w = queued c w @ (if c = a then [(a, f)] else [])"
    using assms True by (auto simp: tagged_def queued_def)
  with send_cbuf_queued [of ?w c] True show ?thesis by (simp add: queue_add_def)
next
  case False
  let ?w = "w\<lparr>buf := buf w @ [(a, f)]\<rparr>"
  have "tagged ?w" "queued c ?w = queued c w @ (if c = a then [(a, f)] else [])"
    using assms False by (auto simp: tagged_def queued_def)
  with send_buf_queued [of ?w c] False show ?thesis by (simp add: queue_add_def)
qed

lemma queue_set_queued:
  assumes "tagged w" "queue_set w = (again, w')"
  shows "tagged w'" "queued c w' = queued c w" "again \<longleftrightarrow> cbuf w \<noteq> [] \<or> buf w \<noteq> []" "again \<longrightarrow> ch w' \<noteq> None"
  using assms send_cbuf_queued [of w c] send_buf_queued [of w c] by (auto simp: queue_set_def split: if_splits)

lemma queue_step_queued:
  assumes "tagged w" "queue_step w ev = (out, w')"
  shows "tagged w' \<and> filter (\<lambda>x. fst x = c) out @ queued c w' = queued c w @ filter (\<lambda>x. fst x = c) (added [ev])"
proof (cases ev)
  case (Added a f)
  with queue_add_queued [OF assms(1), of a f c] assms(2) show ?thesis by auto
next
  case Received
  with assms show ?thesis by (auto simp: queue_get_def tagged_def queued_def split: option.splits)
next
  case Refilled
  with assms(2) have "queue_set w = (fst (queue_set w), w')" by (auto simp: prod_eq_iff)
  note q = queue_set_queued [OF assms(1) this]
  from q(1) q(2) [of c] Refilled assms(2) show ?thesis by simp
qed

lemma added_Cons: "added (ev # evs) = added [ev] @ added evs"
  by (cases ev) auto

lemma queue_run_queued:
  assumes "tagged w" "queue_run w evs = (out, w')"
  shows "tagged w' \<and> filter (\<lambda>x. fst x = c) out @ queued c w' = queued c w @ filter (\<lambda>x. fst x = c) (added evs)"
  using assms
proof (induction evs arbitrary: w out)
  case (Cons ev evs)
  obtain o1 w1 where s: "queue_step w ev = (o1, w1)" by fastforce
  obtain o2 where r: "queue_run w1 evs = (o2, w')" "out = o1 @ o2" using Cons.prems(2) s by (auto split: prod.splits)
  from queue_step_queued [OF Cons.prems(1) s, of c] Cons.IH [OF _ r(1)] r(2) show ?case
    by (subst added_Cons) (metis append.assoc filter_append)
qed simp

text \<open>After every call of \<open>add\<close>, and of \<open>set\<close> while frames wait, a frame is offered to the write loop.\<close>

lemma queue_offers:
  assumes "tagged w" "queue_step w ev = (out, w')" "ev \<noteq> Received"
  shows "ch w' = None \<longrightarrow> (\<forall>c. queued c w' = [])"
proof (cases ev)
  case (Added a f)
  with queue_add_queued [OF assms(1), of a f] assms(2) show ?thesis by auto
next
  case Refilled
  with assms(2) have "queue_set w = (fst (queue_set w), w')" by (auto simp: prod_eq_iff)
  from queue_set_queued(3, 4) [OF assms(1) this] this show ?thesis
    by (auto simp: queued_def queue_set_def split: if_splits)
qed (use assms in simp)

end
