(* ===== verification/H2_Conn.thy ===== *)
theory H2_Conn
  imports H2_StreamState H2_Sender H2_Write H2_Read H2_Queue
begin

text \<open>
  The state of a connection and of its streams: \<open>Conn\<close> and \<open>connState\<close> of \<^verbatim>\<open>src/conn.go\<close>, \<open>stream\<close> of
  \<^verbatim>\<open>src/stream.go\<close> and the methods of \<open>Conn\<close> in \<^verbatim>\<open>src/flow_control.go\<close>, with the life of a stream.

  The operations are steps on the state of the connection.  The code between two blocking
  operations of a goroutine is one step, so a compare-and-swap loop runs once.  Stream objects
  live in the store \<open>c_objs\<close> under their identifier, which \<open>idleStream\<close> hands out once unless its counter has
  wrapped around, when the new object takes the place of one that was closed; the table
  \<open>streams\<close> is the list of the identifiers in it, whose order stands for the iteration order of
  the run time.  The goroutine that is inside \<open>stream.write\<close> is the field \<open>s_phase\<close> of the stream:
  it holds the token \<open>wio\<close> unless it is \<open>W_free\<close>, and receives from \<open>werr\<close>, a channel without buffer,
  exactly in \<open>W_result\<close>.  An operation that panics returns \<open>None\<close>.
\<close>

section \<open>The state\<close>

definition defaultWeight :: u8 where [simp]: "defaultWeight = 16"

text \<open>
  Where the writer of a stream is: outside, waiting in \<open>allocateBytes\<close> for credit of the stream or
  of the connection, waiting for the write loop, or about to go on with the result it was sent.
\<close>

datatype write_phase =
    W_free
  | W_stream int
  | W_conn int int
  | W_result
  | W_done "h2error option"

text \<open>
  The local variables of \<open>write\<close>: the frame with what is left of its reader, the lengths left,
  whether the loop was entered, whether the chunk is the last, and whether the call of \<open>writeFrame\<close>
  has the deferred release of the stream identifier.
\<close>

record writer =
  wr_frame :: "Frame option"
  wr_dataLen :: int
  wr_padLen :: int
  wr_chunked :: bool
  wr_last :: bool
  wr_deferred :: bool

record stream =
  s_id :: u32
  s_state :: StreamState
  s_weight :: u8
  s_recvFlow :: "flowController option"
  s_sendFlow :: "remoteFlowController option"
  s_frame :: "Frame option"
  s_lastWritten :: FrameType
  s_sawEOS :: bool
  s_resetSent :: bool
  s_resetReceived :: bool
  s_closeCh :: bool
  s_phase :: write_phase
  s_writer :: writer

text \<open>
  One side of the connection.  A slice of settings is its elements and its capacity, which
  decides whether \<open>append\<close> keeps the array that other holders of the slice see.
\<close>

record connState =
  cs_server :: bool
  cs_numStreams :: u32
  cs_nextStreamID :: u32
  cs_lastStreamID :: u32
  cs_settings :: Settings
  cs_cap :: nat
  cs_goAway :: "(u32 \<times> ErrCode \<times> bytes) option"

text \<open>What stands in the write queue: the nil frame of \<open>Flush\<close>, a frame, or a stream with its frame.\<close>

datatype queue_item = Q_nil | Q_frame Frame | Q_stream u32

text \<open>The reader \<open>data\<close> that \<open>ReadFrame\<close> hands to the application with a DATA frame.\<close>

record data =
  d_stream :: u32
  d_processed :: int
  d_endStream :: bool
  d_sawEOF :: bool
  d_error :: "h2error option"

text \<open>
  \<open>c_grow\<close> is the capacity that \<open>append\<close> chooses for a slice that is full, and \<open>c_rwcErr\<close> what
  closing the transport returns.
\<close>

record conn =
  c_reader :: frameReader
  c_writer :: frameWriter
  c_lastData :: bool
  c_data :: data
  c_queue :: "queue_item writeQueue"
  c_recvFlow :: flowController
  c_sendFlow :: remoteFlowController
  c_objs :: "u32 \<Rightarrow> stream option"
  c_streams :: "u32 list"
  c_handshake :: bool
  c_closing :: bool
  c_closed :: bool
  c_settingsCh :: "Settings list"
  c_local :: connState
  c_remote :: connState
  c_idCh :: bool
  c_idState :: bool
  c_grow :: "nat \<Rightarrow> nat"
  c_rwcErr :: "h2error option"

definition no_writer :: writer where
  "no_writer = \<lparr>wr_frame = None, wr_dataLen = 0, wr_padLen = 0, wr_chunked = False, wr_last = False, wr_deferred = False\<rparr>"

definition new_stream :: "u32 \<Rightarrow> stream" where
  "new_stream sid =
     \<lparr>s_id = sid, s_state = StateIdle, s_weight = defaultWeight, s_recvFlow = None, s_sendFlow = None, s_frame = None,
      s_lastWritten = 0, s_sawEOS = False, s_resetSent = False, s_resetReceived = False, s_closeCh = False,
      s_phase = W_free, s_writer = no_writer\<rparr>"

definition new_connState :: "bool \<Rightarrow> u32 \<Rightarrow> Settings \<Rightarrow> connState" where
  "new_connState server nextID s =
     \<lparr>cs_server = server, cs_numStreams = 0, cs_nextStreamID = nextID, cs_lastStreamID = 0, cs_settings = s,
      cs_cap = length s, cs_goAway = None\<rparr>"

definition minReadBufSize :: int where
  "minReadBufSize = int (length ClientPreface)"

definition read_buf_size :: "int \<Rightarrow> int" where
  "read_buf_size readBufSize =
     (let n = (if readBufSize \<le> 0 then 4096 else readBufSize) in if n < minReadBufSize then minReadBufSize else n)"

definition newConn ::
  "bool \<Rightarrow> int \<Rightarrow> bytes \<Rightarrow> h2error \<Rightarrow> (nat \<times> h2error) option \<Rightarrow> (nat \<Rightarrow> nat) \<Rightarrow> h2error option \<Rightarrow> conn" where
  "newConn server readBufSize inp inp_end fault grow rwcErr =
     (let push_off = [\<lparr>set_ID = SettingEnablePush, set_Value = 0\<rparr>] in
      \<lparr>c_reader = newFrameReader inp inp_end (nat (read_buf_size readBufSize)), c_writer = newFrameWriter fault,
       c_lastData = False, c_data = \<lparr>d_stream = 0, d_processed = 0, d_endStream = False, d_sawEOF = False, d_error = None\<rparr>,
       c_queue = new_writeQueue, c_recvFlow = new_flowController (uint defaultInitialWindowSize),
       c_sendFlow = snd (remote_incrementInitialWindow 0 new_remoteFlowController (uint defaultInitialWindowSize)),
       c_objs = (\<lambda>_. None), c_streams = [], c_handshake = False, c_closing = False, c_closed = False, c_settingsCh = [],
       c_local = (if server then new_connState True 2 push_off else new_connState False 1 []),
       c_remote = (if server then new_connState False 1 [] else new_connState True 2 push_off),
       c_idCh = True, c_idState = False, c_grow = grow, c_rwcErr = rwcErr\<rparr>)"

section \<open>Queries\<close>

definition Conn_ServerConn :: "conn \<Rightarrow> bool" where
  "Conn_ServerConn c = cs_server (c_local c)"

definition Conn_NumActiveStreams :: "conn \<Rightarrow> u32" where
  "Conn_NumActiveStreams c = cs_numStreams (c_local c) + cs_numStreams (c_remote c)"

definition Conn_LastStreamID :: "conn \<Rightarrow> u32" where
  "Conn_LastStreamID c = cs_lastStreamID (c_remote c)"

definition Conn_Settings :: "conn \<Rightarrow> Settings" where
  "Conn_Settings c = cs_settings (c_local c)"

definition Conn_RemoteSettings :: "conn \<Rightarrow> Settings" where
  "Conn_RemoteSettings c = cs_settings (c_remote c)"

definition Conn_GoAwayReceived :: "conn \<Rightarrow> bool \<times> (u32 \<times> ErrCode \<times> bytes) option" where
  "Conn_GoAwayReceived c = (cs_goAway (c_local c) \<noteq> None, cs_goAway (c_local c))"

definition Conn_GoAwaySent :: "conn \<Rightarrow> bool \<times> (u32 \<times> ErrCode \<times> bytes) option" where
  "Conn_GoAwaySent c = (cs_goAway (c_remote c) \<noteq> None, cs_goAway (c_remote c))"

definition goingAway :: "conn \<Rightarrow> bool" where
  "goingAway c \<longleftrightarrow> cs_goAway (c_remote c) \<noteq> None \<or> cs_goAway (c_local c) \<noteq> None"

definition Conn_stream :: "conn \<Rightarrow> u32 \<Rightarrow> stream option" where
  "Conn_stream c streamID = (if streamID \<in> set (c_streams c) then c_objs c streamID else None)"

definition Conn_Closed :: "conn \<Rightarrow> bool" where
  "Conn_Closed c = c_closed c"

text \<open>The window methods; a stream without the controller they ask panics.\<close>

definition Conn_InitialRecvWindow :: "conn \<Rightarrow> u32 \<Rightarrow> u32 option" where
  "Conn_InitialRecvWindow c streamID =
     (if streamID = 0 then Some (flow_initialWindow (c_recvFlow c))
      else (case Conn_stream c streamID of
              Some s \<Rightarrow> map_option flow_initialWindow (s_recvFlow s)
            | None \<Rightarrow> Some 0))"

definition window_size :: "int \<Rightarrow> u32" where
  "window_size w = (if w > 0 then of_int w else 0)"

definition Conn_RecvWindow :: "conn \<Rightarrow> u32 \<Rightarrow> u32 option" where
  "Conn_RecvWindow c streamID =
     (if streamID = 0 then Some (window_size (flow_window (c_recvFlow c)))
      else (case Conn_stream c streamID of
              Some s \<Rightarrow> map_option (window_size \<circ> flow_window) (s_recvFlow s)
            | None \<Rightarrow> Some 0))"

definition Conn_InitialSendWindow :: "conn \<Rightarrow> u32 \<Rightarrow> u32" where
  "Conn_InitialSendWindow c streamID = Settings_InitialWindowSize (Conn_RemoteSettings c)"

definition Conn_SendWindow :: "conn \<Rightarrow> u32 \<Rightarrow> u32 option" where
  "Conn_SendWindow c streamID =
     (if streamID = 0 then Some (window_size (remote_window (c_sendFlow c)))
      else (case Conn_stream c streamID of
              Some s \<Rightarrow> map_option (window_size \<circ> remote_window) (s_sendFlow s)
            | None \<Rightarrow> Some 0))"

section \<open>Updates\<close>

definition add_frame :: "queue_item \<Rightarrow> bool \<Rightarrow> conn \<Rightarrow> conn" where
  "add_frame f control c = c\<lparr>c_queue := queue_add f control (c_queue c)\<rparr>"

definition add_frames :: "Frame list \<Rightarrow> conn \<Rightarrow> conn" where
  "add_frames fs c = fold (\<lambda>f. add_frame (Q_frame f) True) fs c"

definition Conn_Flush :: "conn \<Rightarrow> conn" where
  "Conn_Flush c = add_frame Q_nil False c"

definition put_stream :: "stream \<Rightarrow> conn \<Rightarrow> conn" where
  "put_stream s c = c\<lparr>c_objs := (c_objs c)(s_id s := Some s)\<rparr>"

definition Conn_addStream :: "u32 \<Rightarrow> conn \<Rightarrow> conn" where
  "Conn_addStream sid c = c\<lparr>c_streams := (if sid \<in> set (c_streams c) then c_streams c else c_streams c @ [sid])\<rparr>"

definition Conn_removeStream :: "u32 \<Rightarrow> conn \<Rightarrow> conn" where
  "Conn_removeStream sid c =
     (let c = c\<lparr>c_streams := filter (\<lambda>x. x \<noteq> sid) (c_streams c)\<rparr>
      in if goingAway c \<and> Conn_NumActiveStreams c = 0 then Conn_Flush c else c)"

definition connState_validStreamID :: "connState \<Rightarrow> u32 \<Rightarrow> bool" where
  "connState_validStreamID s streamID \<longleftrightarrow> cs_server s = (streamID AND 1 = 0) \<and> streamID > 0"

definition stream_local :: "conn \<Rightarrow> u32 \<Rightarrow> bool" where
  "stream_local c sid \<longleftrightarrow> cs_server (c_local c) = (sid AND 1 = 0)"

text \<open>\<open>atomic.AddUint32\<close> on the counter of the side a stream belongs to.\<close>

definition add_numStreams :: "u32 \<Rightarrow> u32 \<Rightarrow> conn \<Rightarrow> conn" where
  "add_numStreams sid n c =
     (if stream_local c sid then c\<lparr>c_local := (c_local c)\<lparr>cs_numStreams := cs_numStreams (c_local c) + n\<rparr>\<rparr>
      else c\<lparr>c_remote := (c_remote c)\<lparr>cs_numStreams := cs_numStreams (c_remote c) + n\<rparr>\<rparr>)"

section \<open>The life of a stream\<close>

definition errStreamClosed :: h2error where
  "errStreamClosed = Errorf (str ''stream closed'')"

text \<open>A send on \<open>werr\<close> that does not wait: it reaches a writer that receives, and is lost otherwise.\<close>

definition stream_cancel :: "h2error option \<Rightarrow> stream \<Rightarrow> stream" where
  "stream_cancel e s = (if s_phase s = W_result then s\<lparr>s_phase := W_done e\<rparr> else s)"

definition stop_sending :: "stream \<Rightarrow> stream" where
  "stop_sending s = s\<lparr>s_sendFlow := map_option (remote_stop (s_id s)) (s_sendFlow s)\<rparr>"

text \<open>The controllers of a stream that becomes active.\<close>

definition start_flows :: "StreamState \<Rightarrow> conn \<Rightarrow> stream \<Rightarrow> stream" where
  "start_flows to c s =
     (let w = uint (Settings_InitialWindowSize (Conn_Settings c));
          s = s\<lparr>s_recvFlow := Some (new_flowController w)\<rparr>;
          w = uint (Settings_InitialWindowSize (Conn_RemoteSettings c))
      in if to \<noteq> StateHalfClosedLocal
         then s\<lparr>s_sendFlow := Some (snd (remote_incrementInitialWindow (s_id s) new_remoteFlowController w))\<rparr>
         else s)"

text \<open>The bytes that a closing stream still holds go back to both windows.\<close>

definition stream_return :: "int \<Rightarrow> stream \<Rightarrow> conn \<Rightarrow> (h2error option \<times> conn) option" where
  "stream_return n s c =
     (case s_recvFlow s of
        None \<Rightarrow> None
      | Some f \<Rightarrow>
          (case stream_returnBytes (s_id s) (c_recvFlow c) f n of
             (e, cc, f, fs) \<Rightarrow> Some (e, add_frames fs (put_stream (s\<lparr>s_recvFlow := Some f\<rparr>) (c\<lparr>c_recvFlow := cc\<rparr>)))))"

definition return_consumed :: "stream \<Rightarrow> conn \<Rightarrow> conn" where
  "return_consumed s c =
     (case s_recvFlow s of
        None \<Rightarrow> c
      | Some f \<Rightarrow> (case stream_return (flow_consumedBytes f) s c of Some (e, c) \<Rightarrow> c | None \<Rightarrow> c))"

definition stream_activate :: "StreamState \<Rightarrow> StreamState \<Rightarrow> stream \<Rightarrow> conn \<Rightarrow> conn" where
  "stream_activate from to s c =
     (let c = add_numStreams (s_id s) 1 c;
          c = put_stream (start_flows to c s) c
      in if from = StateIdle then Conn_addStream (s_id s) c else c)"

definition stream_shut :: "StreamState \<Rightarrow> stream \<Rightarrow> conn \<Rightarrow> conn" where
  "stream_shut from s c =
     (let c = (if active from then add_numStreams (s_id s) (- 1) c else c) in
      if from \<noteq> StateClosed then
        let s = stop_sending (stream_cancel (Some errStreamClosed) (s\<lparr>s_closeCh := True\<rparr>))
        in Conn_removeStream (s_id s) (return_consumed s (put_stream s c))
      else c)"

text \<open>Besides an object that does not exist, the half-close of a stream whose \<open>sendFlow\<close> is nil panics.\<close>

definition compareAndSwapState :: "u32 \<Rightarrow> StreamState \<Rightarrow> StreamState \<Rightarrow> conn \<Rightarrow> (bool \<times> conn) option" where
  "compareAndSwapState sid from to c =
     (case c_objs c sid of
        None \<Rightarrow> None
      | Some s \<Rightarrow>
          if s_state s \<noteq> from then Some (False, c)
          else
            let s = s\<lparr>s_state := to\<rparr>; c = put_stream s c in
            if to = StateReservedLocal \<or> to = StateReservedRemote then
              Some (True, if from = StateIdle then Conn_addStream sid c else c)
            else if active to then
              if from = StateIdle \<or> from = StateReservedLocal \<or> from = StateReservedRemote then
                Some (True, stream_activate from to s c)
              else if from = StateOpen \<and> to = StateHalfClosedLocal then
                (if s_sendFlow s = None then None
                 else Some (True, put_stream (stop_sending (stream_cancel (Some errStreamClosed) s)) c))
              else Some (True, c)
            else if to = StateClosed then Some (True, stream_shut from s c)
            else Some (True, c))"

definition stream_close :: "u32 \<Rightarrow> conn \<Rightarrow> conn option" where
  "stream_close sid c =
     do {
       s \<leftarrow> c_objs c sid;
       (_, c) \<leftarrow> compareAndSwapState sid (s_state s) StateClosed c;
       Some c
     }"

fun close_streams :: "u32 list \<Rightarrow> conn \<Rightarrow> conn option" where
  "close_streams [] c = Some c"
| "close_streams (sid # sids) c = do { c \<leftarrow> stream_close sid c; close_streams sids c }"

text \<open>The errors of \<open>transition\<close> when the state does not allow the frame.\<close>

definition already_closed :: "u32 \<Rightarrow> h2error" where
  "already_closed sid = Errorf (str ''stream '' @ dec_string (unat sid) @ str '' already closed'')"

definition bad_state :: "StreamState \<Rightarrow> h2error" where
  "bad_state st = Errorf (str ''bad stream state '' @ StreamState_String st)"

definition transition_error :: "stream \<Rightarrow> bool \<Rightarrow> FrameType \<Rightarrow> h2error" where
  "transition_error s recv frameType =
     (if \<not> recv then (if s_state s = StateClosed then already_closed (s_id s) else bad_state (s_state s))
      else if s_resetReceived s then StreamError (already_closed (s_id s)) ErrCodeStreamClosed (s_id s)
      else if s_resetSent s then StreamError (already_closed (s_id s)) ErrCodeStreamClosed (s_id s)
      else if s_state s = StateHalfClosedRemote then ConnError (already_closed (s_id s)) ErrCodeStreamClosed
      else if s_state s = StateClosed \<and> (frameType = FrameRSTStream \<or> frameType = FrameWindowUpdate)
      then ConnError (already_closed (s_id s)) ErrCodeProtocol
      else ConnError (bad_state (s_state s)) ErrCodeProtocol)"

definition set_reset :: "bool \<Rightarrow> u32 \<Rightarrow> conn \<Rightarrow> conn" where
  "set_reset recv sid c =
     c\<lparr>c_objs := (c_objs c)(sid := map_option (\<lambda>s. if recv then s\<lparr>s_resetReceived := True\<rparr> else s\<lparr>s_resetSent := True\<rparr>) (c_objs c sid))\<rparr>"

definition stream_transition ::
  "u32 \<Rightarrow> bool \<Rightarrow> FrameType \<Rightarrow> bool \<Rightarrow> conn \<Rightarrow> ((StreamState \<times> h2error option) \<times> conn) option" where
  "stream_transition sid recv frameType endStream c =
     do {
       s \<leftarrow> c_objs c sid;
       case StreamState_transition (s_state s) recv frameType endStream of
         (to, ok) \<Rightarrow>
           if \<not> ok then Some ((s_state s, Some (transition_error s recv frameType)), c)
           else do {
             (_, c) \<leftarrow> compareAndSwapState sid (s_state s) to c;
             Some ((to, None), if to = StateClosed \<and> frameType = FrameRSTStream then set_reset recv sid c else c)
           }
     }"

end
