(* ===== verification/H2_ConnOps.thy ===== *)
theory H2_ConnOps
  imports H2_Conn
begin

text \<open>
  The operations of a connection: \<^verbatim>\<open>src/conn.go\<close>, the write path of \<^verbatim>\<open>src/stream.go\<close> and the methods
  that apply a change of the initial window in \<^verbatim>\<open>src/flow_control.go\<close>.

  \<open>handleErr\<close> and \<open>writeFrame\<close> call each other; the chain ends with a GOAWAY frame, which has no
  error to handle, so they are written in layers from \<open>write_GoAway\<close> up.  A call of \<open>writeFrame\<close>
  returns its error or leaves the goroutine inside \<open>stream.write\<close>; the rest of that function is
  the steps \<open>write_stream_credit\<close> to \<open>write_resume\<close>.
\<close>

section \<open>Opening streams\<close>

text \<open>The side of a connection on which a method of \<open>connState\<close> is called: \<open>c.connState\<close> or \<open>c.remote\<close>.\<close>

definition side :: "bool \<Rightarrow> conn \<Rightarrow> connState" where
  "side local c = (if local then c_local c else c_remote c)"

definition set_side :: "bool \<Rightarrow> connState \<Rightarrow> conn \<Rightarrow> conn" where
  "set_side local s c = (if local then c\<lparr>c_local := s\<rparr> else c\<lparr>c_remote := s\<rparr>)"

definition errClosedStream :: h2error where
  "errClosedStream = ConnError (Errorf (str ''closed stream'')) ErrCodeProtocol"

definition idleStream :: "bool \<Rightarrow> u32 \<Rightarrow> conn \<Rightarrow> h2error option \<times> conn" where
  "idleStream local streamID c =
     (case cs_goAway (c_local c) of
        Some (lastID, _, _) \<Rightarrow>
          (Some (ConnError (Errorf (str ''received a GOAWAY frame with last stream id '' @ dec_string (unat lastID))) ErrCodeProtocol), c)
      | None \<Rightarrow>
          let s = side local c in
          if \<not> connState_validStreamID s streamID then
            (Some (ConnError (Errorf (str ''bad stream id '' @ dec_string (unat streamID))) ErrCodeProtocol), c)
          else if streamID < cs_nextStreamID s then (Some errClosedStream, c)
          else if cs_numStreams s + 1 > Settings_MaxConcurrentStreams (cs_settings s) then
            (Some (conn_error ''maximum streams exceeded'' ErrCodeRefusedStream), c)
          else
            (None, set_side local (s\<lparr>cs_nextStreamID := streamID + 2, cs_lastStreamID := streamID\<rparr>)
              (put_stream (new_stream streamID) c)))"

text \<open>
  \<open>NextStreamID\<close> by the branch its select takes: the connection is closed, the token of \<open>idCh\<close> is
  there, or the timer fires, which gives the token back and starts over.
\<close>

definition release_id :: "conn \<Rightarrow> conn" where
  "release_id c = (if c_idState c then c\<lparr>c_idState := False, c_idCh := True\<rparr> else c)"

definition NextStreamID_closed :: "conn \<Rightarrow> (h2error + u32) option" where
  "NextStreamID_closed c = (if c_closed c then Some (Inl ErrClosed) else None)"

definition NextStreamID_token :: "conn \<Rightarrow> ((h2error + u32) \<times> conn) option" where
  "NextStreamID_token c =
     (if c_idCh c then
        let n = cs_nextStreamID (c_local c)
        in Some (Inr (if n > 1 then n else n + 2), c\<lparr>c_idCh := False, c_idState := True\<rparr>)
      else None)"

definition NextStreamID_timer :: "conn \<Rightarrow> conn" where
  "NextStreamID_timer c = release_id c"

section \<open>Settings\<close>

text \<open>The loops over the table; a stream without the controller they change panics.\<close>

fun recv_window_loop ::
  "int \<Rightarrow> u32 list \<Rightarrow> (h2error \<times> ErrCode \<times> u32) list \<Rightarrow> conn \<Rightarrow> ((h2error \<times> ErrCode \<times> u32) list \<times> conn) option" where
  "recv_window_loop delta [] errs c = Some (errs, c)"
| "recv_window_loop delta (sid # sids) errs c =
     do {
       s \<leftarrow> c_objs c sid;
       if readable (s_state s) then do {
         f \<leftarrow> s_recvFlow s;
         case flow_incrementInitialWindow (s_id s) f delta of
           (e, f) \<Rightarrow>
             recv_window_loop delta sids
               (case e of None \<Rightarrow> errs | Some e \<Rightarrow> StreamErrorList_add errs (s_id s) ErrCodeFlowControl e)
               (put_stream (s\<lparr>s_recvFlow := Some f\<rparr>) c)
       } else recv_window_loop delta sids errs c
     }"

definition setInitialRecvWindow :: "int \<Rightarrow> conn \<Rightarrow> (h2error option \<times> conn) option" where
  "setInitialRecvWindow delta c =
     (if delta = 0 then Some (None, c)
      else do { (errs, c) \<leftarrow> recv_window_loop delta (c_streams c) [] c; Some (StreamErrorList_Err errs, c) })"

text \<open>The type assertion on the error of a stream; the streams of the table are not stream 0.\<close>

fun as_StreamError :: "h2error \<Rightarrow> (h2error \<times> ErrCode \<times> u32) option" where
  "as_StreamError (StreamError e code sid) = Some (e, code, sid)"
| "as_StreamError _ = None"

fun send_window_loop ::
  "int \<Rightarrow> u32 list \<Rightarrow> (h2error \<times> ErrCode \<times> u32) list \<Rightarrow> conn \<Rightarrow> (h2error option \<times> conn) option" where
  "send_window_loop delta [] errs c = Some (StreamErrorList_Err errs, c)"
| "send_window_loop delta (sid # sids) errs c =
     do {
       s \<leftarrow> c_objs c sid;
       if writable (s_state s) then do {
         f \<leftarrow> s_sendFlow s;
         case remote_incrementInitialWindow (s_id s) f delta of
           (e, f) \<Rightarrow>
             let c = put_stream (s\<lparr>s_sendFlow := Some f\<rparr>) c in
             (case e of
                None \<Rightarrow> send_window_loop delta sids errs c
              | Some e \<Rightarrow>
                  if s_id s = 0 then Some (Some e, c)
                  else do { se \<leftarrow> as_StreamError e; send_window_loop delta sids (errs @ [se]) c })
       } else send_window_loop delta sids errs c
     }"

definition setInitialSendWindow :: "int \<Rightarrow> conn \<Rightarrow> (h2error option \<times> conn) option" where
  "setInitialSendWindow delta c =
     (if delta = 0 then Some (None, c) else send_window_loop delta (c_streams c) [] c)"

text \<open>
  The slice \<open>cur\<close> of \<open>applySettings\<close> starts as a copy of the header of the stored slice, so both
  have one array until an \<open>append\<close> that exceeds the capacity.  \<open>sl_old\<close> is what the stored slice
  shows once they are apart.
\<close>

record slice =
  sl_cur :: Settings
  sl_cap :: nat
  sl_old :: "Settings option"

definition slice_SetValue :: "(nat \<Rightarrow> nat) \<Rightarrow> nat \<Rightarrow> setting \<Rightarrow> slice \<Rightarrow> slice" where
  "slice_SetValue grow n x sl =
     (let cur = snd (Settings_SetValue (sl_cur sl) (set_ID x) (set_Value x)) in
      if length cur > sl_cap sl
      then \<lparr>sl_cur = cur, sl_cap = grow (sl_cap sl),
            sl_old = (if sl_old sl = None then Some (take n (sl_cur sl)) else sl_old sl)\<rparr>
      else sl\<lparr>sl_cur := cur\<rparr>)"

text \<open>What the setting does besides being stored; \<open>continue\<close> is the flag that is false.\<close>

definition apply_setting :: "bool \<Rightarrow> slice \<Rightarrow> setting \<Rightarrow> conn \<Rightarrow> ((h2error option \<times> bool) \<times> conn) option" where
  "apply_setting local sl x c =
     (let s = side local c; i = set_ID x; v = set_Value x in
      if i = SettingEnablePush then
        (if v = 1 \<and> local \<and> cs_server s then
           Some ((Some (conn_error ''server sent SETTINGS frame with ENABLE_PUSH specified'' ErrCodeProtocol), False), c)
         else if v = 1 \<and> \<not> local \<and> \<not> cs_server s then
           Some ((Some (conn_error ''client received SETTINGS frame with ENABLE_PUSH specified for remote server'' ErrCodeProtocol), False), c)
         else Some ((None, True), c))
      else if i = SettingMaxConcurrentStreams then Some ((None, True), c)
      else if i = SettingInitialWindowSize then
        do {
          (e, c) \<leftarrow> (let delta = uint v - uint (Settings_InitialWindowSize (sl_cur sl))
                     in if local then setInitialRecvWindow delta c else setInitialSendWindow delta c);
          Some ((e, True), c)
        }
      else if i = SettingHeaderTableSize then
        (if local then do {
           d \<leftarrow> Decoder_SetMaxHeaderTableSize (r_dec (c_reader c)) v;
           Some ((None, True), c\<lparr>c_reader := (c_reader c)\<lparr>r_dec := d\<rparr>\<rparr>)
         } else do {
           e \<leftarrow> Encoder_SetMaxHeaderTableSize (w_enc (c_writer c)) v;
           Some ((None, True), c\<lparr>c_writer := (c_writer c)\<lparr>w_enc := e\<rparr>\<rparr>)
         })
      else if i = SettingMaxHeaderListSize then
        Some ((None, True),
          if local then c\<lparr>c_reader := (c_reader c)\<lparr>r_maxHeaderListSize := v\<rparr>\<rparr>
          else c\<lparr>c_writer := (c_writer c)\<lparr>w_maxHeaderListSize := v\<rparr>\<rparr>)
      else if i = SettingMaxFrameSize then
        Some ((None, True),
          if local then c\<lparr>c_reader := (c_reader c)\<lparr>r_maxFrameSize := v\<rparr>\<rparr>
          else c\<lparr>c_writer := (c_writer c)\<lparr>w_maxFrameSize := v\<rparr>\<rparr>)
      else Some ((None, False), c))"

fun apply_loop :: "bool \<Rightarrow> nat \<Rightarrow> Settings \<Rightarrow> slice \<Rightarrow> conn \<Rightarrow> ((h2error option \<times> slice) \<times> conn) option" where
  "apply_loop local n [] sl c = Some ((None, sl), c)"
| "apply_loop local n (x # xs) sl c =
     do {
       ((e, store), c) \<leftarrow> apply_setting local sl x c;
       case e of
         Some e \<Rightarrow> Some ((Some e, sl), c)
       | None \<Rightarrow> apply_loop local n xs (if store then slice_SetValue (c_grow c) n x sl else sl) c
     }"

text \<open>
  The \<open>Store\<close> at the end publishes \<open>cur\<close>.  On an error there is none, but the stored slice shows
  the changes that were made to the array it shares.
\<close>

definition applySettings :: "bool \<Rightarrow> Settings \<Rightarrow> conn \<Rightarrow> (h2error option \<times> conn) option" where
  "applySettings local settings c =
     (let s = side local c; n = length (cs_settings s) in
      do {
        ((e, sl), c) \<leftarrow> apply_loop local n settings \<lparr>sl_cur = cs_settings s, sl_cap = cs_cap s, sl_old = None\<rparr> c;
        case e of
          Some e \<Rightarrow>
            Some (Some e, set_side local ((side local c)\<lparr>cs_settings := (case sl_old sl of Some old \<Rightarrow> old | None \<Rightarrow> take n (sl_cur sl))\<rparr>) c)
        | None \<Rightarrow> Some (None, set_side local ((side local c)\<lparr>cs_settings := sl_cur sl, cs_cap := sl_cap sl\<rparr>) c)
      })"

section \<open>GOAWAY, RST_STREAM and errors\<close>

text \<open>The case of \<open>writeFrame\<close> for a GOAWAY frame: it may not raise the last stream identifier that was sent.\<close>

definition go_away_limit :: "u32 \<Rightarrow> conn \<Rightarrow> h2error option" where
  "go_away_limit lastID c =
     (case cs_goAway (c_remote c) of
        Some (sentID, _, _) \<Rightarrow>
          if lastID > sentID then Some (Errorf (str ''last stream ID must be <= '' @ dec_string (unat sentID))) else None
      | None \<Rightarrow> None)"

definition write_GoAway :: "u32 \<Rightarrow> ErrCode \<Rightarrow> bytes \<Rightarrow> conn \<Rightarrow> (h2error option \<times> conn) option" where
  "write_GoAway lastID code debug c =
     (case go_away_limit lastID c of
        Some e \<Rightarrow> Some (Some e, c)
      | None \<Rightarrow>
         let c = c\<lparr>c_remote := (c_remote c)\<lparr>cs_goAway := Some (lastID, code, debug)\<rparr>\<rparr>;
             victims = filter (\<lambda>sid. sid > lastID \<and> connState_validStreamID (c_remote c) sid) (c_streams c)
         in do {
           c \<leftarrow> close_streams victims c;
           Some (None, add_frame (Q_frame (GoAwayFrame lastID code debug)) True c)
         })"

text \<open>\<open>handleErr\<close> for the errors that end the connection; \<open>writeFrame\<close>'s own error is dropped.\<close>

definition go_away_code :: "h2error \<Rightarrow> ErrCode" where
  "go_away_code e = (case e of ConnError _ code \<Rightarrow> code | _ \<Rightarrow> ErrCodeInternal)"

definition handle_conn_err :: "h2error \<Rightarrow> conn \<Rightarrow> conn option" where
  "handle_conn_err e c =
     map_option snd (write_GoAway (Conn_LastStreamID c) (go_away_code e) (h2error_Error e) c)"

text \<open>
  The case of \<open>writeFrame\<close> for RST_STREAM.  The error of a transition that sends is neither a
  stream error nor a list of them, so \<open>handleErr\<close> answers it with GOAWAY.
\<close>

definition write_RSTStream :: "Frame \<Rightarrow> conn \<Rightarrow> (h2error option \<times> conn) option" where
  "write_RSTStream frame c =
     (let sid = Frame_Stream frame in
      case Conn_stream c sid of
        None \<Rightarrow> Some (None, c)
      | Some _ \<Rightarrow> do {
          ((_, e), c) \<leftarrow> stream_transition sid False FrameRSTStream False c;
          case e of
            None \<Rightarrow> Some (None, add_frame (Q_frame frame) True c)
          | Some e \<Rightarrow> do { c \<leftarrow> handle_conn_err e c; Some (Some e, c) }
        })"

fun write_resets :: "(h2error \<times> ErrCode \<times> u32) list \<Rightarrow> conn \<Rightarrow> conn option" where
  "write_resets [] c = Some c"
| "write_resets ((_, code, sid) # es) c = do { (_, c) \<leftarrow> write_RSTStream (RSTStreamFrame sid code) c; write_resets es c }"

definition handleErr :: "h2error option \<Rightarrow> conn \<Rightarrow> conn option" where
  "handleErr err c =
     (case err of
        None \<Rightarrow> Some c
      | Some ErrClosed \<Rightarrow> Some c
      | Some (StreamError e code sid) \<Rightarrow> map_option snd (write_RSTStream (RSTStreamFrame sid code) c)
      | Some (StreamErrorList es) \<Rightarrow> write_resets es c
      | Some e \<Rightarrow> handle_conn_err e c)"

section \<open>Writing to a stream\<close>

text \<open>A step of a writer ends the call with its error or leaves it waiting.\<close>

datatype write_outcome = Returned "h2error option" | Pending

definition set_writer :: "write_phase \<Rightarrow> writer \<Rightarrow> stream \<Rightarrow> stream" where
  "set_writer ph wr s = s\<lparr>s_phase := ph, s_writer := wr\<rparr>"

text \<open>The return of \<open>write\<close>: the token goes back and the deferred call of \<open>writeFrame\<close> runs.\<close>

definition write_return :: "h2error option \<Rightarrow> stream \<Rightarrow> conn \<Rightarrow> write_outcome \<times> conn" where
  "write_return e s c =
     (let c = put_stream (set_writer W_free no_writer s) c
      in (Returned e, if wr_deferred (s_writer s) then release_id c else c))"

text \<open>The frame of the stream is queued and the writer waits for the write loop.\<close>

definition write_queue :: "Frame \<Rightarrow> writer \<Rightarrow> stream \<Rightarrow> conn \<Rightarrow> conn" where
  "write_queue f wr s c =
     add_frame (Q_stream (s_id s)) False (put_stream (set_writer W_result wr (s\<lparr>s_frame := Some f\<rparr>)) c)"

text \<open>The chunk from the label \<open>again\<close> for what \<open>allocateBytes\<close> allowed.\<close>

definition write_chunk :: "u32 \<Rightarrow> bytes option \<Rightarrow> bool \<Rightarrow> int \<Rightarrow> writer \<Rightarrow> Frame \<times> writer" where
  "write_chunk sid rd endStream allowed wr =
     (let len = (if wr_dataLen wr > allowed then allowed else wr_dataLen wr);
          padding = (if allowed - len > wr_padLen wr then wr_padLen wr else allowed - len);
          dataLen = wr_dataLen wr - len;
          padLen = wr_padLen wr - padding;
          lastFrame = (dataLen + padLen = 0)
      in (DataFrame sid rd len (of_int padding) (endStream \<and> lastFrame),
          wr\<lparr>wr_frame := Some (DataFrame sid (map_option (drop (nat len)) rd) len (of_int padding) endStream),
             wr_dataLen := dataLen, wr_padLen := padLen, wr_chunked := True, wr_last := lastFrame\<rparr>))"

fun write_allowed :: "int \<Rightarrow> stream \<Rightarrow> conn \<Rightarrow> (write_outcome \<times> conn) option" where
  "write_allowed allowed s c =
     (let wr = s_writer s in
      case wr_frame wr of
        Some (DataFrame sid rd n p endStream) \<Rightarrow>
          if \<not> wr_chunked wr \<and> allowed = wr_dataLen wr + wr_padLen wr
          then Some (Pending, write_queue (DataFrame sid rd n p endStream) (wr\<lparr>wr_last := True\<rparr>) s c)
          else (case write_chunk sid rd endStream allowed wr of (f, wr) \<Rightarrow> Some (Pending, write_queue f wr s c))
      | _ \<Rightarrow> None)"

declare write_allowed.simps [simp del]

text \<open>\<open>allocateBytes\<close> up to its first receive; it returns 0 at once when nothing is asked for.\<close>

definition write_allocate :: "stream \<Rightarrow> conn \<Rightarrow> (write_outcome \<times> conn) option" where
  "write_allocate s c =
     (let n = wr_dataLen (s_writer s) + wr_padLen (s_writer s) in
      if n \<le> 0 then write_allowed 0 s c
      else do {
        f \<leftarrow> s_sendFlow s;
        Some (Pending, put_stream (s\<lparr>s_sendFlow := Some (allocate_offer (s_id s) f), s_phase := W_stream n\<rparr>) c)
      })"

text \<open>
  The select at the start of \<open>write\<close>: the branch that runs is an argument, and \<open>None\<close> if it is not
  ready.
\<close>

datatype branch = Conn_closed | Stream_closed | Proceed

definition branch_ready :: "branch \<Rightarrow> stream \<Rightarrow> conn \<Rightarrow> bool" where
  "branch_ready b s c =
     (case b of Conn_closed \<Rightarrow> c_closed c | Stream_closed \<Rightarrow> s_closeCh s | Proceed \<Rightarrow> s_phase s = W_free)"

definition stream_write :: "branch \<Rightarrow> bool \<Rightarrow> u32 \<Rightarrow> Frame \<Rightarrow> conn \<Rightarrow> (write_outcome \<times> conn) option" where
  "stream_write b deferred sid frame c =
     do {
       s \<leftarrow> c_objs c sid;
       if \<not> branch_ready b s c then None
       else
         let done = (\<lambda>e c. (Returned e, if deferred then release_id c else c)) in
         (case b of
            Conn_closed \<Rightarrow> Some (done (Some ErrClosed) c)
          | Stream_closed \<Rightarrow> Some (done (Some errStreamClosed) c)
          | Proceed \<Rightarrow>
              if s_sawEOS s then Some (done (Some errStreamClosed) c)
              else if Frame_Type frame = FrameHeaders then
                Some (Pending, write_queue frame (no_writer\<lparr>wr_last := True, wr_deferred := deferred\<rparr>) s c)
              else
                (case frame of
                   DataFrame _ rd n p e \<Rightarrow>
                     write_allocate (s\<lparr>s_writer := \<lparr>wr_frame = Some frame, wr_dataLen = n, wr_padLen = uint p,
                       wr_chunked = False, wr_last = False, wr_deferred = deferred\<rparr>\<rparr>) c
                 | _ \<Rightarrow> Some (done (Some (Errorf (str ''bad flow control frame type '' @ FrameType_String (Frame_Type frame)))) c)))
     }"

text \<open>The receives of \<open>allocateBytes\<close>, ready when the channel holds credit, and its two ways out.\<close>

definition write_stream_credit :: "u32 \<Rightarrow> conn \<Rightarrow> (write_outcome \<times> conn) option" where
  "write_stream_credit sid c =
     do {
       s \<leftarrow> c_objs c sid;
       case s_phase s of
         W_stream n \<Rightarrow> do {
           f \<leftarrow> s_sendFlow s;
           (sw, f) \<leftarrow> allocate_take f;
           Some (Pending, put_stream (s\<lparr>s_sendFlow := Some f, s_phase := W_conn n sw\<rparr>) (c\<lparr>c_sendFlow := allocate_offer 0 (c_sendFlow c)\<rparr>))
         }
       | _ \<Rightarrow> None
     }"

definition write_conn_credit :: "u32 \<Rightarrow> conn \<Rightarrow> (write_outcome \<times> conn) option" where
  "write_conn_credit sid c =
     do {
       s \<leftarrow> c_objs c sid;
       case s_phase s of
         W_conn n sw \<Rightarrow> do {
           (cw, cf) \<leftarrow> allocate_take (c_sendFlow c);
           f \<leftarrow> s_sendFlow s;
           case allocate_finish (s_id s) n sw cw cf f of
             (k, cf, f) \<Rightarrow> write_allowed k (s\<lparr>s_sendFlow := Some f\<rparr>) (c\<lparr>c_sendFlow := cf\<rparr>)
         }
       | _ \<Rightarrow> None
     }"

definition write_abort :: "branch \<Rightarrow> u32 \<Rightarrow> conn \<Rightarrow> (write_outcome \<times> conn) option" where
  "write_abort b sid c =
     do {
       s \<leftarrow> c_objs c sid;
       if b = Proceed \<or> \<not> branch_ready b s c then None
       else
         let e = (if b = Conn_closed then ErrClosed else errStreamClosed) in
         (case s_phase s of
            W_stream n \<Rightarrow> Some (write_return (Some e) s c)
          | W_conn n sw \<Rightarrow>
              Some (write_return (Some e) s (if b = Stream_closed then c\<lparr>c_sendFlow := remote_cancel (c_sendFlow c)\<rparr> else c))
          | _ \<Rightarrow> None)
     }"

text \<open>The writer goes on with the result it received from \<open>werr\<close>.\<close>

definition write_resume :: "u32 \<Rightarrow> conn \<Rightarrow> (write_outcome \<times> conn) option" where
  "write_resume sid c =
     do {
       s \<leftarrow> c_objs c sid;
       case s_phase s of
         W_done e \<Rightarrow> if wr_last (s_writer s) \<or> e \<noteq> None then Some (write_return e s c) else write_allocate s c
       | _ \<Rightarrow> None
     }"

section \<open>Writing frames\<close>

definition write_Settings :: "bool \<Rightarrow> Settings \<Rightarrow> conn \<Rightarrow> write_outcome \<times> conn" where
  "write_Settings ack settings c =
     (if ack then (Returned (Some (Errorf (str ''not allowed to send ACK settings frame''))), c)
      else if length (c_settingsCh c) < 4 then
        (Returned None, add_frame (Q_frame (SettingsFrame ack settings)) True (c\<lparr>c_settingsCh := c_settingsCh c @ [settings]\<rparr>))
      else (Returned (Some (Errorf (str ''settings pool overflow''))), c))"

text \<open>The error of a case that goes on to \<open>handleErr\<close> before it is returned.\<close>

definition fail_write :: "h2error \<Rightarrow> conn \<Rightarrow> (write_outcome \<times> conn) option" where
  "fail_write e c = do { c \<leftarrow> handleErr (Some e) c; Some (Returned (Some e), c) }"

definition no_such_stream :: "u32 \<Rightarrow> h2error" where
  "no_such_stream sid = Errorf (str ''stream '' @ dec_string (unat sid) @ str '' does not exist'')"

definition write_Data :: "branch \<Rightarrow> Frame \<Rightarrow> conn \<Rightarrow> (write_outcome \<times> conn) option" where
  "write_Data b frame c =
     (let sid = Frame_Stream frame in
      case Conn_stream c sid of
        None \<Rightarrow> Some (Returned (Some (no_such_stream sid)), c)
      | Some _ \<Rightarrow> do {
          ((_, e), c) \<leftarrow> stream_transition sid False FrameData False c;
          case e of None \<Rightarrow> stream_write b False sid frame c | Some e \<Rightarrow> fail_write e c
        })"

text \<open>The deferred release of the identifier runs when the call returns.\<close>

definition deferred_release :: "(write_outcome \<times> conn) option \<Rightarrow> (write_outcome \<times> conn) option" where
  "deferred_release r = map_option (\<lambda>(out, c). (out, release_id c)) r"

definition write_Headers :: "branch \<Rightarrow> Frame \<Rightarrow> conn \<Rightarrow> (write_outcome \<times> conn) option" where
  "write_Headers b frame c =
     (let sid = Frame_Stream frame;
          go = (\<lambda>fresh c. do {
            ((_, e), c) \<leftarrow> stream_transition sid False FrameHeaders False c;
            case e of
              None \<Rightarrow> stream_write b fresh sid frame c
            | Some e \<Rightarrow> (if fresh then deferred_release (fail_write e c) else fail_write e c)
          })
      in case Conn_stream c sid of
           Some _ \<Rightarrow> go False c
         | None \<Rightarrow>
             (case idleStream True sid c of
                (Some e, c) \<Rightarrow> deferred_release (fail_write e c)
              | (None, c) \<Rightarrow> go True c))"

definition write_PushPromise :: "u32 \<Rightarrow> u32 \<Rightarrow> Header \<Rightarrow> u8 \<Rightarrow> conn \<Rightarrow> (write_outcome \<times> conn) option" where
  "write_PushPromise sid promised h pad c =
     (if cs_goAway (c_local c) \<noteq> None then
        fail_write (conn_error ''sending PUSH_PROMISE after GO_AWAY received'' ErrCodeProtocol) c
      else
        (case Conn_stream c sid of
           None \<Rightarrow> fail_write (ConnError (no_such_stream sid) ErrCodeProtocol) c
         | Some s \<Rightarrow>
             if \<not> writable (s_state s) then
               fail_write (ConnError (Errorf (str ''stream '' @ dec_string (unat sid) @ str '' is not active'')) ErrCodeProtocol) c
             else if \<not> Settings_PushEnabled (Conn_RemoteSettings c) then
               fail_write (conn_error ''server push not allowed'' ErrCodeProtocol) c
             else
               deferred_release
                 (case idleStream True promised c of
                    (Some e, c) \<Rightarrow> fail_write e c
                  | (None, c) \<Rightarrow> do {
                      ((_, e), c) \<leftarrow> stream_transition promised False FramePushPromise False c;
                      case e of
                        None \<Rightarrow> Some (Returned None, add_frame (Q_frame (PushPromiseFrame sid promised h pad)) False c)
                      | Some e \<Rightarrow> fail_write e c
                    })))"

text \<open>The error of \<open>recvFlow.incrementWindow\<close> goes to \<open>handleErr\<close>; a stream without the controller panics.\<close>

definition write_WindowUpdate :: "u32 \<Rightarrow> u32 \<Rightarrow> conn \<Rightarrow> (write_outcome \<times> conn) option" where
  "write_WindowUpdate sid n c =
     (let finish = (\<lambda>e c. case e of None \<Rightarrow> Some (Returned None, c) | Some e \<Rightarrow> fail_write e c) in
      if sid = 0 then
        (case flow_incrementWindow 0 (c_recvFlow c) (uint n) of
           (e, f, fs) \<Rightarrow> finish e (add_frames fs (c\<lparr>c_recvFlow := f\<rparr>)))
      else
        (case Conn_stream c sid of
           None \<Rightarrow> Some (Returned None, c)
         | Some s \<Rightarrow> do {
             f \<leftarrow> s_recvFlow s;
             case flow_incrementWindow (s_id s) f (uint n) of
               (e, f, fs) \<Rightarrow> finish e (add_frames fs (put_stream (s\<lparr>s_recvFlow := Some f\<rparr>) c))
           }))"

text \<open>
  \<open>writeFrame\<close> switches on the type code of the frame, so an \<open>UnknownFrame\<close> with the code of a
  known type fails in the type assertion of that case, except for DATA, HEADERS and RST_STREAM, which have none.
\<close>

definition returned :: "h2error option \<times> conn \<Rightarrow> write_outcome \<times> conn" where
  "returned r = (Returned (fst r), snd r)"

definition writeFrame :: "branch \<Rightarrow> Frame \<Rightarrow> conn \<Rightarrow> (write_outcome \<times> conn) option" where
  "writeFrame b frame c =
     (let t = Frame_Type frame in
      if t = FrameData then write_Data b frame c
      else if t = FrameHeaders then write_Headers b frame c
      else if t = FramePriority then Some (Returned None, c)
      else if t = FrameRSTStream then map_option returned (write_RSTStream frame c)
      else if t = FrameSettings then
        (case frame of SettingsFrame ack s \<Rightarrow> Some (write_Settings ack s c) | _ \<Rightarrow> None)
      else if t = FramePushPromise then
        (case frame of PushPromiseFrame sid promised h pad \<Rightarrow> write_PushPromise sid promised h pad c | _ \<Rightarrow> None)
      else if t = FramePing then
        (case frame of
           PingFrame ack data \<Rightarrow>
             Some (if ack then (Returned (Some (Errorf (str ''not allowed to send ACK ping frame''))), c)
                   else (Returned None, add_frame (Q_frame frame) True c))
         | _ \<Rightarrow> None)
      else if t = FrameGoAway then
        (case frame of GoAwayFrame lastID code debug \<Rightarrow> map_option returned (write_GoAway lastID code debug c) | _ \<Rightarrow> None)
      else if t = FrameWindowUpdate then
        (case frame of WindowUpdateFrame sid n \<Rightarrow> write_WindowUpdate sid n c | _ \<Rightarrow> None)
      else Some (Returned None, add_frame (Q_frame frame) False c))"

end
