(* ===== verification/H2_ConnLoop.thy ===== *)
theory H2_ConnLoop
  imports H2_ConnOps
begin

text \<open>
  Closing a connection, its write loop and its reader: \<open>CloseTimeout\<close>, \<open>close\<close>, \<open>writeLoop\<close>,
  \<open>readFrame\<close> and \<open>data\<close> of \<^verbatim>\<open>src/conn.go\<close> and \<open>writeTo\<close> of \<^verbatim>\<open>src/stream.go\<close>.

  An iteration of the write loop is one step.  What \<open>Flush\<close> of the buffered writer returns is an
  argument of the step.
\<close>

section \<open>Closing\<close>

definition conn_close :: "conn \<Rightarrow> (h2error option \<times> conn) option" where
  "conn_close c =
     (if c_closed c then Some (Some ErrClosed, c)
      else
        let c = c\<lparr>c_closed := True\<rparr> in
        do {
          c \<leftarrow> (if Conn_NumActiveStreams c > 0 then close_streams (c_streams c) c else Some c);
          Some (c_rwcErr c, c)
        })"

text \<open>
  \<open>CloseTimeout\<close> returns or waits for \<open>closeCh\<close>; while it waits, either the channel closes or, for
  the call that began the closing, the timer fires.
\<close>

datatype close_outcome = Close_returned "h2error option" | Close_waits bool

definition CloseTimeout :: "int \<Rightarrow> conn \<Rightarrow> (close_outcome \<times> conn) option" where
  "CloseTimeout timeout c =
     (if \<not> c_closing c then
        let c = c\<lparr>c_closing := True\<rparr> in
        if \<not> c_handshake c then map_option (map_prod Close_returned id) (conn_close c)
        else do {
          (_, c) \<leftarrow> writeFrame Proceed (GoAwayFrame (Conn_LastStreamID c) ErrCodeNo []) c;
          let c = Conn_Flush c in
          if timeout \<le> 0 then map_option (map_prod Close_returned id) (conn_close c)
          else Some (Close_waits True, c)
        }
      else Some (Close_waits False, c))"

definition CloseTimeout_closed :: "bool \<Rightarrow> conn \<Rightarrow> h2error option option" where
  "CloseTimeout_closed first c = (if c_closed c then Some (if first then None else Some ErrClosed) else None)"

definition CloseTimeout_expired :: "conn \<Rightarrow> (h2error option \<times> conn) option" where
  "CloseTimeout_expired c =
     do {
       (e, c) \<leftarrow> conn_close c;
       Some (Some (Errorf (str ''http2: close timeout; '' @ (case e of None \<Rightarrow> str ''<nil>'' | Some e \<Rightarrow> h2error_Error e))), c)
     }"

section \<open>The write loop\<close>

text \<open>
  \<open>writeTo\<close> of a stream.  The send on \<open>werr\<close> needs a writer that receives; without one the write
  loop stays at the send.
\<close>

datatype sent = Blocked | Sent "h2error option"

definition stream_writeTo :: "unicode \<Rightarrow> gostring list \<Rightarrow> u32 \<Rightarrow> conn \<Rightarrow> (sent \<times> conn) option" where
  "stream_writeTo U ord sid c =
     do {
       s \<leftarrow> c_objs c sid;
       f \<leftarrow> s_frame s;
       (e, w) \<leftarrow> frameWriter_WriteFrame U ord (c_writer c) f;
       let s = s\<lparr>s_lastWritten := Frame_Type f, s_sawEOS := Frame_EndOfStream f\<rparr>;
           c = put_stream s (c\<lparr>c_writer := w\<rparr>)
       in if s_phase s \<noteq> W_result then Some (Blocked, c)
          else
            let c = put_stream (stream_cancel e s) c in
            if s_sawEOS s \<and> e = None then do {
              ((_, e), c) \<leftarrow> stream_transition sid False (s_lastWritten s) True c;
              Some (Sent e, c)
            } else Some (Sent e, c)
     }"

datatype loop_outcome = Waits | Continues | Ends | Stuck

text \<open>The test that ends the loop once the connection is going away and nothing is left to send.\<close>

definition queue_refill :: "conn \<Rightarrow> bool \<times> conn" where
  "queue_refill c = (case queue_set (c_queue c) of (again, q) \<Rightarrow> (again, c\<lparr>c_queue := q\<rparr>))"

definition loop_finished :: "conn \<Rightarrow> bool \<times> conn" where
  "loop_finished c =
     (if goingAway c \<and> Conn_NumActiveStreams c = 0 then case queue_refill c of (again, c) \<Rightarrow> (\<not> again, c) else (False, c))"

definition loop_handle :: "h2error option \<Rightarrow> conn \<Rightarrow> (loop_outcome \<times> conn) option" where
  "loop_handle e c = do { c \<leftarrow> handleErr e c; Some (Continues, c) }"

definition loop_end :: "conn \<Rightarrow> (loop_outcome \<times> conn) option" where
  "loop_end c = do { (_, c) \<leftarrow> conn_close c; Some (Ends, c) }"

text \<open>The iteration from \<open>WriteFrame\<close> on, with the result of writing the frame.\<close>

definition loop_written :: "bool \<Rightarrow> h2error option \<Rightarrow> bool \<Rightarrow> h2error option \<Rightarrow> conn \<Rightarrow> (loop_outcome \<times> conn) option" where
  "loop_written flush flushErr settingsSyn e c =
     (let e = (if flush \<and> e = None then flushErr else e) in
      case (if flush then loop_finished c else (False, c)) of
        (finished, c) \<Rightarrow>
          if finished then loop_end c
          else if e \<noteq> None then loop_handle e (if settingsSyn then c\<lparr>c_settingsCh := tl (c_settingsCh c)\<rparr> else c)
          else Some (Continues, c))"

text \<open>The type assertion on a frame with the code of SETTINGS fails for an \<open>UnknownFrame\<close>.\<close>

definition loop_frame ::
  "unicode \<Rightarrow> gostring list \<Rightarrow> bool \<Rightarrow> h2error option \<Rightarrow> Frame \<Rightarrow> conn \<Rightarrow> (loop_outcome \<times> conn) option" where
  "loop_frame U ord flush flushErr f c =
     (case f of
        SettingsFrame True settings \<Rightarrow> do {
          (e, c) \<leftarrow> applySettings False settings c;
          case e of
            Some e \<Rightarrow> loop_handle (Some e) c
          | None \<Rightarrow> do {
              (e, w) \<leftarrow> frameWriter_WriteFrame U ord (c_writer c) (SettingsFrame True []);
              loop_written flush flushErr False e (c\<lparr>c_writer := w\<rparr>)
            }
        }
      | SettingsFrame False settings \<Rightarrow> do {
          (e, w) \<leftarrow> frameWriter_WriteFrame U ord (c_writer c) f;
          loop_written flush flushErr True e (c\<lparr>c_writer := w\<rparr>)
        }
      | _ \<Rightarrow>
          if Frame_Type f = FrameSettings then None
          else do {
            (e, w) \<leftarrow> frameWriter_WriteFrame U ord (c_writer c) f;
            loop_written flush flushErr False e (c\<lparr>c_writer := w\<rparr>)
          })"

definition loop_nil :: "bool \<Rightarrow> h2error option \<Rightarrow> conn \<Rightarrow> (loop_outcome \<times> conn) option" where
  "loop_nil flush flushErr c =
     (case (if flush then loop_finished c else (False, c)) of
        (finished, c) \<Rightarrow> if finished then loop_end c else if flushErr \<noteq> None then loop_handle flushErr c else Some (Continues, c))"

definition writeLoop_step :: "unicode \<Rightarrow> gostring list \<Rightarrow> h2error option \<Rightarrow> conn \<Rightarrow> (loop_outcome \<times> conn) option" where
  "writeLoop_step U ord flushErr c =
     (case queue_get (c_queue c) of
        None \<Rightarrow> Some (if c_closed c then Ends else Waits, c)
      | Some (item, q) \<Rightarrow>
          (case queue_refill (c\<lparr>c_queue := q\<rparr>) of
             (again, c) \<Rightarrow>
               (case item of
                  Q_nil \<Rightarrow> loop_nil (\<not> again) flushErr c
                | Q_frame f \<Rightarrow> loop_frame U ord (\<not> again) flushErr f c
                | Q_stream sid \<Rightarrow> do {
                    (r, c) \<leftarrow> stream_writeTo U ord sid c;
                    case r of Blocked \<Rightarrow> Some (Stuck, c) | Sent e \<Rightarrow> loop_written (\<not> again) flushErr False e c
                  })))"

section \<open>Reading frames\<close>

definition data_returnBytes :: "conn \<Rightarrow> (h2error option \<times> conn) option" where
  "data_returnBytes c =
     (let d = c_data c in
      if d_sawEOF d then Some (d_error d, c)
      else
        let d = d\<lparr>d_sawEOF := True, d_processed := d_processed d + uint (snd (r_payload (c_reader c)))\<rparr> in
        do {
          s \<leftarrow> c_objs c (d_stream d);
          (e, c) \<leftarrow> stream_return (d_processed d) s c;
          (e, c) \<leftarrow> (if e = None \<and> d_endStream d
                     then do { ((_, e), c) \<leftarrow> stream_transition (d_stream d) True FrameData True c; Some (e, c) }
                     else Some (e, c));
          Some (e, c\<lparr>c_data := d\<lparr>d_error := e\<rparr>\<rparr>)
        })"

definition data_Read :: "nat \<Rightarrow> conn \<Rightarrow> ((bytes \<times> h2error option) \<times> conn) option" where
  "data_Read len c =
     (case framePayload_Read len (c_reader c) of
        (bs, e, r) \<Rightarrow>
          let c = c\<lparr>c_reader := r, c_data := (c_data c)\<lparr>d_processed := d_processed (c_data c) + int (length bs)\<rparr>\<rparr> in
          if e = Some EOF then do { (_, c) \<leftarrow> data_returnBytes c; Some ((bs, e), c) }
          else Some ((bs, e), c))"

text \<open>DATA that no stream takes is counted on the connection's window and given back at once.\<close>

definition discard_data :: "int \<Rightarrow> conn \<Rightarrow> h2error option \<times> conn" where
  "discard_data n c =
     (if n > 0 then
        (case conn_consumeBytes (c_recvFlow c) n of
           (Some e, f) \<Rightarrow> (Some e, c\<lparr>c_recvFlow := f\<rparr>)
         | (None, f) \<Rightarrow> (case conn_returnBytes f n of (e, f, fs) \<Rightarrow> (e, add_frames fs (c\<lparr>c_recvFlow := f\<rparr>))))
      else (None, c))"

definition stream_consume :: "int \<Rightarrow> stream \<Rightarrow> conn \<Rightarrow> (h2error option \<times> conn) option" where
  "stream_consume n s c =
     do {
       f \<leftarrow> s_recvFlow s;
       case stream_consumeBytes (s_id s) (c_recvFlow c) f n of
         (e, cc, f) \<Rightarrow> Some (e, put_stream (s\<lparr>s_recvFlow := Some f\<rparr>) (c\<lparr>c_recvFlow := cc\<rparr>))
     }"

fun is_ConnError :: "h2error \<Rightarrow> bool" where
  "is_ConnError (ConnError _ _) = True"
| "is_ConnError _ = False"

text \<open>The error that stands after a connection error of the flow control replaced it.\<close>

definition prefer_conn :: "h2error \<Rightarrow> h2error option \<Rightarrow> h2error" where
  "prefer_conn e r = (case r of Some ce \<Rightarrow> if is_ConnError ce then ce else e | None \<Rightarrow> e)"

text \<open>A pass of \<open>readFrame\<close> ends at the label \<open>exit\<close> with a frame and an error, or goes back to \<open>again\<close>.\<close>

datatype read_next = Again | Exit "Frame option" "h2error option"

definition exit_with :: "Frame \<Rightarrow> h2error option \<times> conn \<Rightarrow> read_next \<times> conn" where
  "exit_with f r = (Exit (Some f) (fst r), snd r)"

definition return_refused :: "h2error \<Rightarrow> int \<Rightarrow> u32 \<Rightarrow> conn \<Rightarrow> (h2error \<times> conn) option" where
  "return_refused e n sid c =
     do {
       s \<leftarrow> c_objs c sid;
       (r, c) \<leftarrow> stream_return n s c;
       Some (prefer_conn e r, c)
     }"

definition read_Data :: "u32 \<Rightarrow> bool \<Rightarrow> int \<Rightarrow> Frame \<Rightarrow> conn \<Rightarrow> (read_next \<times> conn) option" where
  "read_Data sid endStream dataLen f c =
     (case Conn_stream c sid of
        None \<Rightarrow>
          (case discard_data dataLen c of
             (Some e, c) \<Rightarrow> Some (Exit (Some f) (Some e), c)
           | (None, c) \<Rightarrow> Some (Again, c))
      | Some _ \<Rightarrow> do {
          ((_, e), c) \<leftarrow> stream_transition sid True FrameData False c;
          case e of
            Some e \<Rightarrow>
              if is_ConnError e then Some (Exit (Some f) (Some e), c)
              else do {
                s \<leftarrow> c_objs c sid;
                (r, c) \<leftarrow> stream_consume dataLen s c;
                if prefer_conn e r \<noteq> e then Some (Exit (Some f) (Some (prefer_conn e r)), c)
                else do { (e, c) \<leftarrow> return_refused e dataLen sid c; Some (Exit (Some f) (Some e), c) }
              }
          | None \<Rightarrow> do {
              s \<leftarrow> c_objs c sid;
              (r, c) \<leftarrow> stream_consume dataLen s c;
              case r of
                Some e \<Rightarrow>
                  if is_ConnError e then Some (Exit (Some f) (Some e), c)
                  else do { (e, c) \<leftarrow> return_refused e dataLen sid c; Some (Exit (Some f) (Some e), c) }
              | None \<Rightarrow>
                  Some (Exit (Some f) None,
                    c\<lparr>c_data := \<lparr>d_stream = sid, d_processed = 0, d_endStream = endStream, d_sawEOF = False, d_error = None\<rparr>,
                      c_lastData := True\<rparr>)
            }
        })"

definition read_Headers :: "u32 \<Rightarrow> bool \<Rightarrow> Frame \<Rightarrow> conn \<Rightarrow> (read_next \<times> conn) option" where
  "read_Headers sid endStream f c =
     (case (if Conn_stream c sid = None then idleStream False sid c else (None, c)) of
        (Some e, c) \<Rightarrow> Some (Exit (Some f) (Some e), c)
      | (None, c) \<Rightarrow> do {
          ((_, e), c) \<leftarrow> stream_transition sid True FrameHeaders endStream c;
          Some (Exit (Some f) e, c)
        })"

definition read_RSTStream :: "u32 \<Rightarrow> Frame \<Rightarrow> conn \<Rightarrow> (read_next \<times> conn) option" where
  "read_RSTStream sid f c =
     (case Conn_stream c sid of
        None \<Rightarrow> Some (Again, c)
      | Some _ \<Rightarrow> do {
          ((_, e), c) \<leftarrow> stream_transition sid True FrameRSTStream False c;
          Some (if e = None then Exit (Some f) None else Again, c)
        })"

definition read_Settings :: "bool \<Rightarrow> Settings \<Rightarrow> conn \<Rightarrow> (h2error option \<times> conn) option" where
  "read_Settings ack settings c =
     (if ack then
        (case c_settingsCh c of
           [] \<Rightarrow> Some (None, c)
         | s # ss \<Rightarrow> applySettings True s (c\<lparr>c_settingsCh := ss\<rparr>))
      else if Settings_value settings SettingEnablePush = Some 1 \<and> \<not> Conn_ServerConn c then
        Some (Some (conn_error ''client received SETTINGS frame with ENABLE_PUSH specified for remote server'' ErrCodeProtocol), c)
      else Some (None, add_frame (Q_frame (SettingsFrame True settings)) True c))"

definition read_PushPromise :: "u32 \<Rightarrow> u32 \<Rightarrow> conn \<Rightarrow> (h2error option \<times> conn) option" where
  "read_PushPromise sid promised c =
     (case Conn_stream c sid of
        None \<Rightarrow> Some (Some (ConnError (no_such_stream sid) ErrCodeProtocol), c)
      | Some s \<Rightarrow>
          if \<not> readable (s_state s) then
            Some (Some (ConnError (Errorf (str ''stream '' @ dec_string (unat sid) @ str '' is not active'')) ErrCodeProtocol), c)
          else if \<not> Settings_PushEnabled (Conn_Settings c) then
            Some (Some (conn_error ''server push not allowed'' ErrCodeProtocol), c)
          else
            (case idleStream True promised c of
               (Some e, c) \<Rightarrow> Some (Some e, c)
             | (None, c) \<Rightarrow> do {
                 ((_, e), c) \<leftarrow> stream_transition promised True FramePushPromise False c;
                 Some (e, c)
               }))"

definition read_GoAway :: "u32 \<Rightarrow> ErrCode \<Rightarrow> bytes \<Rightarrow> conn \<Rightarrow> (h2error option \<times> conn) option" where
  "read_GoAway lastID code debug c =
     (let c = c\<lparr>c_local := (c_local c)\<lparr>cs_goAway := Some (lastID, code, debug)\<rparr>\<rparr>;
          victims = filter (\<lambda>sid. sid > lastID \<and> connState_validStreamID (c_local c) sid) (c_streams c)
      in do { c \<leftarrow> close_streams victims c; Some (None, Conn_Flush c) })"

text \<open>A WINDOW_UPDATE for a stream whose \<open>sendFlow\<close> is nil panics.\<close>

definition read_WindowUpdate :: "u32 \<Rightarrow> u32 \<Rightarrow> conn \<Rightarrow> (h2error option \<times> conn) option" where
  "read_WindowUpdate sid n c =
     (if sid = 0 then
        (case remote_incrementWindow 0 (c_sendFlow c) (uint n) of (e, f) \<Rightarrow> Some (e, c\<lparr>c_sendFlow := f\<rparr>))
      else
        (case Conn_stream c sid of
           None \<Rightarrow> Some (None, c)
         | Some s \<Rightarrow> do {
             f \<leftarrow> s_sendFlow s;
             case remote_incrementWindow (s_id s) f (uint n) of
               (e, f) \<Rightarrow> Some (e, put_stream (s\<lparr>s_sendFlow := Some f\<rparr>) c)
           }))"

text \<open>The type switch of \<open>readFrame\<close>.\<close>

definition read_frame :: "Frame \<Rightarrow> conn \<Rightarrow> (read_next \<times> conn) option" where
  "read_frame f c =
     (case f of
        DataFrame sid _ n p e \<Rightarrow> read_Data sid e (n + uint p) f c
      | HeadersFrame sid _ _ _ e \<Rightarrow> read_Headers sid e f c
      | PriorityFrame _ _ \<Rightarrow> Some (Exit (Some f) None, c)
      | RSTStreamFrame sid _ \<Rightarrow> read_RSTStream sid f c
      | SettingsFrame ack s \<Rightarrow> map_option (exit_with f) (read_Settings ack s c)
      | PushPromiseFrame sid promised _ _ \<Rightarrow> map_option (exit_with f) (read_PushPromise sid promised c)
      | PingFrame ack d \<Rightarrow>
          Some (Exit (Some f) None, if ack then c else add_frame (Q_frame (PingFrame True d)) True c)
      | GoAwayFrame lastID code debug \<Rightarrow> map_option (exit_with f) (read_GoAway lastID code debug c)
      | WindowUpdateFrame sid n \<Rightarrow> map_option (exit_with f) (read_WindowUpdate sid n c)
      | UnknownFrame _ _ _ _ _ \<Rightarrow> Some (Exit (Some f) None, c))"

text \<open>Frames of the peer's streams above the last identifier of a GOAWAY that was sent are dropped.\<close>

definition after_GoAway :: "Frame \<Rightarrow> conn \<Rightarrow> bool" where
  "after_GoAway f c =
     (case cs_goAway (c_remote c) of
        Some (lastID, _, _) \<Rightarrow> connState_validStreamID (c_remote c) (Frame_Stream f) \<and> Frame_Stream f > lastID
      | None \<Rightarrow> False)"

definition drop_frame :: "Frame \<Rightarrow> conn \<Rightarrow> read_next \<times> conn" where
  "drop_frame f c =
     (case f of
        DataFrame _ _ n p _ \<Rightarrow>
          (case discard_data (n + uint p) c of
             (Some e, c) \<Rightarrow> (Exit (Some f) (Some e), c)
           | (None, c) \<Rightarrow> (Again, c))
      | _ \<Rightarrow> (Again, c))"

definition conn_pass :: "conn \<Rightarrow> (read_next \<times> conn) option" where
  "conn_pass c =
     do {
       (res, r) \<leftarrow> frameReader_ReadFrame (c_reader c);
       let c = c\<lparr>c_reader := r\<rparr> in
       (case res of
          Inl e \<Rightarrow> Some (Exit None (Some e), c)
        | Inr f \<Rightarrow> if after_GoAway f c then Some (drop_frame f c) else read_frame f c)
     }"

text \<open>The label \<open>exit\<close>: \<open>None\<close> in the result goes back to \<open>again\<close>.\<close>

definition read_exit :: "Frame option \<Rightarrow> h2error option \<Rightarrow> conn \<Rightarrow> ((Frame option \<times> h2error option) option \<times> conn) option" where
  "read_exit f e c =
     (if e = Some EOF \<and> (goingAway c \<or> Conn_Closed c) then Some (Some (None, Some ErrClosed), c)
      else
        let e = (if e = Some EOF then Some ErrUnexpectedEOF else e) in
        (case e of
           Some (NetError _ temporary) \<Rightarrow>
             if temporary then Some (None, c)
             else do { (e, c) \<leftarrow> conn_close c; Some (Some (None, e), c) }
         | _ \<Rightarrow> do { c \<leftarrow> handleErr e c; Some (Some (f, e), c) }))"

partial_function (option) read_loop :: "conn \<Rightarrow> ((Frame option \<times> h2error option) \<times> conn) option" where
  "read_loop c =
     Option.bind (conn_pass c) (\<lambda>(next, c).
       case next of
         Again \<Rightarrow> read_loop c
       | Exit f e \<Rightarrow>
           Option.bind (read_exit f e c) (\<lambda>(res, c).
             case res of Some r \<Rightarrow> Some (r, c) | None \<Rightarrow> read_loop c))"

definition readFrame :: "conn \<Rightarrow> ((Frame option \<times> h2error option) \<times> conn) option" where
  "readFrame c =
     (if c_lastData c then do {
        (e, c) \<leftarrow> data_returnBytes c;
        let c = c\<lparr>c_lastData := False\<rparr> in
        (case e of
           None \<Rightarrow> read_loop c
         | Some e \<Rightarrow> do {
             (res, c) \<leftarrow> read_exit None (Some e) c;
             case res of Some r \<Rightarrow> Some (r, c) | None \<Rightarrow> read_loop c
           })
      } else read_loop c)"

end
