(* ===== verification/H2_ConnInv.thy ===== *)
theory H2_ConnInv
  imports H2_ConnLoop H2_ReadSafe
begin

text \<open>
  The invariant of a connection and its preservation.

  Most operations leave the shape of a connection as it is: the table, what is known of each
  stream object, and the counters of the two sides.  The invariant is a property of the shape,
  so only the operations that change it need an argument of their own:
  \<open>compareAndSwapState\<close> and \<open>idleStream\<close>.
\<close>

section \<open>The invariant\<close>

definition in_table :: "StreamState \<Rightarrow> bool" where
  "in_table st \<longleftrightarrow> st \<noteq> StateIdle \<and> st \<noteq> StateClosed"

definition stream_ok :: "stream \<Rightarrow> bool" where
  "stream_ok s \<longleftrightarrow> (s_closeCh s \<longleftrightarrow> s_state s = StateClosed)
     \<and> (active (s_state s) \<longrightarrow> s_recvFlow s \<noteq> None)
     \<and> (writable (s_state s) \<longrightarrow> s_sendFlow s \<noteq> None)
     \<and> (\<not> opened (s_state s) \<longrightarrow> s_recvFlow s = None \<and> s_sendFlow s = None)
     \<and> (s_resetSent s \<or> s_resetReceived s \<longrightarrow> s_state s = StateClosed)"

definition active_ids :: "bool \<Rightarrow> conn \<Rightarrow> u32 set" where
  "active_ids loc c = {sid. \<exists>s. c_objs c sid = Some s \<and> active (s_state s) \<and> stream_local c sid = loc}"

text \<open>Identifiers of a side and its last one lie below its next one, which stays clear of the wrap-around.\<close>

definition ids_ok :: "bool \<Rightarrow> conn \<Rightarrow> bool" where
  "ids_ok loc c \<longleftrightarrow> unat (cs_nextStreamID (side loc c)) \<le> 2 ^ 31 + 1 \<and> cs_lastStreamID (side loc c) < cs_nextStreamID (side loc c)
     \<and> (\<forall>sid s. c_objs c sid = Some s \<longrightarrow> stream_local c sid = loc \<longrightarrow> sid < cs_nextStreamID (side loc c))"

definition conn_ok :: "conn \<Rightarrow> bool" where
  "conn_ok c \<longleftrightarrow>
     cs_server (c_remote c) = (\<not> cs_server (c_local c))
     \<and> distinct (c_streams c)
     \<and> (\<forall>sid. sid \<in> set (c_streams c) \<longleftrightarrow> (\<exists>s. c_objs c sid = Some s \<and> in_table (s_state s)))
     \<and> (\<forall>sid s. c_objs c sid = Some s \<longrightarrow> s_id s = sid \<and> sid \<noteq> 0 \<and> stream_ok s)
     \<and> (\<forall>loc. cs_numStreams (side loc c) = of_nat (card (active_ids loc c)) \<and> ids_ok loc c)
     \<and> pending_ok (c_reader c)"

lemma conn_okI:
  assumes "cs_server (c_remote c) = (\<not> cs_server (c_local c))" "distinct (c_streams c)"
    and "\<And>sid. sid \<in> set (c_streams c) \<longleftrightarrow> (\<exists>s. c_objs c sid = Some s \<and> in_table (s_state s))"
    and "\<And>sid s. c_objs c sid = Some s \<Longrightarrow> s_id s = sid \<and> sid \<noteq> 0 \<and> stream_ok s"
    and "\<And>loc. cs_numStreams (side loc c) = of_nat (card (active_ids loc c))" "\<And>loc. ids_ok loc c"
    and "pending_ok (c_reader c)"
  shows "conn_ok c"
  using assms unfolding conn_ok_def by blast

lemma conn_okD:
  assumes "conn_ok c"
  shows "cs_server (c_remote c) = (\<not> cs_server (c_local c))" "distinct (c_streams c)"
    "sid \<in> set (c_streams c) \<longleftrightarrow> (\<exists>s. c_objs c sid = Some s \<and> in_table (s_state s))"
    "c_objs c sid = Some s \<Longrightarrow> s_id s = sid" "c_objs c sid = Some s \<Longrightarrow> sid \<noteq> 0" "c_objs c sid = Some s \<Longrightarrow> stream_ok s"
    "cs_numStreams (side loc c) = of_nat (card (active_ids loc c))" "ids_ok loc c" "pending_ok (c_reader c)"
  using assms unfolding conn_ok_def by blast+

section \<open>Shapes\<close>

definition stream_shape :: "stream \<Rightarrow> u32 \<times> StreamState \<times> bool \<times> bool \<times> bool \<times> bool" where
  "stream_shape s =
     (s_id s, s_state s, s_closeCh s, s_recvFlow s \<noteq> None, s_sendFlow s \<noteq> None,
      s_state s \<noteq> StateClosed \<and> (s_resetSent s \<or> s_resetReceived s))"

definition side_shape :: "connState \<Rightarrow> connState" where
  "side_shape s = s\<lparr>cs_settings := [], cs_cap := 0\<rparr>"

lemma side_shape_eq:
  "side_shape s' = side_shape s \<longleftrightarrow>
     cs_server s' = cs_server s \<and> cs_numStreams s' = cs_numStreams s \<and> cs_nextStreamID s' = cs_nextStreamID s
     \<and> cs_lastStreamID s' = cs_lastStreamID s \<and> cs_goAway s' = cs_goAway s"
  by (cases s; cases s') (auto simp: side_shape_def)

definition same_shape :: "conn \<Rightarrow> conn \<Rightarrow> bool" where
  "same_shape c c' \<longleftrightarrow>
     c_streams c' = c_streams c
     \<and> (\<forall>sid. map_option stream_shape (c_objs c' sid) = map_option stream_shape (c_objs c sid))
     \<and> side_shape (c_local c') = side_shape (c_local c) \<and> side_shape (c_remote c') = side_shape (c_remote c)
     \<and> (pending_ok (c_reader c) \<longrightarrow> pending_ok (c_reader c'))"

lemma same_shape_refl [simp]: "same_shape c c"
  by (simp add: same_shape_def)

lemma same_shape_trans: "same_shape c c' \<Longrightarrow> same_shape c' c'' \<Longrightarrow> same_shape c c''"
  by (simp add: same_shape_def)

lemma same_shape_obj:
  assumes "same_shape c c'" "c_objs c' sid = Some s'"
  obtains s where "c_objs c sid = Some s" "stream_shape s' = stream_shape s"
  using assms unfolding same_shape_def by (metis (no_types, lifting) map_option_eq_Some)

lemma same_shape_obj':
  assumes "same_shape c c'" "c_objs c sid = Some s"
  obtains s' where "c_objs c' sid = Some s'" "stream_shape s' = stream_shape s"
  using assms unfolding same_shape_def by (metis (no_types, lifting) map_option_eq_Some)

lemma same_shape_sides:
  assumes "same_shape c c'"
  shows "side_shape (side loc c') = side_shape (side loc c)" "stream_local c' sid = stream_local c sid"
    "cs_numStreams (side loc c') = cs_numStreams (side loc c)" "cs_nextStreamID (side loc c') = cs_nextStreamID (side loc c)"
    "cs_server (side loc c') = cs_server (side loc c)" "cs_lastStreamID (side loc c') = cs_lastStreamID (side loc c)"
    "cs_goAway (side loc c') = cs_goAway (side loc c)"
  using assms by (auto simp: same_shape_def side_def stream_local_def side_shape_eq)

lemma same_shape_active: "same_shape c c' \<Longrightarrow> active_ids loc c' = active_ids loc c"
  by (auto simp: active_ids_def same_shape_sides stream_shape_def elim: same_shape_obj same_shape_obj')

lemma same_shape_ids: "same_shape c c' \<Longrightarrow> ids_ok loc c \<Longrightarrow> ids_ok loc c'"
  by (auto simp: ids_ok_def same_shape_sides elim: same_shape_obj)

lemma stream_shape_ok: "stream_shape s' = stream_shape s \<Longrightarrow> stream_ok s' = stream_ok s"
proof -
  assume a: "stream_shape s' = stream_shape s"
  have "s_recvFlow s' \<noteq> None \<longleftrightarrow> s_recvFlow s \<noteq> None" "s_sendFlow s' \<noteq> None \<longleftrightarrow> s_sendFlow s \<noteq> None" "s_state s' = s_state s" "s_closeCh s' = s_closeCh s"
    "s_state s \<noteq> StateClosed \<Longrightarrow> (s_resetSent s' \<or> s_resetReceived s') \<longleftrightarrow> (s_resetSent s \<or> s_resetReceived s)"
    using a unfolding stream_shape_def prod.inject by (blast, blast, blast, blast, metis)
  then show ?thesis unfolding stream_ok_def by metis
qed

lemma conn_ok_shape:
  assumes "same_shape c c'" "conn_ok c"
  shows "conn_ok c'"
proof (rule conn_okI)
  note ok = conn_okD [OF assms(2)]
  show "cs_server (c_remote c') = (\<not> cs_server (c_local c'))"
    using ok(1) assms(1) by (auto simp: same_shape_def side_shape_eq)
  show "distinct (c_streams c')" "pending_ok (c_reader c')" using ok assms(1) by (auto simp: same_shape_def)
  fix sid
  show "sid \<in> set (c_streams c') \<longleftrightarrow> (\<exists>s. c_objs c' sid = Some s \<and> in_table (s_state s))"
    using ok(3) [of sid] assms(1)
    by (auto simp: same_shape_def stream_shape_def elim: same_shape_obj [OF assms(1)] same_shape_obj' [OF assms(1)])
  show "s_id s' = sid \<and> sid \<noteq> 0 \<and> stream_ok s'" if obj: "c_objs c' sid = Some s'" for s'
  proof -
    obtain s where s: "c_objs c sid = Some s" "stream_shape s' = stream_shape s" by (rule same_shape_obj [OF assms(1) obj])
    have "s_id s' = s_id s" using s(2) by (simp add: stream_shape_def)
    with s ok(4-6) [OF s(1)] stream_shape_ok [OF s(2)] show ?thesis by simp
  qed
next
  fix loc
  show "cs_numStreams (side loc c') = of_nat (card (active_ids loc c'))" "ids_ok loc c'"
    using conn_okD(7, 8) [OF assms(2)] assms(1) by (simp_all add: same_shape_sides same_shape_active same_shape_ids)
qed

section \<open>Operations that keep the shape\<close>

text \<open>Updates of the fields that the shape does not show.\<close>

lemma same_shape_update [simp]:
  "same_shape c (c'\<lparr>c_writer := w\<rparr>) = same_shape c c'"
  "same_shape c (c'\<lparr>c_lastData := b\<rparr>) = same_shape c c'"
  "same_shape c (c'\<lparr>c_data := d\<rparr>) = same_shape c c'"
  "same_shape c (c'\<lparr>c_queue := q\<rparr>) = same_shape c c'"
  "same_shape c (c'\<lparr>c_recvFlow := f\<rparr>) = same_shape c c'"
  "same_shape c (c'\<lparr>c_sendFlow := g\<rparr>) = same_shape c c'"
  "same_shape c (c'\<lparr>c_closing := b\<rparr>) = same_shape c c'"
  "same_shape c (c'\<lparr>c_handshake := b\<rparr>) = same_shape c c'"
  "same_shape c (c'\<lparr>c_closed := b\<rparr>) = same_shape c c'"
  "same_shape c (c'\<lparr>c_settingsCh := ss\<rparr>) = same_shape c c'"
  "same_shape c (c'\<lparr>c_idCh := b\<rparr>) = same_shape c c'"
  "same_shape c (c'\<lparr>c_idState := b\<rparr>) = same_shape c c'"
  by (simp_all add: same_shape_def)

lemma same_shape_settings [simp]:
  "same_shape c (set_side loc ((side loc c')\<lparr>cs_settings := s\<rparr>) c') = same_shape c c'"
  "same_shape c (set_side loc ((side loc c')\<lparr>cs_settings := s, cs_cap := k\<rparr>) c') = same_shape c c'"
  by (simp_all add: same_shape_def side_shape_eq set_side_def side_def)

lemma same_shape_add_frame [simp]: "same_shape c (add_frame i b c') = same_shape c c'"
  by (simp add: add_frame_def)

lemma same_shape_add_frames [simp]: "same_shape c (add_frames fs c') = same_shape c c'"
  unfolding add_frames_def by (induction fs arbitrary: c') simp_all

lemma same_shape_Flush [simp]: "same_shape c (Conn_Flush c') = same_shape c c'"
  by (simp add: Conn_Flush_def)

lemma same_shape_release [simp]: "same_shape c (release_id c') = same_shape c c'"
  by (simp add: release_id_def)

lemma c_objs_put [simp]: "c_objs (put_stream s c) = (c_objs c)(s_id s := Some s)"
  by (simp add: put_stream_def)

lemma put_stream_sel [simp]:
  "c_streams (put_stream s c) = c_streams c" "c_local (put_stream s c) = c_local c" "c_remote (put_stream s c) = c_remote c"
  "c_reader (put_stream s c) = c_reader c" "c_recvFlow (put_stream s c) = c_recvFlow c" "stream_local (put_stream s c) = stream_local c"
  "side loc (put_stream s c) = side loc c"
  by (simp_all add: put_stream_def stream_local_def side_def fun_eq_iff)

lemma same_shape_put:
  assumes "same_shape c c'" "c_objs c' (s_id s) = Some s0" "stream_shape s = stream_shape s0"
  shows "same_shape c (put_stream s c')"
proof -
  have "map_option stream_shape (c_objs c (s_id s)) = Some (stream_shape s)"
    using assms unfolding same_shape_def by (metis option.simps(9))
  with assms show ?thesis by (auto simp: same_shape_def)
qed

lemma stream_shape_update [simp]:
  "stream_shape (s\<lparr>s_frame := f\<rparr>) = stream_shape s"
  "stream_shape (s\<lparr>s_lastWritten := ty\<rparr>) = stream_shape s"
  "stream_shape (s\<lparr>s_sawEOS := b\<rparr>) = stream_shape s"
  "s_state s = StateClosed \<Longrightarrow> stream_shape (s\<lparr>s_resetSent := b\<rparr>) = stream_shape s"
  "s_state s = StateClosed \<Longrightarrow> stream_shape (s\<lparr>s_resetReceived := b\<rparr>) = stream_shape s"
  "stream_shape (s\<lparr>s_phase := ph\<rparr>) = stream_shape s"
  "stream_shape (s\<lparr>s_writer := wr\<rparr>) = stream_shape s"
  "stream_shape (set_writer ph wr s) = stream_shape s"
  "stream_shape (stream_cancel e s) = stream_shape s"
  "stream_shape (stop_sending s) = stream_shape s"
  "s_recvFlow s \<noteq> None \<Longrightarrow> stream_shape (s\<lparr>s_recvFlow := Some r\<rparr>) = stream_shape s"
  "s_sendFlow s \<noteq> None \<Longrightarrow> stream_shape (s\<lparr>s_sendFlow := Some g\<rparr>) = stream_shape s"
  by (simp_all add: stream_shape_def set_writer_def stream_cancel_def stop_sending_def)

lemma stream_shape_eqD:
  assumes "stream_shape s = stream_shape s'"
  shows "s_id s = s_id s'" "s_state s = s_state s'" "s_closeCh s = s_closeCh s'"
    "(s_recvFlow s = None) = (s_recvFlow s' = None)" "(s_sendFlow s = None) = (s_sendFlow s' = None)"
  using assms by (auto simp: stream_shape_def)

lemma s_id_update [simp]:
  "s_id (set_writer ph wr s) = s_id s" "s_id (stream_cancel e s) = s_id s" "s_id (stop_sending s) = s_id s"
  by (simp_all add: set_writer_def stream_cancel_def stop_sending_def)

lemma stream_return_shape:
  assumes "stream_return n s c = Some (e, c')" "c_objs c (s_id s) = Some s"
  shows "same_shape c c'"
proof -
  from assms(1) obtain f cc f' fs where f: "s_recvFlow s = Some f"
    and c': "c' = add_frames fs (put_stream (s\<lparr>s_recvFlow := Some f'\<rparr>) (c\<lparr>c_recvFlow := cc\<rparr>))"
    by (auto simp: stream_return_def split: option.splits prod.splits)
  show ?thesis unfolding c' using f assms(2) by (auto intro!: same_shape_put)
qed

lemma return_consumed_shape:
  "c_objs c (s_id s) = Some s \<Longrightarrow> same_shape c (return_consumed s c)"
  by (auto simp: return_consumed_def split: option.splits dest: stream_return_shape)

section \<open>A change of one stream\<close>

lemma finite_active_ids [simp]: "finite (active_ids loc c)"
  by (rule finite_subset [OF subset_UNIV]) simp

text \<open>
  A connection that differs from one with the invariant in one stream: the table follows the state
  of the stream, and the counter of its side follows whether it is active.
\<close>

lemma conn_ok_change:
  assumes "conn_ok c" "c_objs c sid = Some s" "stream_ok s'" "s_id s' = sid" "c_objs c' = (c_objs c)(sid := Some s')"
    and "set (c_streams c') = (if in_table (s_state s') then insert sid (set (c_streams c)) else set (c_streams c) - {sid})"
    and "distinct (c_streams c')" "c_reader c' = c_reader c"
    and "\<And>loc. cs_server (side loc c') = cs_server (side loc c) \<and> cs_nextStreamID (side loc c') = cs_nextStreamID (side loc c)
      \<and> cs_lastStreamID (side loc c') = cs_lastStreamID (side loc c)"
    and "\<And>loc. cs_numStreams (side loc c') + (if stream_local c sid = loc \<and> active (s_state s) then 1 else 0) =
      cs_numStreams (side loc c) + (if stream_local c sid = loc \<and> active (s_state s') then 1 else 0)"
  shows "conn_ok c'"
proof (rule conn_okI)
  note ok = conn_okD [OF assms(1)]
  have sl: "stream_local c' x = stream_local c x" for x
    using assms(9) [of True] by (simp add: stream_local_def side_def)
  show "cs_server (c_remote c') = (\<not> cs_server (c_local c'))"
    using ok(1) assms(9) [of True] assms(9) [of False] by (simp add: side_def)
  show "distinct (c_streams c')" "pending_ok (c_reader c')" using assms ok by auto
  show "x \<in> set (c_streams c') \<longleftrightarrow> (\<exists>s. c_objs c' x = Some s \<and> in_table (s_state s))" for x
    using ok(3) [of x] assms(5, 6) by auto
  show "s_id y = x \<and> x \<noteq> 0 \<and> stream_ok y" if "c_objs c' x = Some y" for x y
    using that ok(4-6) assms(2-5) by (auto split: if_splits)
  show "ids_ok loc c'" for loc
    using ok(8) [of loc] assms(2, 5) assms(9) [of loc] by (auto simp: ids_ok_def sl split: if_splits)
  show "cs_numStreams (side loc c') = of_nat (card (active_ids loc c'))" for loc
  proof -
    have a: "active_ids loc c' = (if stream_local c sid = loc \<and> active (s_state s') then insert sid (active_ids loc c)
      else active_ids loc c - {sid})"
      using assms(2, 5) by (auto simp: active_ids_def sl)
    have m: "sid \<in> active_ids loc c \<longleftrightarrow> stream_local c sid = loc \<and> active (s_state s)"
      using assms(2) by (auto simp: active_ids_def)
    have n: "sid \<in> active_ids loc c \<Longrightarrow> of_nat (card (active_ids loc c)) = (of_nat (card (active_ids loc c - {sid})) :: u32) + 1"
      by (metis add.commute card_Suc_Diff1 finite_active_ids of_nat_Suc)
    show ?thesis using assms(10) [of loc] ok(7) [of loc] m n unfolding a
      by (auto simp: insert_absorb split: if_splits)
  qed
qed

section \<open>The life of a stream\<close>

text \<open>The changes of state that the transitions and \<open>close\<close> ask for.\<close>

definition life_step :: "StreamState \<Rightarrow> StreamState \<Rightarrow> bool" where
  "life_step from to \<longleftrightarrow>
     from = to \<or> to = StateClosed
     \<or> (from = StateIdle \<and> to \<noteq> StateIdle)
     \<or> ((from = StateReservedLocal \<or> from = StateReservedRemote) \<and> active to)
     \<or> (from = StateOpen \<and> active to)"

lemma transition_life_step: "StreamState_transition from recv t e = (to, True) \<Longrightarrow> life_step from to"
  by (cases "from") (auto simp: transition_defs life_step_def active_def split: if_splits)

lemma add_numStreams_sel [simp]:
  "c_objs (add_numStreams sid n c) = c_objs c" "c_streams (add_numStreams sid n c) = c_streams c"
  "c_reader (add_numStreams sid n c) = c_reader c" "stream_local (add_numStreams sid n c) = stream_local c"
  "cs_server (side loc (add_numStreams sid n c)) = cs_server (side loc c)"
  "cs_nextStreamID (side loc (add_numStreams sid n c)) = cs_nextStreamID (side loc c)"
  "cs_lastStreamID (side loc (add_numStreams sid n c)) = cs_lastStreamID (side loc c)"
  "cs_numStreams (side loc (add_numStreams sid n c)) = cs_numStreams (side loc c) + (if stream_local c sid = loc then n else 0)"
  by (simp_all add: add_numStreams_def stream_local_def side_def fun_eq_iff)

lemma start_flows_sel [simp]:
  "s_id (start_flows to c s) = s_id s" "s_state (start_flows to c s) = s_state s" "s_closeCh (start_flows to c s) = s_closeCh s"
  "s_resetSent (start_flows to c s) = s_resetSent s" "s_resetReceived (start_flows to c s) = s_resetReceived s"
  "s_recvFlow (start_flows to c s) \<noteq> None" "to \<noteq> StateHalfClosedLocal \<Longrightarrow> s_sendFlow (start_flows to c s) \<noteq> None"
  by (simp_all add: start_flows_def Let_def)

lemma addStream_sel [simp]:
  "c_objs (Conn_addStream sid c) = c_objs c" "c_reader (Conn_addStream sid c) = c_reader c" "side loc (Conn_addStream sid c) = side loc c"
  "set (c_streams (Conn_addStream sid c)) = insert sid (set (c_streams c))"
  "distinct (c_streams c) \<Longrightarrow> distinct (c_streams (Conn_addStream sid c))"
  by (auto simp: Conn_addStream_def side_def)

lemma removeStream_shape: "same_shape (c\<lparr>c_streams := filter (\<lambda>x. x \<noteq> sid) (c_streams c)\<rparr>) (Conn_removeStream sid c)"
  by (simp add: Conn_removeStream_def Let_def)

lemma same_shape_streams: "same_shape c c' \<Longrightarrow> same_shape (c\<lparr>c_streams := xs\<rparr>) (c'\<lparr>c_streams := xs\<rparr>)"
  by (simp add: same_shape_def)

lemma same_shape_remove:
  assumes "same_shape c c'"
  shows "same_shape (c\<lparr>c_streams := filter (\<lambda>x. x \<noteq> sid) (c_streams c)\<rparr>) (Conn_removeStream sid c')"
proof (rule same_shape_trans [OF same_shape_streams [OF assms]])
  have "c_streams c' = c_streams c" using assms by (simp add: same_shape_def)
  with removeStream_shape [of sid c']
  show "same_shape (c'\<lparr>c_streams := filter (\<lambda>x. x \<noteq> sid) (c_streams c)\<rparr>) (Conn_removeStream sid c')" by simp
qed

lemma table_obj: "conn_ok c \<Longrightarrow> c_objs c sid = Some s \<Longrightarrow> sid \<in> set (c_streams c) \<longleftrightarrow> in_table (s_state s)"
  using conn_okD(3) [of c sid] by auto

lemma conn_ok_activate:
  assumes ok: "conn_ok c" and s: "c_objs c sid = Some s" and f: "\<not> active (s_state s)" "s_state s \<noteq> StateClosed" and t: "active to"
  shows "conn_ok (stream_activate (s_state s) to (s\<lparr>s_state := to\<rparr>) (put_stream (s\<lparr>s_state := to\<rparr>) c))"
proof -
  have i: "s_id s = sid" using conn_okD(4) [OF ok s] .
  have so: "stream_ok s" using conn_okD(6) [OF ok s] .
  let ?c = "put_stream (s\<lparr>s_state := to\<rparr>) c"
  let ?s = "start_flows to (add_numStreams sid 1 ?c) (s\<lparr>s_state := to\<rparr>)"
  have so': "stream_ok ?s"
    using so f t by (cases to) (auto simp: stream_ok_def active_def writable_def opened_def)
  have tb: "s_state s \<noteq> StateIdle \<Longrightarrow> sid \<in> set (c_streams c)" using table_obj [OF ok s] f(2) by (simp add: in_table_def)
  have it: "in_table to" using t by (auto simp: active_def in_table_def)
  show ?thesis
    by (rule conn_ok_change [OF ok s so'])
       (use i f t tb it conn_okD(2) [OF ok] in \<open>auto simp: stream_activate_def Let_def\<close>)
qed

lemma conn_ok_shut:
  assumes ok: "conn_ok c" and s: "c_objs c sid = Some s" and f: "s_state s \<noteq> StateClosed"
  shows "conn_ok (stream_shut (s_state s) (s\<lparr>s_state := StateClosed\<rparr>) (put_stream (s\<lparr>s_state := StateClosed\<rparr>) c))"
proof -
  have i: "s_id s = sid" using conn_okD(4) [OF ok s] .
  let ?s0 = "s\<lparr>s_state := StateClosed\<rparr>"
  define c1 where "c1 = (if active (s_state s) then add_numStreams sid (- 1) (put_stream ?s0 c) else put_stream ?s0 c)"
  define s1 where "s1 = stop_sending (stream_cancel (Some errStreamClosed) (?s0\<lparr>s_closeCh := True\<rparr>))"
  have s1: "s_id s1 = sid" "s_state s1 = StateClosed" "stream_ok s1"
    using i by (simp_all add: s1_def stop_sending_def stream_cancel_def stream_ok_def active_def writable_def opened_def)
  let ?c2 = "(put_stream s1 c1)\<lparr>c_streams := filter (\<lambda>x. x \<noteq> sid) (c_streams (put_stream s1 c1))\<rparr>"
  have eq: "stream_shut (s_state s) ?s0 (put_stream ?s0 c) = Conn_removeStream sid (return_consumed s1 (put_stream s1 c1))"
    using f i s1(1) by (simp add: stream_shut_def c1_def s1_def Let_def)
  have "conn_ok ?c2"
  proof (rule conn_ok_change [OF ok s s1(3) s1(1)])
    show "cs_numStreams (side loc ?c2) + (if stream_local c sid = loc \<and> active (s_state s) then 1 else 0) =
        cs_numStreams (side loc c) + (if stream_local c sid = loc \<and> active (s_state s1) then 1 else 0)" for loc
      using s1 by (simp add: c1_def side_def active_def add_numStreams_def)
    show "cs_server (side loc ?c2) = cs_server (side loc c) \<and> cs_nextStreamID (side loc ?c2) = cs_nextStreamID (side loc c)
      \<and> cs_lastStreamID (side loc ?c2) = cs_lastStreamID (side loc c)" for loc
      by (simp add: c1_def side_def add_numStreams_def)
  qed (use s1 i f conn_okD(2) [OF ok] in \<open>auto simp: c1_def in_table_def put_stream_def add_numStreams_def\<close>)
  moreover have "same_shape ?c2 (stream_shut (s_state s) ?s0 (put_stream ?s0 c))"
    unfolding eq by (intro same_shape_remove return_consumed_shape) (simp add: s1)
  ultimately show ?thesis by (rule conn_ok_shape [rotated])
qed

text \<open>What a change of one stream leaves as it is: the other streams, and the sides but for their counters.\<close>

definition side_rest :: "connState \<Rightarrow> connState" where
  "side_rest s = s\<lparr>cs_numStreams := 0\<rparr>"

definition touches :: "u32 set \<Rightarrow> conn \<Rightarrow> conn \<Rightarrow> bool" where
  "touches S c c' \<longleftrightarrow>
     (\<forall>loc. side_rest (side loc c') = side_rest (side loc c))
     \<and> (\<forall>x. x \<notin> S \<longrightarrow> c_objs c' x = c_objs c x)
     \<and> c_reader c' = c_reader c \<and> c_writer c' = c_writer c \<and> c_closed c' = c_closed c \<and> c_sendFlow c' = c_sendFlow c
     \<and> c_data c' = c_data c \<and> c_lastData c' = c_lastData c \<and> c_settingsCh c' = c_settingsCh c"

lemma touches_refl [simp]: "touches S c c"
  by (simp add: touches_def)

lemma touches_trans: "touches S c c' \<Longrightarrow> touches S c' c'' \<Longrightarrow> touches S c c''"
  by (simp add: touches_def)

lemma touches_mono: "touches S c c' \<Longrightarrow> S \<subseteq> S' \<Longrightarrow> touches S' c c'"
  by (auto simp: touches_def)

lemma touches_obj [simp]:
  assumes "sid \<in> S"
  shows "touches S c (c'\<lparr>c_objs := (c_objs c')(sid := y)\<rparr>) = touches S c c'"
proof -
  have "x \<notin> S \<Longrightarrow> ((c_objs c')(sid := y)) x = c_objs c' x" for x using assms by auto
  then show ?thesis by (simp add: touches_def side_def del: fun_upd_apply)
qed

lemma touches_put [simp]: "s_id s \<in> S \<Longrightarrow> touches S c (put_stream s c') = touches S c c'"
  by (simp add: put_stream_def)

lemma touches_update [simp]:
  "touches S c (c'\<lparr>c_recvFlow := f\<rparr>) = touches S c c'"
  "touches S c (c'\<lparr>c_streams := xs\<rparr>) = touches S c c'"
  "touches S c (add_frame i b c') = touches S c c'"
  "touches S c (Conn_Flush c') = touches S c c'"
  "touches S c (Conn_addStream sid' c') = touches S c c'"
  "touches S c (add_numStreams sid' n c') = touches S c c'"
  by (simp_all add: touches_def side_def add_frame_def Conn_Flush_def Conn_addStream_def add_numStreams_def side_rest_def)

lemma touches_add_frames [simp]: "touches S c (add_frames fs c') = touches S c c'"
  unfolding add_frames_def by (induction fs arbitrary: c') simp_all

lemma touches_return:
  "stream_return n s c' = Some (e, c'') \<Longrightarrow> s_id s \<in> S \<Longrightarrow> touches S c c'' = touches S c c'"
  by (auto simp: stream_return_def split: option.splits prod.splits)

lemma touches_consumed [simp]: "s_id s \<in> S \<Longrightarrow> touches S c (return_consumed s c') = touches S c c'"
  by (auto simp: return_consumed_def touches_return split: option.splits)

lemma touches_remove [simp]: "touches S c (Conn_removeStream sid' c') = touches S c c'"
  by (simp add: Conn_removeStream_def Let_def)

lemma touches_shut [simp]: "s_id s \<in> S \<Longrightarrow> touches S c (stream_shut from s c') = touches S c c'"
  by (simp add: stream_shut_def Let_def)

lemma touches_activate [simp]: "s_id s \<in> S \<Longrightarrow> touches S c (stream_activate from to s c') = touches S c c'"
  by (simp add: stream_activate_def Let_def)

lemma cas_touches:
  "compareAndSwapState sid from to c = Some (b, c') \<Longrightarrow> conn_ok c \<Longrightarrow> touches {sid} c c'"
  using conn_okD(4) [of c sid]
  by (auto simp: compareAndSwapState_def Let_def split: option.splits if_splits)

text \<open>The object keeps its state through the returns and the removal.\<close>

lemma obj_remove [simp]: "c_objs (Conn_removeStream sid c) = c_objs c"
  by (simp add: Conn_removeStream_def Let_def Conn_Flush_def add_frame_def)

lemma obj_state_consumed:
  assumes "c_objs c (s_id s) = Some s"
  shows "\<exists>s'. c_objs (return_consumed s c) (s_id s) = Some s' \<and> s_state s' = s_state s"
  using same_shape_obj' [OF return_consumed_shape [OF assms] assms] by (metis stream_shape_eqD(2))

lemma shut_state:
  assumes "from \<noteq> StateClosed" "s_state s = StateClosed"
  shows "\<exists>s'. c_objs (stream_shut from s c) (s_id s) = Some s' \<and> s_state s' = StateClosed"
proof -
  define c1 where "c1 = (if active from then add_numStreams (s_id s) (- 1) c else c)"
  define s1 where "s1 = stop_sending (stream_cancel (Some errStreamClosed) (s\<lparr>s_closeCh := True\<rparr>))"
  have s1: "s_id s1 = s_id s" "s_state s1 = StateClosed" using assms by (simp_all add: s1_def stop_sending_def stream_cancel_def)
  have "stream_shut from s c = Conn_removeStream (s_id s1) (return_consumed s1 (put_stream s1 c1))"
    using assms by (simp add: stream_shut_def c1_def s1_def Let_def)
  with obj_state_consumed [of "put_stream s1 c1" s1] s1 show ?thesis by simp
qed

lemma cas_ok:
  assumes ok: "conn_ok c" and s: "c_objs c sid = Some s" and l: "life_step (s_state s) to"
  obtains c' s' where "compareAndSwapState sid (s_state s) to c = Some (True, c')" "conn_ok c'"
    "c_objs c' sid = Some s'" "s_state s' = to" "touches {sid} c c'"
proof -
  have i: "s_id s = sid" using conn_okD(4) [OF ok s] .
  have so: "stream_ok s" using conn_okD(6) [OF ok s] .
  let ?s = "s\<lparr>s_state := to\<rparr>"
  have "\<exists>c'. compareAndSwapState sid (s_state s) to c = Some (True, c') \<and> conn_ok c' \<and> (\<exists>s'. c_objs c' sid = Some s' \<and> s_state s' = to)"
  proof (cases "s_state s = to")
    case True
    then have e: "compareAndSwapState sid (s_state s) to c = Some (True, put_stream ?s c)"
      using s by (cases to) (auto simp: compareAndSwapState_def active_def stream_shut_def)
    have "same_shape c (put_stream ?s c)" using s i True by (intro same_shape_put) (auto simp: stream_shape_def)
    with e i ok show ?thesis by (auto dest: conn_ok_shape)
  next
    case False
    show ?thesis
    proof (cases "to = StateClosed")
      case True
      have e: "compareAndSwapState sid (s_state s) to c = Some (True, stream_shut (s_state s) ?s (put_stream ?s c))"
        using True s by (simp add: compareAndSwapState_def active_def Let_def)
      have "\<exists>s'. c_objs (stream_shut (s_state s) ?s (put_stream ?s c)) sid = Some s' \<and> s_state s' = to"
        using shut_state [of "s_state s" ?s "put_stream ?s c"] False True i by simp
      with e conn_ok_shut [OF ok s] False True show ?thesis by auto
    next
      case nc: False
      show ?thesis
      proof (cases "active to")
        case True
        show ?thesis
        proof (cases "active (s_state s)")
          case False
          have e: "compareAndSwapState sid (s_state s) to c = Some (True, stream_activate (s_state s) to ?s (put_stream ?s c))"
            using True False nc l s by (cases "s_state s") (auto simp: compareAndSwapState_def Let_def life_step_def active_def)
          have cl: "s_state s \<noteq> StateClosed" using True False l nc by (auto simp: life_step_def)
          have o': "c_objs (stream_activate (s_state s) to ?s (put_stream ?s c)) sid = Some (start_flows to (add_numStreams sid 1 (put_stream ?s c)) ?s)"
            using i by (simp add: stream_activate_def Let_def)
          with e conn_ok_activate [OF ok s False cl True] show ?thesis by auto
        next
          case act: True
          then have f: "s_state s = StateOpen" using l False nc by (auto simp: life_step_def active_def)
          define s2 where "s2 = (if to = StateHalfClosedLocal then stop_sending (stream_cancel (Some errStreamClosed) ?s) else ?s)"
          have s2: "s_id s2 = sid" "s_state s2 = to" "stream_ok s2"
            using i so f True by (auto simp: s2_def stop_sending_def stream_cancel_def stream_ok_def active_def writable_def opened_def)
          have e: "compareAndSwapState sid (s_state s) to c = Some (True, put_stream s2 (put_stream ?s c))"
            using True f s so i by (auto simp: compareAndSwapState_def active_def Let_def s2_def stream_ok_def writable_def put_stream_def)
          have "conn_ok (put_stream s2 (put_stream ?s c))"
            by (rule conn_ok_change [OF ok s s2(3) s2(1)])
               (use i s2 act True f table_obj [OF ok s] conn_okD(2) [OF ok] in \<open>auto simp: in_table_def active_def\<close>)
          with e s2 show ?thesis by simp
        qed
      next
        case False
        with l nc \<open>s_state s \<noteq> to\<close> have f: "s_state s = StateIdle" "to = StateReservedLocal \<or> to = StateReservedRemote"
          by (cases to; auto simp: life_step_def active_def)+
        have e: "compareAndSwapState sid (s_state s) to c = Some (True, Conn_addStream sid (put_stream ?s c))"
          using f s by (auto simp: compareAndSwapState_def Let_def)
        have so': "stream_ok ?s" using so f by (auto simp: stream_ok_def active_def writable_def opened_def)
        have "conn_ok (Conn_addStream sid (put_stream ?s c))"
          by (rule conn_ok_change [OF ok s so'])
             (use i f conn_okD(2) [OF ok] in \<open>auto simp: in_table_def active_def\<close>)
        with e i show ?thesis by auto
      qed
    qed
  qed
  with cas_touches [OF _ ok] that show thesis by blast
qed

lemma set_reset_shape: "c_objs c sid = Some s \<Longrightarrow> s_state s = StateClosed \<Longrightarrow> same_shape c (set_reset recv sid c)"
  by (auto simp: same_shape_def set_reset_def)

lemma touches_set_reset: "sid \<in> S \<Longrightarrow> touches S c (set_reset recv sid c') = touches S c c'"
  by (simp add: set_reset_def)

lemma transition_ok:
  assumes ok: "conn_ok c" and s: "c_objs c sid = Some s"
    and tr: "StreamState_transition (s_state s) recv ty es = (to, True)"
  obtains c' s' where "stream_transition sid recv ty es c = Some ((to, None), c')" "conn_ok c'" "touches {sid} c c'"
    "c_objs c' sid = Some s'" "s_state s' = to"
proof -
  from cas_ok [OF ok s transition_life_step [OF tr]] obtain c1 s1 where
    c1: "compareAndSwapState sid (s_state s) to c = Some (True, c1)" "conn_ok c1" "c_objs c1 sid = Some s1" "s_state s1 = to" "touches {sid} c c1"
    by blast
  define c2 where "c2 = (if to = StateClosed \<and> ty = FrameRSTStream then set_reset recv sid c1 else c1)"
  have ss: "same_shape c1 c2" using c1(3, 4) by (auto simp: c2_def intro: set_reset_shape)
  from same_shape_obj' [OF ss c1(3)] obtain s2 where s2: "c_objs c2 sid = Some s2" "stream_shape s2 = stream_shape s1" by blast
  show thesis
  proof (rule that)
    show "stream_transition sid recv ty es c = Some ((to, None), c2)" using s tr c1(1) by (simp add: stream_transition_def c2_def)
    show "conn_ok c2" by (rule conn_ok_shape [OF ss c1(2)])
    show "touches {sid} c c2" using c1(5) by (simp add: c2_def touches_set_reset)
    show "c_objs c2 sid = Some s2" by (rule s2)
    show "s_state s2 = to" using stream_shape_eqD(2) [OF s2(2)] c1(4) by simp
  qed
qed

lemma transition_refused:
  assumes "c_objs c sid = Some s" "StreamState_transition (s_state s) recv ty es = (to, False)"
  shows "stream_transition sid recv ty es c = Some ((s_state s, Some (transition_error s recv ty)), c)"
  using assms by (simp add: stream_transition_def)

text \<open>Both cases: a transition does not panic, and keeps the invariant.\<close>

lemma transition_total:
  assumes ok: "conn_ok c" and s: "c_objs c sid = Some s"
  obtains st e c' s' where "stream_transition sid recv ty es c = Some ((st, e), c')" "conn_ok c'" "touches {sid} c c'"
    "c_objs c' sid = Some s'" "s_state s' = st" "e \<noteq> None \<Longrightarrow> c' = c" "e \<noteq> None \<Longrightarrow> e = Some (transition_error s recv ty)"
proof (cases "snd (StreamState_transition (s_state s) recv ty es)")
  case True
  then show thesis using transition_ok [OF ok s, of recv ty es "fst (StreamState_transition (s_state s) recv ty es)"] that by (metis prod.collapse)
next
  case False
  then show thesis using transition_refused [OF s, of recv ty es "fst (StreamState_transition (s_state s) recv ty es)"] that ok s
    by (metis prod.collapse touches_refl)
qed

lemma transition_runs:
  assumes "conn_ok c" "c_objs c sid = Some s"
  shows "\<exists>st e c'. stream_transition sid recv ty es c = Some ((st, e), c') \<and> conn_ok c' \<and> (\<exists>s'. c_objs c' sid = Some s' \<and> s_state s' = st)"
  by (rule transition_total [OF assms, of recv ty es]) metis

lemma transition_keeps:
  assumes "stream_transition sid recv ty es c = Some (x, c')" "conn_ok c"
  shows "conn_ok c'" "touches {sid} c c'"
proof -
  from assms(1) obtain s where s: "c_objs c sid = Some s" by (auto simp: stream_transition_def split: bind_splits)
  from transition_total [OF assms(2) s, of recv ty es] assms(1) show "conn_ok c'" "touches {sid} c c'" by (metis option.inject prod.inject)+
qed

lemma close_ok:
  assumes "conn_ok c" "c_objs c sid = Some s"
  obtains c' s' where "stream_close sid c = Some c'" "conn_ok c'" "touches {sid} c c'" "c_objs c' sid = Some s'" "s_state s' = StateClosed"
proof -
  have "life_step (s_state s) StateClosed" by (simp add: life_step_def)
  from cas_ok [OF assms this] obtain c' s' where
    c: "compareAndSwapState sid (s_state s) StateClosed c = Some (True, c')" "conn_ok c'" "c_objs c' sid = Some s'"
      "s_state s' = StateClosed" "touches {sid} c c'" by blast
  have "stream_close sid c = Some c'" using assms(2) c(1) by (simp add: stream_close_def)
  then show thesis using c(2-5) that by blast
qed

lemma close_streams_ok:
  assumes "conn_ok c" "\<forall>sid\<in>set sids. c_objs c sid \<noteq> None"
  shows "\<exists>c'. close_streams sids c = Some c' \<and> conn_ok c' \<and> touches (set sids) c c'
    \<and> (\<forall>sid\<in>set sids. \<exists>s. c_objs c' sid = Some s \<and> s_state s = StateClosed)"
  using assms
proof (induction sids arbitrary: c)
  case (Cons sid sids)
  then obtain s where "c_objs c sid = Some s" by auto
  from close_ok [OF Cons.prems(1) this] obtain c1 s1 where
    c1: "stream_close sid c = Some c1" "conn_ok c1" "touches {sid} c c1" "c_objs c1 sid = Some s1" "s_state s1 = StateClosed" by blast
  have o1: "\<forall>x\<in>set sids. c_objs c1 x \<noteq> None"
    using Cons.prems(2) c1(3, 4) unfolding touches_def by (metis list.set_intros(2) option.distinct(1) singletonD)
  from Cons.IH [OF c1(2) o1] obtain c2 where
    c2: "close_streams sids c1 = Some c2" "conn_ok c2" "touches (set sids) c1 c2" "\<forall>x\<in>set sids. \<exists>s. c_objs c2 x = Some s \<and> s_state s = StateClosed"
    by blast
  have "touches (set (sid # sids)) c c2"
    by (rule touches_trans [OF touches_mono [OF c1(3)] touches_mono [OF c2(3)]]) auto
  moreover have "\<exists>s. c_objs c2 sid = Some s \<and> s_state s = StateClosed"
    using c2(3, 4) c1(4, 5) unfolding touches_def by metis
  ultimately show ?case using c1(1) c2 by simp
qed simp

end
