(* ===== verification/H2_ConnSafe.thy ===== *)
theory H2_ConnSafe
  imports H2_ConnInv
begin

text \<open>
  The operations of a connection keep its invariant, and those that cannot wait do not panic.

  The first part shows which operations keep the shape.  The locale \<open>conn_property\<close> names what a
  property of connections needs to be kept by all of them: it holds after a change that keeps the
  shape, a change of state of one stream, the opening of a stream, and a GOAWAY frame sent or
  received.
\<close>

section \<open>Opening streams\<close>

lemma low_id_unat: "low_id sid \<Longrightarrow> unat sid < 2 ^ 31"
proof (rule ccontr)
  assume a: "low_id sid" "\<not> unat sid < 2 ^ 31"
  have u: "unat sid < 2 ^ 32" by (rule unat_less_32)
  have "unat sid div 2 ^ 31 = 1" using a(2) u by (intro div_nat_eqI) simp_all
  then have "bit (unat sid) 31" by (simp add: bit_iff_odd)
  then have "bit sid 31" by (simp add: bit_unsigned_iff)
  then have "bit (sid AND 0x80000000) 31" by (simp add: bit_and_iff)
  with a(1) show False by (simp add: low_id_def)
qed

lemma valid_side:
  assumes "conn_ok c" "connState_validStreamID (side loc c) sid"
  shows "stream_local c sid = loc" "sid \<noteq> 0"
  using assms(2) conn_okD(1) [OF assms(1)] by (auto simp: connState_validStreamID_def stream_local_def side_def split: if_splits)

lemma idleStream_cases:
  obtains (refused) e where "idleStream loc sid c = (Some e, c)" "is_ConnError e"
  | (opened) "cs_goAway (c_local c) = None" "connState_validStreamID (side loc c) sid" "cs_nextStreamID (side loc c) \<le> sid"
      "cs_numStreams (side loc c) + 1 \<le> Settings_MaxConcurrentStreams (cs_settings (side loc c))"
      "idleStream loc sid c = (None, set_side loc ((side loc c)\<lparr>cs_nextStreamID := sid + 2, cs_lastStreamID := sid\<rparr>) (put_stream (new_stream sid) c))"
proof (cases "cs_goAway (c_local c)")
  case None
  consider "\<not> connState_validStreamID (side loc c) sid" | "connState_validStreamID (side loc c) sid" "sid < cs_nextStreamID (side loc c)"
    | "connState_validStreamID (side loc c) sid" "\<not> sid < cs_nextStreamID (side loc c)"
      "cs_numStreams (side loc c) + 1 > Settings_MaxConcurrentStreams (cs_settings (side loc c))"
    | "connState_validStreamID (side loc c) sid" "\<not> sid < cs_nextStreamID (side loc c)"
      "\<not> cs_numStreams (side loc c) + 1 > Settings_MaxConcurrentStreams (cs_settings (side loc c))" by blast
  then show ?thesis
  proof cases
    case 4
    with None show ?thesis by (intro opened) (simp_all add: idleStream_def Let_def not_less)
  qed (use None in \<open>simp_all add: refused idleStream_def Let_def errClosedStream_def conn_error_def\<close>)
next
  case (Some g)
  then show ?thesis using refused by (cases g) (simp add: idleStream_def)
qed

lemma idle_conn_ok:
  assumes ok: "conn_ok c" and id: "low_id sid" and op: "idleStream loc sid c = (None, c')"
  shows "conn_ok c'" "c_objs c' sid = Some (new_stream sid)" "c_objs c sid = None" "\<And>x. x \<noteq> sid \<Longrightarrow> c_objs c' x = c_objs c x"
proof -
  have v: "connState_validStreamID (side loc c) sid" "cs_nextStreamID (side loc c) \<le> sid"
    and c': "c' = set_side loc ((side loc c)\<lparr>cs_nextStreamID := sid + 2, cs_lastStreamID := sid\<rparr>) (put_stream (new_stream sid) c)"
    using idleStream_cases [of loc sid c] op by auto
  have n: "s_id (new_stream sid) = sid" "s_state (new_stream sid) = StateIdle" "stream_ok (new_stream sid)"
    by (simp_all add: new_stream_def stream_ok_def active_def writable_def opened_def)
  note sd = valid_side [OF ok v(1)]
  show none: "c_objs c sid = None" using conn_okD(8) [OF ok, of loc] sd v(2) by (cases "c_objs c sid") (auto simp: ids_ok_def)
  have obj: "c_objs c' = (c_objs c)(sid := Some (new_stream sid))" using n by (simp add: c' set_side_def)
  then show "c_objs c' sid = Some (new_stream sid)" "\<And>x. x \<noteq> sid \<Longrightarrow> c_objs c' x = c_objs c x" by simp_all
  have st: "c_streams c' = c_streams c" by (simp add: c' set_side_def)
  have u: "unat (sid + 2) = unat sid + 2" using low_id_unat [OF id] by (simp add: unat_word_ariths)
  have sd': "side l c' = (if l = loc then (side loc c)\<lparr>cs_nextStreamID := sid + 2, cs_lastStreamID := sid\<rparr> else side l c)" for l
    by (auto simp: c' side_def set_side_def put_stream_def)
  have sl: "stream_local c' x = stream_local c x" for x
    using sd' [of True] by (simp add: stream_local_def side_def split: if_splits)
  show "conn_ok c'"
  proof (rule conn_okI)
    note okd = conn_okD [OF ok]
    show "cs_server (c_remote c') = (\<not> cs_server (c_local c'))" using okd(1) by (auto simp: c' set_side_def side_def)
    show "distinct (c_streams c')" "pending_ok (c_reader c')" using okd by (auto simp: c' set_side_def)
    show "x \<in> set (c_streams c') \<longleftrightarrow> (\<exists>s. c_objs c' x = Some s \<and> in_table (s_state s))" for x
      using okd(3) [of x] none n by (auto simp: obj st in_table_def)
    show "s_id s = x \<and> x \<noteq> 0 \<and> stream_ok s" if "c_objs c' x = Some s" for x s
      using that okd(4-6) n sd(2) by (auto simp: obj split: if_splits)
    show "cs_numStreams (side l c') = of_nat (card (active_ids l c'))" for l
    proof -
      have "active_ids l c' = active_ids l c" using none n by (auto simp: active_ids_def obj sl active_def)
      then show ?thesis using okd(7) [of l] by (cases "l = loc") (simp_all add: sd')
    qed
    have "sid < sid + 2" by (simp add: word_less_nat_alt u)
    moreover have "x < sid + 2" if "x < cs_nextStreamID (side loc c)" for x
      using that v(2) \<open>sid < sid + 2\<close> by simp
    ultimately show "ids_ok l c'" for l
      using okd(8) [of l] low_id_unat [OF id] by (auto simp: ids_ok_def obj sl sd' u sd split: if_splits)
  qed
qed

section \<open>Settings\<close>

lemma obj_flows:
  assumes "conn_ok c" "c_objs c sid = Some s"
  shows "active (s_state s) \<Longrightarrow> \<exists>f. s_recvFlow s = Some f" "readable (s_state s) \<Longrightarrow> \<exists>f. s_recvFlow s = Some f"
    "writable (s_state s) \<Longrightarrow> \<exists>f. s_sendFlow s = Some f" "s_id s = sid" "sid \<noteq> 0"
  using conn_okD(4-6) [OF assms] by (auto simp: stream_ok_def readable_def active_def)

lemma same_shape_dom: "same_shape c c' \<Longrightarrow> c_objs c' sid = None \<longleftrightarrow> c_objs c sid = None"
  unfolding same_shape_def by (metis option.map_disc_iff)

lemma recv_window_loop_ok:
  assumes "conn_ok c" "\<forall>sid\<in>set sids. c_objs c sid \<noteq> None"
  shows "\<exists>errs' c'. recv_window_loop delta sids errs c = Some (errs', c') \<and> same_shape c c'"
  using assms
proof (induction sids arbitrary: errs c)
  case (Cons sid sids)
  then obtain s where s: "c_objs c sid = Some s" by auto
  show ?case
  proof (cases "readable (s_state s)")
    case True
    then obtain f where f: "s_recvFlow s = Some f" using obj_flows(2) [OF Cons.prems(1) s] by blast
    obtain e f' where i: "flow_incrementInitialWindow (s_id s) f delta = (e, f')" by fastforce
    define c1 where "c1 = put_stream (s\<lparr>s_recvFlow := Some f'\<rparr>) c"
    have ss: "same_shape c c1"
      unfolding c1_def using s f obj_flows(4) [OF Cons.prems(1) s] by (intro same_shape_put) auto
    have "\<forall>x\<in>set sids. c_objs c1 x \<noteq> None" using Cons.prems(2) same_shape_dom [OF ss] by simp
    from Cons.IH [OF conn_ok_shape [OF ss Cons.prems(1)] this] True s f i same_shape_trans [OF ss] show ?thesis
      by (fastforce simp: c1_def [symmetric])
  next
    case False
    with s Cons show ?thesis by simp
  qed
qed simp

lemma setInitialRecvWindow_ok:
  assumes "conn_ok c"
  shows "\<exists>e c'. setInitialRecvWindow delta c = Some (e, c') \<and> same_shape c c'"
proof -
  have "\<forall>sid\<in>set (c_streams c). c_objs c sid \<noteq> None" using conn_okD(3) [OF assms] by auto
  from recv_window_loop_ok [OF assms this, of delta "[]"] show ?thesis by (auto simp: setInitialRecvWindow_def)
qed

lemma remote_error_stream:
  "remote_incrementInitialWindow sid f delta = (Some e, f') \<Longrightarrow> sid \<noteq> 0 \<Longrightarrow> \<exists>se. as_StreamError e = Some se"
  by (auto simp: remote_incrementInitialWindow_def remote_updateWindow_def flow_error_def Let_def split: if_splits)

lemma send_window_loop_ok:
  assumes "conn_ok c" "\<forall>sid\<in>set sids. c_objs c sid \<noteq> None"
  shows "\<exists>e c'. send_window_loop delta sids errs c = Some (e, c') \<and> same_shape c c'"
  using assms
proof (induction sids arbitrary: errs c)
  case (Cons sid sids)
  then obtain s where s: "c_objs c sid = Some s" by auto
  note id = obj_flows(4, 5) [OF Cons.prems(1) s]
  show ?case
  proof (cases "writable (s_state s)")
    case True
    then obtain f where f: "s_sendFlow s = Some f" using obj_flows(3) [OF Cons.prems(1) s] by blast
    obtain e f' where i: "remote_incrementInitialWindow (s_id s) f delta = (e, f')" by fastforce
    define c1 where "c1 = put_stream (s\<lparr>s_sendFlow := Some f'\<rparr>) c"
    have ss: "same_shape c c1"
      unfolding c1_def using s f id by (intro same_shape_put) auto
    have dm: "\<forall>x\<in>set sids. c_objs c1 x \<noteq> None" using Cons.prems(2) same_shape_dom [OF ss] by simp
    note IH = Cons.IH [OF conn_ok_shape [OF ss Cons.prems(1)] dm]
    show ?thesis
    proof (cases e)
      case None
      with IH [of errs] True s f i same_shape_trans [OF ss] show ?thesis by (fastforce simp: c1_def [symmetric] Let_def)
    next
      case (Some e0)
      then obtain se where "as_StreamError e0 = Some se" using remote_error_stream i id by metis
      with IH [of "errs @ [se]"] Some True s f i id same_shape_trans [OF ss] show ?thesis
        by (fastforce simp: c1_def [symmetric] Let_def)
    qed
  next
    case False
    with s Cons show ?thesis by simp
  qed
qed simp

lemma setInitialSendWindow_ok:
  assumes "conn_ok c"
  shows "\<exists>e c'. setInitialSendWindow delta c = Some (e, c') \<and> same_shape c c'"
proof -
  have "\<forall>sid\<in>set (c_streams c). c_objs c sid \<noteq> None" using conn_okD(3) [OF assms] by auto
  from send_window_loop_ok [OF assms this, of delta "[]"] show ?thesis by (auto simp: setInitialSendWindow_def)
qed

lemma frame_valid_headers: "header_frame_type f \<Longrightarrow> frame_valid m f = frame_valid m' f"
  by (cases f) simp_all

lemma pending_ok_limits:
  "r_pendingHeaders r' = r_pendingHeaders r \<Longrightarrow> pending_ok r \<Longrightarrow> pending_ok r'"
  unfolding pending_ok_def by (auto split: option.splits simp: frame_valid_headers [of _ "r_maxFrameSize r'" "r_maxFrameSize r"])

lemma same_shape_reader:
  "r_pendingHeaders r = r_pendingHeaders (c_reader c) \<Longrightarrow> same_shape c (c\<lparr>c_reader := r\<rparr>)"
  by (auto simp: same_shape_def intro: pending_ok_limits [of r "c_reader c"])

lemma apply_setting_shape:
  assumes "conn_ok c" "apply_setting loc sl x c = Some (y, c')"
  shows "same_shape c c'"
proof (cases "set_ID x = SettingInitialWindowSize")
  case True
  then show ?thesis using assms(2) setInitialRecvWindow_ok [OF assms(1)] setInitialSendWindow_ok [OF assms(1)]
    by (auto simp: apply_setting_def Let_def split: bind_splits if_splits) (metis option.inject prod.inject)+
next
  case False
  with assms(2) show ?thesis
    by (auto simp: apply_setting_def Let_def intro!: same_shape_reader split: bind_splits if_splits)
qed

lemma apply_loop_shape:
  "conn_ok c \<Longrightarrow> apply_loop loc n xs sl c = Some (y, c') \<Longrightarrow> same_shape c c'"
proof (induction xs arbitrary: sl c)
  case (Cons x xs)
  from Cons.prems(2) obtain e st c1 where a: "apply_setting loc sl x c = Some ((e, st), c1)"
    and r: "(case e of Some e \<Rightarrow> Some ((Some e, sl), c1)
      | None \<Rightarrow> apply_loop loc n xs (if st then slice_SetValue (c_grow c1) n x sl else sl) c1) = Some (y, c')"
    by (auto split: bind_splits)
  note ss = apply_setting_shape [OF Cons.prems(1) a]
  show ?case
  proof (cases e)
    case None
    with r Cons.IH [OF conn_ok_shape [OF ss Cons.prems(1)]] same_shape_trans [OF ss] show ?thesis by auto
  next
    case (Some e0)
    with r ss show ?thesis by simp
  qed
qed simp

lemma applySettings_shape:
  assumes "conn_ok c" "applySettings loc s c = Some (e, c')"
  shows "same_shape c c'"
  using assms(2) apply_loop_shape [OF assms(1)]
  by (auto simp: applySettings_def Let_def split: bind_splits option.splits)

section \<open>Writers\<close>

text \<open>The steps of a writer keep the shape; \<open>s\<close> is the stream's object with changes that do not show.\<close>

lemma Conn_stream_Some: "Conn_stream c sid = Some s \<longleftrightarrow> sid \<in> set (c_streams c) \<and> c_objs c sid = Some s"
  by (simp add: Conn_stream_def)

lemma write_return_shape:
  assumes "c_objs c (s_id s) = Some s0" "stream_shape s = stream_shape s0"
  shows "same_shape c (snd (write_return e s c))"
  using assms by (auto simp: write_return_def Let_def intro!: same_shape_put)

lemma write_queue_shape:
  assumes "c_objs c (s_id s) = Some s0" "stream_shape s = stream_shape s0"
  shows "same_shape c (write_queue f wr s c)"
  using assms by (auto simp: write_queue_def intro!: same_shape_put)

lemma write_allowed_shape:
  assumes "write_allowed k s c = Some (x, c')" "c_objs c (s_id s) = Some s0" "stream_shape s = stream_shape s0"
  shows "same_shape c c'"
  using assms(1) write_queue_shape [OF assms(2, 3)]
  by (auto simp: write_allowed.simps Let_def split: option.splits Frame.splits if_splits prod.splits)

lemma write_allocate_shape:
  assumes "write_allocate s c = Some (x, c')" "c_objs c (s_id s) = Some s0" "stream_shape s = stream_shape s0"
  shows "same_shape c c'"
proof (cases "wr_dataLen (s_writer s) + wr_padLen (s_writer s) \<le> 0")
  case True
  with assms(1) have "write_allowed 0 s c = Some (x, c')" by (simp add: write_allocate_def Let_def)
  then show ?thesis using assms(2, 3) by (rule write_allowed_shape)
next
  case False
  with assms(1) obtain f where f: "s_sendFlow s = Some f"
    "c' = put_stream (s\<lparr>s_sendFlow := Some (allocate_offer (s_id s) f), s_phase := W_stream (wr_dataLen (s_writer s) + wr_padLen (s_writer s))\<rparr>) c"
    by (auto simp: write_allocate_def Let_def split: bind_splits)
  show ?thesis unfolding f(2) using assms(2, 3) f(1) by (intro same_shape_put) (auto simp: stream_shape_def)
qed

lemma stream_write_shape:
  assumes "conn_ok c" "stream_write b d sid f c = Some (x, c')"
  shows "same_shape c c'"
proof -
  from assms(2) obtain s where s: "c_objs c sid = Some s" by (auto simp: stream_write_def split: bind_splits)
  have i: "c_objs c (s_id s) = Some s" using s obj_flows(4) [OF assms(1) s] by simp
  have q: "same_shape c (write_queue g wr s c)" for g wr by (rule write_queue_shape [OF i]) simp
  have a: "same_shape c c'" if "write_allocate (s\<lparr>s_writer := wr\<rparr>) c = Some (x, c')" for wr
    by (rule write_allocate_shape [OF that, of s]) (simp_all add: i)
  from assms(2) s q a show ?thesis
    by (cases b) (auto simp: stream_write_def Let_def split: if_splits Frame.splits)
qed

lemma write_stream_credit_shape:
  assumes "conn_ok c" "write_stream_credit sid c = Some (x, c')"
  shows "same_shape c c'"
proof -
  from assms(2) obtain s n f sw f' where s: "c_objs c sid = Some s" "s_sendFlow s = Some f"
    and c': "c' = put_stream (s\<lparr>s_sendFlow := Some f', s_phase := W_conn n sw\<rparr>) (c\<lparr>c_sendFlow := allocate_offer 0 (c_sendFlow c)\<rparr>)"
    by (auto simp: write_stream_credit_def split: bind_splits write_phase.splits)
  show ?thesis unfolding c' using s obj_flows(4) [OF assms(1) s(1)] by (intro same_shape_put) auto
qed

lemma write_conn_credit_shape:
  assumes "conn_ok c" "write_conn_credit sid c = Some (x, c')"
  shows "same_shape c c'"
proof -
  from assms(2) obtain s f f' cf k where s: "c_objs c sid = Some s" "s_sendFlow s = Some f"
    and w: "write_allowed k (s\<lparr>s_sendFlow := Some f'\<rparr>) (c\<lparr>c_sendFlow := cf\<rparr>) = Some (x, c')"
    by (auto simp: write_conn_credit_def split: bind_splits write_phase.splits prod.splits)
  have "same_shape (c\<lparr>c_sendFlow := cf\<rparr>) c'"
    using s obj_flows(4) [OF assms(1) s(1)] by (intro write_allowed_shape [OF w, of s]) auto
  then show ?thesis using same_shape_trans [of c "c\<lparr>c_sendFlow := cf\<rparr>" c'] by simp
qed

lemma write_abort_shape:
  assumes "conn_ok c" "write_abort b sid c = Some (x, c')"
  shows "same_shape c c'"
proof -
  from assms(2) obtain s where s: "c_objs c sid = Some s" by (auto simp: write_abort_def split: bind_splits)
  have i: "c_objs c (s_id s) = Some s" using s obj_flows(4) [OF assms(1) s] by simp
  have r: "same_shape c (snd (write_return e s c))" for e by (rule write_return_shape [OF i]) simp
  have q: "same_shape c (snd (write_return e s (c\<lparr>c_sendFlow := f\<rparr>)))" for e f
    using write_return_shape [of "c\<lparr>c_sendFlow := f\<rparr>" s s e] i same_shape_trans [of c "c\<lparr>c_sendFlow := f\<rparr>"] by simp
  from assms(2) s show ?thesis
    by (auto simp: write_abort_def Let_def split: write_phase.splits if_splits) (metis r q snd_conv)+
qed

lemma write_resume_shape:
  assumes "conn_ok c" "write_resume sid c = Some (x, c')"
  shows "same_shape c c'"
proof -
  from assms(2) obtain s where s: "c_objs c sid = Some s" by (auto simp: write_resume_def split: bind_splits)
  have i: "c_objs c (s_id s) = Some s" using s obj_flows(4) [OF assms(1) s] by simp
  have r: "same_shape c (snd (write_return e s c))" for e by (rule write_return_shape [OF i]) simp
  from assms(2) s r write_allocate_shape [OF _ i refl] show ?thesis
    by (auto simp: write_resume_def split: write_phase.splits if_splits) (metis snd_conv)+
qed

lemmas writer_shapes = stream_write_shape write_stream_credit_shape write_conn_credit_shape write_abort_shape write_resume_shape

section \<open>The loop and the reader\<close>

lemma queue_refill_shape: "queue_refill c = (b, c') \<Longrightarrow> same_shape c c'"
  by (auto simp: queue_refill_def split: prod.splits)

lemma loop_finished_shape: "loop_finished c = (b, c') \<Longrightarrow> same_shape c c'"
  by (auto simp: loop_finished_def queue_refill_shape split: if_splits prod.splits)

lemma data_returnBytes_eq:
  assumes "\<not> d_sawEOF (c_data c)"
    and "d = (c_data c)\<lparr>d_sawEOF := True, d_processed := d_processed (c_data c) + uint (snd (r_payload (c_reader c)))\<rparr>"
  shows "data_returnBytes c =
    Option.bind (c_objs c (d_stream d)) (\<lambda>s. Option.bind (stream_return (d_processed d) s c) (\<lambda>(e, c).
      if e = None \<and> d_endStream d then
        Option.bind (stream_transition (d_stream d) True FrameData True c) (\<lambda>((st, e), c). Some (e, c\<lparr>c_data := d\<lparr>d_error := e\<rparr>\<rparr>))
      else Some (e, c\<lparr>c_data := d\<lparr>d_error := e\<rparr>\<rparr>)))"
proof -
  have bi: "Option.bind (if P then x else y) f = (if P then Option.bind x f else Option.bind y f)" for P x y f by simp
  show ?thesis
    unfolding data_returnBytes_def Let_def assms(2) [symmetric] using assms(1)
    by (simp add: bi Option.bind_assoc case_prod_unfold cong: if_cong)
qed

lemma framePayload_Read_pending: "framePayload_Read len r = (bs, e, r') \<Longrightarrow> r_pendingHeaders r' = r_pendingHeaders r"
  by (auto simp: framePayload_Read_def Let_def split: if_splits prod.splits)

lemma discard_data_shape: "discard_data n c = (e, c') \<Longrightarrow> same_shape c c'"
  by (auto simp: discard_data_def split: if_splits prod.splits option.splits)

lemma stream_consume_shape:
  assumes "conn_ok c" "stream_consume n s c = Some (e, c')" "c_objs c sid = Some s"
  shows "same_shape c c'"
proof -
  from assms(2) obtain f cc f' where f: "s_recvFlow s = Some f" "c' = put_stream (s\<lparr>s_recvFlow := Some f'\<rparr>) (c\<lparr>c_recvFlow := cc\<rparr>)"
    by (auto simp: stream_consume_def split: bind_splits prod.splits)
  show ?thesis unfolding f(2) using f(1) assms(3) obj_flows(4) [OF assms(1, 3)] by (intro same_shape_put) auto
qed

lemma return_refused_shape:
  assumes "conn_ok c" "return_refused e n sid c = Some (e', c')"
  shows "same_shape c c'"
proof -
  from assms(2) obtain s r where s: "c_objs c sid = Some s" "stream_return n s c = Some (r, c')"
    by (auto simp: return_refused_def split: bind_splits)
  show ?thesis by (rule stream_return_shape [OF s(2)]) (use s obj_flows(4) [OF assms(1) s(1)] in simp)
qed

lemma read_WindowUpdate_shape:
  assumes ok: "conn_ok c" and w: "read_WindowUpdate sid n c = Some (e, c')"
  shows "same_shape c c'"
proof (cases "sid = 0")
  case True
  with w show ?thesis by (auto simp: read_WindowUpdate_def split: prod.splits)
next
  case False
  show ?thesis
  proof (cases "Conn_stream c sid")
    case (Some s)
    then have s: "c_objs c sid = Some s" by (simp add: Conn_stream_Some)
    from w False Some obtain f f' where f: "s_sendFlow s = Some f" "c' = put_stream (s\<lparr>s_sendFlow := Some f'\<rparr>) c"
      by (auto simp: read_WindowUpdate_def split: bind_splits prod.splits)
    show ?thesis unfolding f(2) using f(1) s obj_flows(4) [OF ok s] by (intro same_shape_put) auto
  qed (use w False in \<open>auto simp: read_WindowUpdate_def\<close>)
qed

lemma drop_frame_shape: "same_shape c (snd (drop_frame f c))"
  by (auto simp: drop_frame_def split: Frame.split prod.split option.split intro: discard_data_shape)

fun frame_ids_ok :: "Frame \<Rightarrow> bool" where
  "frame_ids_ok (PushPromiseFrame sid promised _ _) \<longleftrightarrow> low_id sid \<and> low_id promised"
| "frame_ids_ok f \<longleftrightarrow> low_id (Frame_Stream f)"

lemma frame_ids_stream: "frame_ids_ok f \<Longrightarrow> low_id (Frame_Stream f)"
  by (cases f) simp_all

lemma valid_low_id: "validStreamID sid \<Longrightarrow> low_id sid"
  by (simp add: validStreamID_def low_id_def)

section \<open>Properties that every operation keeps\<close>

definition set_sent :: "u32 \<times> ErrCode \<times> bytes \<Rightarrow> conn \<Rightarrow> conn" where
  "set_sent g c = c\<lparr>c_remote := (c_remote c)\<lparr>cs_goAway := Some g\<rparr>\<rparr>"

definition set_received :: "u32 \<times> ErrCode \<times> bytes \<Rightarrow> conn \<Rightarrow> conn" where
  "set_received g c = c\<lparr>c_local := (c_local c)\<lparr>cs_goAway := Some g\<rparr>\<rparr>"

lemma conn_ok_goAway:
  assumes "conn_ok c"
  shows "conn_ok (set_sent g c)" "conn_ok (set_received g c)"
proof -
  note ok = conn_okD [OF assms]
  have sl: "stream_local (set_sent g c) = stream_local c" "stream_local (set_received g c) = stream_local c"
    by (simp_all add: set_sent_def set_received_def stream_local_def fun_eq_iff)
  have sd: "cs_nextStreamID (side loc (set_sent g c)) = cs_nextStreamID (side loc c)" "cs_lastStreamID (side loc (set_sent g c)) = cs_lastStreamID (side loc c)"
    "cs_numStreams (side loc (set_sent g c)) = cs_numStreams (side loc c)" "cs_nextStreamID (side loc (set_received g c)) = cs_nextStreamID (side loc c)"
    "cs_lastStreamID (side loc (set_received g c)) = cs_lastStreamID (side loc c)" "cs_numStreams (side loc (set_received g c)) = cs_numStreams (side loc c)" for loc
    by (simp_all add: set_sent_def set_received_def side_def)
  have obj: "c_objs (set_sent g c) = c_objs c" "c_objs (set_received g c) = c_objs c"
    "c_streams (set_sent g c) = c_streams c" "c_streams (set_received g c) = c_streams c"
    "c_reader (set_sent g c) = c_reader c" "c_reader (set_received g c) = c_reader c"
    "cs_server (c_remote (set_sent g c)) = cs_server (c_remote c)" "cs_server (c_local (set_sent g c)) = cs_server (c_local c)"
    "cs_server (c_remote (set_received g c)) = cs_server (c_remote c)" "cs_server (c_local (set_received g c)) = cs_server (c_local c)"
    by (simp_all add: set_sent_def set_received_def)
  have act: "active_ids loc (set_sent g c) = active_ids loc c" "active_ids loc (set_received g c) = active_ids loc c" for loc
    by (simp_all add: active_ids_def obj sl)
  have ids: "ids_ok loc (set_sent g c)" "ids_ok loc (set_received g c)" for loc
    using ok(8) [of loc] by (simp_all add: ids_ok_def obj sl sd)
  show "conn_ok (set_sent g c)"
    by (rule conn_okI) (use ok ids in \<open>auto simp: obj sd act\<close>)
  show "conn_ok (set_received g c)"
    by (rule conn_okI) (use ok ids in \<open>auto simp: obj sd act\<close>)
qed

locale conn_property =
  fixes I :: "conn \<Rightarrow> bool"
  assumes sound: "I c \<Longrightarrow> conn_ok c"
    and I_shape: "same_shape c c' \<Longrightarrow> I c \<Longrightarrow> I c'"
    and I_state: "I c \<Longrightarrow> c_objs c sid = Some s \<Longrightarrow> life_step (s_state s) to \<Longrightarrow>
      compareAndSwapState sid (s_state s) to c = Some (True, c') \<Longrightarrow> I c'"
    and I_open: "I c \<Longrightarrow> low_id sid \<Longrightarrow> idleStream loc sid c = (None, c') \<Longrightarrow> I c'"
    and I_sent: "I c \<Longrightarrow> go_away_limit lastID c = None \<Longrightarrow> I (set_sent (lastID, code, dbg) c)"
    and I_received: "I c \<Longrightarrow> I (set_received g c)"
begin

lemma I_transition:
  assumes "stream_transition sid recv ty es c = Some (x, c')" "I c"
  shows "I c'"
proof -
  from assms(1) obtain s where s: "c_objs c sid = Some s" by (auto simp: stream_transition_def split: bind_splits)
  obtain to ok where tr: "StreamState_transition (s_state s) recv ty es = (to, ok)" by fastforce
  show ?thesis
  proof (cases ok)
    case False
    with assms tr s show ?thesis by (simp add: stream_transition_def)
  next
    case True
    with tr have l: "life_step (s_state s) to" by (simp add: transition_life_step)
    obtain c1 s1 where c1: "compareAndSwapState sid (s_state s) to c = Some (True, c1)" and s1: "c_objs c1 sid = Some s1" "s_state s1 = to"
      using cas_ok [OF sound [OF assms(2)] s l] by blast
    have "c' = (if to = StateClosed \<and> ty = FrameRSTStream then set_reset recv sid c1 else c1)"
      using assms(1) s tr True c1 by (auto simp: stream_transition_def)
    with I_state [OF assms(2) s l c1] I_shape [OF set_reset_shape [OF s1(1)]] s1(2) show ?thesis by simp
  qed
qed

lemma I_transition_runs:
  assumes "I c" "c_objs c sid = Some s"
  shows "\<exists>st e c'. stream_transition sid recv ty es c = Some ((st, e), c') \<and> I c' \<and> (\<exists>s'. c_objs c' sid = Some s' \<and> s_state s' = st)"
  using transition_runs [OF sound [OF assms(1)] assms(2), of recv ty es] I_transition [OF _ assms(1)] by blast

lemma I_close:
  assumes "stream_close sid c = Some c'" "I c"
  shows "I c'"
proof -
  from assms(1) obtain s where s: "c_objs c sid = Some s" by (auto simp: stream_close_def split: bind_splits)
  have l: "life_step (s_state s) StateClosed" by (simp add: life_step_def)
  obtain c1 where c1: "compareAndSwapState sid (s_state s) StateClosed c = Some (True, c1)"
    using cas_ok [OF sound [OF assms(2)] s l] by blast
  with assms(1) s have "c' = c1" by (simp add: stream_close_def)
  with I_state [OF assms(2) s l c1] show ?thesis by simp
qed

lemma I_close_streams: "close_streams sids c = Some c' \<Longrightarrow> I c \<Longrightarrow> I c'"
  by (induction sids arbitrary: c) (auto split: bind_splits dest: I_close)

lemma I_closes:
  assumes "I c" "\<forall>sid\<in>set sids. c_objs c sid \<noteq> None"
  shows "\<exists>c'. close_streams sids c = Some c' \<and> I c'"
  using close_streams_ok [OF sound [OF assms(1)] assms(2)] I_close_streams [OF _ assms(1)] by blast

lemma table_objs: "I c \<Longrightarrow> \<forall>sid\<in>set (c_streams c). c_objs c sid \<noteq> None"
  using conn_okD(3) [OF sound] by auto

lemma write_GoAway_ok:
  assumes "I c"
  shows "\<exists>e c'. write_GoAway lastID code dbg c = Some (e, c') \<and> I c'"
proof (cases "go_away_limit lastID c")
  case None
  let ?c = "set_sent (lastID, code, dbg) c"
  let ?vs = "filter (\<lambda>sid. sid > lastID \<and> connState_validStreamID (c_remote ?c) sid) (c_streams ?c)"
  have ok: "I ?c" by (rule I_sent [OF assms None])
  have "\<forall>sid\<in>set ?vs. c_objs ?c sid \<noteq> None" using table_objs [OF ok] by auto
  from I_closes [OF ok this] obtain c' where "close_streams ?vs ?c = Some c'" "I c'" by blast
  then show ?thesis using None I_shape [of c' "add_frame (Q_frame (GoAwayFrame lastID code dbg)) True c'"]
    by (simp add: write_GoAway_def Let_def set_sent_def)
qed (use assms in \<open>simp add: write_GoAway_def\<close>)

lemma handle_conn_err_ok: "I c \<Longrightarrow> \<exists>c'. handle_conn_err e c = Some c' \<and> I c'"
  using write_GoAway_ok [of c "Conn_LastStreamID c" "go_away_code e" "h2error_Error e"] by (auto simp: handle_conn_err_def)

lemma write_RSTStream_ok:
  assumes "I c"
  shows "\<exists>e c'. write_RSTStream f c = Some (e, c') \<and> I c'"
proof (cases "Conn_stream c (Frame_Stream f)")
  case (Some s)
  then have s: "c_objs c (Frame_Stream f) = Some s" by (simp add: Conn_stream_Some)
  from I_transition_runs [OF assms s, of False FrameRSTStream False] obtain st e c1 where
    t: "stream_transition (Frame_Stream f) False FrameRSTStream False c = Some ((st, e), c1)" "I c1" by blast
  show ?thesis
  proof (cases e)
    case None
    with t Some I_shape [of c1 "add_frame (Q_frame f) True c1"] show ?thesis by (simp add: write_RSTStream_def Let_def)
  next
    case (Some e0)
    from handle_conn_err_ok [OF t(2), of e0] t Some \<open>Conn_stream c (Frame_Stream f) = Some s\<close> show ?thesis
      by (auto simp: write_RSTStream_def Let_def)
  qed
qed (use assms in \<open>simp add: write_RSTStream_def\<close>)

lemma write_resets_ok: "I c \<Longrightarrow> \<exists>c'. write_resets es c = Some c' \<and> I c'"
proof (induction es c rule: write_resets.induct)
  case (2 x code sid es c)
  from write_RSTStream_ok [OF 2(2), of "RSTStreamFrame sid code"] obtain e c1 where
    "write_RSTStream (RSTStreamFrame sid code) c = Some (e, c1)" "I c1" by blast
  with 2(1) [of "(e, c1)" e c1] show ?case by simp
qed simp

lemma handleErr_ok:
  assumes "I c"
  shows "\<exists>c'. handleErr e c = Some c' \<and> I c'"
proof (cases e)
  case (Some err)
  have rst: "\<exists>c'. map_option snd (write_RSTStream f c) = Some c' \<and> I c'" for f
    using write_RSTStream_ok [OF assms, of f] by auto
  show ?thesis
    by (cases err) (use assms Some rst write_resets_ok handle_conn_err_ok in \<open>auto simp: handleErr_def\<close>)
qed (use assms in \<open>simp add: handleErr_def\<close>)

lemma fail_write_ok: "I c \<Longrightarrow> fail_write e c = Some (x, c') \<Longrightarrow> I c'"
  using handleErr_ok [of c "Some e"] by (auto simp: fail_write_def)

lemma deferred_ok:
  "deferred_release r = Some (x, c') \<Longrightarrow> (\<And>c. r = Some (x, c) \<Longrightarrow> I c) \<Longrightarrow> I c'"
  by (auto simp: deferred_release_def) (meson I_shape same_shape_refl same_shape_release)

lemma write_Data_ok:
  assumes "I c" "write_Data b f c = Some (x, c')"
  shows "I c'"
proof (cases "Conn_stream c (Frame_Stream f)")
  case (Some s)
  with assms(2) obtain st e c1 where t: "stream_transition (Frame_Stream f) False FrameData False c = Some ((st, e), c1)"
    and r: "(case e of None \<Rightarrow> stream_write b False (Frame_Stream f) f c1 | Some e \<Rightarrow> fail_write e c1) = Some (x, c')"
    by (auto simp: write_Data_def Let_def split: bind_splits)
  note ok = I_transition [OF t assms(1)]
  from r show ?thesis using fail_write_ok [OF ok] I_shape [OF stream_write_shape [OF sound [OF ok]] ok] by (auto split: option.splits)
qed (use assms in \<open>auto simp: write_Data_def\<close>)

lemma headers_go_ok:
  assumes "I c" "(do {
            ((st, e), c) \<leftarrow> stream_transition sid False FrameHeaders False c;
            case e of
              None \<Rightarrow> stream_write b fresh sid frame c
            | Some e \<Rightarrow> (if fresh then deferred_release (fail_write e c) else fail_write e c)
          }) = Some (x, c')"
  shows "I c'"
proof -
  from assms(2) obtain st e c1 where t: "stream_transition sid False FrameHeaders False c = Some ((st, e), c1)"
    and r: "(case e of None \<Rightarrow> stream_write b fresh sid frame c1
       | Some e \<Rightarrow> (if fresh then deferred_release (fail_write e c1) else fail_write e c1)) = Some (x, c')"
    by (auto split: bind_splits)
  note ok = I_transition [OF t assms(1)]
  from r show ?thesis
    using fail_write_ok [OF ok] I_shape [OF stream_write_shape [OF sound [OF ok]] ok] by (auto split: option.splits if_splits intro: deferred_ok)
qed

lemma idle_then:
  assumes "I c" "low_id sid" "idleStream loc sid c = (e, c')"
  shows "I c'" "e = None \<longrightarrow> (\<exists>s. c_objs c' sid = Some s)"
  using idleStream_cases [of loc sid c] I_open [OF assms(1, 2)] idle_conn_ok(2) [OF sound [OF assms(1)] assms(2)] assms
  by (metis option.distinct(1) prod.inject)+

lemma write_Headers_ok:
  assumes ok: "I c" and w: "write_Headers b f c = Some (x, c')" and id: "low_id (Frame_Stream f)"
  shows "I c'"
proof (cases "Conn_stream c (Frame_Stream f)")
  case (Some s)
  with w show ?thesis by (intro headers_go_ok [OF ok]) (simp add: write_Headers_def Let_def)
next
  case None
  obtain e c1 where i: "idleStream True (Frame_Stream f) c = (e, c1)" by fastforce
  note ok1 = idle_then(1) [OF ok id i]
  show ?thesis
  proof (cases e)
    case None
    from w None i \<open>Conn_stream c (Frame_Stream f) = None\<close> show ?thesis
      by (intro headers_go_ok [OF ok1]) (simp add: write_Headers_def Let_def)
  next
    case (Some e0)
    with w i \<open>Conn_stream c (Frame_Stream f) = None\<close> show ?thesis
      by (auto simp: write_Headers_def Let_def intro: deferred_ok fail_write_ok [OF ok1])
  qed
qed

lemma write_PushPromise_ok:
  assumes ok: "I c" and w: "write_PushPromise sid promised h pad c = Some (x, c')" and id: "low_id promised"
  shows "I c'"
proof -
  obtain e c1 where i: "idleStream True promised c = (e, c1)" by fastforce
  note ok1 = idle_then(1) [OF ok id i]
  have fin: "I c2" if "(case (e, c1) of (Some e, c) \<Rightarrow> fail_write e c
                  | (None, c) \<Rightarrow> do {
                      ((_, e), c) \<leftarrow> stream_transition promised False FramePushPromise False c;
                      case e of
                        None \<Rightarrow> Some (Returned None, add_frame (Q_frame (PushPromiseFrame sid promised h pad)) False c)
                      | Some e \<Rightarrow> fail_write e c
                    }) = Some (x, c2)" for c2
  proof (cases e)
    case (Some e0)
    with that fail_write_ok [OF ok1] show ?thesis by simp
  next
    case None
    with that obtain st e' c3 where t: "stream_transition promised False FramePushPromise False c1 = Some ((st, e'), c3)"
      and r: "(case e' of None \<Rightarrow> Some (Returned None, add_frame (Q_frame (PushPromiseFrame sid promised h pad)) False c3)
        | Some e \<Rightarrow> fail_write e c3) = Some (x, c2)" by (auto split: bind_splits)
    note ok3 = I_transition [OF t ok1]
    have "I (add_frame i b c3)" for i b by (rule I_shape [OF _ ok3]) simp
    with r fail_write_ok [OF ok3] show ?thesis by (auto split: option.splits)
  qed
  from w show ?thesis unfolding write_PushPromise_def i
    by (auto split: if_splits option.splits intro: fail_write_ok [OF ok] deferred_ok [OF _ fin])
qed

lemma write_WindowUpdate_ok:
  assumes ok: "I c" and w: "write_WindowUpdate sid n c = Some (x, c')"
  shows "I c'"
proof -
  have fin: "I c'" if "(case e of None \<Rightarrow> Some (Returned None, c1) | Some e \<Rightarrow> fail_write e c1) = Some (x, c')" "same_shape c c1" for e c1
    using that fail_write_ok [OF I_shape [OF that(2) ok]] I_shape [OF that(2) ok] by (auto split: option.splits)
  show ?thesis
  proof (cases "sid = 0")
    case True
    obtain e f fs where i: "flow_incrementWindow 0 (c_recvFlow c) (uint n) = (e, f, fs)" by (metis prod_cases3)
    show ?thesis by (rule fin [of "add_frames fs (c\<lparr>c_recvFlow := f\<rparr>)" e]) (use w True i in \<open>simp_all add: write_WindowUpdate_def\<close>)
  next
    case False
    show ?thesis
    proof (cases "Conn_stream c sid")
      case None
      with w ok False show ?thesis by (auto simp: write_WindowUpdate_def)
    next
      case (Some s)
      then have s: "c_objs c sid = Some s" by (simp add: Conn_stream_Some)
      from w False Some obtain f where f: "s_recvFlow s = Some f" by (auto simp: write_WindowUpdate_def split: bind_splits)
      obtain e f' fs where i: "flow_incrementWindow (s_id s) f (uint n) = (e, f', fs)" by (metis prod_cases3)
      have "same_shape c (put_stream (s\<lparr>s_recvFlow := Some f'\<rparr>) c)"
        using s f obj_flows(4) [OF sound [OF ok] s] by (intro same_shape_put) auto
      then show ?thesis
        by (intro fin [of "add_frames fs (put_stream (s\<lparr>s_recvFlow := Some f'\<rparr>) c)" e])
           (use w False Some f i in \<open>simp_all add: write_WindowUpdate_def\<close>)
    qed
  qed
qed

lemma writeFrame_ok:
  assumes ok: "I c" and w: "writeFrame b f c = Some (x, c')" and ids: "frame_ids_ok f"
  shows "I c'"
proof -
  have add: "I (add_frame i k c)" for i k by (rule I_shape [OF _ ok]) simp
  have st: "I (snd (write_Settings ack s c))" for ack s
    by (rule I_shape [OF _ ok]) (simp add: write_Settings_def)
  have ga: "I c''" if "write_GoAway a b d c = Some (e, c'')" for a b d e c''
    using write_GoAway_ok [OF ok, of a b d] that by auto
  have rs: "I c''" if "write_RSTStream f c = Some (e, c'')" for e c''
    using write_RSTStream_ok [OF ok, of f] that by auto
  show ?thesis
  proof (cases f)
    case (DataFrame sid rd n p e)
    with w show ?thesis by (auto simp: writeFrame_def intro: write_Data_ok [OF ok])
  next
    case (HeadersFrame sid h p pad e)
    with w ids show ?thesis by (auto simp: writeFrame_def intro: write_Headers_ok [OF ok])
  next
    case (UnknownFrame t sid flags payload n)
    with w ids ok add rs show ?thesis
      by (auto simp: writeFrame_def Let_def returned_def split: if_splits intro: write_Headers_ok [OF ok] write_Data_ok [OF ok])
  next
    case (SettingsFrame ack s)
    with w st [of ack s] show ?thesis by (simp add: writeFrame_def)
  qed (use w ids ok add rs ga in \<open>auto simp: writeFrame_def returned_def split: if_splits
    intro: write_PushPromise_ok [OF ok] write_WindowUpdate_ok [OF ok]\<close>)
qed

lemma conn_close_ok:
  assumes "I c"
  shows "\<exists>e c'. conn_close c = Some (e, c') \<and> I c'"
proof (cases "c_closed c")
  case False
  let ?c = "c\<lparr>c_closed := True\<rparr>"
  have ok: "I ?c" by (rule I_shape [OF _ assms]) simp
  have "\<forall>sid\<in>set (c_streams ?c). c_objs ?c sid \<noteq> None" using table_objs [OF ok] by auto
  from I_closes [OF ok this] False ok show ?thesis by (auto simp: conn_close_def Let_def)
qed (use assms in \<open>simp add: conn_close_def\<close>)

lemma CloseTimeout_ok:
  assumes "I c"
  shows "\<exists>x c'. CloseTimeout timeout c = Some (x, c') \<and> I c'"
proof (cases "c_closing c")
  case False
  let ?c = "c\<lparr>c_closing := True\<rparr>"
  have ok: "I ?c" by (rule I_shape [OF _ assms]) simp
  obtain e c1 where g: "write_GoAway (Conn_LastStreamID ?c) ErrCodeNo [] ?c = Some (e, c1)" "I c1"
    using write_GoAway_ok [OF ok] by blast
  have w: "writeFrame Proceed (GoAwayFrame (Conn_LastStreamID ?c) ErrCodeNo []) ?c = Some (Returned e, c1)"
    using g(1) by (simp add: writeFrame_def returned_def)
  have ok2: "I (Conn_Flush c1)" by (rule I_shape [OF _ g(2)]) simp
  from conn_close_ok [OF ok] conn_close_ok [OF ok2] ok2 w False show ?thesis
    by (auto simp: CloseTimeout_def Let_def)
qed (use assms in \<open>simp add: CloseTimeout_def\<close>)

lemma CloseTimeout_expired_ok: "I c \<Longrightarrow> \<exists>x c'. CloseTimeout_expired c = Some (x, c') \<and> I c'"
  using conn_close_ok [of c] by (auto simp: CloseTimeout_expired_def)

lemma stream_writeTo_ok:
  assumes ok: "I c" and w: "stream_writeTo U ord sid c = Some (x, c')"
  shows "I c'"
proof -
  from w obtain s f e wr where s: "c_objs c sid = Some s" "s_frame s = Some f" "frameWriter_WriteFrame U ord (c_writer c) f = Some (e, wr)"
    by (auto simp: stream_writeTo_def split: bind_splits)
  define s1 where "s1 = s\<lparr>s_lastWritten := Frame_Type f, s_sawEOS := Frame_EndOfStream f\<rparr>"
  define c1 where "c1 = put_stream s1 (c\<lparr>c_writer := wr\<rparr>)"
  have id: "s_id s = sid" using obj_flows(4) [OF sound [OF ok] s(1)] .
  have sh: "same_shape c c1" unfolding c1_def using s id by (intro same_shape_put) (auto simp: s1_def)
  have sh2: "same_shape c (put_stream (stream_cancel e s1) c1)"
    by (rule same_shape_put [OF sh, of _ s1]) (use id in \<open>simp_all add: c1_def s1_def\<close>)
  note ok1 = I_shape [OF sh ok] and ok2 = I_shape [OF sh2 ok]
  from w s have "c' = c1 \<or> c' = put_stream (stream_cancel e s1) c1
    \<or> (\<exists>y. stream_transition sid False (Frame_Type f) True (put_stream (stream_cancel e s1) c1) = Some (y, c'))"
    by (auto simp: stream_writeTo_def Let_def s1_def c1_def split: if_splits bind_splits)
  then show ?thesis using ok1 ok2 I_transition [OF _ ok2] by blast
qed

lemma loop_handle_ok: "I c \<Longrightarrow> loop_handle e c = Some (x, c') \<Longrightarrow> I c'"
  using handleErr_ok [of c e] by (auto simp: loop_handle_def)

lemma loop_end_ok: "I c \<Longrightarrow> loop_end c = Some (x, c') \<Longrightarrow> I c'"
  using conn_close_ok [of c] by (auto simp: loop_end_def)

lemma loop_checked:
  assumes "I c" "(if flush then loop_finished c else (False, c)) = (b, c')"
  shows "I c'"
  using assms by (auto split: if_splits intro: I_shape [OF loop_finished_shape])

lemma loop_written_ok:
  assumes ok: "I c" and w: "loop_written flush flushErr syn e c = Some (x, c')"
  shows "I c'"
proof -
  obtain b c1 where f: "(if flush then loop_finished c else (False, c)) = (b, c1)" by fastforce
  note ok1 = loop_checked [OF ok f]
  have ok2: "I (c1\<lparr>c_settingsCh := ss\<rparr>)" for ss by (rule I_shape [OF _ ok1]) simp
  from w f ok1 show ?thesis unfolding loop_written_def Let_def
    by (auto split: if_splits intro: loop_end_ok [OF ok1] loop_handle_ok [OF ok1] loop_handle_ok [OF ok2])
qed

lemma loop_nil_ok:
  assumes ok: "I c" and w: "loop_nil flush flushErr c = Some (x, c')"
  shows "I c'"
proof -
  obtain b c1 where f: "(if flush then loop_finished c else (False, c)) = (b, c1)" by fastforce
  note ok1 = loop_checked [OF ok f]
  from w f ok1 show ?thesis unfolding loop_nil_def
    by (auto split: if_splits intro: loop_end_ok [OF ok1] loop_handle_ok [OF ok1])
qed

lemma loop_frame_ok:
  assumes ok: "I c" and w: "loop_frame U ord flush flushErr f c = Some (x, c')"
  shows "I c'"
proof -
  have wr: "I (c\<lparr>c_writer := wr\<rparr>)" if "I c" for c wr by (rule I_shape [OF _ that]) simp
  have st: "I c1" if "applySettings False s c = Some (e, c1)" for s e c1
    by (rule I_shape [OF applySettings_shape [OF sound [OF ok] that] ok])
  from w show ?thesis
    by (cases f) (auto simp: loop_frame_def simp del: frameWriter_WriteFrame.simps split: bind_splits bool.splits option.splits if_splits
        dest!: st intro: loop_written_ok [OF wr] loop_handle_ok ok)
qed

lemma writeLoop_step_ok:
  assumes ok: "I c" and w: "writeLoop_step U ord flushErr c = Some (x, c')"
  shows "I c'"
proof (cases "queue_get (c_queue c)")
  case None
  with w ok show ?thesis by (auto simp: writeLoop_step_def)
next
  case (Some iq)
  obtain item q where iq: "iq = (item, q)" by fastforce
  obtain b c1 where r: "queue_refill (c\<lparr>c_queue := q\<rparr>) = (b, c1)" by fastforce
  have ok0: "I (c\<lparr>c_queue := q\<rparr>)" by (rule I_shape [OF _ ok]) simp
  note ok1 = I_shape [OF queue_refill_shape [OF r] ok0]
  from w Some iq r show ?thesis
    by (cases item) (auto simp: writeLoop_step_def split: bind_splits sent.splits
        intro: loop_nil_ok [OF ok1] loop_frame_ok [OF ok1] loop_written_ok [OF stream_writeTo_ok [OF ok1]] stream_writeTo_ok [OF ok1])
qed

lemma I_reader: "I c \<Longrightarrow> pending_ok r \<Longrightarrow> I (c\<lparr>c_reader := r\<rparr>)"
  by (rule I_shape [of c]) (simp_all add: same_shape_def)

lemma data_returnBytes_ok:
  assumes ok: "I c" and w: "data_returnBytes c = Some (e, c')"
  shows "I c'"
proof (cases "d_sawEOF (c_data c)")
  case True
  with w ok show ?thesis by (auto simp: data_returnBytes_def)
next
  case False
  define d where "d = (c_data c)\<lparr>d_sawEOF := True, d_processed := d_processed (c_data c) + uint (snd (r_payload (c_reader c)))\<rparr>"
  note eq = w [unfolded data_returnBytes_eq [OF False d_def]]
  from eq obtain s where s: "c_objs c (d_stream d) = Some s" by (cases "c_objs c (d_stream d)") auto
  from eq s obtain e1 c1 where r: "stream_return (d_processed d) s c = Some (e1, c1)" by (cases "stream_return (d_processed d) s c") auto
  have "same_shape c c1" by (rule stream_return_shape [OF r]) (use s obj_flows(4) [OF sound [OF ok] s] in simp)
  note ok1 = I_shape [OF this ok]
  have set: "I (c2\<lparr>c_data := x\<rparr>)" if "I c2" for c2 x by (rule I_shape [OF _ that]) simp
  show ?thesis
  proof (cases "e1 = None \<and> d_endStream d")
    case True
    with eq s r obtain st e2 c2 where "stream_transition (d_stream d) True FrameData True c1 = Some ((st, e2), c2)" "c' = c2\<lparr>c_data := d\<lparr>d_error := e2\<rparr>\<rparr>"
      by (cases "stream_transition (d_stream d) True FrameData True c1") auto
    then show ?thesis using set I_transition [OF _ ok1] by blast
  next
    case False
    with eq s r have "c' = c1\<lparr>c_data := d\<lparr>d_error := e1\<rparr>\<rparr>" by auto
    then show ?thesis using set [OF ok1] by simp
  qed
qed

lemma data_Read_ok:
  assumes ok: "I c" and w: "data_Read len c = Some (x, c')"
  shows "I c'"
proof -
  obtain bs e r where p: "framePayload_Read len (c_reader c) = (bs, e, r)" by (metis prod_cases3)
  let ?c = "c\<lparr>c_reader := r, c_data := (c_data c)\<lparr>d_processed := d_processed (c_data c) + int (length bs)\<rparr>\<rparr>"
  have "same_shape c ?c" using same_shape_reader [OF framePayload_Read_pending [OF p]] by simp
  then have "I ?c" using ok by (rule I_shape)
  with w p data_returnBytes_ok show ?thesis by (auto simp: data_Read_def Let_def split: if_splits bind_splits)
qed

lemma read_Data_ok:
  assumes ok: "I c" and w: "read_Data sid es n f c = Some (x, c')"
  shows "I c'"
proof (cases "Conn_stream c sid")
  case None
  with w show ?thesis using I_shape [OF discard_data_shape ok]
    by (auto simp: read_Data_def split: prod.splits option.splits)
next
  case (Some s0)
  with w obtain st e c1 where t: "stream_transition sid True FrameData False c = Some ((st, e), c1)"
    by (auto simp: read_Data_def split: bind_splits)
  note ok1 = I_transition [OF t ok]
  obtain s1 where s1: "c_objs c1 sid = Some s1"
    using Some I_transition_runs [OF ok, of sid s0 True FrameData False] t by (auto simp: Conn_stream_Some)
  have ok2: "I c2" if "stream_consume n s1 c1 = Some (r, c2)" for r c2
    by (rule I_shape [OF stream_consume_shape [OF sound [OF ok1] that s1] ok1])
  have ok3: "I c3" if "stream_consume n s1 c1 = Some (r, c2)" "return_refused e n sid c2 = Some (e', c3)" for r c2 e e' c3
    by (rule I_shape [OF return_refused_shape [OF sound [OF ok2 [OF that(1)]] that(2)] ok2 [OF that(1)]])
  have ok4: "I (c2\<lparr>c_data := d, c_lastData := b\<rparr>)" if "I c2" for c2 d b by (rule I_shape [OF _ that]) simp
  from w Some t s1 ok1 show ?thesis
    by (auto simp: read_Data_def split: option.splits if_splits bind_splits) (blast intro: ok2 ok3 ok4)+
qed

lemma read_Headers_ok:
  assumes ok: "I c" and w: "read_Headers sid es f c = Some (x, c')" and id: "low_id sid"
  shows "I c'"
proof -
  obtain e c1 where i: "(if Conn_stream c sid = None then idleStream False sid c else (None, c)) = (e, c1)" by fastforce
  have ok1: "I c1" using i idle_then(1) [OF ok id] ok by (auto split: if_splits)
  from w i ok1 show ?thesis
    by (auto simp: read_Headers_def split: option.splits bind_splits dest: I_transition [OF _ ok1])
qed

lemma read_RSTStream_ok: "I c \<Longrightarrow> read_RSTStream sid f c = Some (x, c') \<Longrightarrow> I c'"
  by (auto simp: read_RSTStream_def split: option.splits bind_splits dest: I_transition)

lemma read_Settings_ok:
  assumes ok: "I c" and w: "read_Settings ack s c = Some (e, c')"
  shows "I c'"
proof -
  have 1: "I (c\<lparr>c_settingsCh := ss\<rparr>)" for ss by (rule I_shape [OF _ ok]) simp
  have 2: "I (add_frame i b c)" for i b by (rule I_shape [OF _ ok]) simp
  from w show ?thesis using ok 2 I_shape [OF applySettings_shape [OF sound [OF 1]] 1]
    by (auto simp: read_Settings_def split: list.splits if_splits)
qed

lemma read_PushPromise_ok:
  assumes ok: "I c" and w: "read_PushPromise sid promised c = Some (e, c')" and id: "low_id promised"
  shows "I c'"
proof -
  obtain e1 c1 where i: "idleStream True promised c = (e1, c1)" by fastforce
  note ok1 = idle_then(1) [OF ok id i]
  from w i ok ok1 show ?thesis
    by (auto simp: read_PushPromise_def split: option.splits if_splits bind_splits dest: I_transition [OF _ ok1])
qed

lemma read_GoAway_ok:
  assumes "I c"
  shows "\<exists>c'. read_GoAway lastID code dbg c = Some (None, c') \<and> I c'"
proof -
  let ?c = "set_received (lastID, code, dbg) c"
  let ?vs = "filter (\<lambda>sid. sid > lastID \<and> connState_validStreamID (c_local ?c) sid) (c_streams ?c)"
  have ok: "I ?c" by (rule I_received [OF assms])
  have "\<forall>sid\<in>set ?vs. c_objs ?c sid \<noteq> None" using table_objs [OF ok] by auto
  from I_closes [OF ok this] obtain c' where "close_streams ?vs ?c = Some c'" "I c'" by blast
  then show ?thesis using I_shape [of c' "Conn_Flush c'"] by (simp add: read_GoAway_def Let_def set_received_def)
qed

lemma read_frame_ok:
  assumes ok: "I c" and w: "read_frame f c = Some (x, c')" and v: "frame_valid mx f"
  shows "I c'"
proof -
  have 1: "I (add_frame i b c)" for i b by (rule I_shape [OF _ ok]) simp
  have 2: "I c''" if "read_GoAway a b d c = Some (e, c'')" for a b d e c'' using read_GoAway_ok [OF ok, of a b d] that by auto
  from w v ok show ?thesis
    by (cases f) (auto simp: read_frame_def exit_with_def intro: 1 2 read_Data_ok [OF ok] read_Headers_ok [OF ok] read_RSTStream_ok [OF ok]
        read_Settings_ok [OF ok] read_PushPromise_ok [OF ok] I_shape [OF read_WindowUpdate_shape [OF sound [OF ok]] ok] valid_low_id)
qed

lemma conn_pass_ok:
  assumes ok: "I c" and w: "conn_pass c = Some (x, c')"
  shows "I c'"
proof -
  from w obtain res r where r: "frameReader_ReadFrame (c_reader c) = Some (res, r)"
    and x: "(case res of Inl e \<Rightarrow> Some (Exit None (Some e), c\<lparr>c_reader := r\<rparr>)
      | Inr f \<Rightarrow> if after_GoAway f (c\<lparr>c_reader := r\<rparr>) then Some (drop_frame f (c\<lparr>c_reader := r\<rparr>)) else read_frame f (c\<lparr>c_reader := r\<rparr>)) = Some (x, c')"
    by (auto simp: conn_pass_def Let_def split: bind_splits)
  note v = ReadFrame_ok [OF conn_okD(9) [OF sound [OF ok]] r]
  then have ok1: "I (c\<lparr>c_reader := r\<rparr>)" by (intro I_reader [OF ok]) simp
  show ?thesis
  proof (cases res)
    case (Inl e)
    with x ok1 show ?thesis by auto
  next
    case (Inr f)
    show ?thesis
    proof (cases "after_GoAway f (c\<lparr>c_reader := r\<rparr>)")
      case True
      with x Inr drop_frame_shape [of "c\<lparr>c_reader := r\<rparr>" f] show ?thesis by (auto intro: I_shape [OF _ ok1])
    next
      case False
      with x Inr v show ?thesis by (auto intro: read_frame_ok [OF ok1])
    qed
  qed
qed

lemma read_exit_ok:
  assumes ok: "I c"
  shows "\<exists>x c'. read_exit f e c = Some (x, c') \<and> I c'"
proof -
  obtain e1 c1 where cl: "conn_close c = Some (e1, c1)" "I c1" using conn_close_ok [OF ok] by blast
  have h: "\<exists>c'. handleErr e c = Some c' \<and> I c'" for e by (rule handleErr_ok [OF ok])
  show ?thesis
    using ok cl h [of e] h [of "Some ErrUnexpectedEOF"]
    by (cases e; cases "the e") (auto simp: read_exit_def Let_def)
qed

lemma read_loop_ok:
  assumes "read_loop c = Some y" "I c"
  shows "I (snd y)"
  using assms(2)
proof (induction rule: read_loop.raw_induct [OF _ assms(1), consumes 0, case_names 1])
  case (1 loop c y)
  from 1(2) obtain nx c1 where p: "conn_pass c = Some (nx, c1)" by (auto split: bind_splits)
  note ok1 = conn_pass_ok [OF 1(3) p]
  show ?case
  proof (cases nx)
    case Again
    with 1 p ok1 show ?thesis by auto
  next
    case (Exit f e)
    obtain x c2 where e: "read_exit f e c1 = Some (x, c2)" "I c2" using read_exit_ok [OF ok1] by blast
    with 1 p Exit show ?thesis by (cases x) auto
  qed
qed

lemma readFrame_ok:
  assumes ok: "I c" and w: "readFrame c = Some (x, c')"
  shows "I c'"
proof (cases "c_lastData c")
  case False
  with w read_loop_ok [of c "(x, c')"] ok show ?thesis by (simp add: readFrame_def)
next
  case True
  with w obtain e c1 where d: "data_returnBytes c = Some (e, c1)" by (auto simp: readFrame_def split: bind_splits)
  have ok1: "I (c1\<lparr>c_lastData := False\<rparr>)" by (rule I_shape [OF _ data_returnBytes_ok [OF ok d]]) simp
  show ?thesis
  proof (cases e)
    case None
    with w True d read_loop_ok [of "c1\<lparr>c_lastData := False\<rparr>" "(x, c')"] ok1 show ?thesis by (simp add: readFrame_def Let_def)
  next
    case (Some e0)
    obtain y c2 where e: "read_exit None (Some e0) (c1\<lparr>c_lastData := False\<rparr>) = Some (y, c2)" "I c2"
      using read_exit_ok [OF ok1] by blast
    with w True d Some read_loop_ok [of c2 "(x, c')"] show ?thesis by (cases y) (auto simp: readFrame_def Let_def)
  qed
qed

end

end
