(* ===== verification/H2_ConnRun.thy ===== *)
theory H2_ConnRun
  imports H2_ConnSafe
begin

text \<open>
  Runs of a connection: the calls of the application, the write loop, the reader and the timers
  interleave in any order.  The invariant holds in every state of a run from a new connection,
  and what a connection has fixed it does not take back: streams only move forward, identifiers
  are not used again, and GOAWAY limits only go down.
\<close>

section \<open>Steps\<close>

text \<open>
  The parameter \<open>app\<close> says which frames the application writes.  The code puts no condition on them,
  so that its runs are those with \<open>\<lambda>_. True\<close>; the results on runs below are for \<open>frame_ids_ok\<close>,
  applications that keep to the stream identifiers of HTTP/2, which are below 2^31.  A larger one
  makes the counter of \<open>idleStream\<close> wrap around, see \<open>wrapped_open\<close> in \<open>H2_ConnHazards\<close>.
\<close>

inductive conn_step :: "(Frame \<Rightarrow> bool) \<Rightarrow> conn \<Rightarrow> conn \<Rightarrow> bool" for app where
  write_a_frame: "writeFrame b f c = Some (x, c') \<Longrightarrow> app f \<Longrightarrow> conn_step app c c'"
| stream_credit: "write_stream_credit sid c = Some (x, c') \<Longrightarrow> conn_step app c c'"
| conn_credit: "write_conn_credit sid c = Some (x, c') \<Longrightarrow> conn_step app c c'"
| abort_write: "write_abort b sid c = Some (x, c') \<Longrightarrow> conn_step app c c'"
| resume_write: "write_resume sid c = Some (x, c') \<Longrightarrow> conn_step app c c'"
| loop_once: "writeLoop_step U ord flushErr c = Some (x, c') \<Longrightarrow> conn_step app c c'"
| flush_queue: "conn_step app c (Conn_Flush c)"
| read_pass: "conn_pass c = Some (x, c') \<Longrightarrow> conn_step app c c'"
| exit_read: "read_exit f e c = Some (x, c') \<Longrightarrow> conn_step app c c'"
| read_a_frame: "readFrame c = Some (x, c') \<Longrightarrow> conn_step app c c'"
| read_data: "data_Read len c = Some (x, c') \<Longrightarrow> conn_step app c c'"
| next_id: "NextStreamID_token c = Some (x, c') \<Longrightarrow> conn_step app c c'"
| next_timer: "conn_step app c (NextStreamID_timer c)"
| handshaken: "conn_step app c (c\<lparr>c_handshake := True\<rparr>)"
| begin_close: "CloseTimeout timeout c = Some (x, c') \<Longrightarrow> conn_step app c c'"
| expire: "CloseTimeout_expired c = Some (x, c') \<Longrightarrow> conn_step app c c'"

inductive_cases conn_stepE: "conn_step app c c'"

context conn_property
begin

lemma step_keeps:
  assumes "I c" "conn_step frame_ids_ok c c'"
  shows "I c'"
proof -
  have sh: "I c''" if "same_shape c c''" for c'' by (rule I_shape [OF that assms(1)])
  note s = sound [OF assms(1)]
  have 1: "I c''" if "read_exit f e c = Some (x, c'')" for f e x c'' using read_exit_ok [OF assms(1), of f e] that by auto
  have 2: "I c''" if "CloseTimeout timeout c = Some (x, c'')" for timeout x c'' using CloseTimeout_ok [OF assms(1), of timeout] that by auto
  have 3: "I c''" if "CloseTimeout_expired c = Some (x, c'')" for x c'' using CloseTimeout_expired_ok [OF assms(1)] that by auto
  have 4: "I c''" if "NextStreamID_token c = Some (x, c'')" for x c''
    by (rule sh) (use that in \<open>auto simp: NextStreamID_token_def Let_def split: if_splits\<close>)
  have 5: "I (NextStreamID_timer c)" "I (Conn_Flush c)" "I (c\<lparr>c_handshake := True\<rparr>)" by (rule sh; simp add: NextStreamID_timer_def)+
  from assms(2) show ?thesis
    by (cases rule: conn_step.cases)
       (auto intro: writeFrame_ok [OF assms(1)] sh write_stream_credit_shape [OF s] write_conn_credit_shape [OF s] write_abort_shape [OF s]
        write_resume_shape [OF s] writeLoop_step_ok [OF assms(1)] conn_pass_ok [OF assms(1)] readFrame_ok [OF assms(1)] data_Read_ok [OF assms(1)] 1 2 3 4 5)
qed

end

section \<open>The invariant\<close>

interpretation sound_conn: conn_property conn_ok
proof
  show "conn_ok c'" if "conn_ok c" "c_objs c sid = Some s" "life_step (s_state s) to"
    "compareAndSwapState sid (s_state s) to c = Some (True, c')" for c sid s to c'
    using cas_ok [OF that(1-3)] that(4) by (metis option.inject prod.inject)
  show "conn_ok c'" if "conn_ok c" "low_id sid" "idleStream loc sid c = (None, c')" for c sid loc c'
    by (rule idle_conn_ok(1) [OF that])
qed (simp_all add: conn_ok_shape conn_ok_goAway)

interpretation conn_runs: step_invariant "conn_step frame_ids_ok" conn_ok
  by unfold_locales (rule sound_conn.step_keeps)

lemma newConn_ok: "conn_ok (newConn server n inp inpEnd fault grow rwcErr)"
  by (rule conn_okI) (auto simp: newConn_def new_connState_def Let_def side_def active_ids_def ids_ok_def pending_ok_def newFrameReader_def)

section \<open>What a connection does not take back\<close>

definition evolves :: "conn \<Rightarrow> conn \<Rightarrow> bool" where
  "evolves c c' \<longleftrightarrow>
     (\<forall>sid s. c_objs c sid = Some s \<longrightarrow> (\<exists>s'. c_objs c' sid = Some s' \<and> s_state s \<le> s_state s'))
     \<and> (\<forall>sid. c_objs c sid = None \<longrightarrow> c_objs c' sid \<noteq> None \<longrightarrow>
          cs_goAway (c_local c) = None \<and> cs_nextStreamID (side (stream_local c sid) c) \<le> sid)
     \<and> (\<forall>loc. cs_server (side loc c') = cs_server (side loc c)
          \<and> cs_nextStreamID (side loc c) \<le> cs_nextStreamID (side loc c') \<and> cs_lastStreamID (side loc c) \<le> cs_lastStreamID (side loc c'))
     \<and> (\<forall>g. cs_goAway (c_remote c) = Some g \<longrightarrow> (\<exists>g'. cs_goAway (c_remote c') = Some g' \<and> fst g' \<le> fst g))
     \<and> (cs_goAway (c_local c) \<noteq> None \<longrightarrow> cs_goAway (c_local c') \<noteq> None)"

lemma evolves_refl: "evolves c c"
  by (simp add: evolves_def)

lemma evolvesI:
  assumes "\<And>sid s. c_objs c sid = Some s \<Longrightarrow> \<exists>s'. c_objs c' sid = Some s' \<and> s_state s \<le> s_state s'"
    and "\<And>sid. c_objs c sid = None \<Longrightarrow> c_objs c' sid \<noteq> None \<Longrightarrow>
      cs_goAway (c_local c) = None \<and> cs_nextStreamID (side (stream_local c sid) c) \<le> sid"
    and "\<And>loc. cs_server (side loc c') = cs_server (side loc c)"
    and "\<And>loc. cs_nextStreamID (side loc c) \<le> cs_nextStreamID (side loc c')" "\<And>loc. cs_lastStreamID (side loc c) \<le> cs_lastStreamID (side loc c')"
    and "\<And>g. cs_goAway (c_remote c) = Some g \<Longrightarrow> \<exists>g'. cs_goAway (c_remote c') = Some g' \<and> fst g' \<le> fst g"
    and "cs_goAway (c_local c) \<noteq> None \<Longrightarrow> cs_goAway (c_local c') \<noteq> None"
  shows "evolves c c'"
  unfolding evolves_def using assms by blast

lemma evolvesD:
  assumes "evolves c c'"
  shows "c_objs c sid = Some s \<Longrightarrow> \<exists>s'. c_objs c' sid = Some s' \<and> s_state s \<le> s_state s'"
    and "c_objs c sid = None \<Longrightarrow> c_objs c' sid \<noteq> None \<Longrightarrow> cs_goAway (c_local c) = None \<and> cs_nextStreamID (side (stream_local c sid) c) \<le> sid"
    and "cs_server (side loc c') = cs_server (side loc c)"
    and "cs_nextStreamID (side loc c) \<le> cs_nextStreamID (side loc c')" "cs_lastStreamID (side loc c) \<le> cs_lastStreamID (side loc c')"
    and "cs_goAway (c_remote c) = Some g \<Longrightarrow> \<exists>g'. cs_goAway (c_remote c') = Some g' \<and> fst g' \<le> fst g"
    and "cs_goAway (c_local c) \<noteq> None \<Longrightarrow> cs_goAway (c_local c') \<noteq> None"
    and "stream_local c' sid = stream_local c sid"
proof -
  note e = assms [unfolded evolves_def]
  note e1 = conjunct1 [OF e] and r1 = conjunct2 [OF e]
  note e2 = conjunct1 [OF r1] and r2 = conjunct2 [OF r1]
  note e3 = conjunct1 [OF r2] and r3 = conjunct2 [OF r2]
  note e4 = conjunct1 [OF r3] and e5 = conjunct2 [OF r3]
  show "c_objs c sid = Some s \<Longrightarrow> \<exists>s'. c_objs c' sid = Some s' \<and> s_state s \<le> s_state s'" using e1 by blast
  show "c_objs c sid = None \<Longrightarrow> c_objs c' sid \<noteq> None \<Longrightarrow> cs_goAway (c_local c) = None \<and> cs_nextStreamID (side (stream_local c sid) c) \<le> sid"
    using e2 by blast
  show "cs_server (side loc c') = cs_server (side loc c)" "cs_nextStreamID (side loc c) \<le> cs_nextStreamID (side loc c')"
    "cs_lastStreamID (side loc c) \<le> cs_lastStreamID (side loc c')" using e3 by blast+
  show "cs_goAway (c_remote c) = Some g \<Longrightarrow> \<exists>g'. cs_goAway (c_remote c') = Some g' \<and> fst g' \<le> fst g" using e4 by blast
  show "cs_goAway (c_local c) \<noteq> None \<Longrightarrow> cs_goAway (c_local c') \<noteq> None" using e5 by blast
  have "cs_server (side True c') = cs_server (side True c)" using e3 by blast
  then show "stream_local c' sid = stream_local c sid" by (simp add: stream_local_def side_def)
qed

lemma evolves_trans:
  assumes 1: "evolves c c'" and 2: "evolves c' c''"
  shows "evolves c c''"
proof (rule evolvesI)
  show "\<exists>s'. c_objs c'' sid = Some s' \<and> s_state s \<le> s_state s'" if s: "c_objs c sid = Some s" for sid s
  proof -
    obtain s1 where s1: "c_objs c' sid = Some s1" "s_state s \<le> s_state s1" using evolvesD(1) [OF 1 s] by blast
    with evolvesD(1) [OF 2 s1(1)] show ?thesis by (blast intro: order_trans)
  qed
  show "cs_goAway (c_local c) = None \<and> cs_nextStreamID (side (stream_local c sid) c) \<le> sid"
    if n: "c_objs c sid = None" "c_objs c'' sid \<noteq> None" for sid
  proof (cases "c_objs c' sid")
    case None
    have "cs_goAway (c_local c') = None" "cs_nextStreamID (side (stream_local c sid) c') \<le> sid"
      using evolvesD(2) [OF 2 None n(2)] evolvesD(8) [OF 1, of sid] by simp_all
    with evolvesD(4) [OF 1, of "stream_local c sid"] evolvesD(7) [OF 1] show ?thesis by (blast intro: order_trans)
  next
    case (Some s)
    with evolvesD(2) [OF 1 n(1)] show ?thesis by simp
  qed
  show "\<exists>g'. cs_goAway (c_remote c'') = Some g' \<and> fst g' \<le> fst g" if g: "cs_goAway (c_remote c) = Some g" for g
  proof -
    obtain g1 where g1: "cs_goAway (c_remote c') = Some g1" "fst g1 \<le> fst g" using evolvesD(6) [OF 1 g] by blast
    with evolvesD(6) [OF 2 g1(1)] show ?thesis by (blast intro: order_trans)
  qed
  show "cs_server (side loc c'') = cs_server (side loc c)" for loc using evolvesD(3) [OF 1, of loc] evolvesD(3) [OF 2, of loc] by simp
  show "cs_nextStreamID (side loc c) \<le> cs_nextStreamID (side loc c'')" for loc
    by (rule order_trans [OF evolvesD(4) [OF 1] evolvesD(4) [OF 2]])
  show "cs_lastStreamID (side loc c) \<le> cs_lastStreamID (side loc c'')" for loc
    by (rule order_trans [OF evolvesD(5) [OF 1] evolvesD(5) [OF 2]])
  show "cs_goAway (c_local c'') \<noteq> None" if "cs_goAway (c_local c) \<noteq> None"
    by (rule evolvesD(7) [OF 2 evolvesD(7) [OF 1 that]])
qed

lemma life_step_mono: "life_step from to \<Longrightarrow> from \<le> to"
  by (cases "from"; cases to) (auto simp: life_step_def active_def less_eq_StreamState_def)

lemma evolves_shape:
  assumes "same_shape c c'"
  shows "evolves c c'"
proof (rule evolvesI)
  show "\<exists>s'. c_objs c' sid = Some s' \<and> s_state s \<le> s_state s'" if s: "c_objs c sid = Some s" for sid s
    using same_shape_obj' [OF assms s] by (metis order_refl stream_shape_eqD(2))
  have sd: "cs_goAway (side loc c') = cs_goAway (side loc c)" for loc using same_shape_sides(7) [OF assms] .
  from sd [of False] show "\<exists>g'. cs_goAway (c_remote c') = Some g' \<and> fst g' \<le> fst g" if "cs_goAway (c_remote c) = Some g" for g
    using that by (simp add: side_def)
  from sd [of True] show "cs_goAway (c_local c') \<noteq> None" if "cs_goAway (c_local c) \<noteq> None" using that by (simp add: side_def)
qed (use same_shape_sides [OF assms] same_shape_dom [OF assms] in simp_all)

lemma side_rest_eq:
  "side_rest s' = side_rest s \<longleftrightarrow> cs_server s' = cs_server s \<and> cs_nextStreamID s' = cs_nextStreamID s
     \<and> cs_lastStreamID s' = cs_lastStreamID s \<and> cs_settings s' = cs_settings s \<and> cs_cap s' = cs_cap s \<and> cs_goAway s' = cs_goAway s"
  by (cases s; cases s') (auto simp: side_rest_def)

lemma touches_sides:
  assumes "touches S c c'"
  shows "cs_server (side loc c') = cs_server (side loc c)" "cs_nextStreamID (side loc c') = cs_nextStreamID (side loc c)"
    "cs_lastStreamID (side loc c') = cs_lastStreamID (side loc c)" "cs_goAway (side loc c') = cs_goAway (side loc c)"
    "cs_settings (side loc c') = cs_settings (side loc c)"
  using assms by (simp_all add: touches_def side_rest_eq)

lemma touches_other: "touches S c c' \<Longrightarrow> x \<notin> S \<Longrightarrow> c_objs c' x = c_objs c x"
  by (simp add: touches_def)

lemma evolves_state:
  assumes "conn_ok c" "c_objs c sid = Some s" "life_step (s_state s) to" "compareAndSwapState sid (s_state s) to c = Some (True, c')"
  shows "evolves c c'"
proof (rule cas_ok [OF assms(1-3)])
  fix c1 s1 assume c1: "compareAndSwapState sid (s_state s) to c = Some (True, c1)" "c_objs c1 sid = Some s1" "s_state s1 = to" "touches {sid} c c1"
  then have [simp]: "c1 = c'" using assms(4) by simp
  have sd: "cs_goAway (side loc c') = cs_goAway (side loc c)" for loc using touches_sides(4) c1(4) by simp
  show ?thesis
  proof (rule evolvesI)
    show "\<exists>s'. c_objs c' x = Some s' \<and> s_state y \<le> s_state s'" if "c_objs c x = Some y" for x y
      using that c1 assms(2) life_step_mono [OF assms(3)] touches_other [OF c1(4), of x] by (cases "x = sid") auto
    show "cs_goAway (c_local c) = None \<and> cs_nextStreamID (side (stream_local c x) c) \<le> x" if "c_objs c x = None" "c_objs c' x \<noteq> None" for x
      using that assms(2) touches_other [OF c1(4), of x] by (cases "x = sid") auto
    from sd [of False] show "\<exists>g'. cs_goAway (c_remote c') = Some g' \<and> fst g' \<le> fst g" if "cs_goAway (c_remote c) = Some g" for g
      using that by (simp add: side_def)
    from sd [of True] show "cs_goAway (c_local c') \<noteq> None" if "cs_goAway (c_local c) \<noteq> None" using that by (simp add: side_def)
  qed (use touches_sides [OF c1(4)] in simp_all)
qed

lemma evolves_open:
  assumes "conn_ok c" "low_id sid" "idleStream loc sid c = (None, c')"
  shows "evolves c c'"
proof -
  note i = idle_conn_ok [OF assms]
  have o: "cs_goAway (c_local c) = None" "connState_validStreamID (side loc c) sid" "cs_nextStreamID (side loc c) \<le> sid"
    and c': "c' = set_side loc ((side loc c)\<lparr>cs_nextStreamID := sid + 2, cs_lastStreamID := sid\<rparr>) (put_stream (new_stream sid) c)"
    using idleStream_cases [of loc sid c] assms(3) by auto
  have sd: "side l c' = (if l = loc then (side loc c)\<lparr>cs_nextStreamID := sid + 2, cs_lastStreamID := sid\<rparr> else side l c)" for l
    by (auto simp: c' side_def set_side_def put_stream_def)
  have u: "sid \<le> sid + 2" using low_id_unat [OF assms(2)] by (simp add: word_le_nat_alt unat_word_ariths)
  have l: "cs_lastStreamID (side loc c) < cs_nextStreamID (side loc c)" using conn_okD(8) [OF assms(1), of loc] by (simp add: ids_ok_def)
  show ?thesis
  proof (rule evolvesI)
    show "\<exists>s'. c_objs c' x = Some s' \<and> s_state s \<le> s_state s'" if "c_objs c x = Some s" for x s
      using that i(3) i(4) [of x] by (cases "x = sid") auto
    show "cs_goAway (c_local c) = None \<and> cs_nextStreamID (side (stream_local c x) c) \<le> x" if "c_objs c x = None" "c_objs c' x \<noteq> None" for x
      using that i(4) [of x] o valid_side(1) [OF assms(1) o(2)] by (cases "x = sid") auto
    show "cs_nextStreamID (side l c) \<le> cs_nextStreamID (side l c')" for l using o(3) u by (auto simp: sd)
    show "cs_lastStreamID (side l c) \<le> cs_lastStreamID (side l c')" for l using o(3) l by (auto simp: sd)
    show "cs_server (side l c') = cs_server (side l c)" for l by (simp add: sd)
    show "\<exists>g'. cs_goAway (c_remote c') = Some g' \<and> fst g' \<le> fst g" if "cs_goAway (c_remote c) = Some g" for g
      by (rule exI [of _ g]) (use that in \<open>simp add: c' set_side_def side_def\<close>)
  qed (simp_all add: c' set_side_def side_def)
qed

lemma evolves_sent:
  assumes "go_away_limit lastID c = None"
  shows "evolves c (set_sent (lastID, code, dbg) c)"
  by (rule evolvesI) (use assms in \<open>auto simp: set_sent_def side_def go_away_limit_def split: if_splits\<close>)

lemma evolves_received: "evolves c (set_received g c)"
  by (rule evolvesI) (auto simp: set_received_def side_def)

interpretation evolution: conn_property "\<lambda>c'. conn_ok c' \<and> evolves c c'" for c
proof
  fix c1 c2 sid s to loc lastID code dbg g
  show "conn_ok c1" if "conn_ok c1 \<and> evolves c c1" using that by simp
  show "conn_ok c2 \<and> evolves c c2" if "same_shape c1 c2" "conn_ok c1 \<and> evolves c c1"
    using that conn_ok_shape evolves_shape evolves_trans by blast
  show "conn_ok c2 \<and> evolves c c2"
    if "conn_ok c1 \<and> evolves c c1" "c_objs c1 sid = Some s" "life_step (s_state s) to" "compareAndSwapState sid (s_state s) to c1 = Some (True, c2)"
    using that sound_conn.I_state evolves_state evolves_trans by blast
  show "conn_ok c2 \<and> evolves c c2" if "conn_ok c1 \<and> evolves c c1" "low_id sid" "idleStream loc sid c1 = (None, c2)"
    using that idle_conn_ok(1) evolves_open evolves_trans by blast
  show "conn_ok (set_sent (lastID, code, dbg) c1) \<and> evolves c (set_sent (lastID, code, dbg) c1)"
    if "conn_ok c1 \<and> evolves c c1" "go_away_limit lastID c1 = None"
    using that conn_ok_goAway(1) evolves_sent evolves_trans by blast
  show "conn_ok (set_received g c1) \<and> evolves c (set_received g c1)" if "conn_ok c1 \<and> evolves c c1"
    using that conn_ok_goAway(2) evolves_received evolves_trans by blast
qed

text \<open>The two together, over a run.\<close>

lemma run_evolves:
  assumes "(conn_step frame_ids_ok)\<^sup>*\<^sup>* c c'" "conn_ok c"
  shows "conn_ok c' \<and> evolves c c'"
  using assms(1)
proof (induction rule: rtranclp_induct)
  case base
  show ?case using assms(2) evolves_refl by simp
next
  case (step c1 c2)
  then show ?case using evolution.step_keeps by blast
qed

end
