(* ===== verification/H2_ConnSettings.thy ===== *)
theory H2_ConnSettings
  imports H2_ConnRun
begin

text \<open>
  What \<open>applySettings\<close> does when it succeeds: the stored settings are the old ones overridden by
  the new, and the limits of the reader or the writer follow them.
\<close>

definition known_setting :: "SettingID \<Rightarrow> bool" where
  "known_setting i \<longleftrightarrow> i \<in> {SettingHeaderTableSize, SettingEnablePush, SettingMaxConcurrentStreams, SettingInitialWindowSize,
     SettingMaxFrameSize, SettingMaxHeaderListSize}"

definition override :: "Settings \<Rightarrow> (SettingID \<Rightarrow> u32 option) \<Rightarrow> SettingID \<Rightarrow> u32 option" where
  "override new old i = (if known_setting i \<and> Settings_value new i \<noteq> None then Settings_value new i else old i)"

text \<open>The limits of the reader or of the writer that settings change besides the header tables.\<close>

record limits =
  l_maxFrameSize :: u32
  l_maxHeaderListSize :: u32

definition side_limits :: "bool \<Rightarrow> conn \<Rightarrow> limits" where
  "side_limits loc c =
     (if loc then \<lparr>l_maxFrameSize = r_maxFrameSize (c_reader c), l_maxHeaderListSize = r_maxHeaderListSize (c_reader c)\<rparr>
      else \<lparr>l_maxFrameSize = w_maxFrameSize (c_writer c), l_maxHeaderListSize = w_maxHeaderListSize (c_writer c)\<rparr>)"

definition override_limits :: "Settings \<Rightarrow> limits \<Rightarrow> limits" where
  "override_limits new l =
     \<lparr>l_maxFrameSize = (case Settings_value new SettingMaxFrameSize of Some v \<Rightarrow> v | None \<Rightarrow> l_maxFrameSize l),
      l_maxHeaderListSize = (case Settings_value new SettingMaxHeaderListSize of Some v \<Rightarrow> v | None \<Rightarrow> l_maxHeaderListSize l)\<rparr>"

section \<open>The loops over the table\<close>

lemma recv_window_loop_io:
  "recv_window_loop delta sids errs c = Some (x, c') \<Longrightarrow> c_reader c' = c_reader c \<and> c_writer c' = c_writer c"
proof (induction sids arbitrary: errs c)
  case (Cons sid sids)
  then obtain s where s: "c_objs c sid = Some s" by (auto split: bind_splits)
  show ?case
  proof (cases "readable (s_state s)")
    case True
    with Cons.prems s obtain f where f: "s_recvFlow s = Some f" by (auto split: bind_splits)
    obtain e f' where i: "flow_incrementInitialWindow (s_id s) f delta = (e, f')" by fastforce
    from Cons.prems True s f i Cons.IH show ?thesis by (fastforce simp: put_stream_def)
  next
    case False
    with Cons s show ?thesis by simp
  qed
qed simp

lemma send_window_loop_io:
  "send_window_loop delta sids errs c = Some (x, c') \<Longrightarrow> c_reader c' = c_reader c \<and> c_writer c' = c_writer c"
proof (induction sids arbitrary: errs c)
  case (Cons sid sids)
  then obtain s where s: "c_objs c sid = Some s" by (auto split: bind_splits)
  show ?case
  proof (cases "writable (s_state s)")
    case True
    with Cons.prems s obtain f where f: "s_sendFlow s = Some f" by (auto split: bind_splits)
    obtain e f' where i: "remote_incrementInitialWindow (s_id s) f delta = (e, f')" by fastforce
    show ?thesis
    proof (cases e)
      case None
      with Cons.prems True s f i Cons.IH show ?thesis by (fastforce simp: put_stream_def Let_def)
    next
      case (Some e0)
      show ?thesis
      proof (cases "s_id s = 0")
        case True
        with Cons.prems \<open>writable (s_state s)\<close> s f i Some show ?thesis by (auto simp: put_stream_def Let_def)
      next
        case False
        with Cons.prems \<open>writable (s_state s)\<close> s f i Some obtain se where
          "send_window_loop delta sids (errs @ [se]) (put_stream (s\<lparr>s_sendFlow := Some f'\<rparr>) c) = Some (x, c')"
          by (auto simp: Let_def split: bind_splits)
        from Cons.IH [OF this] show ?thesis by (simp add: put_stream_def)
      qed
    qed
  next
    case False
    with Cons s show ?thesis by simp
  qed
qed simp

lemma set_windows_io:
  "setInitialRecvWindow d c = Some (e, c') \<Longrightarrow> c_reader c' = c_reader c \<and> c_writer c' = c_writer c"
  "setInitialSendWindow d c = Some (e, c') \<Longrightarrow> c_reader c' = c_reader c \<and> c_writer c' = c_writer c"
  by (auto simp: setInitialRecvWindow_def setInitialSendWindow_def split: if_splits bind_splits dest: recv_window_loop_io send_window_loop_io)

section \<open>One setting\<close>

lemma side_limits_io: "c_reader c' = c_reader c \<Longrightarrow> c_writer c' = c_writer c \<Longrightarrow> side_limits loc c' = side_limits loc c"
  by (simp add: side_limits_def)

lemma apply_setting_effect:
  assumes "apply_setting loc sl x c = Some ((None, store), c')"
  shows "store = known_setting (set_ID x) \<and> side_limits loc c' = override_limits [x] (side_limits loc c)
    \<and> side_limits (\<not> loc) c' = side_limits (\<not> loc) c"
proof (cases "set_ID x = SettingInitialWindowSize")
  case True
  then have "store" "c_reader c' = c_reader c \<and> c_writer c' = c_writer c"
    using assms set_windows_io by (auto simp: apply_setting_def Let_def split: bind_splits if_splits)
  with True side_limits_io [of c' c] show ?thesis by (simp add: known_setting_def override_limits_def)
next
  case False
  then show ?thesis using assms
    by (auto simp: apply_setting_def Let_def known_setting_def override_limits_def side_limits_def split: bind_splits if_splits)
qed

lemma slice_SetValue_cur:
  "setting_valid (set_ID x) (set_Value x) \<Longrightarrow> sl_cur (slice_SetValue grow n x sl) = Settings_store (sl_cur sl) (set_ID x) (set_Value x)"
  by (simp add: slice_SetValue_def Settings_SetValue_def Let_def)

section \<open>All of them\<close>

lemma Settings_value_absent: "i \<notin> set_ID ` set s \<Longrightarrow> Settings_value s i = None"
  by (induction s) auto

lemma override_Cons:
  "set_ID x \<notin> set_ID ` set xs \<Longrightarrow> override xs (override [x] old) = override (x # xs) old"
  using Settings_value_absent [of "set_ID x" xs] by (auto simp: override_def fun_eq_iff)

lemma override_limits_Cons:
  "set_ID x \<notin> set_ID ` set xs \<Longrightarrow> override_limits xs (override_limits [x] l) = override_limits (x # xs) l"
  using Settings_value_absent [of "set_ID x" xs] by (auto simp: override_limits_def split: option.split)

lemma override_store:
  "(if known_setting (set_ID x) then Settings_value (Settings_store s (set_ID x) (set_Value x)) else Settings_value s) = override [x] (Settings_value s)"
  by (auto simp: override_def fun_eq_iff Settings_value_store)

lemma apply_loop_effect:
  assumes "apply_loop loc n xs sl c = Some ((None, sl'), c')" "settings_ok xs"
  shows "Settings_value (sl_cur sl') = override xs (Settings_value (sl_cur sl))
    \<and> side_limits loc c' = override_limits xs (side_limits loc c) \<and> side_limits (\<not> loc) c' = side_limits (\<not> loc) c"
  using assms
proof (induction xs arbitrary: sl c)
  case Nil
  then show ?case by (auto simp: override_def override_limits_def)
next
  case (Cons x xs)
  from Cons.prems(1) obtain e st c1 where a: "apply_setting loc sl x c = Some ((e, st), c1)"
    and r: "(case e of Some e \<Rightarrow> Some ((Some e, sl), c1)
      | None \<Rightarrow> apply_loop loc n xs (if st then slice_SetValue (c_grow c1) n x sl else sl) c1) = Some ((None, sl'), c')"
    by (auto split: bind_splits)
  then have e: "e = None" by (auto split: option.splits)
  note ef = apply_setting_effect [OF a [unfolded e]]
  have d: "settings_ok xs" "set_ID x \<notin> set_ID ` set xs" "setting_valid (set_ID x) (set_Value x)"
    using Cons.prems(2) by (auto simp: settings_ok_def)
  have "Settings_value (sl_cur (if st then slice_SetValue (c_grow c1) n x sl else sl)) = override [x] (Settings_value (sl_cur sl))"
    using ef slice_SetValue_cur [OF d(3)] override_store [of x "sl_cur sl"] by (cases st) simp_all
  with Cons.IH [OF _ d(1)] r e ef override_Cons [OF d(2)] override_limits_Cons [OF d(2)] show ?case by simp
qed

lemma applySettings_effect:
  assumes "applySettings loc s c = Some (None, c')" "settings_ok s"
  shows "Settings_value (cs_settings (side loc c')) = override s (Settings_value (cs_settings (side loc c)))
    \<and> side_limits loc c' = override_limits s (side_limits loc c) \<and> side_limits (\<not> loc) c' = side_limits (\<not> loc) c"
proof -
  let ?sl = "\<lparr>sl_cur = cs_settings (side loc c), sl_cap = cs_cap (side loc c), sl_old = None\<rparr>"
  from assms(1) obtain sl c1 where a: "apply_loop loc (length (cs_settings (side loc c))) s ?sl c = Some ((None, sl), c1)"
    and c': "c' = set_side loc ((side loc c1)\<lparr>cs_settings := sl_cur sl, cs_cap := sl_cap sl\<rparr>) c1"
    by (auto simp: applySettings_def Let_def split: bind_splits option.splits)
  have l: "side_limits l c' = side_limits l c1" for l by (rule side_limits_io) (simp_all add: c' set_side_def)
  have "cs_settings (side loc c') = sl_cur sl" by (simp add: c' set_side_def side_def)
  with apply_loop_effect [OF a assms(2)] l show ?thesis by simp
qed

end
