(* ===== verification/H2_ConnPanic.thy ===== *)
theory H2_ConnPanic
  imports H2_ConnSettings
begin

text \<open>
  Which frames make the reader of a connection panic.  Given the invariant and a header table in
  order, the answer is: none but WINDOW_UPDATE for a stream that was never open for sending.
\<close>

section \<open>Settings\<close>

definition table_ready :: "conn \<Rightarrow> bool" where
  "table_ready c \<longleftrightarrow> tbl_ok (d_table (r_dec (c_reader c)))"

lemma resize_total:
  assumes "tbl_ok (d_table dec)"
  shows "\<exists>dec'. Decoder_SetMaxHeaderTableSize dec mx = Some dec' \<and> tbl_ok (d_table dec')"
  using setMaxSize_spec [OF assms, of mx] assms by (auto simp: Decoder_SetMaxHeaderTableSize_def Let_def)

lemma apply_setting_total:
  assumes ok: "conn_ok c" and t: "table_ready c"
  shows "\<exists>y c'. apply_setting True sl x c = Some (y, c') \<and> table_ready c'"
proof -
  obtain e c1 where w: "setInitialRecvWindow (uint (set_Value x) - uint (Settings_InitialWindowSize (sl_cur sl))) c = Some (e, c1)"
    using setInitialRecvWindow_ok [OF ok] by blast
  then have "c_reader c1 = c_reader c" by (simp add: set_windows_io)
  with t have t1: "table_ready c1" by (simp add: table_ready_def)
  obtain dec where d: "Decoder_SetMaxHeaderTableSize (r_dec (c_reader c)) (set_Value x) = Some dec" "tbl_ok (d_table dec)"
    using resize_total t unfolding table_ready_def by blast
  show ?thesis using w t1 d t by (auto simp: apply_setting_def Let_def table_ready_def)
qed

lemma apply_loop_total:
  assumes "conn_ok c" "table_ready c"
  shows "\<exists>y c'. apply_loop True n xs sl c = Some (y, c')"
  using assms
proof (induction xs arbitrary: sl c)
  case (Cons x xs)
  obtain e st c1 where a: "apply_setting True sl x c = Some ((e, st), c1)" "table_ready c1"
    using apply_setting_total [OF Cons.prems, of sl x] by auto
  have "conn_ok c1" by (rule conn_ok_shape [OF apply_setting_shape [OF Cons.prems(1) a(1)] Cons.prems(1)])
  from Cons.IH [OF this a(2)] a(1) show ?case by (cases e) auto
qed simp

lemma applySettings_total:
  assumes "conn_ok c" "table_ready c"
  shows "\<exists>e c'. applySettings True s c = Some (e, c')"
proof -
  obtain e sl c1 where "apply_loop True (length (cs_settings (side True c))) s
      \<lparr>sl_cur = cs_settings (side True c), sl_cap = cs_cap (side True c), sl_old = None\<rparr> c = Some ((e, sl), c1)"
    using apply_loop_total [OF assms] by (metis surj_pair)
  then show ?thesis by (cases e) (simp_all add: applySettings_def Let_def)
qed

section \<open>Frames\<close>

lemma stream_return_total: "s_recvFlow s \<noteq> None \<Longrightarrow> \<exists>e c'. stream_return n s c = Some (e, c')"
  by (auto simp: stream_return_def split: prod.split)

lemma stream_consume_total: "s_recvFlow s \<noteq> None \<Longrightarrow> \<exists>e c'. stream_consume n s c = Some (e, c')"
  by (auto simp: stream_consume_def split: prod.split)

lemma return_refused_total:
  "c_objs c sid = Some s \<Longrightarrow> s_recvFlow s \<noteq> None \<Longrightarrow> \<exists>e' c'. return_refused e n sid c = Some (e', c')"
  using stream_return_total [of s n c] by (auto simp: return_refused_def)

text \<open>A stream of the table was not reset, so a frame it refuses is an error of the connection.\<close>

lemma refused_is_ConnError:
  assumes "conn_ok c" "Conn_stream c sid = Some s"
  shows "is_ConnError (transition_error s True ty)"
proof -
  have o: "c_objs c sid = Some s" "in_table (s_state s)"
    using assms table_obj [OF assms(1)] by (auto simp: Conn_stream_Some)
  have "\<not> s_resetSent s" "\<not> s_resetReceived s"
    using conn_okD(6) [OF assms(1) o(1)] o(2) by (auto simp: stream_ok_def in_table_def)
  then show ?thesis by (simp add: transition_error_def)
qed

lemma read_Data_total:
  assumes ok: "conn_ok c"
  shows "\<exists>x c'. read_Data sid es n f c = Some (x, c')"
proof (cases "Conn_stream c sid")
  case None
  obtain e c1 where "discard_data n c = (e, c1)" by fastforce
  with None show ?thesis by (cases e) (simp_all add: read_Data_def)
next
  case (Some s)
  then have s: "c_objs c sid = Some s" by (simp add: Conn_stream_Some)
  show ?thesis
  proof (cases "snd (StreamState_transition (s_state s) True FrameData False)")
    case False
    then have "stream_transition sid True FrameData False c = Some ((s_state s, Some (transition_error s True FrameData)), c)"
      using transition_refused [OF s] by (metis prod.collapse)
    with Some refused_is_ConnError [OF ok Some, of FrameData] show ?thesis by (simp add: read_Data_def)
  next
    case True
    define to where "to = fst (StreamState_transition (s_state s) True FrameData False)"
    have tr: "StreamState_transition (s_state s) True FrameData False = (to, True)" using True by (simp add: to_def prod_eq_iff)
    obtain c1 s1 where t: "stream_transition sid True FrameData False c = Some ((to, None), c1)" "conn_ok c1" "c_objs c1 sid = Some s1" "s_state s1 = to"
      using transition_ok [OF ok s tr] by blast
    have "active to" using tr by (cases "s_state s") (auto simp: transition_defs active_def split: if_splits)
    then have f: "s_recvFlow s1 \<noteq> None" using obj_flows(1) [OF t(2, 3)] t(4) by auto
    obtain r c2 where c: "stream_consume n s1 c1 = Some (r, c2)" using stream_consume_total [OF f] by blast
    have sh: "same_shape c1 c2" by (rule stream_consume_shape [OF t(2) c t(3)])
    obtain s2 where s2: "c_objs c2 sid = Some s2" "stream_shape s2 = stream_shape s1" using same_shape_obj' [OF sh t(3)] by blast
    have "s_recvFlow s2 \<noteq> None" using f stream_shape_eqD(4) [OF s2(2)] by simp
    note rr = return_refused_total [OF s2(1) this]
    show ?thesis
    proof (cases r)
      case None
      with Some t c show ?thesis by (auto simp: read_Data_def)
    next
      case (Some e)
      obtain e' c3 where "return_refused e n sid c2 = Some (e', c3)" using rr by blast
      with Some \<open>Conn_stream c sid = Some s\<close> t c show ?thesis by (auto simp: read_Data_def)
    qed
  qed
qed

lemma read_Headers_total:
  assumes ok: "conn_ok c" and id: "low_id sid"
  shows "\<exists>x c'. read_Headers sid es f c = Some (x, c')"
proof -
  obtain e c1 where i: "(if Conn_stream c sid = None then idleStream False sid c else (None, c)) = (e, c1)" by fastforce
  show ?thesis
  proof (cases e)
    case None
    have "conn_ok c1 \<and> (\<exists>s. c_objs c1 sid = Some s)"
      using i None sound_conn.idle_then [OF ok id] ok by (auto simp: Conn_stream_Some split: if_splits)
    then obtain s where "conn_ok c1" "c_objs c1 sid = Some s" by blast
    from transition_runs [OF this, of True FrameHeaders es] i None show ?thesis by (auto simp: read_Headers_def)
  qed (use i in \<open>simp add: read_Headers_def\<close>)
qed

lemma read_RSTStream_total:
  assumes ok: "conn_ok c"
  shows "\<exists>x c'. read_RSTStream sid f c = Some (x, c')"
proof (cases "Conn_stream c sid")
  case (Some s)
  then have "c_objs c sid = Some s" by (simp add: Conn_stream_Some)
  from transition_runs [OF ok this, of True FrameRSTStream False] Some show ?thesis by (auto simp: read_RSTStream_def)
qed (simp add: read_RSTStream_def)

lemma read_Settings_total:
  assumes ok: "conn_ok c" and t: "table_ready c"
  shows "\<exists>x c'. read_Settings ack s c = Some (x, c')"
proof (cases "c_settingsCh c")
  case (Cons a ss)
  have "conn_ok (c\<lparr>c_settingsCh := ss\<rparr>)" by (rule conn_ok_shape [OF _ ok]) simp
  from applySettings_total [OF this, of a] t Cons show ?thesis by (simp add: read_Settings_def table_ready_def)
qed (simp add: read_Settings_def)

lemma read_PushPromise_total:
  assumes ok: "conn_ok c" and id: "low_id promised"
  shows "\<exists>x c'. read_PushPromise sid promised c = Some (x, c')"
proof -
  obtain e c1 where i: "idleStream True promised c = (e, c1)" by fastforce
  show ?thesis
  proof (cases e)
    case None
    then obtain s where "conn_ok c1" "c_objs c1 promised = Some s" using sound_conn.idle_then [OF ok id i] by blast
    from transition_runs [OF this, of True FramePushPromise False] i None show ?thesis
      by (auto simp: read_PushPromise_def split: option.split)
  qed (use i in \<open>simp add: read_PushPromise_def split: option.split\<close>)
qed

definition unsendable :: "Frame \<Rightarrow> conn \<Rightarrow> bool" where
  "unsendable f c \<longleftrightarrow> (\<exists>sid n s. f = WindowUpdateFrame sid n \<and> sid \<noteq> 0 \<and> Conn_stream c sid = Some s \<and> s_sendFlow s = None)"

lemma read_WindowUpdate_iff: "read_WindowUpdate sid n c = None \<longleftrightarrow> unsendable (WindowUpdateFrame sid n) c"
  by (auto simp: read_WindowUpdate_def unsendable_def split: prod.split option.split bind_split)

lemma read_frame_panics_iff:
  assumes ok: "conn_ok c" and t: "table_ready c" and v: "frame_valid mx f"
  shows "read_frame f c = None \<longleftrightarrow> unsendable f c"
proof (cases f)
  case (DataFrame sid d n p e)
  with read_Data_total [OF ok, of sid e "n + uint p" f] show ?thesis by (auto simp: read_frame_def unsendable_def)
next
  case (HeadersFrame sid h p pad e)
  with read_Headers_total [OF ok, of sid e f] v valid_low_id show ?thesis by (auto simp: read_frame_def unsendable_def)
next
  case (RSTStreamFrame sid code)
  with read_RSTStream_total [OF ok, of sid f] show ?thesis by (auto simp: read_frame_def unsendable_def)
next
  case (SettingsFrame ack s)
  with read_Settings_total [OF ok t, of ack s] show ?thesis by (auto simp: read_frame_def unsendable_def)
next
  case (PushPromiseFrame sid promised h pad)
  with read_PushPromise_total [OF ok, of promised sid] v show ?thesis by (auto simp: read_frame_def unsendable_def)
next
  case (GoAwayFrame lastID code dbg)
  with sound_conn.read_GoAway_ok [OF ok, of lastID code dbg] show ?thesis by (auto simp: read_frame_def unsendable_def)
next
  case (WindowUpdateFrame sid n)
  with read_WindowUpdate_iff [of sid n c] show ?thesis by (simp add: read_frame_def)
qed (simp_all add: read_frame_def unsendable_def)

text \<open>The streams that this concerns: the reserved ones, and pushed ones that the peer opened.\<close>

lemma reserved_unsendable:
  assumes "conn_ok c" "Conn_stream c sid = Some s" "s_state s = StateReservedLocal \<or> s_state s = StateReservedRemote"
  shows "unsendable (WindowUpdateFrame sid n) c"
proof -
  have o: "c_objs c sid = Some s" using assms(2) by (simp add: Conn_stream_Some)
  have "s_sendFlow s = None" using conn_okD(6) [OF assms(1) o] assms(3) by (auto simp: stream_ok_def opened_def active_def)
  then show ?thesis using assms(2) obj_flows(5) [OF assms(1) o] by (auto simp: unsendable_def)
qed

end
