(* ===== verification/H2_ConnHazards.thy ===== *)
theory H2_ConnHazards
  imports H2_ConnPanic
begin

text \<open>
  Sequences of steps that a connection does not survive: a reset that arrives while a frame of the
  stream is queued, a reset of a stream whose DATA frame is being read, and the last identifier of 32
  bits, after which identifiers are used again.
\<close>

section \<open>What closing a stream leaves behind\<close>

lemma add_frame_ch: "ch (c_queue c) = Some x \<Longrightarrow> ch (c_queue (add_frame i b c)) = Some x"
  by (simp add: add_frame_def queue_add_def send_cbuf_def send_buf_def)

lemma add_frames_ch: "ch (c_queue c) = Some x \<Longrightarrow> ch (c_queue (add_frames fs c)) = Some x"
  unfolding add_frames_def by (induction fs arbitrary: c) (simp_all add: add_frame_ch)

lemma stream_return_ch: "stream_return n s c = Some (e, c') \<Longrightarrow> ch (c_queue c) = Some x \<Longrightarrow> ch (c_queue c') = Some x"
  by (auto simp: stream_return_def put_stream_def split: option.splits prod.splits intro!: add_frames_ch)

lemma return_consumed_ch: "ch (c_queue c) = Some x \<Longrightarrow> ch (c_queue (return_consumed s c)) = Some x"
  by (auto simp: return_consumed_def split: option.splits dest: stream_return_ch)

lemma removeStream_ch: "ch (c_queue c) = Some x \<Longrightarrow> ch (c_queue (Conn_removeStream sid c)) = Some x"
  by (simp add: Conn_removeStream_def Let_def Conn_Flush_def add_frame_ch)

lemma stream_shut_ch: "ch (c_queue c) = Some x \<Longrightarrow> ch (c_queue (stream_shut from s c)) = Some x"
  by (simp add: stream_shut_def Let_def removeStream_ch return_consumed_ch put_stream_def add_numStreams_def)

lemma add_frame_objs [simp]: "c_objs (add_frame i b c) = c_objs c"
  by (simp add: add_frame_def)

lemma add_frames_objs [simp]: "c_objs (add_frames fs c) = c_objs c"
  unfolding add_frames_def by (induction fs arbitrary: c) simp_all

lemma return_consumed_obj:
  assumes "c_objs c (s_id s) = Some s"
  shows "\<exists>f. c_objs (return_consumed s c) (s_id s) = Some (s\<lparr>s_recvFlow := f\<rparr>)"
proof (cases "s_recvFlow s")
  case None
  then have "s\<lparr>s_recvFlow := None\<rparr> = s" by (cases s) simp
  then show ?thesis using assms None by (intro exI [of _ None]) (simp add: return_consumed_def)
next
  case (Some f)
  then show ?thesis by (auto simp: return_consumed_def stream_return_def split: prod.split)
qed

lemma stream_shut_obj:
  assumes "from \<noteq> StateClosed"
  shows "\<exists>f. c_objs (stream_shut from s c) (s_id s) =
    Some ((stop_sending (stream_cancel (Some errStreamClosed) (s\<lparr>s_closeCh := True\<rparr>)))\<lparr>s_recvFlow := f\<rparr>)"
proof -
  define c1 where "c1 = (if active from then add_numStreams (s_id s) (- 1) c else c)"
  define s1 where "s1 = stop_sending (stream_cancel (Some errStreamClosed) (s\<lparr>s_closeCh := True\<rparr>))"
  have "stream_shut from s c = Conn_removeStream (s_id s) (return_consumed s1 (put_stream s1 c1))"
    using assms by (simp add: stream_shut_def c1_def s1_def Let_def)
  with return_consumed_obj [of "put_stream s1 c1" s1] show ?thesis by (simp add: s1_def [symmetric]) (simp add: s1_def)
qed

lemma reset_closes:
  assumes ok: "conn_ok c" and s: "c_objs c sid = Some s" and a: "active (s_state s)"
  shows "stream_transition sid recv FrameRSTStream False c =
    Some ((StateClosed, None), set_reset recv sid (stream_shut (s_state s) (s\<lparr>s_state := StateClosed\<rparr>) (put_stream (s\<lparr>s_state := StateClosed\<rparr>) c)))"
proof -
  have "StreamState_transition (s_state s) recv FrameRSTStream False = (StateClosed, True)"
    using a by (cases "s_state s") (auto simp: transition_defs active_def)
  moreover have "compareAndSwapState sid (s_state s) StateClosed c =
    Some (True, stream_shut (s_state s) (s\<lparr>s_state := StateClosed\<rparr>) (put_stream (s\<lparr>s_state := StateClosed\<rparr>) c))"
    using s by (simp add: compareAndSwapState_def active_def Let_def)
  ultimately show ?thesis using s by (simp add: stream_transition_def)
qed

lemma reset_sent:
  assumes ok: "conn_ok c" and s: "Conn_stream c sid = Some s" and a: "active (s_state s)" and low: "low_id sid"
  shows "\<exists>c1 s1. writeFrame b (RSTStreamFrame sid code) c = Some (Returned None, c1) \<and> conn_ok c1 \<and> c_objs c1 sid = Some s1 \<and> s_state s1 = StateClosed
    \<and> (\<forall>x. x \<noteq> sid \<longrightarrow> c_objs c1 x = c_objs c x) \<and> cs_server (c_local c1) = cs_server (c_local c) \<and> cs_nextStreamID (c_local c1) = cs_nextStreamID (c_local c)
    \<and> cs_goAway (c_local c1) = cs_goAway (c_local c) \<and> cs_settings (c_local c1) = cs_settings (c_local c)"
proof -
  let ?s = "s\<lparr>s_state := StateClosed\<rparr>"
  have o: "c_objs c sid = Some s" using s by (simp add: Conn_stream_Some)
  have id: "s_id s = sid" using obj_flows(4) [OF ok o] .
  define c0 where "c0 = stream_shut (s_state s) ?s (put_stream ?s c)"
  define c1 where "c1 = add_frame (Q_frame (RSTStreamFrame sid code)) True (set_reset False sid c0)"
  have nc: "s_state s \<noteq> StateClosed" using a by (auto simp: active_def)
  have w: "writeFrame b (RSTStreamFrame sid code) c = Some (Returned None, c1)"
    using reset_closes [OF ok o a, of False] s by (simp add: writeFrame_def write_RSTStream_def returned_def c1_def c0_def Let_def)
  have ok1: "conn_ok c1" by (rule sound_conn.writeFrame_ok [OF ok w]) (simp add: low)
  obtain f where f: "c_objs c0 sid = Some ((stop_sending (stream_cancel (Some errStreamClosed) (?s\<lparr>s_closeCh := True\<rparr>)))\<lparr>s_recvFlow := f\<rparr>)"
    using stream_shut_obj [OF nc, of ?s "put_stream ?s c", folded c0_def] id by auto
  have t: "touches {sid} c c0" using id by (simp add: c0_def)
  have "\<exists>s1. c_objs c1 sid = Some s1 \<and> s_state s1 = StateClosed" using f by (simp add: c1_def set_reset_def stop_sending_def stream_cancel_def)
  moreover have "c_objs c1 x = c_objs c x" if "x \<noteq> sid" for x using touches_other [OF t, of x] that by (simp add: c1_def set_reset_def)
  moreover have "c_local c1 = c_local c0" by (simp add: c1_def add_frame_def set_reset_def)
  ultimately show ?thesis using w ok1 touches_sides [OF t, of True] by (auto simp: side_def)
qed

section \<open>A reset that arrives while a frame is queued\<close>

text \<open>The state after the reset: the frame is still offered to the write loop, and its writer has left.\<close>

lemma reset_cancels_writer:
  assumes ok: "conn_ok c" and s: "Conn_stream c sid = Some s" and a: "active (s_state s)"
    and p: "s_phase s = W_result" and q: "ch (c_queue c) = Some x"
  shows "\<exists>c1 s1. read_frame (RSTStreamFrame sid code) c = Some (Exit (Some (RSTStreamFrame sid code)) None, c1)
    \<and> c_objs c1 sid = Some s1 \<and> s_state s1 = StateClosed \<and> s_phase s1 = W_done (Some errStreamClosed) \<and> s_frame s1 = s_frame s
    \<and> ch (c_queue c1) = Some x \<and> c_writer c1 = c_writer c"
proof -
  have o: "c_objs c sid = Some s" using s by (simp add: Conn_stream_Some)
  have id: "s_id s = sid" using obj_flows(4) [OF ok o] .
  let ?s = "s\<lparr>s_state := StateClosed\<rparr>"
  define c0 where "c0 = stream_shut (s_state s) ?s (put_stream ?s c)"
  note t = reset_closes [OF ok o a, of True, folded c0_def]
  have "s_state s \<noteq> StateClosed" using a by (auto simp: active_def)
  from stream_shut_obj [OF this, of ?s "put_stream ?s c", folded c0_def] id obtain f where
    f: "c_objs c0 sid = Some ((stop_sending (stream_cancel (Some errStreamClosed) (?s\<lparr>s_closeCh := True\<rparr>)))\<lparr>s_recvFlow := f\<rparr>)" by auto
  have "ch (c_queue c0) = Some x" unfolding c0_def by (rule stream_shut_ch) (simp add: put_stream_def q)
  moreover have "touches {sid} c c0" using id by (simp add: c0_def)
  then have "c_writer c0 = c_writer c" by (simp add: touches_def)
  ultimately show ?thesis using t s f p
    by (simp add: read_frame_def read_RSTStream_def set_reset_def stream_cancel_def stop_sending_def)
qed

lemma loop_sticks:
  assumes "ch (c_queue c) = Some (Q_stream sid)" "c_objs c sid = Some s" "s_phase s \<noteq> W_result" "s_frame s = Some f"
    "frameWriter_WriteFrame U ord (c_writer c) f = Some (e, w)" "s_id s = sid"
  shows "\<exists>c' s'. writeLoop_step U ord flushErr c = Some (Stuck, c') \<and> c_objs c' sid = Some s' \<and> s_phase s' = s_phase s \<and> s_state s' = s_state s"
proof -
  obtain b c1 where r: "queue_refill (c\<lparr>c_queue := (c_queue c)\<lparr>ch := None\<rparr>\<rparr>) = (b, c1)" by fastforce
  then have c1: "c_objs c1 = c_objs c" "c_writer c1 = c_writer c" by (auto simp: queue_refill_def split: prod.splits)
  have "queue_get (c_queue c) = Some (Q_stream sid, (c_queue c)\<lparr>ch := None\<rparr>)" using assms(1) by (simp add: queue_get_def)
  with r c1 assms show ?thesis by (simp add: writeLoop_step_def stream_writeTo_def Let_def)
qed

section \<open>A reset of a stream that is being read\<close>

lemma return_nothing_held:
  "flow_consumedBytes f = 0 \<Longrightarrow> 0 < n \<Longrightarrow> return_own sid f n = (Some (flow_error sid ''attempting to return too many bytes'' ErrCodeInternal), f, [])"
  by (simp add: return_own_def flow_consumedBytes_def)

lemma add_frames_recvFlow [simp]: "c_recvFlow (add_frames fs c) = c_recvFlow c"
  unfolding add_frames_def by (induction fs arbitrary: c) (simp_all add: add_frame_def)

lemma removeStream_recvFlow [simp]: "c_recvFlow (Conn_removeStream sid c) = c_recvFlow c"
  by (simp add: Conn_removeStream_def Let_def Conn_Flush_def add_frame_def)

text \<open>Closing a stream returns all that its reader holds, to the stream and to the connection.\<close>

definition returned_all :: "u32 \<Rightarrow> flowController \<Rightarrow> conn \<Rightarrow> conn \<Rightarrow> bool" where
  "returned_all sid f c c' \<longleftrightarrow> flow_ok (c_recvFlow c') \<and> flow_consumedBytes (c_recvFlow c') = flow_consumedBytes (c_recvFlow c) - flow_consumedBytes f
     \<and> (\<exists>s' f'. c_objs c' sid = Some s' \<and> s_id s' = sid \<and> s_recvFlow s' = Some f' \<and> flow_consumedBytes f' = 0)"

lemma return_consumed_recvFlow:
  assumes "s_recvFlow s = Some f" "flow_ok (c_recvFlow c)" "flow_ok f" "flow_consumedBytes f \<le> flow_consumedBytes (c_recvFlow c)"
  shows "returned_all (s_id s) f c (return_consumed s c)"
proof -
  have k: "0 \<le> flow_consumedBytes f" using assms(3) by (simp add: flow_ok_def flow_consumedBytes_def)
  obtain cc' fs where r: "return_own 0 (c_recvFlow c) (flow_consumedBytes f) = (None, cc', fs)" "flow_ok cc'"
    "flow_consumedBytes cc' = flow_consumedBytes (c_recvFlow c) - flow_consumedBytes f"
    using return_own_ok [OF assms(2) k assms(4), of 0] by blast
  obtain f' fs' where r': "return_own (s_id s) f (flow_consumedBytes f) = (None, f', fs')" "flow_consumedBytes f' = 0"
    using return_own_ok [OF assms(3) k order_refl, of "s_id s"] by auto
  have "return_consumed s c = add_frames (fs @ fs') (put_stream (s\<lparr>s_recvFlow := Some f'\<rparr>) (c\<lparr>c_recvFlow := cc'\<rparr>))"
    using assms(1) r(1) r'(1) by (simp add: return_consumed_def stream_return_def stream_returnBytes_def conn_returnBytes_def)
  with r(2, 3) r'(2) show ?thesis by (simp add: returned_all_def)
qed

lemma stream_shut_recvFlow:
  assumes "from \<noteq> StateClosed" "s_recvFlow s = Some f" "flow_ok (c_recvFlow c)" "flow_ok f" "flow_consumedBytes f \<le> flow_consumedBytes (c_recvFlow c)"
  shows "returned_all (s_id s) f c (stream_shut from s c)"
proof -
  define c1 where "c1 = (if active from then add_numStreams (s_id s) (- 1) c else c)"
  define s1 where "s1 = stop_sending (stream_cancel (Some errStreamClosed) (s\<lparr>s_closeCh := True\<rparr>))"
  have eq: "stream_shut from s c = Conn_removeStream (s_id s) (return_consumed s1 (put_stream s1 c1))"
    using assms(1) by (simp add: stream_shut_def c1_def s1_def Let_def)
  have s1: "s_recvFlow s1 = Some f" "s_id s1 = s_id s" using assms(2) by (simp_all add: s1_def stop_sending_def stream_cancel_def)
  have c0: "c_recvFlow c1 = c_recvFlow c" by (simp add: c1_def add_numStreams_def)
  then have c1: "c_recvFlow (put_stream s1 c1) = c_recvFlow c" by simp
  note r = return_consumed_recvFlow [of s1 f "put_stream s1 c1", unfolded c1 s1(2), OF s1(1) assms(3-5)]
  moreover have "c_objs (Conn_removeStream sid c0) = c_objs c0" for sid c0 by (simp add: Conn_removeStream_def Let_def Conn_Flush_def)
  ultimately show ?thesis by (simp add: eq returned_all_def c0)
qed

text \<open>
  The bytes that the reader of the frame returns were returned with the reset already.  The check that
  finds this is that of the connection when no other stream holds as much, else that of the stream.
\<close>

definition to_return :: "conn \<Rightarrow> int" where
  "to_return c = d_processed (c_data c) + uint (snd (r_payload (c_reader c)))"

lemma reset_then_return:
  assumes ok: "conn_ok c" and s: "Conn_stream c (d_stream (c_data c)) = Some s" and a: "active (s_state s)"
    and f: "s_recvFlow s = Some f" "flow_ok (c_recvFlow c)" "flow_ok f" "flow_consumedBytes f \<le> flow_consumedBytes (c_recvFlow c)"
    and d: "\<not> d_sawEOF (c_data c)" "0 < to_return c"
  shows "\<exists>c1 c2. writeFrame b (RSTStreamFrame (d_stream (c_data c)) code) c = Some (Returned None, c1)
    \<and> data_returnBytes c1 = Some (Some
        (if flow_consumedBytes (c_recvFlow c) - flow_consumedBytes f < to_return c
         then ConnError (Errorf (str ''attempting to return too many bytes'')) ErrCodeInternal
         else StreamError (Errorf (str ''attempting to return too many bytes'')) ErrCodeInternal (d_stream (c_data c))), c2)"
proof -
  let ?sid = "d_stream (c_data c)"
  let ?s = "s\<lparr>s_state := StateClosed\<rparr>"
  have o: "c_objs c ?sid = Some s" using s by (simp add: Conn_stream_Some)
  have id: "s_id s = ?sid" "?sid \<noteq> 0" using obj_flows(4) [OF ok o] conn_okD(5) [OF ok o] by simp_all
  define c0 where "c0 = stream_shut (s_state s) ?s (put_stream ?s c)"
  define c1 where "c1 = add_frame (Q_frame (RSTStreamFrame ?sid code)) True (set_reset False ?sid c0)"
  have nc: "s_state s \<noteq> StateClosed" using a by (auto simp: active_def)
  have w: "writeFrame b (RSTStreamFrame ?sid code) c = Some (Returned None, c1)"
    using reset_closes [OF ok o a, of False] s by (simp add: writeFrame_def write_RSTStream_def returned_def c1_def c0_def Let_def)
  have "returned_all ?sid f c c0"
    using stream_shut_recvFlow [OF nc, of ?s f "put_stream ?s c", folded c0_def] f id by (simp add: returned_all_def)
  then obtain s1 f1 where fl: "flow_ok (c_recvFlow c1)" "flow_consumedBytes (c_recvFlow c1) = flow_consumedBytes (c_recvFlow c) - flow_consumedBytes f"
    and s1: "c_objs c1 ?sid = Some s1" "s_id s1 = ?sid" "s_recvFlow s1 = Some f1" "flow_consumedBytes f1 = 0"
    by (auto simp: returned_all_def c1_def add_frame_def set_reset_def)
  have "touches {?sid} c c0" using id by (simp add: c0_def)
  then have dt: "c_data c1 = c_data c" "c_reader c1 = c_reader c" by (simp_all add: c1_def add_frame_def set_reset_def touches_def)
  define d1 where "d1 = (c_data c1)\<lparr>d_sawEOF := True, d_processed := d_processed (c_data c1) + uint (snd (r_payload (c_reader c1)))\<rparr>"
  have n: "d_processed d1 = to_return c" "d_stream d1 = ?sid" by (simp_all add: d1_def dt to_return_def)
  let ?e = "if flow_consumedBytes (c_recvFlow c) - flow_consumedBytes f < to_return c
    then ConnError (Errorf (str ''attempting to return too many bytes'')) ErrCodeInternal
    else StreamError (Errorf (str ''attempting to return too many bytes'')) ErrCodeInternal ?sid"
  have "\<exists>cc fs. stream_returnBytes ?sid (c_recvFlow c1) f1 (to_return c) = (Some ?e, cc, f1, fs)"
  proof (cases "flow_consumedBytes (c_recvFlow c) - flow_consumedBytes f < to_return c")
    case True
    then have "return_own 0 (c_recvFlow c1) (to_return c) = (Some ?e, c_recvFlow c1, [])"
      using fl(2) by (simp add: return_own_def flow_consumedBytes_def flow_error_def)
    then show ?thesis by (simp add: stream_returnBytes_def conn_returnBytes_def)
  next
    case False
    then obtain cc fs where "return_own 0 (c_recvFlow c1) (to_return c) = (None, cc, fs)"
      using return_own_ok [OF fl(1), of "to_return c" 0] fl(2) d(2) by auto
    with False return_nothing_held [OF s1(4) d(2), of ?sid] id(2) show ?thesis by (simp add: stream_returnBytes_def conn_returnBytes_def flow_error_def)
  qed
  then have "\<exists>c2. stream_return (d_processed d1) s1 c1 = Some (Some ?e, c2)"
    using s1(2, 3) n(1) by (auto simp: stream_return_def split: prod.split)
  then show ?thesis using w s1(1) d(1) n(2) data_returnBytes_eq [OF _ d1_def] by (auto simp: dt)
qed

section \<open>An identifier that wraps around\<close>

text \<open>A HEADERS frame opens the stream when its identifier is valid, not in the table, and not passed.\<close>

definition room :: "u32 \<Rightarrow> conn \<Rightarrow> bool" where
  "room n c \<longleftrightarrow> cs_goAway (c_local c) = None \<and> cs_numStreams (c_local c) + n \<le> Settings_MaxConcurrentStreams (cs_settings (c_local c))"

lemma headers_open:
  assumes "sid \<notin> set (c_streams c)" "room 1 c" "connState_validStreamID (c_local c) sid" "cs_nextStreamID (c_local c) \<le> sid"
  shows "\<exists>c' s. writeFrame Proceed (HeadersFrame sid h p n e) c = Some (Pending, c')
    \<and> c_objs c' sid = Some s \<and> s_state s = StateOpen \<and> c_streams c' = c_streams c @ [sid] \<and> cs_nextStreamID (c_local c') = sid + 2
    \<and> cs_server (c_local c') = cs_server (c_local c) \<and> (room 2 c \<longrightarrow> room 1 c')"
proof -
  have i: "idleStream True sid c = (None, set_side True ((c_local c)\<lparr>cs_nextStreamID := sid + 2, cs_lastStreamID := sid\<rparr>) (put_stream (new_stream sid) c))"
    using assms by (simp add: room_def idleStream_def side_def not_less Let_def)
  have "Conn_stream c sid = None" "cs_server (c_local c) \<longleftrightarrow> sid AND 1 = 0" using assms(1, 3) by (simp_all add: Conn_stream_def connState_validStreamID_def)
  with i assms(1) show ?thesis
    by (simp add: writeFrame_def write_Headers_def Let_def set_side_def put_stream_def new_stream_def stream_transition_def transition_defs
        compareAndSwapState_def active_def stream_activate_def start_flows_def add_numStreams_def stream_local_def Conn_addStream_def
        stream_write_def branch_ready_def write_queue_def set_writer_def add_frame_def no_writer_def room_def add.commute)
qed

text \<open>The last identifier of a side, as the 32 bits of \<open>nextStreamID\<close> have it.\<close>

definition last_id :: "conn \<Rightarrow> u32" where
  "last_id c = (if Conn_ServerConn c then 0xfffffffe else 0xffffffff)"

lemma wrapped_open:
  assumes "last_id c \<notin> set (c_streams c)" "room 1 c" "room 2 c" "cs_nextStreamID (c_local c) \<le> last_id c"
  shows "\<exists>c1. writeFrame Proceed (HeadersFrame (last_id c) h p n e) c = Some (Pending, c1) \<and> cs_nextStreamID (c_local c1) \<le> 1
    \<and> (\<forall>sid h' p' n' e'. connState_validStreamID (c_local c) sid \<and> sid \<notin> set (c_streams c) \<and> sid \<noteq> last_id c \<longrightarrow>
         (\<exists>c2 s. writeFrame Proceed (HeadersFrame sid h' p' n' e') c1 = Some (Pending, c2) \<and> c_objs c2 sid = Some s \<and> s_state s = StateOpen))"
proof -
  have v: "connState_validStreamID (c_local c) (last_id c)" "last_id c + 2 \<le> 1"
    by (simp_all add: last_id_def connState_validStreamID_def Conn_ServerConn_def word_le_nat_alt)
  from headers_open [OF assms(1, 2) v(1) assms(4), of h p n e] assms(3) obtain c1 where
    c1: "writeFrame Proceed (HeadersFrame (last_id c) h p n e) c = Some (Pending, c1)" "cs_nextStreamID (c_local c1) = last_id c + 2"
    "cs_server (c_local c1) = cs_server (c_local c)" "c_streams c1 = c_streams c @ [last_id c]" "room 1 c1" by blast
  have "\<exists>c2 s. writeFrame Proceed (HeadersFrame sid h' p' n' e') c1 = Some (Pending, c2) \<and> c_objs c2 sid = Some s \<and> s_state s = StateOpen"
    if sid: "connState_validStreamID (c_local c) sid" "sid \<notin> set (c_streams c)" "sid \<noteq> last_id c" for sid h' p' n' e'
  proof -
    have "1 \<le> sid" using sid(1) by (simp add: connState_validStreamID_def word_le_nat_alt unat_gt_0 Suc_le_eq word_less_nat_alt)
    then have "cs_nextStreamID (c_local c1) \<le> sid" using c1(2) v(2) by simp
    moreover have "sid \<notin> set (c_streams c1)" "connState_validStreamID (c_local c1) sid"
      using sid c1(3, 4) by (simp_all add: connState_validStreamID_def)
    ultimately show ?thesis using headers_open [OF _ c1(5)] by blast
  qed
  with c1(1, 2) v(2) show ?thesis by auto
qed

end
