(* ===== verification/H2_ConnTheorems.thy ===== *)
theory H2_ConnTheorems
  imports H2_ConnHazards
begin

text \<open>
  The properties of the connection, each with a witness at a concrete input where it has
  hypotheses.
\<close>

section \<open>A run for the witnesses\<close>

text \<open>A client that writes a HEADERS frame on stream 1.\<close>

definition client0 :: conn where
  "client0 = newConn False 0 [] EOF None (\<lambda>n. 2 * n) None"

definition hello :: Frame where
  "hello = HeadersFrame 1 None no_Priority 0 False"

lemmas conn_eval = client0_def hello_def newConn_def new_connState_def Let_def writeFrame_def write_Headers_def Conn_stream_def idleStream_def side_def
  connState_validStreamID_def Settings_MaxConcurrentStreams_def Settings_Value_def set_side_def put_stream_def new_stream_def
  stream_transition_def transition_defs compareAndSwapState_def active_def stream_activate_def start_flows_def add_numStreams_def
  stream_local_def Conn_addStream_def stream_write_def branch_ready_def write_queue_def set_writer_def add_frame_def queue_add_def send_buf_def
  new_writeQueue_def no_writer_def

lemma hello_written:
  "\<exists>c. writeFrame Proceed hello client0 = Some (Pending, c) \<and> c_streams c = [1] \<and> Conn_NumActiveStreams c = 1
     \<and> (\<exists>s. c_objs c 1 = Some s \<and> s_state s = StateOpen) \<and> cs_nextStreamID (c_local c) = 3
     \<and> (\<forall>x. x \<noteq> 1 \<longrightarrow> c_objs c x = None) \<and> cs_goAway (c_local c) = None \<and> cs_settings (c_local c) = [] \<and> \<not> cs_server (c_local c)"
  by (simp add: conn_eval Conn_NumActiveStreams_def)

lemma hello_step:
  "\<exists>c. conn_step frame_ids_ok client0 c \<and> c_streams c = [1] \<and> Conn_NumActiveStreams c = 1
     \<and> (\<exists>s. c_objs c 1 = Some s \<and> s_state s = StateOpen) \<and> cs_nextStreamID (c_local c) = 3"
proof -
  have "frame_ids_ok hello" by (simp add: hello_def low_id_def)
  with hello_written show ?thesis by (blast intro: conn_step.write_a_frame)
qed

section \<open>The state of a connection\<close>

lemma NumActive_card:
  assumes "conn_ok c"
  shows "Conn_NumActiveStreams c = of_nat (card {sid \<in> set (c_streams c). \<exists>s. c_objs c sid = Some s \<and> active (s_state s)})"
proof -
  have "{sid \<in> set (c_streams c). \<exists>s. c_objs c sid = Some s \<and> active (s_state s)} = active_ids True c \<union> active_ids False c"
    using conn_okD(3) [OF assms] by (auto simp: active_ids_def in_table_def active_def)
  moreover have "active_ids True c \<inter> active_ids False c = {}" by (auto simp: active_ids_def)
  ultimately have "card {sid \<in> set (c_streams c). \<exists>s. c_objs c sid = Some s \<and> active (s_state s)}
    = card (active_ids True c) + card (active_ids False c)" by (simp add: card_Un_disjoint)
  then show ?thesis
    using conn_okD(7) [OF assms, of True] conn_okD(7) [OF assms, of False] by (simp add: Conn_NumActiveStreams_def side_def)
qed

text \<open>
  C1 In every state that a connection reaches, whatever the application, the peer and the timers do, as
  long as the application writes no frame with a stream identifier of 2^31 or more: the table holds exactly the streams that are neither idle nor closed, each once; \<open>NumActiveStreams\<close>
  is the number of the active ones; an active stream has its controllers; a stream that has none yet
  is not open; and the channel \<open>closeCh\<close> of a stream is closed exactly when the stream is.
\<close>

theorem conn_invariant:
  assumes "(conn_step frame_ids_ok)\<^sup>*\<^sup>* (newConn server bufSize inp inpEnd fault grow rwcErr) c"
  shows "distinct (c_streams c)
    \<and> (\<forall>sid. sid \<in> set (c_streams c) \<longleftrightarrow> (\<exists>s. c_objs c sid = Some s \<and> s_state s \<notin> {StateIdle, StateClosed}))
    \<and> Conn_NumActiveStreams c = of_nat (card {sid \<in> set (c_streams c). \<exists>s. c_objs c sid = Some s \<and> active (s_state s)})
    \<and> (\<forall>sid s. c_objs c sid = Some s \<longrightarrow> s_id s = sid \<and> (s_closeCh s \<longleftrightarrow> s_state s = StateClosed)
         \<and> (active (s_state s) \<longrightarrow> s_recvFlow s \<noteq> None) \<and> (writable (s_state s) \<longrightarrow> s_sendFlow s \<noteq> None)
         \<and> (\<not> opened (s_state s) \<longrightarrow> s_recvFlow s = None \<and> s_sendFlow s = None))"
proof -
  have ok: "conn_ok c" by (rule conn_runs.reach_keeps [OF assms newConn_ok])
  note k = conn_okD [OF ok]
  have "sid \<in> set (c_streams c) \<longleftrightarrow> (\<exists>s. c_objs c sid = Some s \<and> s_state s \<notin> {StateIdle, StateClosed})" for sid
    using k(3) [of sid] by (simp add: in_table_def)
  moreover have "s_id s = sid \<and> (s_closeCh s \<longleftrightarrow> s_state s = StateClosed)
         \<and> (active (s_state s) \<longrightarrow> s_recvFlow s \<noteq> None) \<and> (writable (s_state s) \<longrightarrow> s_sendFlow s \<noteq> None)
         \<and> (\<not> opened (s_state s) \<longrightarrow> s_recvFlow s = None \<and> s_sendFlow s = None)" if "c_objs c sid = Some s" for sid s
    using k(4, 6) [OF that] unfolding stream_ok_def by blast
  ultimately show ?thesis using k(2) NumActive_card [OF ok] by blast
qed

theorem conn_invariant_witness:
  "\<exists>c s. (conn_step frame_ids_ok)\<^sup>*\<^sup>* client0 c \<and> c_streams c = [1] \<and> Conn_NumActiveStreams c = 1 \<and> c_objs c 1 = Some s
     \<and> s_id s = 1 \<and> s_recvFlow s \<noteq> None \<and> s_sendFlow s \<noteq> None \<and> \<not> s_closeCh s"
proof -
  obtain c s where c: "conn_step frame_ids_ok client0 c" "c_streams c = [1]" "Conn_NumActiveStreams c = 1" "c_objs c 1 = Some s" "s_state s = StateOpen"
    using hello_step by blast
  then have r: "(conn_step frame_ids_ok)\<^sup>*\<^sup>* client0 c" by blast
  have "s_id s = 1 \<and> s_recvFlow s \<noteq> None \<and> s_sendFlow s \<noteq> None \<and> \<not> s_closeCh s"
    using conn_invariant [OF r [unfolded client0_def]] c(4, 5) by (simp add: active_def writable_def)
  with r c show ?thesis by blast
qed

text \<open>
  C5 What a connection has fixed it does not take back, in any continuation of any run in which the
  application writes no frame with a stream identifier of 2^31 or more, a condition that the code
  does not check and without which this fails (see \<open>wrapped_open\<close>): no stream goes back in the order of the states, so a closed one stays closed; a new stream takes an identifier
  that its side has not passed, and none is opened once a GOAWAY was received; the last identifiers
  only grow; and a GOAWAY that was sent stays in force with an identifier that is never raised.
\<close>

theorem conn_forward:
  assumes "(conn_step frame_ids_ok)\<^sup>*\<^sup>* (newConn server bufSize inp inpEnd fault grow rwcErr) c" "(conn_step frame_ids_ok)\<^sup>*\<^sup>* c c'"
  shows "(\<forall>sid s. c_objs c sid = Some s \<longrightarrow> (\<exists>s'. c_objs c' sid = Some s' \<and> s_state s \<le> s_state s'))
    \<and> (\<forall>sid. c_objs c sid = None \<longrightarrow> c_objs c' sid \<noteq> None \<longrightarrow>
         \<not> fst (Conn_GoAwayReceived c) \<and> cs_nextStreamID (side (stream_local c sid) c) \<le> sid)
    \<and> Conn_LastStreamID c \<le> Conn_LastStreamID c'
    \<and> (\<forall>g. snd (Conn_GoAwaySent c) = Some g \<longrightarrow> (\<exists>g'. snd (Conn_GoAwaySent c') = Some g' \<and> fst g' \<le> fst g))
    \<and> (fst (Conn_GoAwayReceived c) \<longrightarrow> fst (Conn_GoAwayReceived c'))"
proof -
  have "conn_ok c" by (rule conn_runs.reach_keeps [OF assms(1) newConn_ok])
  from run_evolves [OF assms(2) this] have e: "evolves c c'" by simp
  have "\<exists>s'. c_objs c' sid = Some s' \<and> s_state s \<le> s_state s'" if "c_objs c sid = Some s" for sid s
    by (rule evolvesD(1) [OF e that])
  moreover have "\<not> fst (Conn_GoAwayReceived c) \<and> cs_nextStreamID (side (stream_local c sid) c) \<le> sid"
    if "c_objs c sid = None" "c_objs c' sid \<noteq> None" for sid
    using evolvesD(2) [OF e that] by (simp add: Conn_GoAwayReceived_def)
  moreover have "Conn_LastStreamID c \<le> Conn_LastStreamID c'"
    using evolvesD(5) [OF e, of False] by (simp add: Conn_LastStreamID_def side_def)
  moreover have "\<exists>g'. snd (Conn_GoAwaySent c') = Some g' \<and> fst g' \<le> fst g" if "snd (Conn_GoAwaySent c) = Some g" for g
    using evolvesD(6) [OF e, of g] that unfolding Conn_GoAwaySent_def snd_conv by blast
  moreover have "fst (Conn_GoAwayReceived c')" if "fst (Conn_GoAwayReceived c)"
    using evolvesD(7) [OF e] that by (simp add: Conn_GoAwayReceived_def)
  ultimately show ?thesis by blast
qed

theorem conn_forward_witness:
  "\<exists>c. (conn_step frame_ids_ok)\<^sup>*\<^sup>* client0 c \<and> c_objs client0 1 = None \<and> c_objs c 1 \<noteq> None \<and> \<not> fst (Conn_GoAwayReceived client0)
     \<and> cs_nextStreamID (c_local client0) \<le> 1"
proof -
  obtain c s where c: "conn_step frame_ids_ok client0 c" "c_objs c 1 = Some s" using hello_step by blast
  then have r: "(conn_step frame_ids_ok)\<^sup>*\<^sup>* client0 c" by blast
  have n: "c_objs client0 1 = None" "side (stream_local client0 1) client0 = c_local client0"
    by (simp_all add: client0_def newConn_def Let_def side_def stream_local_def new_connState_def)
  have "(conn_step frame_ids_ok)\<^sup>*\<^sup>* (newConn False 0 [] EOF None (\<lambda>n. 2 * n) None) client0" by (simp add: client0_def)
  from conn_forward [OF this r] n c(2) have "\<not> fst (Conn_GoAwayReceived client0)" "cs_nextStreamID (c_local client0) \<le> 1"
    by (metis option.distinct(1))+
  with r n c(2) show ?thesis by blast
qed

text \<open>The stream of the run above, reset.\<close>

lemma hello_reset:
  "\<exists>c s. (conn_step frame_ids_ok)\<^sup>*\<^sup>* client0 c \<and> c_objs c 1 = Some s \<and> s_state s = StateClosed \<and> c_streams c = [] \<and> last_id c = 0xffffffff
     \<and> room 1 c \<and> room 2 c \<and> connState_validStreamID (c_local c) 1"
proof -
  obtain c s where c: "writeFrame Proceed hello client0 = Some (Pending, c)" "c_streams c = [1]" "c_objs c 1 = Some s" "s_state s = StateOpen"
    "cs_nextStreamID (c_local c) = 3" "\<And>x. x \<noteq> 1 \<Longrightarrow> c_objs c x = None" "cs_goAway (c_local c) = None" "cs_settings (c_local c) = []" "\<not> cs_server (c_local c)"
    using hello_written by blast
  have st: "conn_step frame_ids_ok client0 c" by (rule conn_step.write_a_frame [OF c(1)]) (simp add: hello_def low_id_def)
  have ok: "conn_ok c" by (rule sound_conn.step_keeps [OF _ st]) (simp add: client0_def newConn_ok)
  obtain c1 s1 where r: "writeFrame Proceed (RSTStreamFrame 1 0) c = Some (Returned None, c1)" "conn_ok c1" "c_objs c1 1 = Some s1" "s_state s1 = StateClosed"
    "\<And>x. x \<noteq> 1 \<Longrightarrow> c_objs c1 x = c_objs c x" "cs_server (c_local c1) = cs_server (c_local c)"
    "cs_goAway (c_local c1) = cs_goAway (c_local c)" "cs_settings (c_local c1) = cs_settings (c_local c)"
    using reset_sent [OF ok, of 1 s Proceed 0] c(2-4) by (auto simp: Conn_stream_def active_def low_id_def)
  have st1: "conn_step frame_ids_ok c c1" by (rule conn_step.write_a_frame [OF r(1)]) (simp add: low_id_def)
  have "x \<notin> set (c_streams c1)" for x using conn_okD(3) [OF r(2), of x] r(3-5) c(6) by (cases "x = 1") (auto simp: in_table_def)
  then have e: "c_streams c1 = []" by (meson last_in_set)
  have "\<not> active (s_state t)" if "c_objs c1 x = Some t" for x t using conn_okD(3) [OF r(2), of x] e that by (auto simp: active_def in_table_def)
  then have "active_ids True c1 = {}" by (auto simp: active_ids_def)
  then have "cs_numStreams (c_local c1) = 0" using conn_okD(7) [OF r(2), of True] by (simp add: side_def)
  with st st1 r e c(7-9) show ?thesis
    by (intro exI [of _ c1] exI [of _ s1] conjI)
       (auto simp: last_id_def Conn_ServerConn_def room_def Settings_MaxConcurrentStreams_def Settings_Value_def connState_validStreamID_def)
qed

text \<open>
  C39 The bound on the identifiers is needed: the code does not make the check, and the last
  identifier of 32 bits, odd for a client and even for a server, is accepted in a HEADERS frame as any
  other.  After it \<open>nextStreamID\<close> has wrapped around to 0 or 1, and every identifier of the side that
  is not in the table can be opened again, whatever became of its stream; in the witness that is a
  stream that was closed before, so that a closed stream is open once more.
\<close>

theorem stream_id_wraps:
  assumes "last_id c \<notin> set (c_streams c)" "room 1 c" "room 2 c" "cs_nextStreamID (c_local c) \<le> last_id c"
  shows "\<exists>c1. writeFrame Proceed (HeadersFrame (last_id c) h p n e) c = Some (Pending, c1) \<and> cs_nextStreamID (c_local c1) \<le> 1
    \<and> (\<forall>sid h' p' n' e'. connState_validStreamID (c_local c) sid \<and> sid \<notin> set (c_streams c) \<and> sid \<noteq> last_id c \<longrightarrow>
         (\<exists>c2 s. writeFrame Proceed (HeadersFrame sid h' p' n' e') c1 = Some (Pending, c2) \<and> c_objs c2 sid = Some s \<and> s_state s = StateOpen))"
  by (rule wrapped_open [OF assms])

theorem stream_id_wraps_witness:
  "\<exists>c c' s s'. (conn_step frame_ids_ok)\<^sup>*\<^sup>* client0 c \<and> c_objs c 1 = Some s \<and> s_state s = StateClosed
     \<and> (conn_step (\<lambda>_. True))\<^sup>*\<^sup>* c c' \<and> c_objs c' 1 = Some s' \<and> s_state s' = StateOpen"
proof -
  obtain c s where c: "(conn_step frame_ids_ok)\<^sup>*\<^sup>* client0 c" "c_objs c 1 = Some s" "s_state s = StateClosed" "c_streams c = []" "last_id c = 0xffffffff"
    "room 1 c" "room 2 c" "connState_validStreamID (c_local c) 1" using hello_reset by blast
  have "unat (cs_nextStreamID (c_local c)) < 2 ^ LENGTH(32)" by (rule unsigned_less)
  then have "cs_nextStreamID (c_local c) \<le> last_id c" by (simp add: c(5) word_le_nat_alt)
  then obtain c1 c2 s' where w: "writeFrame Proceed (HeadersFrame (last_id c) None no_Priority 0 False) c = Some (Pending, c1)"
    "writeFrame Proceed hello c1 = Some (Pending, c2)" "c_objs c2 1 = Some s'" "s_state s' = StateOpen"
    using stream_id_wraps [of c None no_Priority 0 False] c(4-8) unfolding hello_def by force
  have "conn_step (\<lambda>_. True) c c1" "conn_step (\<lambda>_. True) c1 c2" using w(1, 2) by (blast intro: conn_step.write_a_frame)+
  then have "(conn_step (\<lambda>_. True))\<^sup>*\<^sup>* c c2" by (meson rtranclp.rtrancl_into_rtrancl rtranclp.rtrancl_refl)
  with c(1-3) w(3, 4) show ?thesis by blast
qed

section \<open>Reading\<close>

lemma client0_ok: "conn_ok client0"
  unfolding client0_def by (rule newConn_ok)

lemma client0_table: "table_ready client0"
  by (simp add: client0_def newConn_def Let_def newFrameReader_def table_ready_def NewDecoder_def new_table_def tbl_ok_def)

text \<open>
  C10 No frame makes the reader of a connection panic but one: in a state with the invariant and a
  header table in order, acting on a frame that was read panics exactly when it is a WINDOW_UPDATE
  for a stream in the table that was never open for sending; reserved streams are such streams.
\<close>

theorem read_frame_panics:
  assumes "conn_ok c" "table_ready c" "frame_valid mx f"
  shows "(read_frame f c = None \<longleftrightarrow>
      (\<exists>sid n s. f = WindowUpdateFrame sid n \<and> sid \<noteq> 0 \<and> Conn_stream c sid = Some s \<and> s_sendFlow s = None))
    \<and> (\<forall>sid n s. f = WindowUpdateFrame sid n \<longrightarrow> Conn_stream c sid = Some s \<longrightarrow>
         s_state s = StateReservedLocal \<or> s_state s = StateReservedRemote \<longrightarrow> read_frame f c = None)"
proof (intro conjI allI impI)
  note i = read_frame_panics_iff [OF assms]
  show "read_frame f c = None \<longleftrightarrow>
      (\<exists>sid n s. f = WindowUpdateFrame sid n \<and> sid \<noteq> 0 \<and> Conn_stream c sid = Some s \<and> s_sendFlow s = None)"
    by (rule i [unfolded unsendable_def])
  show "read_frame f c = None" if "f = WindowUpdateFrame sid n" "Conn_stream c sid = Some s"
    "s_state s = StateReservedLocal \<or> s_state s = StateReservedRemote" for sid n s
    using reserved_unsendable [OF assms(1) that(2, 3), of n] i that(1) by simp
qed

text \<open>A server that has promised stream 2 on stream 1, which a client opened.\<close>

definition server_promised :: "conn option" where
  "server_promised =
     do {
       (_, c) \<leftarrow> read_frame (HeadersFrame 1 None no_Priority 0 False) (newConn True 0 [] EOF None (\<lambda>n. 2 * n) None);
       (_, c) \<leftarrow> writeFrame Proceed (PushPromiseFrame 1 2 None 0) c;
       Some c
     }"

lemma server_promised_eval:
  "\<exists>c s. server_promised = Some c \<and> Conn_stream c 2 = Some s \<and> s_state s = StateReservedLocal \<and> table_ready c"
  by (simp add: server_promised_def read_frame_def read_Headers_def conn_eval Conn_NumActiveStreams_def write_PushPromise_def writable_def
      Settings_PushEnabled_def Conn_RemoteSettings_def deferred_release_def release_id_def table_ready_def newFrameReader_def NewDecoder_def new_table_def tbl_ok_def)

lemma server_promised_ok:
  assumes "server_promised = Some c"
  shows "conn_ok c"
proof -
  let ?c0 = "newConn True 0 [] EOF None (\<lambda>n. 2 * n) None" and ?h = "HeadersFrame 1 None no_Priority 0 False"
  from assms obtain x c1 y where r: "read_frame ?h ?c0 = Some (x, c1)" and w: "writeFrame Proceed (PushPromiseFrame 1 2 None 0) c1 = Some (y, c)"
    by (auto simp: server_promised_def split: bind_splits)
  have v: "frame_valid 0 ?h" by (simp add: validStreamID_def header_wf_def no_Priority_def low_id_def)
  have "conn_ok c1" by (rule sound_conn.read_frame_ok [OF newConn_ok r v])
  then show ?thesis by (rule sound_conn.writeFrame_ok [OF _ w]) (simp add: low_id_def)
qed

theorem read_frame_panics_witness:
  "\<exists>c. server_promised = Some c \<and> read_frame (WindowUpdateFrame 2 100) c = None \<and> read_frame (PingFrame False []) client0 \<noteq> None"
proof -
  obtain c s where c: "server_promised = Some c" "Conn_stream c 2 = Some s" "s_state s = StateReservedLocal" "table_ready c"
    using server_promised_eval by blast
  have "frame_valid 16384 (WindowUpdateFrame 2 100)" by (simp add: low_id_def)
  from read_frame_panics [OF server_promised_ok [OF c(1)] c(4) this] c(2, 3) have "read_frame (WindowUpdateFrame 2 100) c = None" by blast
  then show ?thesis using c(1) by (auto simp: read_frame_def)
qed

text \<open>
  C14 Settings take effect as a whole when \<open>applySettings\<close> succeeds: the settings of the side are the
  old ones overridden by those of the frame, unknown parameters left out, and the frame size and
  header list limits of the reader (for the local side) or of the writer (for the remote side) are
  the announced ones, while those of the other are untouched.
\<close>

theorem settings_applied:
  assumes "applySettings loc s c = Some (None, c')" "settings_ok s"
  shows "(\<forall>i. Settings_value (cs_settings (side loc c')) i =
        (if known_setting i \<and> Settings_value s i \<noteq> None then Settings_value s i else Settings_value (cs_settings (side loc c)) i))
    \<and> side_limits loc c' = override_limits s (side_limits loc c) \<and> side_limits (\<not> loc) c' = side_limits (\<not> loc) c"
  using applySettings_effect [OF assms] by (simp add: override_def)

theorem settings_applied_witness:
  "\<exists>c. applySettings False [\<lparr>set_ID = 5, set_Value = 20000\<rparr>, \<lparr>set_ID = 99, set_Value = 7\<rparr>] client0 = Some (None, c)
     \<and> w_maxFrameSize (c_writer c) = 20000 \<and> r_maxFrameSize (c_reader c) = 16384
     \<and> Settings_value (cs_settings (c_remote c)) 5 = Some 20000 \<and> Settings_value (cs_settings (c_remote c)) 99 = None
     \<and> Settings_value (cs_settings (c_remote c)) 2 = Some 0"
proof -
  let ?s = "[\<lparr>set_ID = 5, set_Value = 20000\<rparr>, \<lparr>set_ID = 99, set_Value = 7\<rparr>] :: Settings"
  obtain c where c: "applySettings False ?s client0 = Some (None, c)"
    by (simp add: applySettings_def apply_setting_def Let_def)
  have ok: "settings_ok ?s" by (simp add: settings_ok_def setting_valid_def)
  have "cs_settings (side False client0) = [\<lparr>set_ID = 2, set_Value = 0\<rparr>]" "side_limits False client0 = \<lparr>l_maxFrameSize = 16384, l_maxHeaderListSize = 0\<rparr>"
    "side_limits True client0 = \<lparr>l_maxFrameSize = 16384, l_maxHeaderListSize = 0\<rparr>"
    by (simp_all add: client0_def newConn_def new_connState_def Let_def side_def side_limits_def newFrameWriter_def newFrameReader_def)
  with settings_applied [OF c ok] show ?thesis
    by (intro exI [of _ c]) (simp add: c known_setting_def side_def side_limits_def override_limits_def)
qed

text \<open>
  A client refuses every PUSH_PROMISE that promises one of the server's streams: \<open>readFrame\<close> looks
  the promised identifier up on the side of the client, where an even identifier is a bad one, so
  the result is a connection error whatever the settings say.
\<close>

lemma client_refuses_push:
  assumes "\<not> Conn_ServerConn c" "promised AND 1 = 0"
  shows "\<exists>e. read_frame (PushPromiseFrame sid promised h pad) c = Some (Exit (Some (PushPromiseFrame sid promised h pad)) (Some e), c)
    \<and> is_ConnError e"
proof -
  have "\<not> connState_validStreamID (side True c) promised"
    using assms by (simp add: Conn_ServerConn_def connState_validStreamID_def side_def)
  then obtain e where "idleStream True promised c = (Some e, c)" "is_ConnError e"
    by (rule_tac idleStream_cases [of True promised c]) auto
  then show ?thesis
    by (auto simp: read_frame_def exit_with_def read_PushPromise_def conn_error_def split: option.split)
qed

section \<open>Writing\<close>

text \<open>
  C15 The write queue keeps the order within control frames and within other frames and loses
  nothing: over any sequence of additions, receives and refills, what was received of a class
  followed by what is still queued of it is what was added of it.  After an addition or a refill the
  channel is empty only when the queue is.
\<close>

theorem write_queue_order:
  assumes "queue_run new_writeQueue evs = (out, w)" "queue_step w ev = (out', w')" "ev \<noteq> Received"
  shows "filter (\<lambda>x. fst x = c) out @ queued c w = filter (\<lambda>x. fst x = c) (added evs)
    \<and> (ch w' = None \<longrightarrow> (\<forall>c. queued c w' = []))"
proof -
  from queue_run_queued [OF tagged_new(1) assms(1), of c] tagged_new(2) have
    q: "tagged w" "filter (\<lambda>x. fst x = c) out @ queued c w = filter (\<lambda>x. fst x = c) (added evs)" by auto
  with queue_offers [OF q(1) assms(2, 3)] show ?thesis by blast
qed

theorem write_queue_order_witness:
  "\<exists>w w'. queue_run new_writeQueue [Added False (1::nat), Added False 2, Added True 3, Received, Refilled, Received] = ([(False, 1), (True, 3)], w)
     \<and> queued False w = [(False, 2)] \<and> queue_step w Refilled = ([], w') \<and> ch w' = Some (False, 2)"
proof -
  let ?evs = "[Added False (1::nat), Added False 2, Added True 3, Received, Refilled, Received]"
  obtain w w' where w: "queue_run new_writeQueue ?evs = ([(False, 1), (True, 3)], w)" "queue_step w Refilled = ([], w')" "ch w' = Some (False, 2)"
    by (simp add: queue_add_def send_buf_def send_cbuf_def new_writeQueue_def queue_get_def queue_set_def)
  from write_queue_order [OF w(1, 2), of False] w show ?thesis by simp
qed

text \<open>
  C16 A RST_STREAM that arrives while a frame of its stream is queued blocks the write loop: closing
  the stream sends the error to the waiting writer, which leaves, and when the write loop takes the
  stream from the queue it has nobody to report to and stays at the send, the stream being closed.
\<close>

theorem reset_wedges_loop:
  assumes "conn_ok c" "Conn_stream c sid = Some s" "active (s_state s)" "s_phase s = W_result" "s_frame s = Some f"
    "ch (c_queue c) = Some (Q_stream sid)" "frameWriter_WriteFrame U ord (c_writer c) f = Some (e, w)"
  shows "\<exists>c1 c2 s2. read_frame (RSTStreamFrame sid code) c = Some (Exit (Some (RSTStreamFrame sid code)) None, c1)
    \<and> writeLoop_step U ord flushErr c1 = Some (Stuck, c2)
    \<and> c_objs c2 sid = Some s2 \<and> s_state s2 = StateClosed \<and> s_phase s2 = W_done (Some errStreamClosed)"
proof -
  from reset_cancels_writer [OF assms(1-4, 6), of code] obtain c1 s1 where
    r: "read_frame (RSTStreamFrame sid code) c = Some (Exit (Some (RSTStreamFrame sid code)) None, c1)"
    and s1: "c_objs c1 sid = Some s1" "s_state s1 = StateClosed" "s_phase s1 = W_done (Some errStreamClosed)" "s_frame s1 = s_frame s"
    "ch (c_queue c1) = Some (Q_stream sid)" "c_writer c1 = c_writer c" by blast
  have "conn_ok c1" using r by (auto simp: read_frame_def intro: sound_conn.read_RSTStream_ok [OF assms(1)])
  then have "s_id s1 = sid" using obj_flows(4) s1(1) by blast
  with loop_sticks [OF s1(5, 1), of f U ord e w flushErr] s1 assms(5, 7) r show ?thesis by auto
qed

lemma hello_queued:
  "\<exists>c s. writeFrame Proceed hello client0 = Some (Pending, c) \<and> Conn_stream c 1 = Some s \<and> s_state s = StateOpen \<and> s_phase s = W_result
     \<and> s_frame s = Some hello \<and> ch (c_queue c) = Some (Q_stream 1) \<and> c_writer c = newFrameWriter None"
  by (simp add: conn_eval)

lemma hello_writes: "\<exists>e w. frameWriter_WriteFrame bytewise [] (newFrameWriter None) hello = Some (e, w)"
  by (simp add: hello_def HeadersFrame_writeTo_def validStreamID_def no_Priority_def HasPriority_def write_header_block_def Header_Len_def Let_def)

theorem reset_wedges_loop_witness:
  "\<exists>c c1 c2 s2. writeFrame Proceed hello client0 = Some (Pending, c)
     \<and> read_frame (RSTStreamFrame 1 ErrCodeCancel) c = Some (Exit (Some (RSTStreamFrame 1 ErrCodeCancel)) None, c1)
     \<and> writeLoop_step bytewise [] None c1 = Some (Stuck, c2) \<and> c_objs c2 1 = Some s2 \<and> s_state s2 = StateClosed"
proof -
  obtain c s where c: "writeFrame Proceed hello client0 = Some (Pending, c)" "Conn_stream c 1 = Some s" "s_state s = StateOpen" "s_phase s = W_result"
    "s_frame s = Some hello" "ch (c_queue c) = Some (Q_stream 1)" "c_writer c = newFrameWriter None" using hello_queued by blast
  obtain e w where w: "frameWriter_WriteFrame bytewise [] (c_writer c) hello = Some (e, w)" using hello_writes c(7) by auto
  have "conn_ok c" by (rule sound_conn.writeFrame_ok [OF client0_ok c(1)]) (simp add: hello_def low_id_def)
  moreover have "active (s_state s)" by (simp add: c(3) active_def)
  ultimately show ?thesis using reset_wedges_loop [OF _ c(2) _ c(4-6) w, of ErrCodeCancel None] c(1) by blast
qed

text \<open>
  C17 A stream that is reset while the application reads one of its DATA frames makes the read fail:
  closing the stream returns every byte it had consumed, and the reader of the frame then returns
  those it has processed, with the padding, a second time.  When the other streams hold less than
  that, the check of the connection fails, and the result is a connection error with code
  INTERNAL_ERROR; otherwise the connection takes them as those of other streams, and the check of the
  stream itself fails with a stream error of that code.
\<close>

theorem reset_kills_reader:
  assumes "conn_ok c" "Conn_stream c (d_stream (c_data c)) = Some s" "active (s_state s)"
    "s_recvFlow s = Some f" "flow_ok (c_recvFlow c)" "flow_ok f" "flow_consumedBytes f \<le> flow_consumedBytes (c_recvFlow c)"
    "\<not> d_sawEOF (c_data c)" "0 < to_return c"
  shows "\<exists>c1 c2. writeFrame b (RSTStreamFrame (d_stream (c_data c)) code) c = Some (Returned None, c1)
    \<and> data_returnBytes c1 = Some (Some
        (if flow_consumedBytes (c_recvFlow c) - flow_consumedBytes f < to_return c
         then ConnError (Errorf (str ''attempting to return too many bytes'')) ErrCodeInternal
         else StreamError (Errorf (str ''attempting to return too many bytes'')) ErrCodeInternal (d_stream (c_data c))), c2)"
  using assms by (rule reset_then_return)

text \<open>A server that has read four of the ten bytes of a DATA frame on stream 1.\<close>

definition server_reading :: "conn option" where
  "server_reading =
     do {
       (_, c) \<leftarrow> read_frame (HeadersFrame 1 None no_Priority 0 False) (newConn True 0 (replicate 10 0) EOF None (\<lambda>n. 2 * n) None);
       (_, c) \<leftarrow> read_frame (DataFrame 1 None 10 0 False) c;
       (_, c) \<leftarrow> data_Read 4 (c\<lparr>c_reader := (c_reader c)\<lparr>r_payload := (10, 0)\<rparr>\<rparr>);
       Some c
     }"

lemma server_reading_eval:
  "\<exists>c s f. server_reading = Some c \<and> d_stream (c_data c) = 1 \<and> Conn_stream c 1 = Some s \<and> s_state s = StateOpen
     \<and> s_recvFlow s = Some f \<and> flow_ok (c_recvFlow c) \<and> flow_ok f \<and> flow_consumedBytes (c_recvFlow c) = 10 \<and> flow_consumedBytes f = 10
     \<and> \<not> d_sawEOF (c_data c) \<and> 0 < to_return c"
  by (simp add: server_reading_def read_frame_def read_Headers_def read_Data_def conn_eval stream_consume_def stream_consumeBytes_def conn_consumeBytes_def
      consume_own_def new_flowController_def Settings_InitialWindowSize_def Conn_Settings_def newFrameReader_def data_Read_def framePayload_Read_def flow_ok_def flow_consumedBytes_def to_return_def)

lemma server_reading_ok:
  assumes "server_reading = Some c"
  shows "conn_ok c"
proof -
  let ?c0 = "newConn True 0 (replicate 10 0) EOF None (\<lambda>n. 2 * n) None"
  from assms obtain x c1 y c2 z where r: "read_frame (HeadersFrame 1 None no_Priority 0 False) ?c0 = Some (x, c1)"
    "read_frame (DataFrame 1 None 10 0 False) c1 = Some (y, c2)" "data_Read 4 (c2\<lparr>c_reader := (c_reader c2)\<lparr>r_payload := (10, 0)\<rparr>\<rparr>) = Some (z, c)"
    by (auto simp: server_reading_def split: bind_splits)
  have v: "frame_valid 0 (HeadersFrame 1 None no_Priority 0 False)" by (simp add: validStreamID_def header_wf_def no_Priority_def low_id_def)
  have "conn_ok c1" by (rule sound_conn.read_frame_ok [OF newConn_ok r(1) v])
  then have ok: "conn_ok c2" using r(2) by (auto simp: read_frame_def intro: sound_conn.read_Data_ok)
  then have "conn_ok (c2\<lparr>c_reader := (c_reader c2)\<lparr>r_payload := (10, 0)\<rparr>\<rparr>)"
    by (rule sound_conn.I_reader) (use conn_okD(9) [OF ok] in \<open>simp add: pending_ok_def split: option.splits\<close>)
  then show ?thesis by (rule sound_conn.data_Read_ok [OF _ r(3)])
qed

theorem reset_kills_reader_witness:
  "\<exists>c c1 c2. server_reading = Some c \<and> writeFrame Proceed (RSTStreamFrame 1 ErrCodeCancel) c = Some (Returned None, c1)
     \<and> data_returnBytes c1 = Some (Some (ConnError (Errorf (str ''attempting to return too many bytes'')) ErrCodeInternal), c2)"
proof -
  obtain c s f where c: "server_reading = Some c" "d_stream (c_data c) = 1" "Conn_stream c 1 = Some s" "s_state s = StateOpen"
    "s_recvFlow s = Some f" "flow_ok (c_recvFlow c)" "flow_ok f" "flow_consumedBytes (c_recvFlow c) = 10" "flow_consumedBytes f = 10"
    "\<not> d_sawEOF (c_data c)" "0 < to_return c" using server_reading_eval by blast
  have "active (s_state s)" by (simp add: c(4) active_def)
  with reset_kills_reader [OF server_reading_ok [OF c(1)] _ _ c(5-7) _ c(10, 11), of Proceed ErrCodeCancel] c show ?thesis by auto
qed

end
