(* ===== verification/H2_Base64.thy ===== *)
theory H2_Base64
  imports H2_Prelude "HOL-Library.Monad_Syntax"
begin

text \<open>
  The encoding \<open>base64.URLEncoding\<close> of the standard library, in which \<^verbatim>\<open>src/client.go\<close> and \<^verbatim>\<open>src/server.go\<close>
  exchange settings in the header \<open>HTTP2-Settings\<close>.  The decoder skips line breaks, requires the
  padding and refuses every other character; \<open>None\<close> is its \<open>CorruptInputError\<close>.
\<close>

definition b64_alphabet :: bytes where
  "b64_alphabet = map (\<lambda>k. of_nat (k + 65)) [0..<26] @ map (\<lambda>k. of_nat (k + 97)) [0..<26] @ map (\<lambda>k. of_nat (k + 48)) [0..<10] @ [45, 95]"

definition b64_digit :: "nat \<Rightarrow> u8" where
  "b64_digit d = b64_alphabet ! d"

definition b64_value :: "u8 \<Rightarrow> nat option" where
  "b64_value c =
     (if 65 \<le> c \<and> c \<le> 90 then Some (unat c - 65)
      else if 97 \<le> c \<and> c \<le> 122 then Some (unat c - 71)
      else if 48 \<le> c \<and> c \<le> 57 then Some (unat c + 4)
      else if c = 45 then Some 62
      else if c = 95 then Some 63
      else None)"

fun b64_encode :: "bytes \<Rightarrow> bytes" where
  "b64_encode [] = []"
| "b64_encode [a] = [b64_digit (unat a div 4), b64_digit (unat a mod 4 * 16), 61, 61]"
| "b64_encode [a, b] =
     [b64_digit (unat a div 4), b64_digit (unat a mod 4 * 16 + unat b div 16), b64_digit (unat b mod 16 * 4), 61]"
| "b64_encode (a # b # c # bs) =
     [b64_digit (unat a div 4), b64_digit (unat a mod 4 * 16 + unat b div 16), b64_digit (unat b mod 16 * 4 + unat c div 64),
      b64_digit (unat c mod 64)] @ b64_encode bs"

text \<open>A quantum is four characters; only the last one may be padded.\<close>

fun b64_quanta :: "bytes \<Rightarrow> bytes option" where
  "b64_quanta [] = Some []"
| "b64_quanta (a # b # c # d # cs) =
     do {
       w \<leftarrow> b64_value a;
       x \<leftarrow> b64_value b;
       let p = of_nat (w * 4 + x div 16) in
       if c = 61 then (if d = 61 \<and> cs = [] then Some [p] else None)
       else do {
         y \<leftarrow> b64_value c;
         let q = of_nat (x mod 16 * 16 + y div 4) in
         if d = 61 then (if cs = [] then Some [p, q] else None)
         else do {
           z \<leftarrow> b64_value d;
           bs \<leftarrow> b64_quanta cs;
           Some (p # q # of_nat (y mod 4 * 64 + z) # bs)
         }
       }
     }"
| "b64_quanta _ = None"

definition b64_decode :: "bytes \<Rightarrow> bytes option" where
  "b64_decode s = b64_quanta (filter (\<lambda>c. c \<noteq> 10 \<and> c \<noteq> 13) s)"

section \<open>Decoding inverts encoding\<close>

lemma value_digit:
  assumes "d < 64"
  shows "b64_value (b64_digit d) = Some d" "b64_digit d \<noteq> 61"
proof -
  have "list_all (\<lambda>d. b64_value (b64_digit d) = Some d) [0..<64]" by code_simp
  with assms show v: "b64_value (b64_digit d) = Some d" by (simp add: list_all_iff)
  show "b64_digit d \<noteq> 61" using v by (auto simp: b64_value_def)
qed

lemma byte_digits:
  "unat a div 4 < 64" "unat a mod 4 * 16 < 64" "unat a mod 4 * 16 + unat b div 16 < 64" "unat b mod 16 * 4 < 64"
  "unat b mod 16 * 4 + unat c div 64 < 64" "unat c mod 64 < 64" for a b c :: u8
  using unat_less_8 [of a] unat_less_8 [of b] unat_less_8 [of c] by (auto simp: div_less_iff_less_mult)

lemma digit_bytes:
  "of_nat (unat a div 4 * 4 + (unat a mod 4 * 16 + unat b div 16) div 16) = a"
  "of_nat (unat a div 4 * 4 + (unat a mod 4 * 16) div 16) = a"
  "of_nat ((unat a mod 4 * 16 + unat b div 16) mod 16 * 16 + (unat b mod 16 * 4 + unat c div 64) div 4) = b"
  "of_nat ((unat a mod 4 * 16 + unat b div 16) mod 16 * 16 + (unat b mod 16 * 4) div 4) = b"
  "of_nat ((unat b mod 16 * 4 + unat c div 64) mod 4 * 64 + unat c mod 64) = c" for a b c :: u8
proof -
  have "unat b div 16 < 16" "unat c div 64 < 4" using unat_less_8 [of b] unat_less_8 [of c] by (auto simp: div_less_iff_less_mult)
  then show "of_nat (unat a div 4 * 4 + (unat a mod 4 * 16 + unat b div 16) div 16) = a"
    "of_nat (unat a div 4 * 4 + (unat a mod 4 * 16) div 16) = a"
    "of_nat ((unat a mod 4 * 16 + unat b div 16) mod 16 * 16 + (unat b mod 16 * 4 + unat c div 64) div 4) = b"
    "of_nat ((unat a mod 4 * 16 + unat b div 16) mod 16 * 16 + (unat b mod 16 * 4) div 4) = b"
    "of_nat ((unat b mod 16 * 4 + unat c div 64) mod 4 * 64 + unat c mod 64) = c"
    by (simp_all del: of_nat_add of_nat_mult)
qed

lemmas b64_steps = value_digit [OF byte_digits(1)] value_digit [OF byte_digits(2)] value_digit [OF byte_digits(3)]
  value_digit [OF byte_digits(4)] value_digit [OF byte_digits(5)] value_digit [OF byte_digits(6)]

lemma quanta_encode: "b64_quanta (b64_encode bs) = Some bs"
  by (induction bs rule: b64_encode.induct) (simp_all only: b64_encode.simps b64_quanta.simps append.simps b64_steps Let_def bind.bind_lunit simp_thms if_True if_False refl digit_bytes)

definition b64_char :: "u8 \<Rightarrow> bool" where
  "b64_char c \<longleftrightarrow> b64_value c \<noteq> None \<or> c = 61"

lemma encode_chars: "c \<in> set (b64_encode bs) \<Longrightarrow> b64_char c"
  by (induction bs rule: b64_encode.induct) (auto simp: b64_char_def b64_steps)

lemma decode_encode: "b64_decode (b64_encode bs) = Some bs"
proof -
  have "c \<noteq> 10 \<and> c \<noteq> 13" if "c \<in> set (b64_encode bs)" for c
    using encode_chars [OF that] by (auto simp: b64_char_def b64_value_def)
  then show ?thesis by (simp add: b64_decode_def quanta_encode)
qed

end
