(* ===== verification/H2_Upgrade.thy ===== *)
theory H2_Upgrade
  imports H2_Base64 H2_ConnLoop H2_Frames
begin

text \<open>
  The upgrade from HTTP/1.1: \<open>serverUpgrade\<close> of \<^verbatim>\<open>src/server.go\<close> and \<open>clientUpgrade\<close> of \<^verbatim>\<open>src/client.go\<close>.

  Parsing and printing HTTP/1.1 messages is the business of \<open>net/http\<close>; these functions and the
  texts of the errors of \<open>base64\<close> are the parameter \<open>net\<close>.  A request has a header map that is not
  nil, as \<open>net/http\<close> makes it.
\<close>

section \<open>Messages\<close>

type_synonym http_header = "(gostring \<times> gostring list) list"

record http_request = request +
  rq_ContentLength :: int
  rq_Body :: "bytes option"

record http_response =
  rs_StatusCode :: int
  rs_Header :: http_header
  rs_Body :: "bytes option"

text \<open>
  The reading functions take what is left of the input and return what they leave of it; writing a
  request returns its error and what reached the transport.
\<close>

record net =
  http_NewRequest :: "gostring \<Rightarrow> h2error + http_request"
  http_ReadRequest :: "bytes \<Rightarrow> (h2error + http_request) \<times> bytes"
  http_RequestWrite :: "http_request \<Rightarrow> h2error option \<times> bytes"
  http_ReadResponse :: "bytes \<Rightarrow> (h2error + http_response) \<times> bytes"
  base64_error :: "gostring \<Rightarrow> gostring"
  net_RemoteAddr :: "gostring option"

definition http_Set :: "http_header \<Rightarrow> gostring \<Rightarrow> gostring \<Rightarrow> http_header" where
  "http_Set h k v = AList.update k [v] h"

definition http_Add :: "http_header \<Rightarrow> gostring \<Rightarrow> gostring \<Rightarrow> http_header" where
  "http_Add h k v = AList.update k ((case map_of h k of None \<Rightarrow> [] | Some vs \<Rightarrow> vs) @ [v]) h"

definition http_StatusText :: "nat \<Rightarrow> gostring" where
  "http_StatusText n =
     (if n = 400 then str ''Bad Request'' else if n = 405 then str ''Method Not Allowed'' else if n = 200 then str ''OK'' else [])"

definition ProtocolTLS :: gostring where "ProtocolTLS = str ''h2''"

definition ProtocolTCP :: gostring where "ProtocolTCP = str ''h2c''"

text \<open>Writing to the buffered writer of the connection, with the error dropped.\<close>

definition buf_WriteString :: "bytes \<Rightarrow> conn \<Rightarrow> conn" where
  "buf_WriteString s c = c\<lparr>c_writer := snd (out_Write (c_writer c) s)\<rparr>"

definition crlf :: bytes where "crlf = [13, 10]"

section \<open>The server\<close>

fun upgrade_settings :: "nat \<Rightarrow> Settings \<Rightarrow> bytes \<Rightarrow> gostring + Settings" where
  "upgrade_settings 0 settings payload = Inr settings"
| "upgrade_settings (Suc k) settings payload =
     (case Settings_SetValue settings (be_Uint16 (take 2 payload)) (be_Uint32 (take 4 (drop 2 payload))) of
        (Some e, settings) \<Rightarrow> Inl (h2error_Error e)
      | (None, settings) \<Rightarrow> upgrade_settings k settings (drop settingLen payload))"

text \<open>The checks up to \<open>applySettings\<close>: the status and the reason of a failure, or the settings.\<close>

definition bad_upgrade :: "nat \<times> gostring" where
  "bad_upgrade = (400, str ''bad upgrade request'')"

definition upgrade_payload_settings :: "bytes \<Rightarrow> (nat \<times> gostring) + Settings" where
  "upgrade_payload_settings payload =
     (if length payload mod settingLen \<noteq> 0 then Inl bad_upgrade
      else (case upgrade_settings (length payload div settingLen) [] payload of
              Inl reason \<Rightarrow> Inl (400, reason)
            | Inr settings \<Rightarrow> Inr settings))"

definition upgrade_check :: "unicode \<Rightarrow> net \<Rightarrow> http_request \<Rightarrow> (nat \<times> gostring) + Settings" where
  "upgrade_check U N upgrade =
     (let header = rq_Header upgrade in
      if rq_Method upgrade \<noteq> str ''GET'' then Inl (405, snd bad_upgrade)
      else if \<not> containsValue U header (str ''Upgrade'') [ProtocolTCP] then Inl bad_upgrade
      else if \<not> containsValue U header (str ''Connection'') [str ''Upgrade'', str ''HTTP2-Settings''] then Inl bad_upgrade
      else
        let values = splitHeader U header (str ''HTTP2-Settings'') in
        if length values \<noteq> 1 then Inl bad_upgrade
        else (case b64_decode (hd values) of
                None \<Rightarrow> Inl (400, base64_error N (hd values))
              | Some payload \<Rightarrow> upgrade_payload_settings payload))"

definition upgrade_refused :: "nat \<Rightarrow> gostring \<Rightarrow> conn \<Rightarrow> h2error option \<times> conn" where
  "upgrade_refused status reason c =
     (let c = buf_WriteString (str ''HTTP/1.1 '' @ dec_string status @ str '' '' @ http_StatusText status @ crlf) c;
          c = buf_WriteString crlf c;
          c = buf_WriteString reason c
      in (Some (HandshakeError reason), c))"

text \<open>Opening stream 1; the error of \<open>idleStream\<close> is dropped and its nil stream panics.\<close>

definition open_stream_one :: "bool \<Rightarrow> conn \<Rightarrow> conn option" where
  "open_stream_one local c =
     (case idleStream local 1 c of
        (Some _, _) \<Rightarrow> None
      | (None, c) \<Rightarrow> map_option snd (stream_transition 1 (\<not> local) FrameHeaders True c))"

definition upgrade_request_frames :: "unicode \<Rightarrow> http_request \<Rightarrow> Frame list option" where
  "upgrade_request_frames U upgrade =
     do {
       r \<leftarrow> requestToHeader U (request.truncate upgrade) True;
       let h = (case r of Inl _ \<Rightarrow> None | Inr h \<Rightarrow> h); endStream = (rq_ContentLength upgrade \<le> 0) in
       Some (HeadersFrame 1 h no_Priority 0 endStream
         # (if endStream then [] else [DataFrame 1 (rq_Body upgrade) (rq_ContentLength upgrade) 0 True]))
     }"

definition serverUpgrade ::
  "unicode \<Rightarrow> net \<Rightarrow> http_request \<Rightarrow> bool \<Rightarrow> conn \<Rightarrow> ((h2error option \<times> Frame list) \<times> conn) option" where
  "serverUpgrade U N upgrade hijacked c =
     (case upgrade_check U N upgrade of
        Inl (status, reason) \<Rightarrow> Some (case upgrade_refused status reason c of (e, c) \<Rightarrow> ((e, []), c))
      | Inr settings \<Rightarrow> do {
          (e, c) \<leftarrow> applySettings False settings c;
          case e of
            Some e \<Rightarrow> Some (case upgrade_refused 400 (h2error_Error e) c of (e, c) \<Rightarrow> ((e, []), c))
          | None \<Rightarrow> do {
              c \<leftarrow> open_stream_one False c;
              frames \<leftarrow> (if hijacked then Some [] else upgrade_request_frames U upgrade);
              let c = buf_WriteString (str ''HTTP/1.1 101 Switching Protocols'' @ crlf) c;
                  c = buf_WriteString (str ''Connection: Upgrade'' @ crlf) c;
                  c = buf_WriteString (str ''Upgrade: h2c'' @ crlf @ crlf) c
              in Some ((None, frames), c)
            }
        })"

section \<open>The client\<close>

definition upgrade_payload :: "Settings \<Rightarrow> bytes" where
  "upgrade_payload settings = concat (map setting_bytes settings)"

definition encoded_settings :: "Settings \<Rightarrow> gostring" where
  "encoded_settings settings = (if length settings > 0 then b64_encode (upgrade_payload settings) else [])"

definition upgrade_header :: "unicode \<Rightarrow> Settings \<Rightarrow> http_header \<Rightarrow> h2error + http_header" where
  "upgrade_header U settings h =
     (let h = http_Set h (str ''Upgrade'') ProtocolTCP;
          h = (if \<not> containsValue U h (str ''Connection'') [str ''Upgrade''] then http_Add h (str ''Connection'') (str ''Upgrade'') else h);
          h = (if \<not> containsValue U h (str ''Connection'') [str ''HTTP2-Settings'']
               then http_Add h (str ''Connection'') (str ''HTTP2-Settings'') else h);
          values = splitHeader U h (str ''HTTP2-Settings'')
      in if length values = 0 then Inr (AList.update (str ''HTTP2-Settings'') [encoded_settings settings] h)
         else if length values > 1 then Inl (HandshakeError (http_StatusText 400))
         else Inr h)"

definition upgrade_request :: "net \<Rightarrow> http_request option \<Rightarrow> (h2error + http_request) option" where
  "upgrade_request N req =
     (case req of
        Some req \<Rightarrow> Some (Inr req)
      | None \<Rightarrow> do {
          addr \<leftarrow> net_RemoteAddr N;
          Some (case http_NewRequest N (str ''http://'' @ addr @ str ''/'') of
                  Inl e \<Rightarrow> Inl (HandshakeError (h2error_Error e))
                | Inr req \<Rightarrow> Inr req)
        })"

text \<open>The status \<open>101\<close> and the two headers make the response an upgrade.\<close>

definition upgrade_response :: "unicode \<Rightarrow> http_response \<Rightarrow> h2error option" where
  "upgrade_response U res =
     (if rs_StatusCode res \<noteq> 101 \<or> \<not> containsValue U (rs_Header res) (str ''Upgrade'') [ProtocolTCP]
        \<or> \<not> containsValue U (rs_Header res) (str ''Connection'') [str ''Upgrade''] then
        let reason = (case rs_Body res of None \<Rightarrow> [] | Some b \<Rightarrow> b)
        in Some (HandshakeError (if reason = [] then str ''upgrade failed'' else reason))
      else None)"

text \<open>
  \<open>clientUpgrade\<close> in two parts: up to the opening of stream 1, and the response, for which it may have to
  wait.
\<close>

definition client_request ::
  "unicode \<Rightarrow> net \<Rightarrow> Settings \<Rightarrow> http_request option \<Rightarrow> conn \<Rightarrow> (h2error option \<times> conn) option" where
  "client_request U N settings req c =
     do {
       r \<leftarrow> upgrade_request N req;
       case r of
         Inl e \<Rightarrow> Some (Some e, c)
       | Inr req \<Rightarrow>
           if rq_Method req \<noteq> str ''GET'' then Some (Some (HandshakeError (http_StatusText 405)), c)
           else
             (case upgrade_header U settings (rq_Header req) of
                Inl e \<Rightarrow> Some (Some e, c)
              | Inr h \<Rightarrow>
                  (case http_RequestWrite N (req\<lparr>rq_Header := h\<rparr>) of
                     (e, bs) \<Rightarrow>
                       let c = c\<lparr>c_writer := (c_writer c)\<lparr>w_out := w_out (c_writer c) @ bs\<rparr>\<rparr> in
                       (case e of
                          Some e \<Rightarrow> Some (Some (HandshakeError (h2error_Error e)), c)
                        | None \<Rightarrow> do { c \<leftarrow> open_stream_one True c; Some (None, c) })))
     }"

definition client_response :: "unicode \<Rightarrow> net \<Rightarrow> conn \<Rightarrow> h2error option \<times> conn" where
  "client_response U N c =
     (case http_ReadResponse N (r_in (c_reader c)) of
        (res, rest) \<Rightarrow>
          (case res of Inl e \<Rightarrow> Some (HandshakeError (h2error_Error e)) | Inr res \<Rightarrow> upgrade_response U res,
           c\<lparr>c_reader := (c_reader c)\<lparr>r_in := rest\<rparr>\<rparr>))"

definition clientUpgrade ::
  "unicode \<Rightarrow> net \<Rightarrow> Settings \<Rightarrow> http_request option \<Rightarrow> conn \<Rightarrow> (h2error option \<times> conn) option" where
  "clientUpgrade U N settings req c =
     do {
       (e, c) \<leftarrow> client_request U N settings req c;
       Some (case e of Some e \<Rightarrow> (Some e, c) | None \<Rightarrow> client_response U N c)
     }"

end
