(* ===== verification/H2_UpgradeTrip.thy ===== *)
theory H2_UpgradeTrip
  imports H2_Upgrade H2_ConnHazards
begin

text \<open>
  The two sides of an upgrade: the header that a client sends passes the checks of the server,
  which finds the settings in it, and what the server then does on a new connection.
\<close>

section \<open>Settings\<close>

lemma be_Uint_setting:
  "be_Uint16 (take 2 (setting_bytes x @ bs)) = set_ID x" "be_Uint32 (take 4 (drop 2 (setting_bytes x @ bs))) = set_Value x"
proof -
  have "take 2 (setting_bytes x @ bs) = [ucast (drop_bit 8 (set_ID x)), ucast (set_ID x)]" by (simp add: setting_bytes_def)
  then show "be_Uint16 (take 2 (setting_bytes x @ bs)) = set_ID x" by (metis be_Uint16_bytes)
  have "take 4 (drop 2 (setting_bytes x @ bs)) = uint32_bytes (set_Value x)" by (simp add: setting_bytes_def)
  then show "be_Uint32 (take 4 (drop 2 (setting_bytes x @ bs))) = set_Value x" by (metis be_Uint32_4)
qed

lemma upgrade_settings_bytes:
  "settings_ok (s @ t) \<Longrightarrow> upgrade_settings (length t) s (upgrade_payload t) = Inr (s @ t)"
proof (induction t arbitrary: s)
  case (Cons x t)
  have "setting_valid (set_ID x) (set_Value x)" "set_ID x \<notin> set_ID ` set s"
    using Cons.prems by (auto simp: settings_ok_def)
  then have "Settings_SetValue s (set_ID x) (set_Value x) = (None, s @ [x])"
    by (simp add: Settings_SetValue_def Settings_store_new)
  moreover have "drop settingLen (upgrade_payload (x # t)) = upgrade_payload t" by (simp add: upgrade_payload_def)
  moreover have "upgrade_payload (x # t) = setting_bytes x @ upgrade_payload t" by (simp add: upgrade_payload_def)
  ultimately show ?case using Cons.IH [of "s @ [x]"] Cons.prems be_Uint_setting [of x "upgrade_payload t"] by simp
qed simp

lemma length_upgrade_payload: "length (upgrade_payload s) = settingLen * length s"
  by (induction s) (simp_all add: upgrade_payload_def)

lemma upgrade_payload_read: "settings_ok s \<Longrightarrow> upgrade_payload_settings (upgrade_payload s) = Inr s"
  using upgrade_settings_bytes [of "[]" s] by (simp add: upgrade_payload_settings_def length_upgrade_payload)

lemma encoded_settings_read: "b64_decode (encoded_settings s) = Some (upgrade_payload s)"
  by (simp add: encoded_settings_def decode_encode) (simp add: upgrade_payload_def b64_decode_def)

lemma upgrade_settings_valid:
  "upgrade_settings k s bs = Inr s' \<Longrightarrow> settings_ok s \<Longrightarrow> settings_ok s'"
  by (induction k s bs rule: upgrade_settings.induct)
     (auto simp: Settings_SetValue_def settings_ok_store split: prod.splits option.splits if_splits)

lemma upgrade_check_valid: "upgrade_check U N req = Inr s \<Longrightarrow> settings_ok s"
  by (auto simp: upgrade_check_def upgrade_payload_settings_def Let_def settings_ok_def split: if_splits option.splits sum.splits
      dest!: upgrade_settings_valid)

section \<open>Header values\<close>

text \<open>A token is a string that a list of values keeps apart.\<close>

definition token :: "gostring \<Rightarrow> bool" where
  "token s \<longleftrightarrow> list_all (\<lambda>c. c < 128 \<and> c \<noteq> 44 \<and> \<not> space c) s"

definition header_values :: "unicode \<Rightarrow> gostring list \<Rightarrow> gostring list" where
  "header_values U vs = concat (map (\<lambda>v. map (strings_TrimSpace U) (strings_Split v 44)) vs)"

lemma token_ascii: "token s \<Longrightarrow> ascii s"
  by (auto simp: token_def ascii_def list_all_iff)

lemma Split_token: "token s \<Longrightarrow> strings_Split s 44 = [s]"
  by (induction s) (auto simp: token_def)

lemma dropWhile_none: "list_all (\<lambda>c. \<not> P c) s \<Longrightarrow> dropWhile P s = s"
  by (cases s) simp_all

lemma TrimSpace_token: "token s \<Longrightarrow> strings_TrimSpace U s = s"
proof -
  assume t: "token s"
  then have "list_all (\<lambda>c. \<not> space c) s" "list_all (\<lambda>c. \<not> space c) (rev s)" by (auto simp: token_def list_all_iff)
  with token_ascii [OF t] show ?thesis by (simp add: strings_TrimSpace_def dropWhile_none)
qed

lemma header_values_token [simp]: "token v \<Longrightarrow> header_values U (vs @ [v]) = header_values U vs @ [v]"
  by (simp add: header_values_def Split_token TrimSpace_token)

lemma header_values_Nil [simp]: "header_values U [] = []"
  by (simp add: header_values_def)

lemma header_values_one [simp]: "token v \<Longrightarrow> header_values U [v] = [v]"
  using header_values_token [of v U "[]"] by simp

lemma encoded_token: "token (encoded_settings s)"
proof -
  have "c < 128 \<and> c \<noteq> 44 \<and> \<not> space c" if "b64_char c" for c
    using that by (auto simp: b64_char_def b64_value_def space_def word_less_nat_alt word_le_nat_alt split: if_splits)
  then show ?thesis by (auto simp: token_def list_all_iff encoded_settings_def dest: encode_chars)
qed

text \<open>The header has no second spelling of a key.\<close>

definition one_spelling :: "unicode \<Rightarrow> gostring \<Rightarrow> http_header \<Rightarrow> bool" where
  "one_spelling U k h \<longleftrightarrow> (\<forall>k'\<in>set (map fst h). strings_EqualFold U k k' \<longrightarrow> k' = k)"

lemma EqualFold_refl [simp]: "ascii k \<Longrightarrow> strings_EqualFold U k k"
  by (simp add: strings_EqualFold_def)

lemma splitHeader_map_of:
  assumes "one_spelling U k h" "ascii k"
  shows "splitHeader U h k = header_values U (case map_of h k of None \<Rightarrow> [] | Some vs \<Rightarrow> vs)"
  using assms(1)
proof (induction h)
  case (Cons kv h)
  obtain k' v where kv: "kv = (k', v)" by fastforce
  have "splitHeader U h k = header_values U (case map_of h k of None \<Rightarrow> [] | Some vs \<Rightarrow> vs)"
    using Cons.prems by (intro Cons.IH) (simp add: one_spelling_def)
  moreover have "strings_EqualFold U k k' \<longleftrightarrow> k' = k" using Cons.prems assms(2) kv by (auto simp: one_spelling_def)
  ultimately show ?case by (simp add: kv header_values_def)
qed simp

lemma one_spelling_update:
  "one_spelling U k h \<Longrightarrow> k' = k \<or> \<not> strings_EqualFold U k k' \<Longrightarrow> one_spelling U k (AList.update k' v h)"
proof -
  assume a: "one_spelling U k h" "k' = k \<or> \<not> strings_EqualFold U k k'"
  have "dom (map_of (AList.update k' v h)) = insert k' (dom (map_of h))" by (simp add: AList.update_conv')
  then have "fst ` set (AList.update k' v h) = insert k' (fst ` set h)" unfolding dom_map_of_conv_image_fst .
  with a show ?thesis by (auto simp: one_spelling_def)
qed

lemma split_update:
  assumes "one_spelling U k h" "ascii k" "k' = k \<or> \<not> strings_EqualFold U k k'"
  shows "splitHeader U (AList.update k' v h) k = (if k' = k then header_values U v else splitHeader U h k)"
  using splitHeader_map_of [OF one_spelling_update [OF assms(1, 3)] assms(2)] splitHeader_map_of [OF assms(1, 2)]
  by (simp add: AList.update_conv')

lemma split_Add:
  assumes "one_spelling U k h" "ascii k" "token v"
  shows "splitHeader U (http_Add h k v) k = splitHeader U h k @ [v]"
  using assms split_update [OF assms(1, 2), of k] splitHeader_map_of [OF assms(1, 2)]
  by (simp add: http_Add_def)

lemma contains_split:
  "containsValue U h k vs \<longleftrightarrow> splitHeader U h k \<noteq> [] \<and> (\<forall>v\<in>set vs. \<exists>s\<in>set (splitHeader U h k). strings_EqualFold U v s)"
  by (simp add: containsValue_def Let_def list_all_iff list_ex_iff)

section \<open>The request of a client\<close>

abbreviation k_Upgrade :: gostring where "k_Upgrade \<equiv> str ''Upgrade''"
abbreviation k_Connection :: gostring where "k_Connection \<equiv> str ''Connection''"
abbreviation k_Settings :: gostring where "k_Settings \<equiv> str ''HTTP2-Settings''"

lemma upgrade_tokens [simp]: "token k_Upgrade" "token k_Connection" "token k_Settings" "token ProtocolTCP"
  by code_simp+

lemmas upgrade_ascii [simp] = upgrade_tokens [THEN token_ascii]

lemma upgrade_keys:
  "\<not> strings_EqualFold U k_Upgrade k_Connection" "\<not> strings_EqualFold U k_Upgrade k_Settings"
  "\<not> strings_EqualFold U k_Connection k_Upgrade" "\<not> strings_EqualFold U k_Connection k_Settings"
  "\<not> strings_EqualFold U k_Settings k_Upgrade" "\<not> strings_EqualFold U k_Settings k_Connection"
proof -
  have "map lower k_Upgrade \<noteq> map lower k_Connection" "map lower k_Upgrade \<noteq> map lower k_Settings" "map lower k_Connection \<noteq> map lower k_Settings"
    by code_simp+
  then show "\<not> strings_EqualFold U k_Upgrade k_Connection" "\<not> strings_EqualFold U k_Upgrade k_Settings"
    "\<not> strings_EqualFold U k_Connection k_Upgrade" "\<not> strings_EqualFold U k_Connection k_Settings"
    "\<not> strings_EqualFold U k_Settings k_Upgrade" "\<not> strings_EqualFold U k_Settings k_Connection"
    by (simp_all add: strings_EqualFold_def)
qed

definition plain_header :: "unicode \<Rightarrow> http_header \<Rightarrow> bool" where
  "plain_header U h \<longleftrightarrow> one_spelling U k_Upgrade h \<and> one_spelling U k_Connection h \<and> one_spelling U k_Settings h"

text \<open>Adding a value to a header that lacks it.\<close>

definition with_value :: "unicode \<Rightarrow> gostring \<Rightarrow> gostring \<Rightarrow> http_header \<Rightarrow> http_header" where
  "with_value U k v h = (if \<not> containsValue U h k [v] then http_Add h k v else h)"

lemma plain_update:
  assumes "plain_header U h" "k \<in> {k_Upgrade, k_Connection, k_Settings}"
  shows "plain_header U (AList.update k v h)"
  using assms upgrade_keys by (auto simp: plain_header_def intro!: one_spelling_update)

lemma with_value_Connection:
  assumes "plain_header U h" "token v"
  shows "plain_header U (with_value U k_Connection v h)"
    "\<exists>vs. splitHeader U (with_value U k_Connection v h) k_Connection = splitHeader U h k_Connection @ vs"
    "\<exists>s\<in>set (splitHeader U (with_value U k_Connection v h) k_Connection). strings_EqualFold U v s"
    "splitHeader U (with_value U k_Connection v h) k_Upgrade = splitHeader U h k_Upgrade"
    "splitHeader U (with_value U k_Connection v h) k_Settings = splitHeader U h k_Settings"
proof -
  note o = assms(1) [unfolded plain_header_def]
  show "plain_header U (with_value U k_Connection v h)"
    using plain_update [OF assms(1)] assms(1) by (simp add: with_value_def http_Add_def)
  have a: "splitHeader U (http_Add h k_Connection v) k_Connection = splitHeader U h k_Connection @ [v]"
    using o assms(2) by (simp add: split_Add)
  then show "\<exists>vs. splitHeader U (with_value U k_Connection v h) k_Connection = splitHeader U h k_Connection @ vs"
    by (simp add: with_value_def)
  show "\<exists>s\<in>set (splitHeader U (with_value U k_Connection v h) k_Connection). strings_EqualFold U v s"
    using a token_ascii [OF assms(2)] by (auto simp: with_value_def contains_split)
  show "splitHeader U (with_value U k_Connection v h) k_Upgrade = splitHeader U h k_Upgrade"
    "splitHeader U (with_value U k_Connection v h) k_Settings = splitHeader U h k_Settings"
    using o upgrade_keys [of U] split_update [of U k_Upgrade h k_Connection] split_update [of U k_Settings h k_Connection]
    by (auto simp: with_value_def http_Add_def)
qed

lemma upgrade_header_values:
  assumes "plain_header U h" "splitHeader U h k_Settings = []" "upgrade_header U s h = x"
  shows "\<exists>h'. x = Inr h' \<and> splitHeader U h' k_Upgrade = [ProtocolTCP] \<and> containsValue U h' k_Connection [k_Upgrade, k_Settings]
    \<and> splitHeader U h' k_Settings = [encoded_settings s]"
proof -
  define h1 where "h1 = http_Set h k_Upgrade ProtocolTCP"
  define h2 where "h2 = with_value U k_Connection k_Upgrade h1"
  define h3 where "h3 = with_value U k_Connection k_Settings h2"
  define h4 where "h4 = AList.update k_Settings [encoded_settings s] h3"
  have p1: "plain_header U h1" "splitHeader U h1 k_Upgrade = [ProtocolTCP]" "splitHeader U h1 k_Settings = []"
    using plain_update [OF assms(1)] assms(1, 2) upgrade_keys [of U]
      split_update [of U k_Upgrade h k_Upgrade "[ProtocolTCP]"] split_update [of U k_Settings h k_Upgrade "[ProtocolTCP]"]
    by (auto simp: h1_def http_Set_def plain_header_def)
  note w2 = with_value_Connection [OF p1(1) upgrade_tokens(1), folded h2_def]
  note w3 = with_value_Connection [OF w2(1) upgrade_tokens(3), folded h3_def]
  have x: "x = Inr h4" using assms(3) w2(5) w3(5) p1(3)
    by (simp add: upgrade_header_def Let_def h4_def h3_def h2_def h1_def with_value_def)
  have o: "one_spelling U k_Upgrade h3" "one_spelling U k_Connection h3" "one_spelling U k_Settings h3"
    using w3(1) by (simp_all add: plain_header_def)
  have u: "splitHeader U h4 k_Upgrade = splitHeader U h3 k_Upgrade" "splitHeader U h4 k_Connection = splitHeader U h3 k_Connection"
    "splitHeader U h4 k_Settings = [encoded_settings s]"
    using split_update [OF o(1), of k_Settings] split_update [OF o(2), of k_Settings] split_update [OF o(3), of k_Settings] upgrade_keys [of U] encoded_token
    by (auto simp: h4_def)
  have "\<exists>s\<in>set (splitHeader U h3 k_Connection). strings_EqualFold U k_Upgrade s" using w2(3) w3(2) by auto
  with w3(3) u(2) have "containsValue U h4 k_Connection [k_Upgrade, k_Settings]" by (auto simp: contains_split)
  with x u w3(4) w2(4) p1(2) show ?thesis by simp
qed

lemma upgrade_accepted_values:
  assumes "rq_Method req = str ''GET''" "splitHeader U (rq_Header req) k_Upgrade = [ProtocolTCP]"
    "containsValue U (rq_Header req) k_Connection [k_Upgrade, k_Settings]"
    "splitHeader U (rq_Header req) k_Settings = [encoded_settings s]" "settings_ok s"
  shows "upgrade_check U N req = Inr s"
proof -
  have "containsValue U (rq_Header req) k_Upgrade [ProtocolTCP]" using assms(2) by (simp add: contains_split)
  with assms show ?thesis
    by (simp add: upgrade_check_def encoded_settings_read upgrade_payload_read)
qed

end
