(* ===== verification/H2_UpgradeServer.thy ===== *)
theory H2_UpgradeServer
  imports H2_UpgradeTrip
begin

text \<open>
  What \<open>serverUpgrade\<close> does on a new connection once the request has passed its checks: it applies
  the settings of the request and opens stream 1.
\<close>

definition fresh_server :: "conn \<Rightarrow> bool" where
  "fresh_server c \<longleftrightarrow> conn_ok c \<and> c_streams c = [] \<and> (\<forall>sid. c_objs c sid = None) \<and> tbl_ok (e_table (w_enc (c_writer c)))
     \<and> cs_goAway (c_local c) = None \<and> cs_server (c_local c) \<and> \<not> cs_server (c_remote c)
     \<and> cs_numStreams (c_local c) = 0 \<and> cs_numStreams (c_remote c) = 0 \<and> cs_nextStreamID (c_remote c) = 1"

lemma fresh_newConn:
  "fresh_server (newConn True n inp inpEnd fault grow rwcErr)" "cs_settings (c_remote (newConn True n inp inpEnd fault grow rwcErr)) = []"
  using newConn_ok [of True n inp inpEnd fault grow rwcErr]
  by (simp_all add: fresh_server_def newConn_def new_connState_def Let_def newFrameWriter_def NewEncoder_def new_table_def tbl_ok_def)

lemma fresh_shape:
  assumes "same_shape c c'" "fresh_server c" "tbl_ok (e_table (w_enc (c_writer c')))"
  shows "fresh_server c'"
proof -
  have "conn_ok c'" using conn_ok_shape assms(1, 2) by (auto simp: fresh_server_def)
  moreover have "c_objs c' sid = None" for sid using same_shape_dom [OF assms(1)] assms(2) by (simp add: fresh_server_def)
  moreover have "c_streams c' = []" "side_shape (c_local c') = side_shape (c_local c)" "side_shape (c_remote c') = side_shape (c_remote c)"
    using assms(1, 2) by (simp_all add: same_shape_def fresh_server_def)
  ultimately show ?thesis using assms(2, 3) by (simp add: fresh_server_def side_shape_eq)
qed

section \<open>Settings\<close>

definition push_error :: h2error where
  "push_error = conn_error ''client received SETTINGS frame with ENABLE_PUSH specified for remote server'' ErrCodeProtocol"

definition enables_push :: "setting \<Rightarrow> bool" where
  "enables_push x \<longleftrightarrow> set_ID x = SettingEnablePush \<and> set_Value x = 1"

lemma encoder_resize_total:
  assumes "tbl_ok (e_table enc)"
  shows "\<exists>enc'. Encoder_SetMaxHeaderTableSize enc mx = Some enc' \<and> tbl_ok (e_table enc')"
  using setMaxSize_spec [OF assms, of mx] assms by (auto simp: Encoder_SetMaxHeaderTableSize_def Let_def)

lemma apply_setting_fresh:
  assumes "fresh_server c"
  shows "\<exists>st c'. apply_setting False sl x c = Some ((if enables_push x then Some push_error else None, st), c') \<and> fresh_server c'"
proof -
  have t: "tbl_ok (e_table (w_enc (c_writer c)))" and ok: "conn_ok c" and s: "c_streams c = []" "\<not> cs_server (c_remote c)"
    using assms by (simp_all add: fresh_server_def)
  obtain enc where enc: "Encoder_SetMaxHeaderTableSize (w_enc (c_writer c)) (set_Value x) = Some enc" "tbl_ok (e_table enc)"
    using encoder_resize_total [OF t] by blast
  have w: "setInitialSendWindow delta c = Some (None, c)" for delta
    by (simp add: setInitialSendWindow_def s StreamErrorList_Err_def)
  note d = apply_setting_def Let_def side_def enables_push_def push_error_def
  have "\<exists>y. apply_setting False sl x c = Some y \<and> fst (fst y) = (if enables_push x then Some push_error else None)
    \<and> tbl_ok (e_table (w_enc (c_writer (snd y))))"
  proof (cases "set_ID x = SettingEnablePush")
    case True
    then show ?thesis using s(2) t by (cases "set_Value x = 1") (simp_all add: d)
  next
    case False
    show ?thesis
    proof (cases "set_ID x = SettingHeaderTableSize")
      case True
      then show ?thesis using enc by (simp add: d)
    qed (use False w t in \<open>auto simp: d\<close>)
  qed
  then obtain st c' where a: "apply_setting False sl x c = Some ((if enables_push x then Some push_error else None, st), c')"
    and t': "tbl_ok (e_table (w_enc (c_writer c')))" by (metis prod.collapse)
  from fresh_shape [OF apply_setting_shape [OF ok a] assms t'] a show ?thesis by blast
qed

lemma apply_loop_fresh:
  assumes "fresh_server c"
  shows "\<exists>sl' c'. apply_loop False n xs sl c = Some ((if \<exists>x\<in>set xs. enables_push x then Some push_error else None, sl'), c') \<and> fresh_server c'"
  using assms
proof (induction xs arbitrary: sl c)
  case (Cons x xs)
  obtain st c1 where a: "apply_setting False sl x c = Some ((if enables_push x then Some push_error else None, st), c1)" "fresh_server c1"
    using apply_setting_fresh [OF Cons.prems] by blast
  show ?case
  proof (cases "enables_push x")
    case False
    with a Cons.IH [OF a(2), of "if st then slice_SetValue (c_grow c1) n x sl else sl"] show ?thesis by simp
  qed (use a in simp)
qed simp

lemma applySettings_fresh:
  assumes "fresh_server c"
  shows "\<exists>c'. applySettings False xs c = Some (if \<exists>x\<in>set xs. enables_push x then Some push_error else None, c') \<and> fresh_server c'"
proof -
  let ?sl = "\<lparr>sl_cur = cs_settings (side False c), sl_cap = cs_cap (side False c), sl_old = None\<rparr>"
  obtain sl c1 where a: "apply_loop False (length (cs_settings (side False c))) xs ?sl c
      = Some ((if \<exists>x\<in>set xs. enables_push x then Some push_error else None, sl), c1)" "fresh_server c1"
    using apply_loop_fresh [OF assms] by blast
  have "fresh_server (set_side False ((side False c1)\<lparr>cs_settings := s, cs_cap := k\<rparr>) c1)"
    "fresh_server (set_side False ((side False c1)\<lparr>cs_settings := s\<rparr>) c1)" for s k
    by (rule fresh_shape [OF _ a(2)], simp, use a(2) in \<open>simp add: set_side_def fresh_server_def\<close>)+
  with a(1) show ?thesis by (auto simp: applySettings_def Let_def)
qed

lemma enables_push_value:
  assumes "settings_ok s"
  shows "(\<exists>x\<in>set s. enables_push x) \<longleftrightarrow> Settings_value s SettingEnablePush = Some 1"
proof -
  have "distinct (map set_ID s)" using assms by (simp add: settings_ok_def)
  then show ?thesis by (induction s) (auto simp: enables_push_def dest: Settings_value_absent)
qed

section \<open>Stream 1\<close>

lemma open_stream_one_fresh:
  assumes "fresh_server c"
  shows "if Settings_MaxConcurrentStreams (cs_settings (c_remote c)) = 0 then open_stream_one False c = None
    else \<exists>c' s. open_stream_one False c = Some c' \<and> c_streams c' = [1] \<and> Conn_NumActiveStreams c' = 1
      \<and> c_objs c' 1 = Some s \<and> s_state s = StateHalfClosedRemote"
proof -
  have le: "1 \<le> v \<longleftrightarrow> v \<noteq> 0" for v :: u32 by (simp add: word_le_nat_alt unat_gt_0 Suc_le_eq)
  have i: "idleStream False 1 c = (if Settings_MaxConcurrentStreams (cs_settings (c_remote c)) = 0
      then (Some (conn_error ''maximum streams exceeded'' ErrCodeRefusedStream), c)
      else (None, set_side False ((c_remote c)\<lparr>cs_nextStreamID := 3, cs_lastStreamID := 1\<rparr>) (put_stream (new_stream 1) c)))"
    using assms by (simp add: idleStream_def side_def connState_validStreamID_def fresh_server_def Let_def not_less le)
  show ?thesis using assms i
    by (simp add: open_stream_one_def stream_transition_def transition_defs new_stream_def put_stream_def set_side_def
        compareAndSwapState_def active_def stream_activate_def Let_def add_numStreams_def stream_local_def fresh_server_def
        start_flows_def Conn_addStream_def Conn_NumActiveStreams_def)
qed

lemma serverUpgrade_fresh:
  assumes "fresh_server c" "cs_settings (c_remote c) = []" "upgrade_check U N req = Inr s"
  shows "if Settings_value s SettingEnablePush = Some 1
    then \<exists>c'. serverUpgrade U N req False c = Some ((Some (HandshakeError (h2error_Error push_error)), []), c') \<and> c_streams c' = []
    else if Settings_value s SettingMaxConcurrentStreams = Some 0 then serverUpgrade U N req False c = None
    else \<exists>c' st. serverUpgrade U N req False c = map_option (\<lambda>fs. ((None, fs), c')) (upgrade_request_frames U req) \<and> c_streams c' = [1] \<and> Conn_NumActiveStreams c' = 1
      \<and> c_objs c' 1 = Some st \<and> s_state st = StateHalfClosedRemote"
proof -
  have v: "settings_ok s" by (rule upgrade_check_valid [OF assms(3)])
  note p = enables_push_value [OF v]
  obtain c1 where a: "applySettings False s c = Some (if Settings_value s SettingEnablePush = Some 1 then Some push_error else None, c1)" "fresh_server c1"
    using applySettings_fresh [OF assms(1), of s] unfolding p by blast
  show ?thesis
  proof (cases "Settings_value s SettingEnablePush = Some 1")
    case True
    obtain e c2 where r: "upgrade_refused 400 (h2error_Error push_error) c1 = (e, c2)" by fastforce
    then have "c_streams c2 = []" "e = Some (HandshakeError (h2error_Error push_error))"
      using a(2) by (auto simp: upgrade_refused_def Let_def fresh_server_def buf_WriteString_def)
    with True a(1) assms(3) r show ?thesis by (simp add: serverUpgrade_def)
  next
    case False
    then have a': "applySettings False s c = Some (None, c1)" using a(1) by simp
    from applySettings_effect [OF this v] assms(2) have
      "Settings_value (cs_settings (c_remote c1)) SettingMaxConcurrentStreams = Settings_value s SettingMaxConcurrentStreams"
      by (simp add: side_def override_def known_setting_def)
    then have m: "Settings_MaxConcurrentStreams (cs_settings (c_remote c1)) = 0 \<longleftrightarrow> Settings_value s SettingMaxConcurrentStreams = Some 0"
      by (simp add: Settings_MaxConcurrentStreams_def Settings_Value_def split: option.split)
    show ?thesis
    proof (cases "upgrade_request_frames U req")
      case None
      with open_stream_one_fresh [OF a(2)] False a' m assms(3) show ?thesis by (auto simp: serverUpgrade_def) blast
    next
      case (Some fs)
      with open_stream_one_fresh [OF a(2)] False a' m assms(3) show ?thesis
        by (auto simp: serverUpgrade_def buf_WriteString_def Let_def Conn_NumActiveStreams_def)
    qed
  qed
qed

end
