(* ===== verification/H2_Handshake.thy ===== *)
theory H2_Handshake
  imports H2_Upgrade
begin

text \<open>
  The handshake and what is built around it: \<open>Handshake\<close>, \<open>ReadFrame\<close> and \<open>WriteFrame\<close> of
  \<^verbatim>\<open>src/conn.go\<close>, \<open>serverHandshake\<close>, \<open>Serve\<close> and the TLS configuration of \<^verbatim>\<open>src/server.go\<close>, \<open>clientHandshake\<close> and
  \<open>Dial\<close> of \<^verbatim>\<open>src/client.go\<close>.

  A session is a connection with the fields that only the handshake uses.  The state of a TLS
  connection after its own handshake, the dial functions and host name checks are parameters.
\<close>

section \<open>Configuration and transport\<close>

record config =
  cf_InitialSettings :: Settings
  cf_HandshakeTimeout :: int
  cf_AllowLowTLSVersion :: bool
  cf_ReadBufSize :: int

definition defaultConfig :: config where
  "defaultConfig = \<lparr>cf_InitialSettings = [], cf_HandshakeTimeout = 0, cf_AllowLowTLSVersion = False, cf_ReadBufSize = 0\<rparr>"

text \<open>\<open>ts_complete\<close> is \<open>HandshakeComplete\<close> before, and \<open>ts_error\<close> the result of the TLS handshake otherwise.\<close>

record tls_state =
  ts_complete :: bool
  ts_error :: "h2error option"
  ts_Version :: u16
  ts_CipherSuite :: u16
  ts_NegotiatedProtocol :: gostring
  ts_ProtocolIsMutual :: bool

text \<open>A transport by the bytes to come, its faults, and its TLS state if it is a \<open>tls.Conn\<close>.\<close>

record rawconn =
  raw_in :: bytes
  raw_end :: h2error
  raw_fault :: "(nat \<times> h2error) option"
  raw_closeErr :: "h2error option"
  raw_tls :: "tls_state option"

text \<open>
  A handshake by the point it has reached: the TLS state is to be checked or the upgrade to be begun; a
  server has read the request of the upgrade; a client waits for the response to it; the preface
  is next, the own SETTINGS frame, the first frame of the peer; or it is over with its result.
\<close>

datatype shake_stage =
    Opening
  | Upgrading http_request
  | Awaiting
  | Prefacing
  | Greeting
  | First_frame
  | Finished "h2error option"

record session =
  h_conn :: conn
  h_config :: config
  h_tls :: "tls_state option"
  h_err :: "h2error option"
  h_upgrade :: "http_request option"
  h_frames :: "Frame list"
  h_body :: bool
  h_shake :: "shake_stage option"

definition new_session :: "bool \<Rightarrow> (nat \<Rightarrow> nat) \<Rightarrow> rawconn \<Rightarrow> config option \<Rightarrow> session" where
  "new_session server grow raw cfg =
     (let cfg = (case cfg of None \<Rightarrow> defaultConfig | Some cfg \<Rightarrow> cfg)
      in \<lparr>h_conn = newConn server (cf_ReadBufSize cfg) (raw_in raw) (raw_end raw) (raw_fault raw) grow (raw_closeErr raw),
          h_config = cfg, h_tls = raw_tls raw, h_err = None, h_upgrade = None, h_frames = [], h_body = False, h_shake = None\<rparr>)"

definition ServerConn :: "(nat \<Rightarrow> nat) \<Rightarrow> rawconn \<Rightarrow> config option \<Rightarrow> session" where
  "ServerConn grow raw cfg = new_session True grow raw cfg"

definition ClientConn :: "(nat \<Rightarrow> nat) \<Rightarrow> rawconn \<Rightarrow> config option \<Rightarrow> http_request option \<Rightarrow> session" where
  "ClientConn grow raw cfg req = (new_session False grow raw cfg)\<lparr>h_upgrade := req\<rparr>"

section \<open>The handshakes\<close>

definition errBadConnPreface :: h2error where
  "errBadConnPreface = Errorf (str ''http2: bad connection preface'')"

definition VersionTLS12 :: u16 where "VersionTLS12 = 0x0303"

definition tls_failed :: "tls_state \<Rightarrow> h2error option" where
  "tls_failed t =
     (if ts_complete t then None else map_option (\<lambda>e. HandshakeError (h2error_Error e)) (ts_error t))"

definition bad_protocol :: "gostring \<Rightarrow> h2error" where
  "bad_protocol p = HandshakeError (str ''bad protocol '' @ p)"

definition server_tls :: "bool \<Rightarrow> tls_state \<Rightarrow> h2error option" where
  "server_tls allowLow t =
     (case tls_failed t of
        Some e \<Rightarrow> Some e
      | None \<Rightarrow>
          if ts_NegotiatedProtocol t \<noteq> ProtocolTLS then Some (bad_protocol (ts_NegotiatedProtocol t))
          else if \<not> allowLow \<and> ts_Version t < VersionTLS12 then
            Some (ConnError (Errorf (str ''bad TLS version '' @ hex_string (unat (ts_Version t)))) ErrCodeInadequateSecurity)
          else if ts_Version t \<ge> VersionTLS12 \<and> badCipher (ts_CipherSuite t) then
            Some (ConnError (Errorf (str ''prohibited TLS 1.2 cipher type '' @ hex_string (unat (ts_CipherSuite t)))) ErrCodeInadequateSecurity)
          else None)"

definition client_tls :: "tls_state \<Rightarrow> h2error option" where
  "client_tls t =
     (case tls_failed t of
        Some e \<Rightarrow> Some e
      | None \<Rightarrow>
          if \<not> ts_ProtocolIsMutual t \<or> ts_NegotiatedProtocol t \<noteq> ProtocolTLS
          then Some (bad_protocol (ts_NegotiatedProtocol t)) else None)"

text \<open>The own SETTINGS frame, which is queued without waiting.\<close>

definition write_hello :: "Settings \<Rightarrow> conn \<Rightarrow> (h2error option \<times> conn) option" where
  "write_hello settings c =
     do {
       (out, c) \<leftarrow> writeFrame Proceed (SettingsFrame False settings) c;
       case out of Returned e \<Rightarrow> Some (e, c) | Pending \<Rightarrow> None
     }"

text \<open>The first frame of the peer; \<open>bad\<close> is the error when it is not a SETTINGS frame.\<close>

definition first_settings :: "h2error \<Rightarrow> conn \<Rightarrow> (h2error option \<times> conn) option" where
  "first_settings bad c =
     do {
       ((f, e), c) \<leftarrow> readFrame c;
       Some (case e of
               Some e \<Rightarrow> Some e
             | None \<Rightarrow> (case f of Some (SettingsFrame False _) \<Rightarrow> None | _ \<Rightarrow> Some bad), c)
     }"

definition server_peek :: "conn \<Rightarrow> h2error option \<times> conn" where
  "server_peek c =
     (case r_Peek (length ClientPreface) (c_reader c) of
        Inl e \<Rightarrow> (Some e, c)
      | Inr preface \<Rightarrow>
          if preface \<noteq> ClientPreface then (Some errBadConnPreface, c)
          else (None, c\<lparr>c_reader := r_skip (length ClientPreface) (c_reader c)\<rparr>))"

definition first_not_settings :: h2error where
  "first_not_settings = Errorf (str ''first received frame was not SETTINGS'')"

definition server_preface :: "conn \<Rightarrow> (h2error option \<times> conn) option" where
  "server_preface c =
     (case server_peek c of
        (Some e, c) \<Rightarrow> Some (Some e, c)
      | (None, c) \<Rightarrow> first_settings first_not_settings c)"

definition server_upgrade :: "unicode \<Rightarrow> net \<Rightarrow> session \<Rightarrow> (h2error option \<times> session) option" where
  "server_upgrade U N h =
     (let c = h_conn h in
      case http_ReadRequest N (r_in (c_reader c)) of
        (res, rest) \<Rightarrow>
          let c = c\<lparr>c_reader := (c_reader c)\<lparr>r_in := rest\<rparr>\<rparr> in
          (case res of
             Inl e \<Rightarrow> Some (Some e, h\<lparr>h_conn := c\<rparr>)
           | Inr upgrade \<Rightarrow> do {
               ((e, frames), c) \<leftarrow> serverUpgrade U N upgrade False c;
               Some (e, h\<lparr>h_conn := c, h_frames := frames\<rparr>)
             }))"

definition serverHandshake :: "unicode \<Rightarrow> net \<Rightarrow> session \<Rightarrow> (h2error option \<times> session) option" where
  "serverHandshake U N h =
     do {
       (e, h) \<leftarrow> (case h_tls h of
                   Some t \<Rightarrow> Some (server_tls (cf_AllowLowTLSVersion (h_config h)) t, h)
                 | None \<Rightarrow> server_upgrade U N h);
       case e of
         Some e \<Rightarrow> Some (Some e, h)
       | None \<Rightarrow> do {
           (e, c) \<leftarrow> write_hello (cf_InitialSettings (h_config h)) (h_conn h);
           (e, c) \<leftarrow> (case e of Some e \<Rightarrow> Some (Some e, c) | None \<Rightarrow> server_preface c);
           Some (e, h\<lparr>h_conn := c\<rparr>)
         }
     }"

definition client_upgrade :: "unicode \<Rightarrow> net \<Rightarrow> session \<Rightarrow> (h2error option \<times> session) option" where
  "client_upgrade U N h =
     do {
       (e, c) \<leftarrow> clientUpgrade U N (cf_InitialSettings (h_config h)) (h_upgrade h) (h_conn h);
       Some (e, h\<lparr>h_conn := c, h_upgrade := (if e = None then None else h_upgrade h)\<rparr>)
     }"

text \<open>The client writes its preface to the buffer before it queues the SETTINGS frame.\<close>

definition client_magic :: "conn \<Rightarrow> h2error option \<times> conn" where
  "client_magic c = (case out_Write (c_writer c) ClientPreface of (e, w) \<Rightarrow> (e, c\<lparr>c_writer := w\<rparr>))"

definition client_preface :: "Settings \<Rightarrow> conn \<Rightarrow> (h2error option \<times> conn) option" where
  "client_preface settings c =
     (case client_magic c of
        (Some e, c) \<Rightarrow> Some (Some e, c)
      | (None, c) \<Rightarrow> write_hello settings c)"

definition clientHandshake :: "unicode \<Rightarrow> net \<Rightarrow> session \<Rightarrow> (h2error option \<times> session) option" where
  "clientHandshake U N h =
     do {
       (e, h) \<leftarrow> (case h_tls h of Some t \<Rightarrow> Some (client_tls t, h) | None \<Rightarrow> client_upgrade U N h);
       case e of
         Some e \<Rightarrow> Some (Some e, h)
       | None \<Rightarrow> do {
           (e, c) \<leftarrow> client_preface (cf_InitialSettings (h_config h)) (h_conn h);
           (e, c) \<leftarrow> (case e of Some e \<Rightarrow> Some (Some e, c) | None \<Rightarrow> first_settings errBadConnPreface c);
           Some (e, h\<lparr>h_conn := c\<rparr>)
         }
     }"

section \<open>The stages of a handshake\<close>

text \<open>
  With a timeout the handshake runs in a goroutine of its own and is not stopped when the timer fires,
  so that other steps come between its stages, and some of its stages after the call that began it
  has returned.  A stage ends where the code may have to wait for the peer or the connection is
  handed to the write loop.  \<open>serverHandshake\<close> and \<open>clientHandshake\<close> are their stages in a row, by \<open>shake_run_all\<close> in
  \<open>H2_Sessions\<close>.
\<close>

definition stage_after :: "shake_stage \<Rightarrow> h2error option \<Rightarrow> shake_stage" where
  "stage_after st e = (case e of None \<Rightarrow> st | Some e \<Rightarrow> Finished (Some e))"

definition server_opening :: "net \<Rightarrow> session \<Rightarrow> shake_stage \<times> session" where
  "server_opening N h =
     (case h_tls h of
        Some t \<Rightarrow> (stage_after Greeting (server_tls (cf_AllowLowTLSVersion (h_config h)) t), h)
      | None \<Rightarrow>
          (case http_ReadRequest N (r_in (c_reader (h_conn h))) of
             (res, rest) \<Rightarrow>
               (case res of Inl e \<Rightarrow> Finished (Some e) | Inr upgrade \<Rightarrow> Upgrading upgrade,
                h\<lparr>h_conn := (h_conn h)\<lparr>c_reader := (c_reader (h_conn h))\<lparr>r_in := rest\<rparr>\<rparr>\<rparr>)))"

fun server_stage :: "unicode \<Rightarrow> net \<Rightarrow> shake_stage \<Rightarrow> session \<Rightarrow> (shake_stage \<times> session) option" where
  "server_stage U N Opening h = Some (server_opening N h)"
| "server_stage U N (Upgrading upgrade) h =
     do {
       ((e, frames), c) \<leftarrow> serverUpgrade U N upgrade False (h_conn h);
       Some (stage_after Greeting e, h\<lparr>h_conn := c, h_frames := frames\<rparr>)
     }"
| "server_stage U N Greeting h =
     do {
       (e, c) \<leftarrow> write_hello (cf_InitialSettings (h_config h)) (h_conn h);
       Some (stage_after Prefacing e, h\<lparr>h_conn := c\<rparr>)
     }"
| "server_stage U N Prefacing h =
     (case server_peek (h_conn h) of (e, c) \<Rightarrow> Some (stage_after First_frame e, h\<lparr>h_conn := c\<rparr>))"
| "server_stage U N First_frame h =
     do { (e, c) \<leftarrow> first_settings first_not_settings (h_conn h); Some (Finished e, h\<lparr>h_conn := c\<rparr>) }"
| "server_stage U N st h = None"

fun client_stage :: "unicode \<Rightarrow> net \<Rightarrow> shake_stage \<Rightarrow> session \<Rightarrow> (shake_stage \<times> session) option" where
  "client_stage U N Opening h =
     (case h_tls h of
        Some t \<Rightarrow> Some (stage_after Prefacing (client_tls t), h)
      | None \<Rightarrow> do {
          (e, c) \<leftarrow> client_request U N (cf_InitialSettings (h_config h)) (h_upgrade h) (h_conn h);
          Some (stage_after Awaiting e, h\<lparr>h_conn := c\<rparr>)
        })"
| "client_stage U N Awaiting h =
     (case client_response U N (h_conn h) of
        (e, c) \<Rightarrow> Some (stage_after Prefacing e, h\<lparr>h_conn := c, h_upgrade := (if e = None then None else h_upgrade h)\<rparr>))"
| "client_stage U N Prefacing h =
     (case client_magic (h_conn h) of (e, c) \<Rightarrow> Some (stage_after Greeting e, h\<lparr>h_conn := c\<rparr>))"
| "client_stage U N Greeting h =
     do {
       (e, c) \<leftarrow> write_hello (cf_InitialSettings (h_config h)) (h_conn h);
       Some (stage_after First_frame e, h\<lparr>h_conn := c\<rparr>)
     }"
| "client_stage U N First_frame h =
     do { (e, c) \<leftarrow> first_settings errBadConnPreface (h_conn h); Some (Finished e, h\<lparr>h_conn := c\<rparr>) }"
| "client_stage U N st h = None"

text \<open>One stage of a handshake that is under way; none is left when it is over.\<close>

definition handshake_stage :: "unicode \<Rightarrow> net \<Rightarrow> session \<Rightarrow> session option" where
  "handshake_stage U N h =
     (case h_shake h of
        None \<Rightarrow> None
      | Some st \<Rightarrow> do {
          (st, h) \<leftarrow> (if Conn_ServerConn (h_conn h) then server_stage U N st h else client_stage U N st h);
          Some (h\<lparr>h_shake := Some st\<rparr>)
        })"

primrec shake_run :: "nat \<Rightarrow> unicode \<Rightarrow> net \<Rightarrow> session \<Rightarrow> session option" where
  "shake_run 0 U N h = Some h"
| "shake_run (Suc k) U N h =
     (case h_shake h of
        Some (Finished _) \<Rightarrow> Some h
      | _ \<Rightarrow> Option.bind (handshake_stage U N h) (shake_run k U N))"

definition handshake_failed :: "h2error \<Rightarrow> conn \<Rightarrow> conn option" where
  "handshake_failed e c =
     (case e of
        HandshakeError _ \<Rightarrow> map_option snd (conn_close c)
      | _ \<Rightarrow> handleErr (Some (if e = errBadConnPreface then ConnError e ErrCodeProtocol else e)) c)"

text \<open>
  \<open>Handshake\<close> holds \<open>handshakeL\<close> from its start, when it begins the stages, to the end, when it takes the
  first value from \<open>errCh\<close>: the result of the handshake, or the error of the timer if it fired first,
  which only a positive timeout allows.
\<close>

definition Handshake_begin :: "session \<Rightarrow> session option" where
  "Handshake_begin h =
     (if h_err h = None \<and> \<not> c_handshake (h_conn h) \<and> h_shake h = None then Some (h\<lparr>h_shake := Some Opening\<rparr>) else None)"

definition handshake_result :: "bool \<Rightarrow> session \<Rightarrow> h2error option option" where
  "handshake_result late h =
     (if late then
        if cf_HandshakeTimeout (h_config h) > 0 \<and> h_shake h \<noteq> None
        then Some (Some (HandshakeError (str ''handshake timed out''))) else None
      else (case h_shake h of Some (Finished e) \<Rightarrow> Some e | _ \<Rightarrow> None))"

definition Handshake_settle :: "bool \<Rightarrow> session \<Rightarrow> (h2error option \<times> session) option" where
  "Handshake_settle late h =
     (if h_err h \<noteq> None \<or> c_handshake (h_conn h) then None
      else do {
        e \<leftarrow> handshake_result late h;
        c \<leftarrow> (case e of
               None \<Rightarrow> Some ((h_conn h)\<lparr>c_handshake := True\<rparr>)
             | Some e \<Rightarrow> handshake_failed e (h_conn h));
        Some (e, h\<lparr>h_conn := c, h_err := e\<rparr>)
      })"

text \<open>
  A whole call with nothing between its parts: \<open>Some k\<close> says that the timer fires after \<open>k\<close> stages.  It
  is \<open>None\<close> while another call holds the lock.
\<close>

definition Handshake :: "nat option \<Rightarrow> unicode \<Rightarrow> net \<Rightarrow> session \<Rightarrow> (h2error option \<times> session) option" where
  "Handshake late U N h =
     (case h_err h of
        Some e \<Rightarrow> Some (Some e, h)
      | None \<Rightarrow>
          if c_handshake (h_conn h) then Some (None, h)
          else do {
            h \<leftarrow> Handshake_begin h;
            case (if cf_HandshakeTimeout (h_config h) > 0 then late else None) of
              Some k \<Rightarrow> do { h \<leftarrow> shake_run k U N h; Handshake_settle True h }
            | None \<Rightarrow> do { h \<leftarrow> shake_run 5 U N h; Handshake_settle False h }
          })"

section \<open>Reading and writing\<close>

definition session_WriteFrame ::
  "nat option \<Rightarrow> unicode \<Rightarrow> net \<Rightarrow> branch \<Rightarrow> Frame option \<Rightarrow> session \<Rightarrow> (write_outcome \<times> session) option" where
  "session_WriteFrame late U N b frame h =
     (if Conn_Closed (h_conn h) then Some (Returned (Some ErrClosed), h)
      else do {
        (e, h) \<leftarrow> Handshake late U N h;
        case e of
          Some e \<Rightarrow> Some (Returned (Some e), h)
        | None \<Rightarrow>
            (case frame of
               None \<Rightarrow> Some (Returned (Some (Errorf (str ''frame must be non-nil''))), h)
             | Some f \<Rightarrow> do { (out, c) \<leftarrow> writeFrame b f (h_conn h); Some (out, h\<lparr>h_conn := c\<rparr>) })
      })"

text \<open>The frames of the upgrade request come first; the body of its DATA frame is closed by the next call.\<close>

definition next_upgrade_frame :: "session \<Rightarrow> (Frame \<times> session) option" where
  "next_upgrade_frame h =
     (case h_frames h of
        DataFrame sid None n p e # _ \<Rightarrow> None
      | DataFrame sid (Some d) n p e # fs \<Rightarrow> Some (DataFrame sid (Some d) n p e, h\<lparr>h_frames := fs, h_body := True\<rparr>)
      | f # fs \<Rightarrow> Some (f, h\<lparr>h_frames := fs\<rparr>)
      | [] \<Rightarrow> None)"

definition session_ReadFrame ::
  "nat option \<Rightarrow> unicode \<Rightarrow> net \<Rightarrow> session \<Rightarrow> ((Frame option \<times> h2error option) \<times> session) option" where
  "session_ReadFrame late U N h =
     do {
       (e, h) \<leftarrow> Handshake late U N h;
       case e of
         Some e \<Rightarrow> Some ((None, Some e), h)
       | None \<Rightarrow>
           let h = h\<lparr>h_body := False\<rparr> in
           if h_frames h \<noteq> [] then do { (f, h) \<leftarrow> next_upgrade_frame h; Some ((Some f, None), h) }
           else do { (res, c) \<leftarrow> readFrame (h_conn h); Some (res, h\<lparr>h_conn := c\<rparr>) }
     }"

definition Conn_Close :: "conn \<Rightarrow> (close_outcome \<times> conn) option" where
  "Conn_Close c = CloseTimeout 3000000000 c"

end
