(* ===== verification/H2_Sessions.thy ===== *)
theory H2_Sessions
  imports H2_Handshake H2_ConnHazards
begin

text \<open>
  Every stage of the handshake keeps every property of a connection in the sense of \<open>conn_property\<close>, and
  with it the runs of a session: the calls of the application with the handshake they start, its
  stages, which may outlast the call when the timer fires, and the steps of the connection.
\<close>

section \<open>The handshake\<close>

lemma WriteString_shape [simp]: "same_shape c (buf_WriteString s c)"
  by (simp add: buf_WriteString_def)

lemma WriteStrings_shape: "same_shape c (buf_WriteString s3 (buf_WriteString s2 (buf_WriteString s1 c)))"
  by (meson WriteString_shape same_shape_trans)

lemma refused_shape: "upgrade_refused st reason c = (e, c') \<Longrightarrow> same_shape c c'"
  using WriteStrings_shape by (auto simp: upgrade_refused_def Let_def)

context conn_property
begin

lemma open_stream_one_ok:
  assumes "I c" "open_stream_one loc c = Some c'"
  shows "I c'"
proof -
  obtain e c1 where i: "idleStream loc 1 c = (e, c1)" by fastforce
  have "I c1" by (rule idle_then(1) [OF assms(1) _ i]) (simp add: low_id_def)
  with assms(2) i show ?thesis by (auto simp: open_stream_one_def split: option.splits intro: I_transition)
qed

lemma serverUpgrade_ok:
  assumes "I c" "serverUpgrade U N req hj c = Some (x, c')"
  shows "I c'"
proof (cases "upgrade_check U N req")
  case (Inl a)
  with assms show ?thesis
    by (cases a) (auto simp: serverUpgrade_def split: prod.splits intro: I_shape [OF refused_shape])
next
  case (Inr s)
  from assms(2) Inr obtain e c1 where a: "applySettings False s c = Some (e, c1)" by (auto simp: serverUpgrade_def split: bind_splits)
  have ok: "I c1" by (rule I_shape [OF applySettings_shape [OF sound [OF assms(1)] a] assms(1)])
  show ?thesis
  proof (cases e)
    case (Some e0)
    with assms(2) Inr a ok show ?thesis by (auto simp: serverUpgrade_def split: prod.splits intro: I_shape [OF refused_shape])
  next
    case None
    with assms(2) Inr a obtain c2 where o: "open_stream_one False c1 = Some c2"
      and c': "\<exists>s1 s2 s3. c' = buf_WriteString s3 (buf_WriteString s2 (buf_WriteString s1 c2))"
      by (auto simp: serverUpgrade_def Let_def split: bind_splits)
    from c' show ?thesis using I_shape [OF WriteStrings_shape open_stream_one_ok [OF ok o]] by blast
  qed
qed

lemma I_input: "I c \<Longrightarrow> I (c\<lparr>c_reader := (c_reader c)\<lparr>r_in := bs\<rparr>\<rparr>)"
  by (rule I_shape [OF same_shape_reader]) simp_all

lemma I_writer: "I c \<Longrightarrow> I (c\<lparr>c_writer := w\<rparr>)"
  by (rule I_shape) simp_all

lemma client_request_ok:
  assumes "I c" "client_request U N s req c = Some (x, c')"
  shows "I c'"
proof -
  from assms(2) obtain r where "upgrade_request N req = Some r" by (auto simp: client_request_def split: bind_splits)
  with assms show ?thesis
    by (auto simp: client_request_def Let_def split: sum.splits if_splits prod.splits option.splits bind_splits
        intro: I_writer open_stream_one_ok [OF I_writer])
qed

lemma client_response_ok: "I c \<Longrightarrow> client_response U N c = (e, c') \<Longrightarrow> I c'"
  by (auto simp: client_response_def split: prod.splits intro: I_input)

lemma write_hello_ok: "I c \<Longrightarrow> write_hello s c = Some (e, c') \<Longrightarrow> I c'"
  using writeFrame_ok [of c Proceed "SettingsFrame False s"]
  by (auto simp: write_hello_def low_id_def split: bind_splits write_outcome.splits)

lemma first_settings_ok: "I c \<Longrightarrow> first_settings bad c = Some (e, c') \<Longrightarrow> I c'"
  by (auto simp: first_settings_def split: bind_splits intro: readFrame_ok)

lemma server_peek_ok:
  assumes "I c" "server_peek c = (e, c')"
  shows "I c'"
proof -
  have "I (c\<lparr>c_reader := r_skip n (c_reader c)\<rparr>)" for n
    by (rule I_shape [OF same_shape_reader assms(1)]) (simp add: r_skip_def r_Discard_def)
  with assms show ?thesis by (auto simp: server_peek_def split: sum.splits if_splits)
qed

lemma client_magic_ok: "I c \<Longrightarrow> client_magic c = (e, c') \<Longrightarrow> I c'"
  by (auto simp: client_magic_def split: prod.splits intro: I_writer)

text \<open>Every stage, on its own.\<close>

lemma server_stage_ok:
  assumes "I (h_conn h)" "server_stage U N st h = Some (st', h')"
  shows "I (h_conn h')"
proof (cases st)
  case Opening
  with assms show ?thesis by (auto simp: server_opening_def split: option.splits prod.splits intro: I_input)
qed (use assms in \<open>auto split: bind_splits prod.splits intro: serverUpgrade_ok write_hello_ok server_peek_ok first_settings_ok\<close>)

lemma client_stage_ok:
  assumes "I (h_conn h)" "client_stage U N st h = Some (st', h')"
  shows "I (h_conn h')"
  using assms
  by (cases st)
     (auto split: option.splits bind_splits prod.splits intro: client_request_ok client_response_ok client_magic_ok write_hello_ok first_settings_ok)

lemma handshake_stage_ok: "I (h_conn h) \<Longrightarrow> handshake_stage U N h = Some h' \<Longrightarrow> I (h_conn h')"
  by (auto simp: handshake_stage_def split: option.splits bind_splits if_splits intro: server_stage_ok client_stage_ok)

lemma shake_run_ok: "I (h_conn h) \<Longrightarrow> shake_run k U N h = Some h' \<Longrightarrow> I (h_conn h')"
proof (induction k arbitrary: h)
  case (Suc k)
  show ?case
  proof (cases "\<exists>e. h_shake h = Some (Finished e)")
    case False
    with Suc.prems(2) obtain h1 where "handshake_stage U N h = Some h1" "shake_run k U N h1 = Some h'"
      by (auto split: option.splits shake_stage.splits bind_splits)
    with Suc.IH handshake_stage_ok [OF Suc.prems(1)] show ?thesis by blast
  qed (use Suc.prems in auto)
qed simp

lemma handshake_failed_ok:
  assumes "I c" "handshake_failed e c = Some c'"
  shows "I c'"
proof -
  obtain e1 c1 where "conn_close c = Some (e1, c1)" "I c1" using conn_close_ok [OF assms(1)] by blast
  moreover have "I c''" if "handleErr x c = Some c''" for x c'' using handleErr_ok [OF assms(1), of x] that by auto
  ultimately show ?thesis using assms(2) by (auto simp: handshake_failed_def split: h2error.splits)
qed

lemma Handshake_begin_ok: "I (h_conn h) \<Longrightarrow> Handshake_begin h = Some h' \<Longrightarrow> I (h_conn h')"
  by (auto simp: Handshake_begin_def split: if_splits)

lemma Handshake_settle_ok:
  assumes "I (h_conn h)" "Handshake_settle late h = Some (e, h')"
  shows "I (h_conn h')"
proof -
  have "I ((h_conn h)\<lparr>c_handshake := True\<rparr>)" by (rule I_shape [OF _ assms(1)]) simp
  with assms show ?thesis
    by (auto simp: Handshake_settle_def split: if_splits bind_splits option.splits intro: handshake_failed_ok)
qed

lemma Handshake_ok:
  assumes "I (h_conn h)" "Handshake late U N h = Some (e, h')"
  shows "I (h_conn h')"
proof (cases "h_err h = None \<and> \<not> c_handshake (h_conn h)")
  case True
  with assms(2) obtain h1 k h2 b where "Handshake_begin h = Some h1" "shake_run k U N h1 = Some h2" "Handshake_settle b h2 = Some (e, h')"
    by (auto simp: Handshake_def split: bind_splits option.splits)
  with assms(1) show ?thesis by (blast dest: Handshake_begin_ok shake_run_ok Handshake_settle_ok)
qed (use assms in \<open>auto simp: Handshake_def split: option.splits\<close>)

end

text \<open>
  Five stages in a row are a whole handshake.  \<open>over h\<close> is the session when the rest of the stages
  has left a result and a connection.
\<close>

definition over :: "session \<Rightarrow> h2error option \<times> conn \<Rightarrow> session" where
  "over h r = h\<lparr>h_conn := snd r, h_shake := Some (Finished (fst r))\<rparr>"

lemma over_upd [simp]: "over (h\<lparr>h_shake := st\<rparr>) = over h" "over (h\<lparr>h_conn := c\<rparr>) = over h" "over (h\<lparr>h_conn := c, h_shake := st\<rparr>) = over h"
  by (simp_all add: over_def fun_eq_iff)

lemma stage_keeps_side:
  assumes "conn_ok (h_conn h)" "handshake_stage U N h = Some h'"
  shows "conn_ok (h_conn h')" "Conn_ServerConn (h_conn h') = Conn_ServerConn (h_conn h)"
proof -
  have "conn_ok (h_conn h') \<and> evolves (h_conn h) (h_conn h')"
    by (rule evolution.handshake_stage_ok [OF conjI [OF assms(1) evolves_refl] assms(2)])
  with evolvesD(3) [of "h_conn h" "h_conn h'" True]
  show "conn_ok (h_conn h')" "Conn_ServerConn (h_conn h') = Conn_ServerConn (h_conn h)" by (simp_all add: Conn_ServerConn_def side_def)
qed

lemma shake_run_Finished [simp]: "h_shake h = Some (Finished e) \<Longrightarrow> shake_run k U N h = Some h"
  by (cases k) simp_all

text \<open>A stage that may end the handshake, before stages that are already summed up by \<open>rest\<close>.\<close>

lemma run_stage:
  assumes ok: "conn_ok (h_conn h)" and st: "h_shake h = Some st" "\<And>e. st \<noteq> Finished e"
    and stage: "handshake_stage U N h = Some (h\<lparr>h_conn := c, h_shake := Some (stage_after st' e)\<rparr>)"
    and rest: "\<And>h'. conn_ok (h_conn h') \<Longrightarrow> h_shake h' = Some st' \<Longrightarrow> Conn_ServerConn (h_conn h') = Conn_ServerConn (h_conn h) \<Longrightarrow>
      h_config h' = h_config h \<Longrightarrow> shake_run k U N h' = map_option (over h') (rest (h_conn h'))"
  shows "shake_run (Suc k) U N h = map_option (over h) (case e of Some e \<Rightarrow> Some (Some e, c) | None \<Rightarrow> rest c)"
proof -
  let ?h = "h\<lparr>h_conn := c, h_shake := Some (stage_after st' e)\<rparr>"
  have "shake_run (Suc k) U N h = shake_run k U N ?h" using st stage by (simp split: shake_stage.splits)
  moreover have "shake_run k U N ?h = map_option (over h) (rest c)" if "e = None"
    using rest [of ?h] stage_keeps_side [OF ok stage] that by (simp add: stage_after_def)
  ultimately show ?thesis by (cases e) (simp_all add: stage_after_def over_def)
qed

lemma run_first_frame:
  assumes "h_shake h = Some First_frame"
  shows "shake_run (Suc k) U N h =
    map_option (over h) (first_settings (if Conn_ServerConn (h_conn h) then first_not_settings else errBadConnPreface) (h_conn h))"
  using assms by (cases "first_settings (if Conn_ServerConn (h_conn h) then first_not_settings else errBadConnPreface) (h_conn h)")
    (auto simp: handshake_stage_def over_def split: if_splits)

lemma run_server_preface:
  assumes "conn_ok (h_conn h)" "h_shake h = Some Prefacing" "Conn_ServerConn (h_conn h)"
  shows "shake_run (Suc (Suc k)) U N h = map_option (over h) (server_preface (h_conn h))"
proof -
  obtain e c where p: "server_peek (h_conn h) = (e, c)" by fastforce
  then have "handshake_stage U N h = Some (h\<lparr>h_conn := c, h_shake := Some (stage_after First_frame e)\<rparr>)"
    using assms by (simp add: handshake_stage_def)
  from run_stage [OF assms(1, 2) _ this, of "Suc k" "first_settings first_not_settings"] run_first_frame assms(3) p show ?thesis
    by (simp add: server_preface_def split: option.splits)
qed

lemma run_client_hello:
  assumes "conn_ok (h_conn h)" "h_shake h = Some Greeting" "\<not> Conn_ServerConn (h_conn h)"
  shows "shake_run (Suc (Suc k)) U N h = map_option (over h) (do {
    (e, c) \<leftarrow> write_hello (cf_InitialSettings (h_config h)) (h_conn h);
    case e of Some e \<Rightarrow> Some (Some e, c) | None \<Rightarrow> first_settings errBadConnPreface c })"
proof (cases "write_hello (cf_InitialSettings (h_config h)) (h_conn h)")
  case (Some r)
  then obtain e c where w: "write_hello (cf_InitialSettings (h_config h)) (h_conn h) = Some (e, c)" by (cases r) auto
  then have "handshake_stage U N h = Some (h\<lparr>h_conn := c, h_shake := Some (stage_after First_frame e)\<rparr>)"
    using assms by (simp add: handshake_stage_def)
  from run_stage [OF assms(1, 2) _ this, of "Suc k" "first_settings errBadConnPreface"] run_first_frame assms(3) w show ?thesis by simp
qed (use assms in \<open>simp add: handshake_stage_def\<close>)

lemma run_client_preface:
  assumes "conn_ok (h_conn h)" "h_shake h = Some Prefacing" "\<not> Conn_ServerConn (h_conn h)"
  shows "shake_run (Suc (Suc (Suc k))) U N h = map_option (over h) (do {
    (e, c) \<leftarrow> client_preface (cf_InitialSettings (h_config h)) (h_conn h);
    case e of Some e \<Rightarrow> Some (Some e, c) | None \<Rightarrow> first_settings errBadConnPreface c })"
proof -
  let ?rest = "\<lambda>c. do { (e, c) \<leftarrow> write_hello (cf_InitialSettings (h_config h)) c;
    case e of Some e \<Rightarrow> Some (Some e, c) | None \<Rightarrow> first_settings errBadConnPreface c }"
  obtain e c where p: "client_magic (h_conn h) = (e, c)" by fastforce
  then have "handshake_stage U N h = Some (h\<lparr>h_conn := c, h_shake := Some (stage_after Greeting e)\<rparr>)"
    using assms by (simp add: handshake_stage_def)
  from run_stage [OF assms(1, 2) _ this, of "Suc (Suc k)" ?rest] run_client_hello assms(3) p show ?thesis
    by (simp add: client_preface_def split: option.splits)
qed

lemma run_server_hello:
  assumes "conn_ok (h_conn h)" "h_shake h = Some Greeting" "Conn_ServerConn (h_conn h)"
  shows "shake_run (Suc (Suc (Suc k))) U N h = map_option (over h) (do {
    (e, c) \<leftarrow> write_hello (cf_InitialSettings (h_config h)) (h_conn h);
    case e of Some e \<Rightarrow> Some (Some e, c) | None \<Rightarrow> server_preface c })"
proof (cases "write_hello (cf_InitialSettings (h_config h)) (h_conn h)")
  case (Some r)
  then obtain e c where w: "write_hello (cf_InitialSettings (h_config h)) (h_conn h) = Some (e, c)" by (cases r) auto
  then have "handshake_stage U N h = Some (h\<lparr>h_conn := c, h_shake := Some (stage_after Prefacing e)\<rparr>)"
    using assms by (simp add: handshake_stage_def)
  from run_stage [OF assms(1, 2) _ this, of "Suc (Suc k)" server_preface] run_server_preface assms(3) w show ?thesis by simp
qed (use assms in \<open>simp add: handshake_stage_def\<close>)

lemma run_server_upgrade:
  assumes ok: "conn_ok (h_conn h)" and st: "h_shake h = Some (Upgrading upgrade)" and sv: "Conn_ServerConn (h_conn h)"
    and cfg: "h_config h = cfg"
  shows "shake_run (Suc (Suc (Suc (Suc k)))) U N h = do {
    ((e, frames), c) \<leftarrow> serverUpgrade U N upgrade False (h_conn h);
    map_option (over (h\<lparr>h_frames := frames\<rparr>)) (case e of
      Some e \<Rightarrow> Some (Some e, c)
    | None \<Rightarrow> do {
        (e, c) \<leftarrow> write_hello (cf_InitialSettings cfg) c;
        case e of Some e \<Rightarrow> Some (Some e, c) | None \<Rightarrow> server_preface c }) }"
proof (cases "serverUpgrade U N upgrade False (h_conn h)")
  case (Some r)
  then obtain e frames c where r: "serverUpgrade U N upgrade False (h_conn h) = Some ((e, frames), c)" by (metis surj_pair)
  then have s: "handshake_stage U N h = Some (h\<lparr>h_conn := c, h_frames := frames, h_shake := Some (stage_after Greeting e)\<rparr>)" (is "_ = Some ?h")
    using st sv by (simp add: handshake_stage_def)
  note k = stage_keeps_side [OF ok s]
  have "shake_run (Suc (Suc (Suc k))) U N ?h = map_option (over ?h) (do {
      (e, c) \<leftarrow> write_hello (cf_InitialSettings cfg) c;
      case e of Some e \<Rightarrow> Some (Some e, c) | None \<Rightarrow> server_preface c })" if "e = None"
    using run_server_hello [of ?h] k sv that cfg by (simp add: stage_after_def)
  moreover have "over (h\<lparr>h_conn := c, h_frames := frames, h_shake := st\<rparr>) = over (h\<lparr>h_frames := frames\<rparr>)" for st
    by (simp add: over_def fun_eq_iff)
  moreover have "shake_run (Suc (Suc (Suc (Suc k)))) U N h = shake_run (Suc (Suc (Suc k))) U N ?h" using st s by simp
  ultimately show ?thesis using r by (cases e) (simp_all add: stage_after_def over_def del: shake_run.simps)
qed (use assms in \<open>simp add: handshake_stage_def\<close>)

lemma run_server:
  assumes ok: "conn_ok (h_conn h)" and st: "h_shake h = Some Opening" and sv: "Conn_ServerConn (h_conn h)"
  shows "shake_run 5 U N h = map_option (\<lambda>(e, h). h\<lparr>h_shake := Some (Finished e)\<rparr>) (serverHandshake U N h)"
proof (cases "h_tls h")
  case None
  obtain res rest where q: "http_ReadRequest N (r_in (c_reader (h_conn h))) = (res, rest)" by fastforce
  let ?c = "(h_conn h)\<lparr>c_reader := (c_reader (h_conn h))\<lparr>r_in := rest\<rparr>\<rparr>"
  have s: "handshake_stage U N h = Some (h\<lparr>h_conn := ?c, h_shake := Some (case res of Inl e \<Rightarrow> Finished (Some e) | Inr u \<Rightarrow> Upgrading u)\<rparr>)" (is "_ = Some ?h")
    using st sv None q by (simp add: handshake_stage_def server_opening_def)
  have "shake_run 5 U N h = shake_run 4 U N ?h" using st s by (simp add: numeral_eq_Suc)
  moreover have "shake_run 4 U N ?h = do {
      ((e, frames), c) \<leftarrow> serverUpgrade U N u False ?c;
      map_option (over (h\<lparr>h_frames := frames\<rparr>)) (case e of
        Some e \<Rightarrow> Some (Some e, c)
      | None \<Rightarrow> do {
          (e, c) \<leftarrow> write_hello (cf_InitialSettings (h_config h)) c;
          case e of Some e \<Rightarrow> Some (Some e, c) | None \<Rightarrow> server_preface c }) }" if "res = Inr u" for u
    using run_server_upgrade [of ?h u "h_config h" 0 U N] stage_keeps_side [OF ok s] sv that by (simp add: numeral_eq_Suc over_def [abs_def] del: shake_run.simps)
  ultimately show ?thesis using q None
    by (cases res) (auto simp: serverHandshake_def server_upgrade_def Let_def over_def option.map_comp o_def
        split: bind_split option.splits prod.splits)
next
  case (Some t)
  let ?e = "server_tls (cf_AllowLowTLSVersion (h_config h)) t"
  have "handshake_stage U N h = Some (h\<lparr>h_conn := h_conn h, h_shake := Some (stage_after Greeting ?e)\<rparr>)"
    using st sv Some by (simp add: handshake_stage_def server_opening_def)
  from run_stage [OF ok st _ this, of 4 "\<lambda>c. do { (e, c) \<leftarrow> write_hello (cf_InitialSettings (h_config h)) c;
    case e of Some e \<Rightarrow> Some (Some e, c) | None \<Rightarrow> server_preface c }"] run_server_hello sv Some
  show ?thesis
    by (cases ?e) (auto simp: serverHandshake_def numeral_eq_Suc over_def split: bind_split option.splits prod.splits)
qed

lemma run_client:
  assumes ok: "conn_ok (h_conn h)" and st: "h_shake h = Some Opening" and cl: "\<not> Conn_ServerConn (h_conn h)"
  shows "shake_run 5 U N h = map_option (\<lambda>(e, h). h\<lparr>h_shake := Some (Finished e)\<rparr>) (clientHandshake U N h)"
proof (cases "h_tls h")
  case None
  let ?q = "client_request U N (cf_InitialSettings (h_config h)) (h_upgrade h) (h_conn h)"
  show ?thesis
  proof (cases ?q)
    case (Some r)
    then obtain e c where q: "?q = Some (e, c)" by (cases r) auto
    then have s: "handshake_stage U N h = Some (h\<lparr>h_conn := c, h_shake := Some (stage_after Awaiting e)\<rparr>)" (is "_ = Some ?h")
      using st cl None by (simp add: handshake_stage_def)
    have 5: "shake_run 5 U N h = shake_run 4 U N ?h" using st s by (simp add: numeral_eq_Suc)
    obtain e' c' where q': "client_response U N c = (e', c')" by fastforce
    let ?h' = "h\<lparr>h_conn := c', h_upgrade := (if e' = None then None else h_upgrade h), h_shake := Some (stage_after Prefacing e')\<rparr>"
    note k = stage_keeps_side [OF ok s]
    show ?thesis
    proof (cases e)
      case e: None
      have s': "handshake_stage U N ?h = Some ?h'" using k(2) cl q' e by (simp add: handshake_stage_def stage_after_def)
      have "shake_run 4 U N ?h = shake_run 3 U N ?h'" using s' e by (simp add: numeral_eq_Suc stage_after_def)
      moreover have "shake_run 3 U N ?h' = map_option (over (h\<lparr>h_upgrade := None\<rparr>)) (do {
          (e, c) \<leftarrow> client_preface (cf_InitialSettings (h_config h)) c';
          case e of Some e \<Rightarrow> Some (Some e, c) | None \<Rightarrow> first_settings errBadConnPreface c })" if "e' = None"
        using run_client_preface [of ?h' 0 U N] stage_keeps_side [OF k(1) s'] k(2) cl that
        by (simp add: numeral_eq_Suc stage_after_def over_def [abs_def] del: shake_run.simps)
      ultimately show ?thesis using 5 e None q q'
        by (cases e') (auto simp: clientHandshake_def client_upgrade_def clientUpgrade_def stage_after_def over_def split: bind_split option.splits prod.splits)
    qed (use 5 None q in \<open>simp add: clientHandshake_def client_upgrade_def clientUpgrade_def stage_after_def\<close>)
  qed (use st cl None in \<open>simp add: numeral_eq_Suc handshake_stage_def clientHandshake_def client_upgrade_def clientUpgrade_def\<close>)
next
  case (Some t)
  have "handshake_stage U N h = Some (h\<lparr>h_conn := h_conn h, h_shake := Some (stage_after Prefacing (client_tls t))\<rparr>)"
    using st cl Some by (simp add: handshake_stage_def)
  from run_stage [OF ok st _ this, of 4 "\<lambda>c. do { (e, c) \<leftarrow> client_preface (cf_InitialSettings (h_config h)) c;
    case e of Some e \<Rightarrow> Some (Some e, c) | None \<Rightarrow> first_settings errBadConnPreface c }"] run_client_preface cl Some
  show ?thesis
    by (cases "client_tls t") (auto simp: clientHandshake_def numeral_eq_Suc over_def split: bind_split option.splits prod.splits)
qed

lemma shake_run_all:
  assumes "conn_ok (h_conn h)" "h_shake h = Some Opening"
  shows "shake_run 5 U N h = map_option (\<lambda>(e, h). h\<lparr>h_shake := Some (Finished e)\<rparr>)
    (if Conn_ServerConn (h_conn h) then serverHandshake U N h else clientHandshake U N h)"
  using run_server [OF assms] run_client [OF assms] by simp

section \<open>Runs\<close>

text \<open>
  The parameter is that of \<open>conn_step\<close>.  A call of \<open>Handshake\<close> is in its parts, so that anything may come
  between them; a whole call with nothing in between is among the steps by \<open>write_call\<close> and \<open>read_call\<close>.
\<close>

inductive session_step :: "(Frame \<Rightarrow> bool) \<Rightarrow> session \<Rightarrow> session \<Rightarrow> bool" for app where
  on_conn: "conn_step app (h_conn h) c \<Longrightarrow> session_step app h (h\<lparr>h_conn := c\<rparr>)"
| shake_begin: "Handshake_begin h = Some h' \<Longrightarrow> session_step app h h'"
| shake_stage: "handshake_stage U N h = Some h' \<Longrightarrow> session_step app h h'"
| shake_settle: "Handshake_settle late h = Some (e, h') \<Longrightarrow> session_step app h h'"
| write_call: "session_WriteFrame late U N b f h = Some (x, h') \<Longrightarrow> pred_option app f \<Longrightarrow> session_step app h h'"
| read_call: "session_ReadFrame late U N h = Some (x, h') \<Longrightarrow> session_step app h h'"

context conn_property
begin

lemma session_WriteFrame_ok:
  assumes "I (h_conn h)" "session_WriteFrame late U N b f h = Some (x, h')" "pred_option frame_ids_ok f"
  shows "I (h_conn h')"
proof (cases "Conn_Closed (h_conn h)")
  case False
  with assms(2) obtain e h1 where s: "Handshake late U N h = Some (e, h1)" by (auto simp: session_WriteFrame_def split: bind_splits)
  with Handshake_ok [OF assms(1) s] False assms(2, 3) show ?thesis
    by (auto simp: session_WriteFrame_def split: option.splits bind_splits intro: writeFrame_ok)
qed (use assms in \<open>simp add: session_WriteFrame_def\<close>)

lemma next_upgrade_frame_conn: "next_upgrade_frame h = Some (f, h') \<Longrightarrow> h_conn h' = h_conn h"
  by (auto simp: next_upgrade_frame_def split: list.splits Frame.splits option.splits)

lemma session_ReadFrame_ok:
  assumes "I (h_conn h)" "session_ReadFrame late U N h = Some (x, h')"
  shows "I (h_conn h')"
proof -
  from assms(2) obtain e h1 where s: "Handshake late U N h = Some (e, h1)" by (auto simp: session_ReadFrame_def split: bind_splits)
  from Handshake_ok [OF assms(1) s] s assms(2) show ?thesis
    by (auto simp: session_ReadFrame_def Let_def split: option.splits bind_splits if_splits
        intro: readFrame_ok dest!: next_upgrade_frame_conn)
qed

lemma session_step_ok: "I (h_conn h) \<Longrightarrow> session_step frame_ids_ok h h' \<Longrightarrow> I (h_conn h')"
  by (erule session_step.cases)
     (auto intro: step_keeps Handshake_begin_ok handshake_stage_ok Handshake_settle_ok session_WriteFrame_ok session_ReadFrame_ok)

end

interpretation sessions: step_invariant "session_step frame_ids_ok" "\<lambda>h. conn_ok (h_conn h)"
  by unfold_locales (rule sound_conn.session_step_ok)

lemma new_session_ok: "conn_ok (h_conn (new_session server grow raw cfg))"
  by (simp add: new_session_def Let_def newConn_ok)

section \<open>The outcome of a handshake\<close>

lemma Handshake_failed [simp]: "h_err h = Some e \<Longrightarrow> Handshake late U N h = Some (Some e, h)"
  by (simp add: Handshake_def)

lemma settle_outcome:
  "Handshake_settle late h = Some (e, h') \<Longrightarrow> h_err h' = e \<and> (e = None \<longrightarrow> c_handshake (h_conn h'))"
  by (auto simp: Handshake_settle_def split: if_splits bind_splits option.splits)

lemma Handshake_final:
  assumes "Handshake late U N h = Some (e, h')"
  shows "h_err h' = e" "Handshake late' U' N' h' = Some (e, h')"
proof -
  have "h_err h' = e \<and> (e = None \<longrightarrow> c_handshake (h_conn h'))"
  proof (cases "h_err h = None \<and> \<not> c_handshake (h_conn h)")
    case True
    with assms obtain h1 b where "Handshake_settle b h1 = Some (e, h')" by (auto simp: Handshake_def split: bind_splits option.splits)
    then show ?thesis by (rule settle_outcome)
  qed (use assms in \<open>auto simp: Handshake_def split: option.splits if_splits\<close>)
  then show "h_err h' = e" "Handshake late' U' N' h' = Some (e, h')" by (cases e; simp add: Handshake_def)+
qed

lemma stage_err:
  "server_stage U N st h = Some (st', h') \<Longrightarrow> h_err h' = h_err h"
  "client_stage U N st h = Some (st', h') \<Longrightarrow> h_err h' = h_err h"
  by (cases st; auto simp: server_opening_def split: option.splits prod.splits bind_splits)+

lemma handshake_stage_err: "handshake_stage U N h = Some h' \<Longrightarrow> h_err h' = h_err h"
  by (auto simp: handshake_stage_def split: option.splits bind_splits if_splits dest: stage_err)

lemma next_upgrade_frame_err: "next_upgrade_frame h = Some (f, h') \<Longrightarrow> h_err h' = h_err h"
  by (auto simp: next_upgrade_frame_def split: list.splits Frame.splits option.splits)

text \<open>An error stays, whatever the stages that are left of its handshake still do.\<close>

lemma session_step_err:
  assumes "session_step app h h'" "h_err h = Some e"
  shows "h_err h' = Some e"
  using assms
proof (cases rule: session_step.cases)
  case (shake_stage U N)
  with assms(2) show ?thesis by (auto dest: handshake_stage_err)
qed (auto simp: Handshake_begin_def Handshake_settle_def session_WriteFrame_def session_ReadFrame_def split: if_splits)

lemma session_run_err:
  assumes "(session_step app)\<^sup>*\<^sup>* h h'" "h_err h = Some e"
  shows "h_err h' = Some e"
  using assms by (induction rule: rtranclp_induct) (auto dest: session_step_err)

end
