(* ===== verification/H2_Preface.thy ===== *)
theory H2_Preface
  imports H2_Sessions H2_UpgradeServer
begin

text \<open>
  The connection preface: what a client puts on the wire at the start is what a server expects
  there, the server's answer to the settings in it, and the errors with which a handshake ends.
\<close>

section \<open>Sending it\<close>

lemma hello_queue:
  assumes "c_queue c = new_writeQueue" "c_settingsCh c = []"
  shows "\<exists>c1. write_hello s c = Some (None, c1) \<and> queue_get (c_queue c1) = Some (Q_frame (SettingsFrame False s), new_writeQueue)
    \<and> c_writer c1 = c_writer c \<and> c_local c1 = c_local c \<and> c_remote c1 = c_remote c"
  using assms by (simp add: write_hello_def writeFrame_def write_Settings_def add_frame_def queue_add_def send_cbuf_def queue_get_def new_writeQueue_def)

lemma loop_sends_hello:
  assumes "queue_get (c_queue c) = Some (Q_frame (SettingsFrame False s), new_writeQueue)" "\<not> goingAway c"
    "frameWriter_WriteFrame U ord (c_writer c) (SettingsFrame False s) = Some (None, w)"
  shows "\<exists>c1. writeLoop_step U ord None c = Some (Continues, c1) \<and> c_writer c1 = w"
proof -
  have "queue_refill (c\<lparr>c_queue := new_writeQueue\<rparr>) = (False, c\<lparr>c_queue := new_writeQueue\<rparr>)"
    by (simp add: queue_refill_def queue_set_def new_writeQueue_def)
  with assms show ?thesis
    by (simp add: writeLoop_step_def loop_frame_def loop_written_def loop_finished_def goingAway_def)
qed

lemma preface_sent:
  assumes "c_queue c = new_writeQueue" "c_settingsCh c = []" "\<not> goingAway c" "writer_ready (c_writer c)"
    and s: "settings_ok s" "6 * length s \<le> unat mx" and mx: "8 \<le> mx" "unat mx < 2 ^ 24"
  shows "\<exists>c1 c2 bs. client_preface s c = Some (None, c1) \<and> writeLoop_step U ord None c1 = Some (Continues, c2)
    \<and> w_out (c_writer c2) = w_out (c_writer c) @ ClientPreface @ bs \<and> reads mx bs (SettingsFrame False s)"
proof -
  let ?w = "(c_writer c)\<lparr>w_out := w_out (c_writer c) @ ClientPreface\<rparr>"
  have o: "out_Write (c_writer c) ClientPreface = (None, ?w)" using assms(4) by (simp add: out_Write_def writer_ready_def)
  obtain c1 where h: "write_hello s (c\<lparr>c_writer := ?w\<rparr>) = Some (None, c1)"
    "queue_get (c_queue c1) = Some (Q_frame (SettingsFrame False s), new_writeQueue)" "c_writer c1 = ?w" "\<not> goingAway c1"
    using hello_queue [of "c\<lparr>c_writer := ?w\<rparr>" s] assms(1-3) by (auto simp: goingAway_def)
  have "writer_ready ?w" "wire_ok mx (SettingsFrame False s)" using assms(4) s by simp_all
  from frame_written_read [OF this mx, of U ord] obtain bs res where
    b: "frameWriter_WriteFrame U ord ?w (SettingsFrame False s) = Some res" "writes ?w res bs" "reads mx bs (SettingsFrame False s)" by blast
  obtain x w where res: "res = (x, w)" by fastforce
  have "x = None" "w = ?w\<lparr>w_buf := w_buf w, w_out := w_out ?w @ bs\<rparr>" using b(2) unfolding writes_def res by simp_all
  from this(1) arg_cong [OF this(2), of w_out] b(1) h(3) res have
    w: "frameWriter_WriteFrame U ord (c_writer c1) (SettingsFrame False s) = Some (None, w)" "w_out w = w_out (c_writer c) @ ClientPreface @ bs" by simp_all
  from loop_sends_hello [OF h(2, 4) w(1)] w(2) b(3) o h(1) show ?thesis by (auto simp: client_preface_def client_magic_def)
qed

section \<open>Receiving it\<close>

lemma settings_received:
  assumes "reader_ready (c_reader c)" "r_maxFrameSize (c_reader c) = mx" "r_next (c_reader c) = bs @ rest" "\<not> c_lastData c"
    and "reads mx bs (SettingsFrame False s)" "Settings_value s SettingEnablePush = Some 1 \<longrightarrow> Conn_ServerConn c"
  shows "\<exists>r. first_settings bad c = Some (None, add_frame (Q_frame (SettingsFrame True s)) True (c\<lparr>c_reader := r\<rparr>)) \<and> r_next r = rest"
proof -
  from assms(1-3, 5) obtain r where r: "frameReader_ReadFrame (c_reader c) = Some (Inr (SettingsFrame False s), r)" "r_next r = rest"
    unfolding reads_def by blast
  let ?c = "add_frame (Q_frame (SettingsFrame True s)) True (c\<lparr>c_reader := r\<rparr>)"
  have "\<not> after_GoAway (SettingsFrame False s) (c\<lparr>c_reader := r\<rparr>)"
    by (auto simp: after_GoAway_def connState_validStreamID_def split: option.splits prod.splits)
  then have "conn_pass c = Some (Exit (Some (SettingsFrame False s)) None, ?c)"
    using r(1) assms(6) by (auto simp: conn_pass_def read_frame_def exit_with_def read_Settings_def Conn_ServerConn_def)
  then have "read_loop c = Some ((Some (SettingsFrame False s), None), ?c)"
    by (subst read_loop.simps) (simp add: read_exit_def handleErr_def)
  with assms(4) r(2) show ?thesis by (auto simp: first_settings_def readFrame_def)
qed

lemma preface_received:
  assumes "reader_ready (c_reader c)" "r_maxFrameSize (c_reader c) = mx" "\<not> r_lastPayload (c_reader c)" "r_in (c_reader c) = ClientPreface @ bs @ rest"
    and "\<not> c_lastData c" "reads mx bs (SettingsFrame False s)" "Conn_ServerConn c"
  shows "\<exists>r. server_preface c = Some (None, add_frame (Q_frame (SettingsFrame True s)) True (c\<lparr>c_reader := r\<rparr>)) \<and> r_next r = rest"
proof -
  let ?c = "c\<lparr>c_reader := r_skip (length ClientPreface) (c_reader c)\<rparr>"
  have "r_Peek (length ClientPreface) (c_reader c) = Inr ClientPreface" using assms(4) by (simp add: r_Peek_def)
  moreover have "reader_ready (c_reader ?c)" "r_maxFrameSize (c_reader ?c) = mx" "r_next (c_reader ?c) = bs @ rest" "\<not> c_lastData ?c"
    "Conn_ServerConn ?c"
    using assms by (simp_all add: reader_ready_def r_skip_def r_Discard_def r_next_def Conn_ServerConn_def)
  from settings_received [OF this(1-4) assms(6), of first_not_settings] this(5)
  obtain r where "first_settings first_not_settings ?c
      = Some (None, add_frame (Q_frame (SettingsFrame True s)) True (?c\<lparr>c_reader := r\<rparr>))" "r_next r = rest" by blast
  ultimately show ?thesis by (auto simp: server_preface_def server_peek_def)
qed

section \<open>Acknowledging it\<close>

text \<open>Settings of the peer do not touch the queue, the output, or what is known of GOAWAY frames.\<close>

definition untouched :: "conn \<Rightarrow> conn \<Rightarrow> bool" where
  "untouched c c' \<longleftrightarrow> c_queue c' = c_queue c \<and> c_streams c' = c_streams c \<and> cs_goAway (c_local c') = cs_goAway (c_local c)
     \<and> cs_goAway (c_remote c') = cs_goAway (c_remote c) \<and> w_out (c_writer c') = w_out (c_writer c)
     \<and> (writer_ready (c_writer c') \<longleftrightarrow> writer_ready (c_writer c))"

lemma apply_setting_untouched:
  "c_streams c = [] \<Longrightarrow> apply_setting False sl x c = Some (r, c') \<Longrightarrow> untouched c c'"
  by (auto simp: apply_setting_def Let_def untouched_def writer_ready_def setInitialSendWindow_def StreamErrorList_Err_def
      split: if_splits bind_splits)

lemma apply_loop_untouched: "c_streams c = [] \<Longrightarrow> apply_loop False n xs sl c = Some (r, c') \<Longrightarrow> untouched c c'"
proof (induction xs arbitrary: sl c)
  case (Cons x xs)
  then obtain e st c1 where a: "apply_setting False sl x c = Some ((e, st), c1)" by (auto split: bind_splits)
  have 1: "untouched c c1" by (rule apply_setting_untouched [OF Cons.prems(1) a])
  show ?case
  proof (cases e)
    case None
    with Cons.prems(2) a have "apply_loop False n xs (if st then slice_SetValue (c_grow c1) n x sl else sl) c1 = Some (r, c')" by simp
    from Cons.IH [OF _ this] 1 Cons.prems(1) show ?thesis by (simp add: untouched_def)
  qed (use Cons.prems(2) a 1 in simp)
qed (simp add: untouched_def)

lemma applySettings_untouched:
  assumes "c_streams c = []" "applySettings False s c = Some (e, c')"
  shows "untouched c c'"
proof -
  from assms(2) obtain n sl0 r c1 cs k where l: "apply_loop False n s sl0 c = Some (r, c1)"
    and c': "c' = set_side False ((side False c1)\<lparr>cs_settings := cs\<rparr>) c1 \<or> c' = set_side False ((side False c1)\<lparr>cs_settings := cs, cs_cap := k\<rparr>) c1"
    by (fastforce simp: applySettings_def Let_def split: bind_splits option.splits)
  from apply_loop_untouched [OF assms(1) l] c' show ?thesis by (auto simp: untouched_def set_side_def side_def)
qed

text \<open>
  The answer to the settings \<open>s\<close>: the acknowledgement on the wire, or nothing there and a GOAWAY when
  they enable push.
\<close>

definition answers :: "u32 \<Rightarrow> Settings \<Rightarrow> conn \<Rightarrow> conn \<Rightarrow> bool" where
  "answers mx s c c' \<longleftrightarrow>
     (if Settings_value s SettingEnablePush = Some 1
      then w_out (c_writer c') = w_out (c_writer c) \<and> (\<exists>lastID dbg. cs_goAway (c_remote c') = Some (lastID, ErrCodeProtocol, dbg))
      else \<exists>ack. w_out (c_writer c') = w_out (c_writer c) @ ack \<and> reads mx ack (SettingsFrame True []))"

lemma loop_applies:
  assumes c: "fresh_server c" "cs_goAway (c_remote c) = None" "writer_ready (c_writer c)"
    and q: "queue_get (c_queue c) = Some (Q_frame (SettingsFrame True s), new_writeQueue)"
    and s: "settings_ok s" and mx: "8 \<le> mx" "unat mx < 2 ^ 24"
  shows "\<exists>c'. writeLoop_step U ord None c = Some (Continues, c') \<and> answers mx s c c'"
proof -
  let ?c = "c\<lparr>c_queue := new_writeQueue\<rparr>"
  have f: "fresh_server ?c" by (rule fresh_shape [OF _ c(1)]) (use c(1) in \<open>simp_all add: fresh_server_def\<close>)
  then obtain c1 where a: "applySettings False s ?c = Some (if Settings_value s SettingEnablePush = Some 1 then Some push_error else None, c1)"
    using applySettings_fresh [OF f, of s] unfolding enables_push_value [OF s] by blast
  have "untouched ?c c1" by (rule applySettings_untouched [OF _ a]) (use f in \<open>simp add: fresh_server_def\<close>)
  then have u: "c_queue c1 = new_writeQueue" "c_streams c1 = []" "cs_goAway (c_remote c1) = None" "cs_goAway (c_local c1) = None" "w_out (c_writer c1) = w_out (c_writer c)" "writer_ready (c_writer c1)"
    using f c(2, 3) by (simp_all add: untouched_def fresh_server_def)
  have l: "writeLoop_step U ord None c = loop_frame U ord True None (SettingsFrame True s) ?c"
    using q by (simp add: writeLoop_step_def queue_refill_def queue_set_def new_writeQueue_def)
  show ?thesis
  proof (cases "Settings_value s SettingEnablePush = Some 1")
    case True
    with a l u(2-5) show ?thesis
      by (simp add: loop_frame_def loop_handle_def handleErr_def push_error_def conn_error_def handle_conn_err_def write_GoAway_def
          go_away_limit_def go_away_code_def Let_def add_frame_def answers_def)
  next
    case False
    have "wire_ok mx (SettingsFrame True [])" by (simp add: settings_ok_def)
    from frame_written_read [OF u(6) this mx, of U ord] obtain bs res where
      b: "frameWriter_WriteFrame U ord (c_writer c1) (SettingsFrame True []) = Some res" "writes (c_writer c1) res bs" "reads mx bs (SettingsFrame True [])" by blast
    obtain x w where res: "res = (x, w)" by fastforce
    have "x = None" "w = (c_writer c1)\<lparr>w_buf := w_buf w, w_out := w_out (c_writer c1) @ bs\<rparr>" using b(2) unfolding writes_def res by simp_all
    from this(1) arg_cong [OF this(2), of w_out] res have "res = (None, w)" "w_out w = w_out (c_writer c1) @ bs" by simp_all
    with False a l b(1, 3) u(3-5) show ?thesis
      by (auto simp: loop_frame_def loop_written_def loop_finished_def goingAway_def answers_def)
  qed
qed

lemma server_preface_ok:
  assumes "conn_ok c" "server_preface c = Some (e, c')"
  shows "conn_ok c'"
proof -
  obtain e1 c1 where p: "server_peek c = (e1, c1)" by fastforce
  from sound_conn.server_peek_ok [OF assms(1) p] assms(2) p show ?thesis
    by (auto simp: server_preface_def split: option.splits intro: sound_conn.first_settings_ok)
qed

lemma preface_answered:
  assumes c: "fresh_server c" "c_queue c = new_writeQueue" "cs_goAway (c_remote c) = None" "writer_ready (c_writer c)"
    and p: "server_preface c = Some (None, add_frame (Q_frame (SettingsFrame True s)) True (c\<lparr>c_reader := r\<rparr>))" (is "_ = Some (None, ?c)")
    and s: "settings_ok s" and mx: "8 \<le> mx" "unat mx < 2 ^ 24"
  shows "\<exists>c'. writeLoop_step U ord None ?c = Some (Continues, c') \<and> answers mx s c c'"
proof -
  have "conn_ok ?c" by (rule server_preface_ok [OF _ p]) (use c(1) in \<open>simp add: fresh_server_def\<close>)
  then have "fresh_server ?c" using c(1) by (simp add: fresh_server_def add_frame_def)
  moreover have "queue_get (c_queue ?c) = Some (Q_frame (SettingsFrame True s), new_writeQueue)"
    using c(2) by (simp add: add_frame_def queue_add_def send_cbuf_def queue_get_def new_writeQueue_def)
  moreover have "cs_goAway (c_remote ?c) = None" "writer_ready (c_writer ?c)" "answers mx s ?c = answers mx s c"
    using c(3, 4) by (simp_all add: add_frame_def answers_def fun_eq_iff)
  ultimately show ?thesis using loop_applies [of ?c s mx U ord] s mx by simp
qed

section \<open>Failing\<close>

text \<open>
  The code of the GOAWAY that ends a failed handshake: a preface that is not the client's is a
  protocol error, a first frame that is not SETTINGS an internal one.
\<close>

lemma handshake_goaway_code:
  assumes "conn_ok c" "cs_goAway (c_remote c) = None"
  shows "\<exists>c' dbg. handshake_failed errBadConnPreface c = Some c' \<and> (\<exists>e. write_GoAway (Conn_LastStreamID c) ErrCodeProtocol dbg c = Some (e, c'))"
    "\<exists>c' dbg. handshake_failed first_not_settings c = Some c'
       \<and> (\<exists>e. write_GoAway (Conn_LastStreamID c) ErrCodeInternal dbg c = Some (e, c'))"
proof -
  have g: "\<exists>e c'. write_GoAway i code d c = Some (e, c')" for i code d using sound_conn.write_GoAway_ok [OF assms(1)] by blast
  have "first_not_settings \<noteq> errBadConnPreface" by (simp add: first_not_settings_def errBadConnPreface_def str_def)
  then show "\<exists>c' dbg. handshake_failed first_not_settings c = Some c'
       \<and> (\<exists>e. write_GoAway (Conn_LastStreamID c) ErrCodeInternal dbg c = Some (e, c'))"
    using g by (auto simp: handshake_failed_def handleErr_def handle_conn_err_def go_away_code_def first_not_settings_def split: prod.splits) (metis snd_conv)
  show "\<exists>c' dbg. handshake_failed errBadConnPreface c = Some c' \<and> (\<exists>e. write_GoAway (Conn_LastStreamID c) ErrCodeProtocol dbg c = Some (e, c'))"
    using g by (auto simp: handshake_failed_def handleErr_def handle_conn_err_def go_away_code_def errBadConnPreface_def split: prod.splits) (metis snd_conv)
qed

end
