(* ===== verification/H2_Endpoints.thy ===== *)
theory H2_Endpoints
  imports H2_Handshake
begin

text \<open>
  Dialling and serving: \<open>Dialer\<close> of \<^verbatim>\<open>src/client.go\<close> and \<open>Server\<close> of \<^verbatim>\<open>src/server.go\<close> with the TLS
  configurations they prepare.  The fields of a \<open>tls.Config\<close> that the code only copies have the
  type \<open>'h\<close>; listening, dialling and TLS itself are parameters.
\<close>

section \<open>TLS configurations\<close>

record 'h tls_Config =
  tc_Rand :: "'h option"
  tc_Time :: "'h option"
  tc_Certificates :: "'h list"
  tc_NameToCertificate :: "'h option"
  tc_GetCertificate :: "'h option"
  tc_RootCAs :: "'h option"
  tc_NextProtos :: "gostring list"
  tc_ServerName :: gostring
  tc_ClientAuth :: int
  tc_ClientCAs :: "'h option"
  tc_InsecureSkipVerify :: bool
  tc_CipherSuites :: "u16 list option"
  tc_PreferServerCipherSuites :: bool
  tc_SessionTicketsDisabled :: bool
  tc_SessionTicketKey :: bytes
  tc_ClientSessionCache :: "'h option"
  tc_MinVersion :: u16
  tc_MaxVersion :: u16
  tc_CurvePreferences :: "u16 list"

definition zero_tls_Config :: "'h tls_Config" where
  "zero_tls_Config =
     \<lparr>tc_Rand = None, tc_Time = None, tc_Certificates = [], tc_NameToCertificate = None, tc_GetCertificate = None,
      tc_RootCAs = None, tc_NextProtos = [], tc_ServerName = [], tc_ClientAuth = 0, tc_ClientCAs = None,
      tc_InsecureSkipVerify = False, tc_CipherSuites = None, tc_PreferServerCipherSuites = False,
      tc_SessionTicketsDisabled = False, tc_SessionTicketKey = replicate 32 0, tc_ClientSessionCache = None,
      tc_MinVersion = 0, tc_MaxVersion = 0, tc_CurvePreferences = []\<rparr>"

definition cloneTLSConfig :: "'h tls_Config option \<Rightarrow> 'h tls_Config" where
  "cloneTLSConfig cfg =
     (case cfg of
        None \<Rightarrow> zero_tls_Config
      | Some cfg \<Rightarrow>
          \<lparr>tc_Rand = tc_Rand cfg, tc_Time = tc_Time cfg, tc_Certificates = tc_Certificates cfg,
           tc_NameToCertificate = tc_NameToCertificate cfg, tc_GetCertificate = tc_GetCertificate cfg,
           tc_RootCAs = tc_RootCAs cfg, tc_NextProtos = tc_NextProtos cfg, tc_ServerName = tc_ServerName cfg,
           tc_ClientAuth = tc_ClientAuth cfg, tc_ClientCAs = tc_ClientCAs cfg,
           tc_InsecureSkipVerify = tc_InsecureSkipVerify cfg, tc_CipherSuites = tc_CipherSuites cfg,
           tc_PreferServerCipherSuites = tc_PreferServerCipherSuites cfg,
           tc_SessionTicketsDisabled = tc_SessionTicketsDisabled cfg, tc_SessionTicketKey = tc_SessionTicketKey cfg,
           tc_ClientSessionCache = tc_ClientSessionCache cfg, tc_MinVersion = tc_MinVersion cfg,
           tc_MaxVersion = tc_MaxVersion cfg, tc_CurvePreferences = tc_CurvePreferences cfg\<rparr>)"

definition cloneTLSClientConfig :: "'h tls_Config option \<Rightarrow> 'h tls_Config" where
  "cloneTLSClientConfig cfg =
     (case cfg of
        None \<Rightarrow> zero_tls_Config
      | Some cfg \<Rightarrow>
          \<lparr>tc_Rand = tc_Rand cfg, tc_Time = tc_Time cfg, tc_Certificates = tc_Certificates cfg,
           tc_NameToCertificate = tc_NameToCertificate cfg, tc_GetCertificate = tc_GetCertificate cfg,
           tc_RootCAs = tc_RootCAs cfg, tc_NextProtos = tc_NextProtos cfg, tc_ServerName = tc_ServerName cfg,
           tc_ClientAuth = tc_ClientAuth cfg, tc_ClientCAs = tc_ClientCAs cfg,
           tc_InsecureSkipVerify = tc_InsecureSkipVerify cfg, tc_CipherSuites = tc_CipherSuites cfg,
           tc_PreferServerCipherSuites = tc_PreferServerCipherSuites cfg,
           tc_SessionTicketsDisabled = False,
           tc_SessionTicketKey = replicate 32 0,
           tc_ClientSessionCache = tc_ClientSessionCache cfg, tc_MinVersion = tc_MinVersion cfg,
           tc_MaxVersion = tc_MaxVersion cfg, tc_CurvePreferences = tc_CurvePreferences cfg\<rparr>)"

text \<open>The cipher suite that HTTP/2 requires, by its IANA number.\<close>

definition requiredCipher :: u16 where "requiredCipher = 0xc02f"

fun cipher_loop :: "u16 list \<Rightarrow> u16 list \<Rightarrow> u16 list \<Rightarrow> u16 list" where
  "cipher_loop [] a b = a @ b"
| "cipher_loop (suite # suites) a b =
     (if suite = requiredCipher then cipher_loop suites a b
      else if badCipher suite then cipher_loop suites a (b @ [suite])
      else cipher_loop suites (a @ [suite]) b)"

definition with_protocol :: "gostring list \<Rightarrow> gostring list" where
  "with_protocol protos = (if list_ex (\<lambda>p. p = ProtocolTLS) protos then protos else protos @ [ProtocolTLS])"

definition initTLSConfig :: "'h tls_Config option \<Rightarrow> 'h tls_Config" where
  "initTLSConfig cfg =
     (let config = (case cfg of None \<Rightarrow> zero_tls_Config | Some cfg \<Rightarrow> cfg);
          config = config\<lparr>tc_CipherSuites := map_option (\<lambda>suites. cipher_loop suites [requiredCipher] []) (tc_CipherSuites config)\<rparr>;
          config = config\<lparr>tc_PreferServerCipherSuites := True\<rparr>
      in config\<lparr>tc_NextProtos := with_protocol (tc_NextProtos config)\<rparr>)"

section \<open>The dialer\<close>

definition joinHostPort :: "gostring \<Rightarrow> gostring \<Rightarrow> gostring" where
  "joinHostPort host port =
     (let i = strings_LastIndexByte host 58 in
      if i < 0 \<or> i < strings_LastIndexByte host 93 then host @ str '':'' @ port else host)"

text \<open>
  The environment of the dialer: the dial function in use for TCP, the optional one for TLS,
  \<open>net.SplitHostPort\<close>, \<open>tls.Client\<close>, and \<open>VerifyHostname\<close> of its result.
\<close>

record 'h dialer =
  dl_TCP :: "gostring \<Rightarrow> h2error + rawconn"
  dl_TLS :: "(gostring \<Rightarrow> h2error + rawconn) option"
  dl_Config :: "config option"
  dl_TLSConfig :: "'h tls_Config option"
  dl_SplitHostPort :: "gostring \<Rightarrow> h2error + gostring"
  dl_Client :: "rawconn \<Rightarrow> 'h tls_Config \<Rightarrow> rawconn"
  dl_VerifyHostname :: "rawconn \<Rightarrow> gostring \<Rightarrow> h2error option"
  dl_grow :: "nat \<Rightarrow> nat"
  dl_late :: "nat option"

definition dial_handshake ::
  "unicode \<Rightarrow> net \<Rightarrow> 'h dialer \<Rightarrow> http_request option \<Rightarrow> h2error + rawconn \<Rightarrow> (session option \<times> h2error option) option" where
  "dial_handshake U N d req dialled =
     (case dialled of
        Inl e \<Rightarrow> Some (None, Some e)
      | Inr raw \<Rightarrow> do {
          (e, h) \<leftarrow> Handshake (dl_late d) U N (ClientConn (dl_grow d) raw (dl_Config d) req);
          Some (Some h, e)
        })"

definition dial_server_name :: "'h dialer \<Rightarrow> gostring \<Rightarrow> 'h tls_Config \<Rightarrow> h2error + 'h tls_Config" where
  "dial_server_name d address config =
     (if tc_ServerName config = [] then
        (case dl_SplitHostPort d address of Inl e \<Rightarrow> Inl e | Inr host \<Rightarrow> Inr (config\<lparr>tc_ServerName := host\<rparr>))
      else Inr config)"

definition dial_tls :: "unicode \<Rightarrow> net \<Rightarrow> 'h dialer \<Rightarrow> gostring \<Rightarrow> (session option \<times> h2error option) option" where
  "dial_tls U N d address =
     (let config = cloneTLSClientConfig (dl_TLSConfig d);
          config = config\<lparr>tc_NextProtos := with_protocol (tc_NextProtos config)\<rparr>
      in case dial_server_name d address config of
           Inl e \<Rightarrow> Some (None, Some e)
         | Inr config \<Rightarrow>
             (case dl_TCP d address of
                Inl e \<Rightarrow> Some (None, Some e)
              | Inr raw \<Rightarrow> do {
                  let tc = dl_Client d raw config;
                  (e, h) \<leftarrow> Handshake (dl_late d) U N (ClientConn (dl_grow d) tc (dl_Config d) None);
                  let e = (if e = None \<and> \<not> tc_InsecureSkipVerify config then dl_VerifyHostname d tc (tc_ServerName config) else e);
                  if e = None then Some (Some h, None)
                  else do { (_, c) \<leftarrow> conn_close (h_conn h); Some (Some (h\<lparr>h_conn := c\<rparr>), e) }
                }))"

text \<open>\<open>Dial\<close>; the request gives the address for TCP when there is none, by its \<open>Host\<close> and then its URL.\<close>

definition Dial ::
  "unicode \<Rightarrow> net \<Rightarrow> 'h dialer \<Rightarrow> gostring \<Rightarrow> gostring \<Rightarrow> (gostring \<times> http_request) option \<Rightarrow> (session option \<times> h2error option) option" where
  "Dial U N d protocol address req =
     (if protocol = ProtocolTCP then
        let address = (case req of
                         Some (host, r) \<Rightarrow> if address = [] then (if host = [] then rq_Host r else host) else address
                       | None \<Rightarrow> address);
            address = joinHostPort address (str ''http'')
        in dial_handshake U N d (map_option snd req) (dl_TCP d address)
      else if protocol = ProtocolTLS then
        let address = joinHostPort address (str ''https'') in
        (case dl_TLS d of
           Some dialTLS \<Rightarrow> dial_handshake U N d None (dialTLS address)
         | None \<Rightarrow> dial_tls U N d address)
      else Some (None, Some (Errorf (str ''http2: bad protocol '' @ protocol))))"

section \<open>The server\<close>

text \<open>
  \<open>Serve\<close> over the results of \<open>Accept\<close>: the connections handed to the handler and the error it
  returns with; \<open>None\<close> while the listener delivers no error.
\<close>

fun Serve :: "(nat \<Rightarrow> nat) \<Rightarrow> config option \<Rightarrow> (h2error + rawconn) list \<Rightarrow> session list \<times> h2error option" where
  "Serve grow cfg [] = ([], None)"
| "Serve grow cfg (Inl e # accepts) = ([], Some e)"
| "Serve grow cfg (Inr rwc # accepts) =
     (case Serve grow cfg accepts of (conns, e) \<Rightarrow> (ServerConn grow rwc cfg # conns, e))"

definition ListenAndServe ::
  "bool \<Rightarrow> gostring \<Rightarrow> (gostring \<Rightarrow> h2error + (h2error + rawconn) list) \<Rightarrow> (nat \<Rightarrow> nat) \<Rightarrow> config option \<Rightarrow> session list \<times> h2error option" where
  "ListenAndServe handler addr listen grow cfg =
     (if \<not> handler then ([], Some (Errorf (str ''Handler must be non-nil'')))
      else (case listen (if addr = [] then str '':http'' else addr) of
              Inl e \<Rightarrow> ([], Some e)
            | Inr accepts \<Rightarrow> Serve grow cfg accepts))"

text \<open>\<open>newListener\<close> is \<open>tls.NewListener\<close> on the results of \<open>Accept\<close>.\<close>

definition ListenAndServeTLS ::
  "bool \<Rightarrow> gostring \<Rightarrow> (gostring \<Rightarrow> h2error + (h2error + rawconn) list) \<Rightarrow> ((h2error + rawconn) list \<Rightarrow> 'h tls_Config \<Rightarrow> (h2error + rawconn) list)
   \<Rightarrow> (gostring \<Rightarrow> gostring \<Rightarrow> h2error + 'h) \<Rightarrow> 'h tls_Config option \<Rightarrow> gostring \<Rightarrow> gostring \<Rightarrow> (nat \<Rightarrow> nat) \<Rightarrow> config option
   \<Rightarrow> session list \<times> h2error option" where
  "ListenAndServeTLS handler addr listen newListener loadKeyPair tlsConfig certFile keyFile grow cfg =
     (if \<not> handler then ([], Some (Errorf (str ''Handler must be non-nil'')))
      else
        let config = initTLSConfig (Some (cloneTLSConfig tlsConfig)) in
        (case (if tc_Certificates config = [] \<or> certFile \<noteq> [] \<or> keyFile \<noteq> []
               then (case loadKeyPair certFile keyFile of Inl e \<Rightarrow> Inl e | Inr cert \<Rightarrow> Inr (config\<lparr>tc_Certificates := [cert]\<rparr>))
               else Inr config) of
           Inl e \<Rightarrow> ([], Some e)
         | Inr config \<Rightarrow>
             (case listen (if addr = [] then str '':https'' else addr) of
                Inl e \<Rightarrow> ([], Some e)
              | Inr accepts \<Rightarrow> Serve grow cfg (newListener accepts config))))"

end
