(* ===== verification/H2_HandshakeTheorems.thy ===== *)
theory H2_HandshakeTheorems
  imports H2_UpgradeServer H2_Preface H2_Endpoints
begin

text \<open>
  The properties of the handshake and of the upgrade, each with a witness at a concrete input
  where it has hypotheses.
\<close>

section \<open>Parameters for the witnesses\<close>

text \<open>A network without messages, a request without headers, and a transport without input.\<close>

definition no_net :: net where
  "no_net = \<lparr>http_NewRequest = (\<lambda>_. Inl EOF), http_ReadRequest = (\<lambda>bs. (Inl EOF, bs)), http_RequestWrite = (\<lambda>_. (None, [])),
     http_ReadResponse = (\<lambda>bs. (Inl EOF, bs)), base64_error = (\<lambda>_. []), net_RemoteAddr = None\<rparr>"

definition get_request :: http_request where
  "get_request = \<lparr>rq_Method = str ''GET'', rq_Scheme = str ''http'', rq_Host = str ''a'', rq_RequestURI = str ''/'', rq_Fragment = [],
     rq_Header = [], rq_ContentLength = 0, rq_Body = None\<rparr>"

definition no_raw :: rawconn where
  "no_raw = \<lparr>raw_in = [], raw_end = EOF, raw_fault = None, raw_closeErr = None, raw_tls = None\<rparr>"

section \<open>The upgrade\<close>

text \<open>
  C12 The upgrade request of a client is one that a server takes: whatever headers the request had, as
  long as they do not name the settings and spell the keys of the upgrade in one way, the header
  that \<open>clientUpgrade\<close> makes of them passes every check of \<open>serverUpgrade\<close>, which finds in it exactly
  the settings of the client.
\<close>

theorem upgrade_roundtrip:
  assumes "plain_header U h" "splitHeader U h k_Settings = []" "settings_ok s"
  shows "\<exists>h'. upgrade_header U s h = Inr h'
    \<and> (\<forall>N req. rq_Method req = str ''GET'' \<and> (\<forall>k\<in>{k_Upgrade, k_Connection, k_Settings}. splitHeader U (rq_Header req) k = splitHeader U h' k)
         \<longrightarrow> upgrade_check U N req = Inr s)"
proof -
  from upgrade_header_values [OF assms(1, 2) refl] obtain h' where h: "upgrade_header U s h = Inr h'"
    "splitHeader U h' k_Upgrade = [ProtocolTCP]" "containsValue U h' k_Connection [k_Upgrade, k_Settings]"
    "splitHeader U h' k_Settings = [encoded_settings s]" by blast
  have "upgrade_check U N req = Inr s" if "rq_Method req = str ''GET''"
    "\<forall>k\<in>{k_Upgrade, k_Connection, k_Settings}. splitHeader U (rq_Header req) k = splitHeader U h' k" for N and req :: http_request
    using that h assms(3) by (intro upgrade_accepted_values) (simp_all add: contains_split)
  with h(1) show ?thesis by blast
qed

theorem upgrade_roundtrip_witness:
  "\<exists>h'. upgrade_header bytewise [\<lparr>set_ID = SettingMaxFrameSize, set_Value = 20000\<rparr>] [(str ''Connection'', [str ''close, upgrade''])] = Inr h'
     \<and> upgrade_check bytewise no_net (get_request\<lparr>rq_Header := h'\<rparr>) = Inr [\<lparr>set_ID = SettingMaxFrameSize, set_Value = 20000\<rparr>]"
proof -
  let ?h = "[(str ''Connection'', [str ''close, upgrade''])]" and ?s = "[\<lparr>set_ID = SettingMaxFrameSize, set_Value = 20000\<rparr>]"
  have "plain_header bytewise ?h" "splitHeader bytewise ?h k_Settings = []"
    using upgrade_keys [of bytewise] by (simp_all add: plain_header_def one_spelling_def)
  moreover have "settings_ok ?s" by (simp add: settings_ok_def setting_valid_def)
  ultimately obtain h' where "upgrade_header bytewise ?s ?h = Inr h'"
    "\<forall>N req. rq_Method req = str ''GET'' \<and> (\<forall>k\<in>{k_Upgrade, k_Connection, k_Settings}. splitHeader bytewise (rq_Header req) k = splitHeader bytewise h' k)
       \<longrightarrow> upgrade_check bytewise N req = Inr ?s" using upgrade_roundtrip by blast
  then show ?thesis by (auto simp: get_request_def)
qed

text \<open>
  C13 What becomes of a new connection whose upgrade request passes the checks.  Settings that enable
  push end it with an error; a limit of zero concurrent streams makes the server panic, since the
  stream that could not be opened is used; in every other case stream 1 is open and half-closed
  by the client, it is the only stream, and the frames of the request are there to be read.
\<close>

theorem server_upgrade_outcome:
  assumes "upgrade_check U N req = Inr s"
  shows "if Settings_value s SettingEnablePush = Some 1
    then \<exists>c. serverUpgrade U N req False (newConn True n inp inpEnd fault grow rwcErr) = Some ((Some (HandshakeError (h2error_Error push_error)), []), c)
      \<and> c_streams c = []
    else if Settings_value s SettingMaxConcurrentStreams = Some 0
    then serverUpgrade U N req False (newConn True n inp inpEnd fault grow rwcErr) = None
    else \<exists>c st. serverUpgrade U N req False (newConn True n inp inpEnd fault grow rwcErr)
        = map_option (\<lambda>fs. ((None, fs), c)) (upgrade_request_frames U req)
      \<and> c_streams c = [1] \<and> Conn_NumActiveStreams c = 1 \<and> c_objs c 1 = Some st \<and> s_state st = StateHalfClosedRemote"
  by (rule serverUpgrade_fresh [OF fresh_newConn assms])

theorem server_upgrade_outcome_witness:
  "\<exists>h. upgrade_header bytewise [\<lparr>set_ID = SettingMaxConcurrentStreams, set_Value = 0\<rparr>] [] = Inr h
     \<and> serverUpgrade bytewise no_net (get_request\<lparr>rq_Header := h\<rparr>) False (newConn True 0 [] EOF None (\<lambda>n. 2 * n) None) = None"
proof -
  let ?s = "[\<lparr>set_ID = SettingMaxConcurrentStreams, set_Value = 0\<rparr>]"
  have "plain_header bytewise []" "splitHeader bytewise [] k_Settings = []" by (simp_all add: plain_header_def one_spelling_def)
  from upgrade_header_values [OF this refl, of ?s] obtain h where h: "upgrade_header bytewise ?s [] = Inr h"
    "splitHeader bytewise h k_Upgrade = [ProtocolTCP]" "containsValue bytewise h k_Connection [k_Upgrade, k_Settings]"
    "splitHeader bytewise h k_Settings = [encoded_settings ?s]" by blast
  have "settings_ok ?s" by (simp add: settings_ok_def setting_valid_def)
  then have "upgrade_check bytewise no_net (get_request\<lparr>rq_Header := h\<rparr>) = Inr ?s"
    using h by (intro upgrade_accepted_values) (simp_all add: get_request_def)
  from server_upgrade_outcome [OF this, of 0 "[]" EOF None "\<lambda>n. 2 * n" None] h(1) show ?thesis by simp
qed

section \<open>The handshake\<close>

text \<open>
  C8 In every state of a session, whatever calls and steps came before and whatever the network
  and the peer did in the handshake, as long as the application writes no frame with a stream
  identifier of 2^31 or more: the connection has its invariant, also between the stages of the
  handshake and while they run on after a timeout; five stages from its start are the handshake as
  \<open>serverHandshake\<close> and \<open>clientHandshake\<close> have it; and the outcome of a handshake is final: every later call
  returns it and changes nothing, and an error stays through all that the application, the
  connection and the rest of the stages do.
\<close>

theorem session_sound:
  assumes "(session_step frame_ids_ok)\<^sup>*\<^sup>* (ServerConn grow raw cfg) h \<or> (session_step frame_ids_ok)\<^sup>*\<^sup>* (ClientConn grow raw cfg req) h"
  shows "conn_ok (h_conn h)
    \<and> (\<forall>U N. h_shake h = Some Opening \<longrightarrow> shake_run 5 U N h =
         map_option (\<lambda>(e, h). h\<lparr>h_shake := Some (Finished e)\<rparr>) (if Conn_ServerConn (h_conn h) then serverHandshake U N h else clientHandshake U N h))
    \<and> (\<forall>late U N e h'. Handshake late U N h = Some (e, h') \<longrightarrow> (\<forall>late' U' N'. Handshake late' U' N' h' = Some (e, h')))
    \<and> (\<forall>e h' late U N. h_err h = Some e \<and> (session_step (\<lambda>_. True))\<^sup>*\<^sup>* h h' \<longrightarrow> Handshake late U N h' = Some (Some e, h'))"
proof -
  have "conn_ok (h_conn (ServerConn grow raw cfg))" "conn_ok (h_conn (ClientConn grow raw cfg req))"
    using new_session_ok by (simp_all add: ServerConn_def ClientConn_def)
  with assms sessions.reach_keeps have ok: "conn_ok (h_conn h)" by blast
  have "Handshake late U N h' = Some (Some e, h')" if "h_err h = Some e" "(session_step (\<lambda>_. True))\<^sup>*\<^sup>* h h'" for e h' late U N
    using session_run_err [OF that(2, 1)] by simp
  with ok shake_run_all [OF ok] Handshake_final(2) show ?thesis by blast
qed

text \<open>The witness: the timer fires before the server has read the request, and the handshake runs on after that.\<close>

lemma timed_out_run:
  "\<exists>h. (session_step frame_ids_ok)\<^sup>*\<^sup>* (ServerConn grow no_raw (Some (defaultConfig\<lparr>cf_HandshakeTimeout := 1\<rparr>))) h
     \<and> h_err h = Some (HandshakeError (str ''handshake timed out'')) \<and> h_shake h = Some (Finished (Some EOF))"
proof -
  define h where "h = ServerConn grow no_raw (Some (defaultConfig\<lparr>cf_HandshakeTimeout := 1\<rparr>))"
  let ?h1 = "h\<lparr>h_shake := Some Opening\<rparr>" and ?e = "HandshakeError (str ''handshake timed out'')"
  have h: "h_err h = None" "\<not> c_handshake (h_conn h)" "h_shake h = None" "h_tls h = None" "cf_HandshakeTimeout (h_config h) = 1" "Conn_ServerConn (h_conn h)"
    by (simp_all add: h_def ServerConn_def new_session_def no_raw_def newConn_def new_connState_def Let_def Conn_ServerConn_def)
  have ok: "conn_ok (h_conn h)" using new_session_ok by (simp add: h_def ServerConn_def)
  obtain x c where c: "conn_close (h_conn h) = Some (x, c)" "conn_ok c \<and> evolves (h_conn h) c"
    using evolution.conn_close_ok [OF conjI [OF ok evolves_refl]] by blast
  have sv: "Conn_ServerConn c" using evolvesD(3) [of "h_conn h" c True] c(2) h(6) by (simp add: Conn_ServerConn_def side_def)
  let ?h2 = "h\<lparr>h_shake := Some Opening, h_conn := c, h_err := Some ?e\<rparr>"
  have "Handshake_begin h = Some ?h1" using h by (simp add: Handshake_begin_def)
  moreover have "Handshake_settle True ?h1 = Some (Some ?e, ?h2)"
    using h c(1) by (simp add: Handshake_settle_def handshake_result_def handshake_failed_def)
  moreover obtain h3 where "handshake_stage bytewise no_net ?h2 = Some h3" "h_err h3 = Some ?e" "h_shake h3 = Some (Finished (Some EOF))"
    using sv h(4) by (simp add: handshake_stage_def server_opening_def no_net_def)
  ultimately have "session_step frame_ids_ok h ?h1" "session_step frame_ids_ok ?h1 ?h2" "session_step frame_ids_ok ?h2 h3"
    "h_err h3 = Some ?e" "h_shake h3 = Some (Finished (Some EOF))"
    by (blast intro: session_step.intros)+
  then show ?thesis unfolding h_def by (blast intro: rtranclp.rtrancl_into_rtrancl)
qed

theorem session_sound_witness:
  "\<exists>h. (session_step frame_ids_ok)\<^sup>*\<^sup>* (ServerConn (\<lambda>n. 2 * n) no_raw (Some (defaultConfig\<lparr>cf_HandshakeTimeout := 1\<rparr>))) h
     \<and> conn_ok (h_conn h) \<and> h_shake h = Some (Finished (Some EOF))
     \<and> Handshake None bytewise no_net h = Some (Some (HandshakeError (str ''handshake timed out'')), h)"
proof -
  obtain h where r: "(session_step frame_ids_ok)\<^sup>*\<^sup>* (ServerConn (\<lambda>n. 2 * n) no_raw (Some (defaultConfig\<lparr>cf_HandshakeTimeout := 1\<rparr>))) h"
    "h_err h = Some (HandshakeError (str ''handshake timed out''))" "h_shake h = Some (Finished (Some EOF))" using timed_out_run by blast
  have "conn_ok (h_conn h)" "Handshake None bytewise no_net h = Some (Some (HandshakeError (str ''handshake timed out'')), h)"
    using session_sound [OF disjI1 [OF r(1)]] r(2) by (metis rtranclp.rtrancl_refl)+
  with r(1, 3) show ?thesis by blast
qed



section \<open>TLS\<close>

lemma cipher_loop_eq:
  "cipher_loop suites a b = a @ filter (\<lambda>s. s \<noteq> requiredCipher \<and> \<not> badCipher s) suites @ b @ filter (\<lambda>s. s \<noteq> requiredCipher \<and> badCipher s) suites"
  by (induction suites a b rule: cipher_loop.induct) simp_all

lemma required_good: "\<not> badCipher requiredCipher"
  by code_simp

text \<open>
  C40 The TLS configuration of a server: the required cipher suite comes first, then the suites that
  HTTP/2 does not prohibit in their order, then the prohibited ones, with nothing lost; the
  protocol \<open>h2\<close> is offered, once if it was not there; all other fields are those of the
  configuration that was copied.
\<close>

theorem tls_configured:
  "initTLSConfig (Some (cloneTLSConfig (Some cfg))) =
     cfg\<lparr>tc_CipherSuites := map_option (\<lambda>ss. requiredCipher # filter (\<lambda>s. s \<noteq> requiredCipher \<and> \<not> badCipher s) ss @ filter badCipher ss) (tc_CipherSuites cfg),
       tc_PreferServerCipherSuites := True,
       tc_NextProtos := (if ProtocolTLS \<in> set (tc_NextProtos cfg) then tc_NextProtos cfg else tc_NextProtos cfg @ [ProtocolTLS])\<rparr>"
proof -
  have "(\<lambda>s. s \<noteq> requiredCipher \<and> badCipher s) = badCipher" using required_good by auto
  then have "cipher_loop ss [requiredCipher] [] = requiredCipher # filter (\<lambda>s. s \<noteq> requiredCipher \<and> \<not> badCipher s) ss @ filter badCipher ss" for ss
    by (simp add: cipher_loop_eq)
  moreover have "cloneTLSConfig (Some cfg) = cfg" by (cases cfg) (simp add: cloneTLSConfig_def)
  moreover have "list_ex (\<lambda>p. p = ProtocolTLS) ps \<longleftrightarrow> ProtocolTLS \<in> set ps" for ps by (auto simp: list_ex_iff)
  ultimately show ?thesis by (simp add: initTLSConfig_def with_protocol_def Let_def)
qed

end
